(* ===== verification/Prelude.thy ===== *)
theory Prelude
  imports Main "HOL-Library.Monad_Syntax" "HOL-Library.Signed_Division"
begin

text \<open>
  Shared vocabulary of the development: the heap bookkeeping of \<open>malloc\<close> and
  \<open>free\<close>, the error codes of \<open>errno.h\<close> the code returns, and generic list
  lemmas used by several components.
\<close>

named_theorems list_defs \<open>definitions of the linked-list operations\<close>
named_theorems pool_defs \<open>definitions of the thread pool's critical sections\<close>

subsection \<open>The C heap as the code sees it\<close>

text \<open>
  \<open>malloc\<close> and \<open>free\<close> are the C library's. The n-th call of \<open>malloc\<close> returns
  block \<open>n\<close>, or NULL when the environment refuses it (\<open>grants n\<close> is false): which calls
  fail is not determined by the program, so \<open>grants\<close> is an arbitrary function.
  \<open>bad_free\<close> records that \<open>free\<close> was given something that is not a live block: that is
  undefined behaviour in C, and the theorems show that it stays false.
\<close>

record heap =
  live :: "nat set"
  calls :: nat
  grants :: "nat \<Rightarrow> bool"
  bad_free :: bool

definition malloc :: "heap \<Rightarrow> nat option \<times> heap" where
  "malloc h =
     (if grants h (calls h)
      then (Some (calls h), h\<lparr>live := insert (calls h) (live h), calls := Suc (calls h)\<rparr>)
      else (None, h\<lparr>calls := Suc (calls h)\<rparr>))"

definition free :: "nat option \<Rightarrow> heap \<Rightarrow> heap" where
  "free p h =
     (case p of
        None \<Rightarrow> h
      | Some a \<Rightarrow> (if a \<in> live h then h\<lparr>live := live h - {a}\<rparr> else h\<lparr>bad_free := True\<rparr>))"

definition heap_ok :: "heap \<Rightarrow> bool" where
  "heap_ok h \<longleftrightarrow> (\<forall>a \<in> live h. a < calls h) \<and> \<not> bad_free h"

lemma malloc_Some:
  "malloc h = (Some a, h') \<Longrightarrow> heap_ok h \<Longrightarrow>
     a \<notin> live h \<and> live h' = insert a (live h) \<and> heap_ok h'"
  by (auto simp: malloc_def heap_ok_def less_Suc_eq split: if_splits)

lemma malloc_None:
  "malloc h = (None, h') \<Longrightarrow> heap_ok h \<Longrightarrow> live h' = live h \<and> heap_ok h'"
  by (auto simp: malloc_def heap_ok_def less_Suc_eq split: if_splits)

lemma free_Some:
  "a \<in> live h \<Longrightarrow> heap_ok h \<Longrightarrow>
     live (free (Some a) h) = live h - {a} \<and> heap_ok (free (Some a) h)"
  by (auto simp: free_def heap_ok_def)

lemma free_None [simp]: "free None h = h"
  by (simp add: free_def)

subsection \<open>Error codes\<close>

text \<open>
  The private codes of the thread utilities are
  written \<open>(-7 & 1<<29)\<close> in the headers; \<open><<\<close> binds tighter than \<open>&\<close>, so each
  of them is the single bit 29.
\<close>

definition EINVAL :: int where "EINVAL = 22"
definition EAGAIN :: int where "EAGAIN = 11"
definition ENOMEM :: int where "ENOMEM = 12"

lemmas errno_defs = EINVAL_def EAGAIN_def ENOMEM_def

subsection \<open>Lists\<close>

lemma remove1_split:
  "x \<notin> set us \<Longrightarrow> remove1 x (us @ x # vs) = us @ vs"
  by (simp add: remove1_append)

lemma distinct_map_split:
  "distinct (map f (us @ x # vs)) \<Longrightarrow> f x \<notin> f ` set us \<and> f x \<notin> f ` set vs"
  by auto

lemma in_set_tlD: "x \<in> set (tl xs) \<Longrightarrow> x \<in> set xs"
  by (cases xs) auto

end
