(* ===== verification/FreeList.thy ===== *)
theory FreeList
  imports Prelude
begin

text \<open>
  \<open>threadutil/src/FreeList.c\<close>: a cache of released blocks of one size in front of
  \<open>malloc\<close>. A released block is linked through its own first word (\<open>FreeListNode.next\<close>),
  so a block on the list must never be in use. The state also carries the heap the list
  takes its blocks from.

  The locale \<open>block_allocator\<close> is what the other components rely on: an allocation never
  hands out a block that is in use, and a release takes back only a block that is.
\<close>

subsection \<open>State and operations\<close>

record FreeList =
  fl_head :: "nat option"
  fl_next :: "nat \<Rightarrow> nat option"
  element_size :: nat
  maxFreeListLength :: int
  freeListLength :: int
  fl_heap :: heap

definition FreeListInit :: "nat \<Rightarrow> int \<Rightarrow> FreeList \<Rightarrow> int \<times> FreeList" where
  "FreeListInit elementSize maxLength free_list =
     (0, free_list\<lparr>element_size := elementSize, maxFreeListLength := maxLength,
                   fl_head := None, freeListLength := 0\<rparr>)"

definition FreeListAlloc :: "FreeList \<Rightarrow> nat option \<times> FreeList" where
  "FreeListAlloc free_list =
     (case fl_head free_list of
        Some ret \<Rightarrow>
          (Some ret, free_list\<lparr>fl_head := fl_next free_list ret,
                               freeListLength := freeListLength free_list - 1\<rparr>)
      | None \<Rightarrow>
          (case malloc (fl_heap free_list) of
             (ret, h) \<Rightarrow> (ret, free_list\<lparr>fl_heap := h\<rparr>)))"

definition FreeListFree :: "FreeList \<Rightarrow> nat option \<Rightarrow> int \<times> FreeList" where
  "FreeListFree free_list element =
     (case element of
        Some temp \<Rightarrow>
          (if freeListLength free_list + 1 < maxFreeListLength free_list
           then (0, free_list\<lparr>freeListLength := freeListLength free_list + 1,
                              fl_next := (fl_next free_list)(temp := fl_head free_list),
                              fl_head := Some temp\<rparr>)
           else (0, free_list\<lparr>fl_heap := free (Some temp) (fl_heap free_list)\<rparr>))
      | None \<Rightarrow> (0, free_list\<lparr>fl_heap := free None (fl_heap free_list)\<rparr>))"

text \<open>The loop of \<open>FreeListDestroy\<close>: \<open>None\<close> stands for not returning.\<close>

partial_function (option) FreeListDestroy_loop :: "FreeList \<Rightarrow> FreeList option" where
  "FreeListDestroy_loop free_list =
     (case fl_head free_list of
        None \<Rightarrow> Some free_list
      | Some a \<Rightarrow>
          FreeListDestroy_loop
            (free_list\<lparr>fl_heap := free (Some a) (fl_heap free_list),
                       fl_head := fl_next free_list a\<rparr>))"

declare FreeListDestroy_loop.simps [code]

definition FreeListDestroy :: "FreeList \<Rightarrow> (int \<times> FreeList) option" where
  "FreeListDestroy free_list =
     map_option (\<lambda>f. (0, f\<lparr>freeListLength := 0\<rparr>)) (FreeListDestroy_loop free_list)"

subsection \<open>Invariant\<close>

text \<open>
  \<open>fl_path nx p as\<close>: following \<open>next\<close> from \<open>p\<close> passes the blocks \<open>as\<close> and ends in NULL.
  \<open>FreeList_ok fl us\<close>: the blocks of the heap are exactly the blocks on the list and the
  blocks \<open>us\<close> in use, without overlap; the length field is right and bounded.
\<close>

primrec fl_path :: "(nat \<Rightarrow> nat option) \<Rightarrow> nat option \<Rightarrow> nat list \<Rightarrow> bool" where
  "fl_path nx p [] \<longleftrightarrow> p = None"
| "fl_path nx p (a # as) \<longleftrightarrow> p = Some a \<and> fl_path nx (nx a) as"

definition FreeList_rep :: "FreeList \<Rightarrow> nat list \<Rightarrow> nat set \<Rightarrow> bool" where
  "FreeList_rep fl cs us \<longleftrightarrow>
     fl_path (fl_next fl) (fl_head fl) cs \<and> distinct cs \<and>
     freeListLength fl = int (length cs) \<and>
     (cs = [] \<or> int (length cs) < maxFreeListLength fl) \<and>
     live (fl_heap fl) = set cs \<union> us \<and> set cs \<inter> us = {} \<and> heap_ok (fl_heap fl)"

definition FreeList_ok :: "FreeList \<Rightarrow> nat set \<Rightarrow> bool" where
  "FreeList_ok fl us \<longleftrightarrow> (\<exists>cs. FreeList_rep fl cs us)"

lemma fl_path_upd [simp]:
  "a \<notin> set as \<Longrightarrow> fl_path (nx(a := v)) p as = fl_path nx p as"
  by (induction as arbitrary: p) auto

lemma fl_path_Some:
  "fl_path nx (Some a) cs \<longleftrightarrow> (\<exists>cs'. cs = a # cs' \<and> fl_path nx (nx a) cs')"
  by (cases cs) auto

lemma fl_path_None [simp]: "fl_path nx None cs \<longleftrightarrow> cs = []"
  by (cases cs) auto

lemma FreeListInit_ok:
  assumes "heap_ok (fl_heap fl)"
  shows "FreeList_ok (snd (FreeListInit n m fl)) (live (fl_heap fl))"
  unfolding FreeList_ok_def
  by (rule exI [of _ "[]"]) (use assms in \<open>auto simp: FreeList_rep_def FreeListInit_def\<close>)

lemma FreeListAlloc_Some:
  assumes "FreeList_ok fl us" and "FreeListAlloc fl = (Some a, fl')"
  shows "a \<notin> us" and "FreeList_ok fl' (insert a us)"
proof -
  from assms(1) obtain cs where r: "FreeList_rep fl cs us"
    by (auto simp: FreeList_ok_def)
  have "a \<notin> us \<and> FreeList_ok fl' (insert a us)"
  proof (cases "fl_head fl")
    case None
    with r have cs: "cs = []" by (simp add: FreeList_rep_def)
    from None assms(2) obtain h where
      m: "malloc (fl_heap fl) = (Some a, h)" and fl': "fl' = fl\<lparr>fl_heap := h\<rparr>"
      by (auto simp: FreeListAlloc_def split: prod.splits)
    from r have "heap_ok (fl_heap fl)" by (simp add: FreeList_rep_def)
    from malloc_Some [OF m this] r cs have "FreeList_rep fl' [] (insert a us)" and "a \<notin> us"
      by (auto simp: FreeList_rep_def fl')
    then show ?thesis by (auto simp: FreeList_ok_def)
  next
    case (Some b)
    with assms(2) have ba: "b = a"
      and fl': "fl' = fl\<lparr>fl_head := fl_next fl a, freeListLength := freeListLength fl - 1\<rparr>"
      by (auto simp: FreeListAlloc_def)
    from r Some ba obtain cs' where cs: "cs = a # cs'"
      by (auto simp: FreeList_rep_def fl_path_Some)
    from r cs have "FreeList_rep fl' cs' (insert a us)" and "a \<notin> us"
      by (auto simp: FreeList_rep_def fl')
    then show ?thesis by (auto simp: FreeList_ok_def)
  qed
  then show "a \<notin> us" and "FreeList_ok fl' (insert a us)" by auto
qed

lemma FreeListAlloc_None:
  assumes "FreeList_ok fl us" and "FreeListAlloc fl = (None, fl')"
  shows "FreeList_ok fl' us"
proof -
  from assms(1) obtain cs where r: "FreeList_rep fl cs us"
    by (auto simp: FreeList_ok_def)
  from assms(2) obtain h where "fl_head fl = None"
    and m: "malloc (fl_heap fl) = (None, h)" and fl': "fl' = fl\<lparr>fl_heap := h\<rparr>"
    by (auto simp: FreeListAlloc_def split: option.splits prod.splits)
  from r have "heap_ok (fl_heap fl)" by (simp add: FreeList_rep_def)
  from malloc_None [OF m this] r have "FreeList_rep fl' cs us"
    by (auto simp: FreeList_rep_def fl')
  then show ?thesis by (auto simp: FreeList_ok_def)
qed

lemma FreeListFree_ok:
  assumes "FreeList_ok fl us" and "a \<in> us"
  shows "FreeList_ok (snd (FreeListFree fl (Some a))) (us - {a})"
proof -
  from assms(1) obtain cs where r: "FreeList_rep fl cs us"
    by (auto simp: FreeList_ok_def)
  let ?fl' = "snd (FreeListFree fl (Some a))"
  show ?thesis
  proof (cases "freeListLength fl + 1 < maxFreeListLength fl")
    case True
    from r assms(2) have "a \<notin> set cs" by (auto simp: FreeList_rep_def)
    with True r assms(2) have "FreeList_rep ?fl' (a # cs) (us - {a})"
      by (auto simp: FreeList_rep_def FreeListFree_def)
    then show ?thesis by (auto simp: FreeList_ok_def)
  next
    case False
    from r assms(2) have "a \<in> live (fl_heap fl)" and "heap_ok (fl_heap fl)"
      by (auto simp: FreeList_rep_def)
    from free_Some [OF this] False r assms(2) have "FreeList_rep ?fl' cs (us - {a})"
      by (auto simp: FreeList_rep_def FreeListFree_def)
    then show ?thesis by (auto simp: FreeList_ok_def)
  qed
qed

lemma FreeListDestroy_loop_rep:
  assumes "fl_path (fl_next fl) (fl_head fl) cs" and "distinct cs"
    and "live (fl_heap fl) = set cs \<union> us" and "set cs \<inter> us = {}" and "heap_ok (fl_heap fl)"
  shows "\<exists>fl'. FreeListDestroy_loop fl = Some fl' \<and> fl_head fl' = None \<and>
           live (fl_heap fl') = us \<and> heap_ok (fl_heap fl') \<and>
           maxFreeListLength fl' = maxFreeListLength fl"
  using assms
proof (induction cs arbitrary: fl)
  case Nil
  then show ?case by (subst FreeListDestroy_loop.simps) auto
next
  case (Cons a cs)
  let ?g = "fl\<lparr>fl_heap := free (Some a) (fl_heap fl), fl_head := fl_next fl a\<rparr>"
  from Cons.prems have "a \<in> live (fl_heap fl)" and "heap_ok (fl_heap fl)" by auto
  from free_Some [OF this] Cons.prems
  have "live (fl_heap ?g) = set cs \<union> us" and "heap_ok (fl_heap ?g)" by auto
  moreover have "fl_path (fl_next ?g) (fl_head ?g) cs" and "distinct cs" and "set cs \<inter> us = {}"
    using Cons.prems by auto
  ultimately have "\<exists>fl'. FreeListDestroy_loop ?g = Some fl' \<and> fl_head fl' = None \<and>
      live (fl_heap fl') = us \<and> heap_ok (fl_heap fl') \<and>
      maxFreeListLength fl' = maxFreeListLength ?g"
    by (intro Cons.IH)
  moreover have "FreeListDestroy_loop fl = FreeListDestroy_loop ?g"
    using Cons.prems by (subst FreeListDestroy_loop.simps) simp
  ultimately show ?case by simp
qed

lemma FreeListDestroy_ok:
  assumes "FreeList_ok fl us"
  shows "\<exists>fl'. FreeListDestroy fl = Some (0, fl') \<and> fl_head fl' = None \<and>
           live (fl_heap fl') = us \<and> FreeList_ok fl' us"
proof -
  from assms obtain cs where r: "FreeList_rep fl cs us"
    by (auto simp: FreeList_ok_def)
  then obtain fl' where d: "FreeListDestroy_loop fl = Some fl'" and "fl_head fl' = None"
    and "live (fl_heap fl') = us" and "heap_ok (fl_heap fl')"
    using FreeListDestroy_loop_rep [of fl cs us] by (auto simp: FreeList_rep_def)
  then have "FreeList_rep (fl'\<lparr>freeListLength := 0\<rparr>) [] us"
    by (auto simp: FreeList_rep_def)
  then have "FreeList_ok (fl'\<lparr>freeListLength := 0\<rparr>) us"
    by (auto simp: FreeList_ok_def)
  with d \<open>fl_head fl' = None\<close> \<open>live (fl_heap fl') = us\<close> show ?thesis
    by (auto simp: FreeListDestroy_def)
qed

text \<open>When \<open>malloc\<close> never refuses, an allocation never fails.\<close>

definition granted_fl :: "FreeList \<Rightarrow> bool" where
  "granted_fl fl \<longleftrightarrow> (\<forall>n. grants (fl_heap fl) n)"

lemma granted_FreeListAlloc:
  "granted_fl fl \<Longrightarrow> \<exists>a fl'. FreeListAlloc fl = (Some a, fl') \<and> granted_fl fl'"
  by (auto simp: granted_fl_def FreeListAlloc_def malloc_def split: option.splits)

lemma granted_FreeListFree [simp]:
  "granted_fl (snd (FreeListFree fl p)) = granted_fl fl"
  by (auto simp: granted_fl_def FreeListFree_def free_def split: option.splits)

subsection \<open>The allocator interface\<close>

text \<open>
  A client sees the free list only through this contract. \<open>run_client\<close> is any client that
  asks for blocks and gives back blocks it holds (the i-th one it still holds): it never
  holds the same block twice.
\<close>

datatype alloc_op = Take | Give nat

fun run_client ::
  "('f \<Rightarrow> nat option \<times> 'f) \<Rightarrow> ('f \<Rightarrow> nat option \<Rightarrow> int \<times> 'f) \<Rightarrow> 'f \<Rightarrow> nat list \<Rightarrow>
   alloc_op list \<Rightarrow> nat list \<times> 'f" where
  "run_client al fr f held [] = (held, f)"
| "run_client al fr f held (Take # ops) =
     (case al f of
        (None, f') \<Rightarrow> run_client al fr f' held ops
      | (Some a, f') \<Rightarrow> run_client al fr f' (a # held) ops)"
| "run_client al fr f held (Give i # ops) =
     (if i < length held
      then run_client al fr (snd (fr f (Some (held ! i)))) (remove1 (held ! i) held) ops
      else run_client al fr f held ops)"

locale block_allocator =
  fixes alloc :: "'f \<Rightarrow> nat option \<times> 'f"
    and release :: "'f \<Rightarrow> nat option \<Rightarrow> int \<times> 'f"
    and ok :: "'f \<Rightarrow> nat set \<Rightarrow> bool"
  assumes alloc_fresh: "ok f us \<Longrightarrow> alloc f = (Some a, f') \<Longrightarrow> a \<notin> us"
    and alloc_ok: "ok f us \<Longrightarrow> alloc f = (Some a, f') \<Longrightarrow> ok f' (insert a us)"
    and alloc_fail: "ok f us \<Longrightarrow> alloc f = (None, f') \<Longrightarrow> ok f' us"
    and release_ok: "ok f us \<Longrightarrow> a \<in> us \<Longrightarrow> ok (snd (release f (Some a))) (us - {a})"
begin

lemma client_never_shares:
  assumes "ok f (set held)" and "distinct held"
    and "run_client alloc release f held ops = (held', f')"
  shows "distinct held' \<and> ok f' (set held')"
  using assms
proof (induction ops arbitrary: f held)
  case Nil
  then show ?case by simp
next
  case (Cons op ops)
  show ?case
  proof (cases op)
    case Take
    show ?thesis
    proof (cases "alloc f")
      case (Pair p g)
      show ?thesis
      proof (cases p)
        case None
        with Cons Pair Take show ?thesis by (auto dest: alloc_fail)
      next
        case (Some a)
        from Cons.prems(1) Pair Some have "ok g (set (a # held))" and "a \<notin> set held"
          using alloc_ok alloc_fresh by auto
        with Cons.IH [of g "a # held"] Cons.prems Pair Take Some show ?thesis by simp
      qed
    qed
  next
    case (Give i)
    show ?thesis
    proof (cases "i < length held")
      case True
      with Cons.prems
      have "ok (snd (release f (Some (held ! i)))) (set (remove1 (held ! i) held))"
        by (simp add: release_ok set_remove1_eq)
      moreover have "distinct (remove1 (held ! i) held)"
        using Cons.prems(2) by (rule distinct_remove1)
      ultimately show ?thesis
        using Cons.IH Cons.prems(3) Give True by simp
    next
      case False
      with Cons Give show ?thesis by simp
    qed
  qed
qed

end

interpretation fl: block_allocator FreeListAlloc FreeListFree FreeList_ok
  by unfold_locales (auto dest: FreeListAlloc_Some FreeListAlloc_None intro: FreeListFree_ok)

end
