(* ===== verification/LinkedList.thy ===== *)
theory LinkedList
  imports FreeList
begin

text \<open>
  \<open>threadutil/src/LinkedList.c\<close>: a doubly linked list with the two sentinel nodes
  \<open>head\<close> and \<open>tail\<close> embedded in the list, whose nodes come from a \<open>FreeList\<close> of its own.

  The nodes live in an explicit store \<open>node\<close>, because the operations are pointer updates:
  \<open>Head\<close> and \<open>Tail\<close> are the addresses \<open>&list->head\<close> and \<open>&list->tail\<close>, \<open>Blk a\<close> is an
  allocated node. The abstraction \<open>entries\<close> is the sequence of the node addresses with their
  items; \<open>List_ok\<close> says that the links form one chain in both directions, that \<open>size\<close> is
  its length and that the nodes of the chain are exactly the blocks in use. The locale
  \<open>node_list\<close> is the contract the thread pool and the timer rely on.
\<close>

subsection \<open>State\<close>

datatype addr = Null | Head | Tail | Blk nat

record 'a ListNode =
  prev :: addr
  "next" :: addr
  item :: "'a option"

record 'a LinkedList =
  node :: "addr \<Rightarrow> 'a ListNode"
  lsize :: int
  freeNodeList :: FreeList
  free_func :: bool
  cmp_func :: "('a option \<Rightarrow> 'a option \<Rightarrow> bool) option"
  freed :: "'a option list"

text \<open>
  \<open>free_func\<close> tells whether the list has a free function; \<open>freed\<close> records the items it was
  called on. \<open>FREELISTSIZE\<close> is the bound of the node cache.
\<close>

definition FREELISTSIZE :: int where "FREELISTSIZE = 100"

definition set_next :: "addr \<Rightarrow> addr \<Rightarrow> 'a LinkedList \<Rightarrow> 'a LinkedList" where
  "set_next a v l = l\<lparr>node := (node l)(a := (node l a)\<lparr>next := v\<rparr>)\<rparr>"

definition set_prev :: "addr \<Rightarrow> addr \<Rightarrow> 'a LinkedList \<Rightarrow> 'a LinkedList" where
  "set_prev a v l = l\<lparr>node := (node l)(a := (node l a)\<lparr>prev := v\<rparr>)\<rparr>"

fun blk :: "addr \<Rightarrow> nat option" where
  "blk (Blk a) = Some a"
| "blk _ = None"

subsection \<open>Operations\<close>

definition freeListNode :: "addr \<Rightarrow> 'a LinkedList \<Rightarrow> int \<times> 'a LinkedList" where
  "freeListNode nd l =
     (case FreeListFree (freeNodeList l) (blk nd) of
        (ret, f) \<Rightarrow> (ret, l\<lparr>freeNodeList := f\<rparr>))"

definition CreateListNode :: "'a option \<Rightarrow> 'a LinkedList \<Rightarrow> addr \<times> 'a LinkedList" where
  "CreateListNode it l =
     (case FreeListAlloc (freeNodeList l) of
        (Some a, f) \<Rightarrow>
          (Blk a, l\<lparr>freeNodeList := f,
                    node := (node l)(Blk a := \<lparr>prev = Null, next = Null, item = it\<rparr>)\<rparr>)
      | (None, f) \<Rightarrow> (Null, l\<lparr>freeNodeList := f\<rparr>))"

definition ListInit ::
  "'a LinkedList \<Rightarrow> ('a option \<Rightarrow> 'a option \<Rightarrow> bool) option \<Rightarrow> bool \<Rightarrow>
   int \<times> 'a LinkedList" where
  "ListInit l cmp ff =
     (case FreeListInit 24 FREELISTSIZE (freeNodeList l) of
        (retCode, f) \<Rightarrow>
          (retCode,
           l\<lparr>lsize := 0, cmp_func := cmp, free_func := ff, freeNodeList := f,
             node := (node l)(Head := \<lparr>prev = Null, next = Tail, item = None\<rparr>,
                              Tail := \<lparr>prev = Head, next = Null, item = None\<rparr>)\<rparr>))"

definition ListAddAfter ::
  "'a LinkedList \<Rightarrow> 'a option \<Rightarrow> addr \<Rightarrow> addr \<times> 'a LinkedList" where
  "ListAddAfter l it bnode =
     (if bnode = Null then (Null, l)
      else
        (case CreateListNode it l of
           (newNode, l1) \<Rightarrow>
             if newNode = Null then (Null, l1)
             else
               let temp = next (node l1 bnode);
                   l2 = set_next bnode newNode l1;
                   l3 = set_prev newNode bnode l2;
                   l4 = set_next newNode temp l3;
                   l5 = set_prev temp newNode l4
               in (newNode, l5\<lparr>lsize := lsize l5 + 1\<rparr>)))"

definition ListAddBefore ::
  "'a LinkedList \<Rightarrow> 'a option \<Rightarrow> addr \<Rightarrow> addr \<times> 'a LinkedList" where
  "ListAddBefore l it anode =
     (if anode = Null then (Null, l)
      else
        (case CreateListNode it l of
           (newNode, l1) \<Rightarrow>
             if newNode = Null then (Null, l1)
             else
               let temp = prev (node l1 anode);
                   l2 = set_prev anode newNode l1;
                   l3 = set_next newNode anode l2;
                   l4 = set_prev newNode temp l3;
                   l5 = set_next temp newNode l4
               in (newNode, l5\<lparr>lsize := lsize l5 + 1\<rparr>)))"

definition ListAddHead :: "'a LinkedList \<Rightarrow> 'a option \<Rightarrow> addr \<times> 'a LinkedList" where
  "ListAddHead l it = ListAddAfter l it Head"

definition ListAddTail :: "'a LinkedList \<Rightarrow> 'a option \<Rightarrow> addr \<times> 'a LinkedList" where
  "ListAddTail l it = ListAddBefore l it Tail"

definition ListDelNode ::
  "'a LinkedList \<Rightarrow> addr \<Rightarrow> bool \<Rightarrow> 'a option \<times> 'a LinkedList" where
  "ListDelNode l dnode freeItem =
     (if dnode = Head \<or> dnode = Tail \<or> dnode = Null then (None, l)
      else
        let temp = item (node l dnode);
            l1 = set_next (prev (node l dnode)) (next (node l dnode)) l;
            l2 = set_prev (next (node l1 dnode)) (prev (node l1 dnode)) l1;
            l3 = snd (freeListNode dnode l2);
            l4 = l3\<lparr>lsize := lsize l3 - 1\<rparr>
        in if freeItem \<and> free_func l4 then (None, l4\<lparr>freed := freed l4 @ [temp]\<rparr>)
           else (temp, l4))"

text \<open>
  The loops follow links, so they end only on a well-formed list: \<open>None\<close> stands for a loop
  that never reaches \<open>tail\<close> or follows a NULL link.
\<close>

partial_function (option) ListDestroy_loop ::
  "'a LinkedList \<Rightarrow> bool \<Rightarrow> addr \<Rightarrow> 'a LinkedList option" where
  "ListDestroy_loop l freeItem dnode =
     (if dnode = Tail then Some l
      else if dnode = Null then None
      else ListDestroy_loop (snd (ListDelNode l dnode freeItem)) freeItem (next (node l dnode)))"

declare ListDestroy_loop.simps [code]

definition ListDestroy :: "'a LinkedList \<Rightarrow> bool \<Rightarrow> (int \<times> 'a LinkedList) option" where
  "ListDestroy l freeItem =
     do {
       l1 \<leftarrow> ListDestroy_loop l freeItem (next (node l Head));
       (_, f) \<leftarrow> FreeListDestroy (freeNodeList l1);
       Some (0, l1\<lparr>lsize := 0, freeNodeList := f\<rparr>)
     }"

definition ListHead :: "'a LinkedList \<Rightarrow> addr" where
  "ListHead l = (if lsize l = 0 then Null else next (node l Head))"

definition ListTail :: "'a LinkedList \<Rightarrow> addr" where
  "ListTail l = (if lsize l = 0 then Null else prev (node l Tail))"

definition ListNext :: "'a LinkedList \<Rightarrow> addr \<Rightarrow> addr" where
  "ListNext l nd =
     (if nd = Null then Null
      else if next (node l nd) = Tail then Null else next (node l nd))"

definition ListPrev :: "'a LinkedList \<Rightarrow> addr \<Rightarrow> addr" where
  "ListPrev l nd =
     (if nd = Null then Null
      else if prev (node l nd) = Head then Null else prev (node l nd))"

definition matches :: "'a LinkedList \<Rightarrow> 'a option \<Rightarrow> 'a option \<Rightarrow> bool" where
  "matches l it x \<longleftrightarrow> (case cmp_func l of Some cmp \<Rightarrow> cmp it x | None \<Rightarrow> it = x)"

partial_function (option) ListFind_loop ::
  "'a LinkedList \<Rightarrow> 'a option \<Rightarrow> addr \<Rightarrow> addr option" where
  "ListFind_loop l it finger =
     (if finger = Tail then Some Null
      else if finger = Null then None
      else if matches l it (item (node l finger)) then Some finger
      else ListFind_loop l it (next (node l finger)))"

declare ListFind_loop.simps [code]

definition ListFind :: "'a LinkedList \<Rightarrow> addr \<Rightarrow> 'a option \<Rightarrow> addr option" where
  "ListFind l start it =
     (let start = (if start = Null then Head else start)
      in ListFind_loop l it (next (node l start)))"

definition ListSize :: "'a LinkedList \<Rightarrow> int" where
  "ListSize l = lsize l"

lemmas [list_defs] =
  ListAddAfter_def ListAddBefore_def ListDelNode_def CreateListNode_def freeListNode_def
  set_next_def set_prev_def Let_def

subsection \<open>Linked chains\<close>

text \<open>
  \<open>linked nd xs\<close>: the nodes at the addresses \<open>xs\<close> are linked in this order, forwards and
  backwards. \<open>before us\<close> and \<open>after vs\<close> are the addresses at the end of the first part and
  at the start of the second part of a list that is split between them.
\<close>

definition conn :: "(addr \<Rightarrow> 'a ListNode) \<Rightarrow> addr \<Rightarrow> addr \<Rightarrow> bool" where
  "conn nd a b \<longleftrightarrow> next (nd a) = b \<and> prev (nd b) = a"

fun linked :: "(addr \<Rightarrow> 'a ListNode) \<Rightarrow> addr list \<Rightarrow> bool" where
  "linked nd (a # b # xs) \<longleftrightarrow> conn nd a b \<and> linked nd (b # xs)"
| "linked nd _ \<longleftrightarrow> True"

definition before :: "nat list \<Rightarrow> addr" where
  "before us = last (Head # map Blk us)"

definition after :: "nat list \<Rightarrow> addr" where
  "after vs = hd (map Blk vs @ [Tail])"

definition full :: "nat list \<Rightarrow> addr list" where
  "full ns = Head # map Blk ns @ [Tail]"

lemma linked_append:
  "linked nd (xs @ ys) \<longleftrightarrow>
     linked nd xs \<and> linked nd ys \<and> (xs \<noteq> [] \<longrightarrow> ys \<noteq> [] \<longrightarrow> conn nd (last xs) (hd ys))"
proof (induction nd xs rule: linked.induct [case_names two none one])
  case (two nd a b xs)
  then show ?case by auto
next
  case (none nd)
  then show ?case by simp
next
  case (one nd v)
  then show ?case by (cases ys) auto
qed

lemma linked_ConsD: "linked nd (x # xs) \<Longrightarrow> linked nd xs"
  by (cases xs) auto

lemma linked_cong:
  assumes "\<And>x. x \<in> set (butlast xs) \<Longrightarrow> next (nd' x) = next (nd x)"
    and "\<And>x. x \<in> set (tl xs) \<Longrightarrow> prev (nd' x) = prev (nd x)"
  shows "linked nd' xs = linked nd xs"
  using assms
proof (induction nd xs rule: linked.induct)
  case (1 nd a b xs)
  have "linked nd' (b # xs) = linked nd (b # xs)"
    using "1.prems" by (intro "1.IH") (auto dest: in_set_tlD)
  then show ?case using "1.prems" by (simp add: conn_def)
qed auto

lemma linked_full_split:
  "linked nd (full (us @ vs)) \<longleftrightarrow>
     linked nd (Head # map Blk us) \<and> linked nd (map Blk vs @ [Tail]) \<and>
     conn nd (before us) (after vs)"
proof -
  have "full (us @ vs) = (Head # map Blk us) @ (map Blk vs @ [Tail])"
    by (simp add: full_def)
  then show ?thesis
    by (simp only: linked_append before_def after_def) auto
qed

lemma before_simps [simp]: "before [] = Head" "before [a] = Blk a" "before (us @ [a]) = Blk a"
  by (auto simp: before_def)

lemma after_simps [simp]: "after [] = Tail" "after (a # vs) = Blk a"
  by (auto simp: after_def)

lemma before_mem: "before us \<in> insert Head (Blk ` set us)"
  by (cases us rule: rev_cases) auto

lemma after_mem: "after vs \<in> insert Tail (Blk ` set vs)"
  by (cases vs) auto

text \<open>What no other link than the two at the seam touches, stays linked.\<close>

lemma linked_left:
  assumes "distinct (us @ vs)"
    and "\<And>x. x \<noteq> before us \<Longrightarrow> x \<notin> A \<Longrightarrow> next (nd' x) = next (nd x)"
    and "\<And>x. x \<noteq> after vs \<Longrightarrow> x \<notin> A \<Longrightarrow> prev (nd' x) = prev (nd x)"
    and "A \<inter> insert Head (Blk ` set us) = {}"
  shows "linked nd' (Head # map Blk us) = linked nd (Head # map Blk us)"
proof (rule linked_cong)
  fix x assume x: "x \<in> set (butlast (Head # map Blk us))"
  have "distinct (Head # map Blk us)"
    using assms(1) by (auto simp: distinct_map inj_on_def)
  then have "distinct (butlast (Head # map Blk us) @ [last (Head # map Blk us)])"
    by (simp only: append_butlast_last_id list.distinct(2) not_False_eq_True)
  with x have "x \<noteq> before us" by (auto simp: before_def)
  moreover have "x \<notin> A" using in_set_butlastD [OF x] assms(4) by auto
  ultimately show "next (nd' x) = next (nd x)" by (rule assms(2))
next
  fix x assume "x \<in> set (tl (Head # map Blk us))"
  then have x: "x \<in> Blk ` set us" by simp
  then have "x \<noteq> after vs" using assms(1) after_mem [of vs] by auto
  moreover from x have "x \<notin> A" using assms(4) by auto
  ultimately show "prev (nd' x) = prev (nd x)" by (rule assms(3))
qed

lemma linked_right:
  assumes "distinct (us @ vs)"
    and "\<And>x. x \<noteq> before us \<Longrightarrow> x \<notin> A \<Longrightarrow> next (nd' x) = next (nd x)"
    and "\<And>x. x \<noteq> after vs \<Longrightarrow> x \<notin> A \<Longrightarrow> prev (nd' x) = prev (nd x)"
    and "A \<inter> insert Tail (Blk ` set vs) = {}"
  shows "linked nd' (map Blk vs @ [Tail]) = linked nd (map Blk vs @ [Tail])"
proof (rule linked_cong)
  fix x assume "x \<in> set (butlast (map Blk vs @ [Tail]))"
  then have x: "x \<in> Blk ` set vs" by simp
  then have "x \<noteq> before us" using assms(1) before_mem [of us] by auto
  moreover from x have "x \<notin> A" using assms(4) by auto
  ultimately show "next (nd' x) = next (nd x)" by (rule assms(2))
next
  fix x assume x: "x \<in> set (tl (map Blk vs @ [Tail]))"
  have "x \<noteq> after vs"
  proof (cases vs)
    case Nil
    with x show ?thesis by simp
  next
    case (Cons v ws)
    with x assms(1) show ?thesis by auto
  qed
  moreover have "x \<notin> A"
    using in_set_tlD [OF x] assms(4) by auto
  ultimately show "prev (nd' x) = prev (nd x)" by (rule assms(3))
qed

lemma linked_insert:
  assumes "linked nd (full (us @ vs))" and "distinct (us @ vs)" and "a \<notin> set (us @ vs)"
    and nx: "\<And>x. next (nd' x) =
          (if x = before us then Blk a else if x = Blk a then after vs else next (nd x))"
    and pv: "\<And>x. prev (nd' x) =
          (if x = after vs then Blk a else if x = Blk a then before us else prev (nd x))"
  shows "linked nd' (full (us @ a # vs))"
proof -
  have A: "{Blk a} \<inter> insert Head (Blk ` set us) = {}" "{Blk a} \<inter> insert Tail (Blk ` set vs) = {}"
    using assms(3) by auto
  have L: "linked nd' (Head # map Blk us)"
    using assms(1) linked_left [OF assms(2), of "{Blk a}" nd' nd] A nx pv
    by (auto simp: linked_full_split)
  have R: "linked nd' (map Blk vs @ [Tail])"
    using assms(1) linked_right [OF assms(2), of "{Blk a}" nd' nd] A nx pv
    by (auto simp: linked_full_split)
  have "Blk a \<noteq> before us" "Blk a \<noteq> after vs"
    using assms(3) before_mem [of us] after_mem [of vs] by auto
  then have "conn nd' (before us) (Blk a)" "conn nd' (Blk a) (after vs)"
    by (auto simp: conn_def nx pv)
  moreover have "map Blk (a # vs) @ [Tail] = [Blk a] @ (map Blk vs @ [Tail])" by simp
  then have "linked nd' (map Blk (a # vs) @ [Tail])"
    using R \<open>conn nd' (Blk a) (after vs)\<close>
    by (simp only: linked_append after_def) auto
  ultimately show ?thesis using L by (simp add: linked_full_split)
qed

lemma linked_delete:
  assumes "linked nd (full (us @ d # vs))" and "distinct (us @ d # vs)"
    and nx: "\<And>x. x \<noteq> Blk d \<Longrightarrow>
          next (nd' x) = (if x = before us then after vs else next (nd x))"
    and pv: "\<And>x. x \<noteq> Blk d \<Longrightarrow>
          prev (nd' x) = (if x = after vs then before us else prev (nd x))"
  shows "linked nd' (full (us @ vs))"
proof -
  have A: "{Blk d} \<inter> insert Head (Blk ` set us) = {}" "{Blk d} \<inter> insert Tail (Blk ` set vs) = {}"
    and D: "distinct (us @ vs)"
    using assms(2) by auto
  have R0: "linked nd (map Blk vs @ [Tail])"
    using assms(1) by (auto simp: linked_full_split dest: linked_ConsD)
  have "linked nd' (Head # map Blk us)"
    using assms(1) linked_left [OF D, of "{Blk d}" nd' nd] A nx pv
    by (auto simp: linked_full_split)
  moreover have "linked nd' (map Blk vs @ [Tail])"
    using R0 linked_right [OF D, of "{Blk d}" nd' nd] A nx pv by auto
  moreover have "Blk d \<noteq> before us" "Blk d \<noteq> after vs"
    using assms(2) before_mem [of us] after_mem [of vs] by auto
  then have "conn nd' (before us) (after vs)"
    using nx [of "before us"] pv [of "after vs"] by (auto simp: conn_def)
  ultimately show ?thesis by (simp add: linked_full_split)
qed

subsection \<open>Representation and abstraction\<close>

definition dll :: "'a LinkedList \<Rightarrow> nat list \<Rightarrow> bool" where
  "dll l ns \<longleftrightarrow>
     linked (node l) (full ns) \<and> distinct ns \<and> lsize l = int (length ns) \<and>
     FreeList_ok (freeNodeList l) (set ns)"

fun walk :: "nat \<Rightarrow> (addr \<Rightarrow> 'a ListNode) \<Rightarrow> addr \<Rightarrow> nat list" where
  "walk 0 nd a = []"
| "walk (Suc k) nd a = (case next (nd a) of Blk b \<Rightarrow> b # walk k nd (Blk b) | _ \<Rightarrow> [])"

definition ListNodes :: "'a LinkedList \<Rightarrow> nat list" where
  "ListNodes l = walk (nat (lsize l)) (node l) Head"

definition entries :: "'a LinkedList \<Rightarrow> (nat \<times> 'a option) list" where
  "entries l = map (\<lambda>a. (a, item (node l (Blk a)))) (ListNodes l)"

definition List_ok :: "'a LinkedList \<Rightarrow> bool" where
  "List_ok l \<longleftrightarrow> dll l (ListNodes l)"

lemma walk_linked:
  "linked nd (x # map Blk ns @ [Tail]) \<Longrightarrow> walk (length ns) nd x = ns"
  by (induction ns arbitrary: x) (auto simp: conn_def)

lemma dll_nodes: "dll l ns \<Longrightarrow> ListNodes l = ns"
  by (simp add: dll_def ListNodes_def full_def walk_linked)

lemma dll_ok: "dll l ns \<Longrightarrow> List_ok l"
  by (simp add: List_ok_def dll_nodes)

lemma List_okE:
  assumes "List_ok l"
  obtains ns where "dll l ns" and "ListNodes l = ns"
  using assms by (auto simp: List_ok_def)

lemma dll_entries: "dll l ns \<Longrightarrow> entries l = map (\<lambda>a. (a, item (node l (Blk a)))) ns"
  by (simp add: entries_def dll_nodes)

lemma fst_entries [simp]: "map fst (entries l) = ListNodes l"
  by (simp add: entries_def comp_def)

lemma dll_links:
  assumes "dll l (us @ vs)"
  shows "next (node l (before us)) = after vs" and "prev (node l (after vs)) = before us"
  using assms by (auto simp: dll_def linked_full_split conn_def)

text \<open>Adding and deleting at a seam, for any update of the links that has the right effect.\<close>

lemma dll_insert:
  assumes "dll l (us @ vs)" and "FreeListAlloc (freeNodeList l) = (Some a, f)"
    and "freeNodeList l' = f" and "lsize l' = lsize l + 1"
    and nx: "\<And>x. next (node l' x) =
          (if x = before us then Blk a else if x = Blk a then after vs else next (node l x))"
    and pv: "\<And>x. prev (node l' x) =
          (if x = after vs then Blk a else if x = Blk a then before us else prev (node l x))"
  shows "dll l' (us @ a # vs)" and "a \<notin> set (us @ vs)"
proof -
  from assms(1) have ok: "FreeList_ok (freeNodeList l) (set (us @ vs))" by (simp add: dll_def)
  show a: "a \<notin> set (us @ vs)" by (rule fl.alloc_fresh [OF ok assms(2)])
  have "FreeList_ok f (set (us @ a # vs))" using fl.alloc_ok [OF ok assms(2)] by simp
  moreover have "linked (node l') (full (us @ a # vs))"
    using assms(1) a by (intro linked_insert [OF _ _ _ nx pv]) (auto simp: dll_def)
  ultimately show "dll l' (us @ a # vs)" using assms(1,3,4) a by (auto simp: dll_def)
qed

lemma dll_alloc_None:
  assumes "dll l ns" and "FreeListAlloc (freeNodeList l) = (None, f)"
  shows "dll (l\<lparr>freeNodeList := f\<rparr>) ns"
  using assms by (auto simp: dll_def dest: fl.alloc_fail)

lemma ListAddAfter_dll:
  assumes "dll l (us @ vs)" and "ListAddAfter l it (before us) = (r, l')"
  shows "(r = Null \<and> dll l' (us @ vs) \<and> (\<forall>x. item (node l' x) = item (node l x))) \<or>
         (\<exists>a. r = Blk a \<and> a \<notin> set (us @ vs) \<and> dll l' (us @ a # vs) \<and>
              (\<forall>x. item (node l' x) = (if x = Blk a then it else item (node l x))))"
proof (cases "FreeListAlloc (freeNodeList l)")
  case (Pair p f)
  have nn: "before us \<noteq> Null" using before_mem [of us] by auto
  show ?thesis
  proof (cases p)
    case None
    with Pair nn assms show ?thesis
      by (auto simp: ListAddAfter_def CreateListNode_def intro: dll_alloc_None)
  next
    case (Some a)
    have fresh: "a \<notin> set (us @ vs)"
      using assms(1) Pair Some fl.alloc_fresh by (auto simp: dll_def)
    then have ne: "Blk a \<noteq> before us" "Blk a \<noteq> after vs"
      using before_mem [of us] after_mem [of vs] by auto
    have seam: "next (node l (before us)) = after vs"
      by (rule dll_links(1) [OF assms(1)])
    from assms(2) Pair Some nn have r: "r = Blk a"
      by (auto simp: list_defs)
    from assms(2) Pair Some nn ne seam have l':
      "freeNodeList l' = f" "lsize l' = lsize l + 1"
      "\<And>x. next (node l' x) =
          (if x = before us then Blk a else if x = Blk a then after vs else next (node l x))"
      "\<And>x. prev (node l' x) =
          (if x = after vs then Blk a else if x = Blk a then before us else prev (node l x))"
      "\<And>x. item (node l' x) = (if x = Blk a then it else item (node l x))"
      by (auto simp: list_defs)
    from dll_insert [OF assms(1) Pair [unfolded Some] l'(1-4)] r l'(5)
    show ?thesis by auto
  qed
qed

lemma ListAddBefore_dll:
  assumes "dll l (us @ vs)" and "ListAddBefore l it (after vs) = (r, l')"
  shows "(r = Null \<and> dll l' (us @ vs) \<and> (\<forall>x. item (node l' x) = item (node l x))) \<or>
         (\<exists>a. r = Blk a \<and> a \<notin> set (us @ vs) \<and> dll l' (us @ a # vs) \<and>
              (\<forall>x. item (node l' x) = (if x = Blk a then it else item (node l x))))"
proof (cases "FreeListAlloc (freeNodeList l)")
  case (Pair p f)
  have nn: "after vs \<noteq> Null" using after_mem [of vs] by auto
  show ?thesis
  proof (cases p)
    case None
    with Pair nn assms show ?thesis
      by (auto simp: ListAddBefore_def CreateListNode_def intro: dll_alloc_None)
  next
    case (Some a)
    have fresh: "a \<notin> set (us @ vs)"
      using assms(1) Pair Some fl.alloc_fresh by (auto simp: dll_def)
    then have ne: "Blk a \<noteq> before us" "Blk a \<noteq> after vs"
      using before_mem [of us] after_mem [of vs] by auto
    have seam: "prev (node l (after vs)) = before us"
      by (rule dll_links(2) [OF assms(1)])
    from assms(2) Pair Some nn have r: "r = Blk a"
      by (auto simp: list_defs)
    from assms(2) Pair Some nn ne seam have l':
      "freeNodeList l' = f" "lsize l' = lsize l + 1"
      "\<And>x. next (node l' x) =
          (if x = before us then Blk a else if x = Blk a then after vs else next (node l x))"
      "\<And>x. prev (node l' x) =
          (if x = after vs then Blk a else if x = Blk a then before us else prev (node l x))"
      "\<And>x. item (node l' x) = (if x = Blk a then it else item (node l x))"
      by (auto simp: list_defs)
    from dll_insert [OF assms(1) Pair [unfolded Some] l'(1-4)] r l'(5)
    show ?thesis by auto
  qed
qed

lemma ListDelNode_dll:
  assumes "dll l (us @ d # vs)" and "ListDelNode l (Blk d) fi = (r, l')"
  shows "dll l' (us @ vs)" and "\<And>x. item (node l' x) = item (node l x)"
    and "r = (if fi \<and> free_func l then None else item (node l (Blk d)))"
    and "freed l' = freed l @ (if fi \<and> free_func l then [item (node l (Blk d))] else [])"
    and "free_func l' = free_func l" and "cmp_func l' = cmp_func l"
proof -
  have seams: "prev (node l (Blk d)) = before us" "next (node l (Blk d)) = after vs"
    using dll_links [of l us "d # vs"] dll_links [of l "us @ [d]" vs] assms(1) by simp_all
  have ne: "Blk d \<noteq> before us" "Blk d \<noteq> after vs"
    using assms(1) before_mem [of us] after_mem [of vs] by (auto simp: dll_def)
  have u: "freeNodeList l' = snd (FreeListFree (freeNodeList l) (Some d))"
      "lsize l' = lsize l - 1"
      "\<And>x. next (node l' x) = (if x = before us then after vs else next (node l x))"
      "\<And>x. prev (node l' x) = (if x = after vs then before us else prev (node l x))"
      "\<And>x. item (node l' x) = item (node l x)"
      "r = (if fi \<and> free_func l then None else item (node l (Blk d)))"
      "freed l' = freed l @ (if fi \<and> free_func l then [item (node l (Blk d))] else [])"
      "free_func l' = free_func l" "cmp_func l' = cmp_func l"
    using assms(2) seams ne by (auto simp: list_defs split: prod.splits if_splits)
  have "FreeList_ok (freeNodeList l') (set (us @ d # vs) - {d})"
    unfolding u(1) using assms(1) by (intro fl.release_ok) (auto simp: dll_def)
  moreover have "set (us @ d # vs) - {d} = set (us @ vs)"
    using assms(1) by (auto simp: dll_def)
  moreover have "linked (node l') (full (us @ vs))"
    using assms(1) by (intro linked_delete [of "node l" us d vs]) (auto simp: dll_def u)
  ultimately show "dll l' (us @ vs)" using assms(1) u(2) by (auto simp: dll_def)
  show "\<And>x. item (node l' x) = item (node l x)"
    and "r = (if fi \<and> free_func l then None else item (node l (Blk d)))"
    and "freed l' = freed l @ (if fi \<and> free_func l then [item (node l (Blk d))] else [])"
    and "free_func l' = free_func l" and "cmp_func l' = cmp_func l"
    by (rule u)+
qed

subsection \<open>The operations on the abstract sequence\<close>

fun first_addr :: "(nat \<times> 'b) list \<Rightarrow> addr" where
  "first_addr [] = Null"
| "first_addr ((a, x) # es) = Blk a"

lemma entries_split:
  assumes "dll l ns" and "entries l = es @ fs"
  shows "ns = map fst es @ map fst fs"
    and "es = map (\<lambda>a. (a, item (node l (Blk a)))) (map fst es)"
    and "fs = map (\<lambda>a. (a, item (node l (Blk a)))) (map fst fs)"
proof -
  have ns: "ns = map fst (es @ fs)"
    using dll_nodes [OF assms(1)] assms(2) by (metis fst_entries)
  then show "ns = map fst es @ map fst fs" by simp
  have "map (\<lambda>a. (a, item (node l (Blk a)))) (map fst es @ map fst fs) = es @ fs"
    using dll_entries [OF assms(1)] by (simp only: assms(2) ns map_append)
  then have "map (\<lambda>a. (a, item (node l (Blk a)))) (map fst es) = es \<and>
             map (\<lambda>a. (a, item (node l (Blk a)))) (map fst fs) = fs"
    unfolding map_append by (subst (asm) append_eq_append_conv) simp_all
  then show "es = map (\<lambda>a. (a, item (node l (Blk a)))) (map fst es)"
    and "fs = map (\<lambda>a. (a, item (node l (Blk a)))) (map fst fs)"
    by simp_all
qed

lemma List_ok_distinct: "List_ok l \<Longrightarrow> distinct (ListNodes l)"
  by (auto simp: List_ok_def dll_def)

lemma List_ok_size: "List_ok l \<Longrightarrow> ListSize l = int (length (entries l))"
  by (auto simp: List_ok_def dll_def ListSize_def entries_def)

lemma insert_entries:
  assumes "dll l (map fst es @ map fst fs)" and "entries l = es @ fs"
    and "(r = Null \<and> dll l' (map fst es @ map fst fs) \<and>
            (\<forall>x. item (node l' x) = item (node l x))) \<or>
         (\<exists>a. r = Blk a \<and> a \<notin> set (map fst es @ map fst fs) \<and>
              dll l' (map fst es @ a # map fst fs) \<and>
              (\<forall>x. item (node l' x) = (if x = Blk a then it else item (node l x))))"
  shows "List_ok l' \<and>
         (r = Null \<and> entries l' = entries l \<or>
          (\<exists>a. r = Blk a \<and> a \<notin> fst ` set (entries l) \<and> entries l' = es @ (a, it) # fs))"
  using assms(3)
proof (elim disjE exE conjE)
  assume "r = Null" and d: "dll l' (map fst es @ map fst fs)"
    and i: "\<forall>x. item (node l' x) = item (node l x)"
  have "entries l' = entries l"
    by (simp only: dll_entries [OF d] dll_entries [OF assms(1)] i)
  with d \<open>r = Null\<close> show ?thesis by (auto intro: dll_ok)
next
  fix a
  assume "r = Blk a" and a: "a \<notin> set (map fst es @ map fst fs)"
    and d: "dll l' (map fst es @ a # map fst fs)"
    and i: "\<forall>x. item (node l' x) = (if x = Blk a then it else item (node l x))"
  have "entries l' = map (\<lambda>b. (b, item (node l (Blk b)))) (map fst es) @ (a, it) #
                     map (\<lambda>b. (b, item (node l (Blk b)))) (map fst fs)"
    using a by (auto simp: dll_entries [OF d] i)
  also have "\<dots> = es @ (a, it) # fs"
    using entries_split(2,3) [OF assms(1,2)] by metis
  finally show ?thesis
    using d a assms(2) \<open>r = Blk a\<close> by (auto intro: dll_ok)
qed

lemma before_fst: "before (map fst es) = (if es = [] then Head else Blk (fst (last es)))"
  by (cases es rule: rev_cases) auto

lemma after_fst: "after (map fst es) = (if es = [] then Tail else Blk (fst (hd es)))"
  by (cases es) auto

lemma ListAddAfter_entries:
  assumes "List_ok l" and "entries l = es @ fs"
    and "ListAddAfter l it (before (map fst es)) = (r, l')"
  shows "List_ok l' \<and>
         (r = Null \<and> entries l' = entries l \<or>
          (\<exists>a. r = Blk a \<and> a \<notin> fst ` set (entries l) \<and> entries l' = es @ (a, it) # fs))"
proof -
  from assms(1) obtain ns where d: "dll l ns" by (rule List_okE)
  from entries_split(1) [OF d assms(2)] d have d': "dll l (map fst es @ map fst fs)" by simp
  from insert_entries [OF d' assms(2) ListAddAfter_dll [OF d' assms(3)]]
  show ?thesis .
qed

lemma ListAddBefore_entries:
  assumes "List_ok l" and "entries l = es @ fs"
    and "ListAddBefore l it (after (map fst fs)) = (r, l')"
  shows "List_ok l' \<and>
         (r = Null \<and> entries l' = entries l \<or>
          (\<exists>a. r = Blk a \<and> a \<notin> fst ` set (entries l) \<and> entries l' = es @ (a, it) # fs))"
proof -
  from assms(1) obtain ns where d: "dll l ns" by (rule List_okE)
  from entries_split(1) [OF d assms(2)] d have d': "dll l (map fst es @ map fst fs)" by simp
  from insert_entries [OF d' assms(2) ListAddBefore_dll [OF d' assms(3)]]
  show ?thesis .
qed

lemma ListDelNode_entries:
  assumes "List_ok l" and "entries l = es @ (a, x) # fs"
    and "ListDelNode l (Blk a) fi = (r, l')"
  shows "List_ok l'" and "entries l' = es @ fs"
    and "r = (if fi \<and> free_func l then None else x)"
    and "freed l' = freed l @ (if fi \<and> free_func l then [x] else [])"
    and "free_func l' = free_func l" and "cmp_func l' = cmp_func l"
proof -
  from assms(1) obtain ns where d: "dll l ns" by (rule List_okE)
  note sp = entries_split [OF d assms(2)]
  from sp(1) d have d': "dll l (map fst es @ a # map fst fs)" by simp
  note del = ListDelNode_dll [OF d' assms(3)]
  show "List_ok l'" by (rule dll_ok [OF del(1)])
  from sp(3) have fs: "fs = map (\<lambda>a. (a, item (node l (Blk a)))) (map fst fs)" by simp
  show "entries l' = es @ fs"
    by (simp only: dll_entries [OF del(1)] del(2) map_append sp(2) [symmetric] fs [symmetric])
  have "x = item (node l (Blk a))" using sp(3) by simp
  with del(3-6) show "r = (if fi \<and> free_func l then None else x)"
    and "freed l' = freed l @ (if fi \<and> free_func l then [x] else [])"
    and "free_func l' = free_func l" and "cmp_func l' = cmp_func l"
    by simp_all
qed

lemma next_entries:
  assumes "List_ok l" and "entries l = es @ fs"
  shows "next (node l (before (map fst es))) = after (map fst fs)"
    and "prev (node l (after (map fst fs))) = before (map fst es)"
proof -
  from assms(1) obtain ns where d: "dll l ns" by (rule List_okE)
  from entries_split(1) [OF d assms(2)] d have "dll l (map fst es @ map fst fs)" by simp
  from dll_links [OF this]
  show "next (node l (before (map fst es))) = after (map fst fs)"
    and "prev (node l (after (map fst fs))) = before (map fst es)" .
qed

lemma ListHead_entries: "List_ok l \<Longrightarrow> ListHead l = first_addr (entries l)"
  using next_entries(1) [of l "[]" "entries l"] List_ok_size [of l]
  by (cases "entries l") (auto simp: ListHead_def ListSize_def)

lemma ListTail_entries:
  "List_ok l \<Longrightarrow> ListTail l = (if entries l = [] then Null else Blk (fst (last (entries l))))"
  using next_entries(2) [of l "entries l" "[]"] List_ok_size [of l]
    before_fst [of "entries l"]
  by (auto simp: ListTail_def ListSize_def)

lemma ListNext_entries:
  assumes "List_ok l" and "entries l = es @ (a, x) # fs"
  shows "ListNext l (Blk a) = first_addr fs"
  using next_entries(1) [of l "es @ [(a, x)]" fs] assms
  by (cases fs) (auto simp: ListNext_def)

lemma ListPrev_entries:
  assumes "List_ok l" and "entries l = es @ (a, x) # fs"
  shows "ListPrev l (Blk a) = (if es = [] then Null else Blk (fst (last es)))"
  using next_entries(2) [of l es "(a, x) # fs"] assms
  by (auto simp: ListPrev_def before_fst)

lemma item_entries:
  assumes "List_ok l" and "(a, x) \<in> set (entries l)"
  shows "item (node l (Blk a)) = x"
  using assms by (auto simp: entries_def)

text \<open>Searching: the first entry from the front that matches.\<close>

lemma ListFind_loop_entries:
  assumes "List_ok l" and "entries l = es @ fs"
  shows "ListFind_loop l it (after (map fst fs)) =
           Some (first_addr (dropWhile (\<lambda>e. \<not> matches l it (snd e)) fs))"
  using assms
proof (induction fs arbitrary: es)
  case Nil
  then show ?case by (subst ListFind_loop.simps) simp
next
  case (Cons f fs)
  obtain a x where f: "f = (a, x)" by (cases f)
  have x: "item (node l (Blk a)) = x"
    using Cons.prems f by (intro item_entries) auto
  have n: "next (node l (Blk a)) = after (map fst fs)"
    using next_entries(1) [of l "es @ [f]" fs] Cons.prems f by simp
  have IH: "ListFind_loop l it (after (map fst fs)) =
      Some (first_addr (dropWhile (\<lambda>e. \<not> matches l it (snd e)) fs))"
    using Cons.IH [of "es @ [f]"] Cons.prems by simp
  show ?case
    by (subst ListFind_loop.simps) (simp add: f x n IH)
qed

lemma ListFind_entries:
  assumes "List_ok l"
  shows "ListFind l Null it =
           Some (first_addr (dropWhile (\<lambda>e. \<not> matches l it (snd e)) (entries l)))"
  using ListFind_loop_entries [of l "[]" "entries l" it]
    next_entries(1) [of l "[]" "entries l"] assms
  by (simp add: ListFind_def)

lemma ListFind_from_entries:
  assumes "List_ok l" and "entries l = es @ (a, x) # fs"
  shows "ListFind l (Blk a) it =
           Some (first_addr (dropWhile (\<lambda>e. \<not> matches l it (snd e)) fs))"
  using ListFind_loop_entries [of l "es @ [(a, x)]" fs it]
    next_entries(1) [of l "es @ [(a, x)]" fs] assms
  by (simp add: ListFind_def)

text \<open>Destroying: every node goes back to the allocator, every item to the free function.\<close>

lemma ListDestroy_loop_entries:
  assumes "List_ok l" and "entries l = es"
  shows "\<exists>l'. ListDestroy_loop l fi (after (map fst es)) = Some l' \<and> List_ok l' \<and>
           entries l' = [] \<and> cmp_func l' = cmp_func l \<and>
           freed l' = freed l @ (if fi \<and> free_func l then map snd es else [])"
  using assms
proof (induction es arbitrary: l)
  case Nil
  then show ?case by (subst ListDestroy_loop.simps) auto
next
  case (Cons e es)
  obtain a x where e: "e = (a, x)" by (cases e)
  obtain r l1 where d: "ListDelNode l (Blk a) fi = (r, l1)" by fastforce
  have n: "next (node l (Blk a)) = after (map fst es)"
    using next_entries(1) [of l "[e]" es] Cons.prems e by (simp add: before_fst)
  have en: "entries l = [] @ (a, x) # es" using Cons.prems e by simp
  note del = ListDelNode_entries [OF Cons.prems(1) en d]
  from del(2) have "entries l1 = es" by simp
  from Cons.IH [OF del(1) this] obtain l' where
    l': "ListDestroy_loop l1 fi (after (map fst es)) = Some l'" "List_ok l'" "entries l' = []"
      "cmp_func l' = cmp_func l1"
      "freed l' = freed l1 @ (if fi \<and> free_func l1 then map snd es else [])" by blast
  have "ListDestroy_loop l fi (after (map fst (e # es))) = Some l'"
    by (subst ListDestroy_loop.simps) (simp add: e d n l'(1))
  with l' del(4-6) e show ?case by auto
qed

lemma ListDestroy_ok:
  assumes "List_ok l"
  shows "\<exists>l'. ListDestroy l fi = Some (0, l') \<and> lsize l' = 0 \<and> List_ok l' \<and> entries l' = [] \<and>
           cmp_func l' = cmp_func l \<and>
           live (fl_heap (freeNodeList l')) = {} \<and> \<not> bad_free (fl_heap (freeNodeList l')) \<and>
           freed l' = freed l @ (if fi \<and> free_func l then map snd (entries l) else [])"
proof -
  have n: "next (node l Head) = after (map fst (entries l))"
    using next_entries(1) [of l "[]" "entries l"] assms by simp
  from ListDestroy_loop_entries [OF assms refl, of fi] n obtain l1 where
    l1: "ListDestroy_loop l fi (next (node l Head)) = Some l1" "List_ok l1" "entries l1 = []"
      "cmp_func l1 = cmp_func l"
      "freed l1 = freed l @ (if fi \<and> free_func l then map snd (entries l) else [])" by auto
  from l1(2,3) have d: "dll l1 []" by (simp add: entries_def List_ok_def)
  then have "FreeList_ok (freeNodeList l1) {}" by (simp add: dll_def)
  from FreeListDestroy_ok [OF this] obtain f where
    f: "FreeListDestroy (freeNodeList l1) = Some (0, f)" "live (fl_heap f) = {}"
      "FreeList_ok f {}" by auto
  from f(3) have "\<not> bad_free (fl_heap f)"
    by (auto simp: FreeList_ok_def FreeList_rep_def heap_ok_def)
  moreover have d': "dll (l1\<lparr>lsize := 0, freeNodeList := f\<rparr>) []"
    using d f(3) by (simp add: dll_def)
  ultimately show ?thesis
    using l1 f dll_ok [OF d'] dll_entries [OF d'] by (auto simp: ListDestroy_def)
qed

lemma ListInit_ok:
  assumes "heap_ok (fl_heap (freeNodeList l))" and "live (fl_heap (freeNodeList l)) = {}"
    and "ListInit l cmp ff = (r, l')"
  shows "r = 0" and "List_ok l'" and "entries l' = []"
    and "cmp_func l' = cmp" and "free_func l' = ff"
proof -
  from assms(3) have l': "r = 0" "freeNodeList l' = snd (FreeListInit 24 FREELISTSIZE (freeNodeList l))"
    "lsize l' = 0" "next (node l' Head) = Tail" "prev (node l' Tail) = Head"
    "cmp_func l' = cmp" "free_func l' = ff"
    by (auto simp: ListInit_def FreeListInit_def)
  then have d: "dll l' []"
    using FreeListInit_ok [OF assms(1), of 24 FREELISTSIZE] assms(2)
    by (auto simp: dll_def full_def conn_def)
  from l'(1) show "r = 0" .
  show "List_ok l'" by (rule dll_ok [OF d])
  show "entries l' = []" using dll_entries [OF d] by simp
  from l'(6,7) show "cmp_func l' = cmp" and "free_func l' = ff" .
qed

text \<open>Frame facts.\<close>

lemma cmp_func_ops [simp]:
  "cmp_func (snd (ListAddAfter l it b)) = cmp_func l"
  "cmp_func (snd (ListAddBefore l it b)) = cmp_func l"
  "cmp_func (snd (ListAddTail l it)) = cmp_func l"
  "cmp_func (snd (ListDelNode l b fi)) = cmp_func l"
  by (auto simp: list_defs ListAddTail_def split: prod.splits option.splits if_splits)

definition granted :: "'a LinkedList \<Rightarrow> bool" where
  "granted l \<longleftrightarrow> granted_fl (freeNodeList l)"

lemma granted_ListAddTail:
  "granted l \<Longrightarrow> ListAddTail l it = (r, l') \<Longrightarrow> r \<noteq> Null \<and> granted l'"
  using granted_FreeListAlloc [of "freeNodeList l"]
  by (auto simp: granted_def list_defs ListAddTail_def)

lemma granted_ListDelNode [simp]: "granted (snd (ListDelNode l b fi)) = granted l"
  by (auto simp: granted_def list_defs split: prod.splits) (metis granted_FreeListFree snd_conv)+

subsection \<open>The list interface\<close>

text \<open>
  What the thread pool and the timer rely on: a sequence of entries with stable addresses.
\<close>

locale node_list =
  fixes add_before :: "'l \<Rightarrow> 'a option \<Rightarrow> addr \<Rightarrow> addr \<times> 'l"
    and add_tail :: "'l \<Rightarrow> 'a option \<Rightarrow> addr \<times> 'l"
    and del :: "'l \<Rightarrow> addr \<Rightarrow> bool \<Rightarrow> 'a option \<times> 'l"
    and front :: "'l \<Rightarrow> addr"
    and succ :: "'l \<Rightarrow> addr \<Rightarrow> addr"
    and ok :: "'l \<Rightarrow> bool"
    and seq :: "'l \<Rightarrow> (nat \<times> 'a option) list"
  assumes distinct_seq: "ok l \<Longrightarrow> distinct (map fst (seq l))"
    and front_seq: "ok l \<Longrightarrow> front l = first_addr (seq l)"
    and succ_seq: "ok l \<Longrightarrow> seq l = es @ (a, x) # fs \<Longrightarrow> succ l (Blk a) = first_addr fs"
    and add_tail_seq: "ok l \<Longrightarrow> add_tail l it = (r, l') \<Longrightarrow>
          ok l' \<and> (r = Null \<and> seq l' = seq l \<or>
                   (\<exists>a. r = Blk a \<and> seq l' = seq l @ [(a, it)]))"
    and add_before_seq: "ok l \<Longrightarrow> seq l = es @ (b, x) # fs \<Longrightarrow>
          add_before l it (Blk b) = (r, l') \<Longrightarrow>
          ok l' \<and> (r = Null \<and> seq l' = seq l \<or>
                   (\<exists>a. r = Blk a \<and> seq l' = es @ (a, it) # (b, x) # fs))"
    and del_seq: "ok l \<Longrightarrow> seq l = es @ (a, x) # fs \<Longrightarrow> del l (Blk a) False = (y, l') \<Longrightarrow>
          ok l' \<and> seq l' = es @ fs \<and> y = x"
begin

text \<open>Taking the first item off one list and putting it at the end of another one.\<close>

lemma move_front:
  assumes "ok p" and "ok q" and "seq p = (a, x) # es"
    and "del p (front p) False = (y, p')" and "add_tail q x = (r, q')"
  shows "ok p'" and "ok q'" and "seq p' = es"
    and "map snd (seq q') = map snd (seq q) @ (if r = Null then [] else [x])"
proof -
  from assms(1,3) have "front p = Blk a" by (simp add: front_seq)
  with del_seq [of p "[]" a x es y p'] assms(1,3,4)
  show "ok p'" and "seq p' = es" by auto
  from add_tail_seq [OF assms(2,5)] show "ok q'"
    and "map snd (seq q') = map snd (seq q) @ (if r = Null then [] else [x])" by auto
qed

lemma front_Null: "ok l \<Longrightarrow> front l = Null \<longleftrightarrow> seq l = []"
  by (cases "seq l") (auto simp: front_seq)

end

interpretation ll: node_list ListAddBefore ListAddTail ListDelNode ListHead ListNext List_ok entries
proof (unfold_locales, goal_cases)
  case (1 l)
  then show ?case by (simp add: List_ok_distinct)
next
  case (2 l)
  then show ?case by (rule ListHead_entries)
next
  case (3 l es a x fs)
  then show ?case by (rule ListNext_entries)
next
  case (4 l it r l')
  then show ?case
    using ListAddBefore_entries [of l "entries l" "[]" it r l'] by (auto simp: ListAddTail_def)
next
  case (5 l es b x fs it r l')
  then show ?case
    using ListAddBefore_entries [of l es "(b, x) # fs" it r l'] by auto
next
  case (6 l es a x fs y l')
  then show ?case using ListDelNode_entries [of l es a x fs False y l'] by simp
qed

end
