(* ===== verification/ThreadPool.thy ===== *)
theory ThreadPool
  imports LinkedList Complex_Main "HOL-Library.Multiset"
begin

text \<open>
  \<open>threadutil/src/ThreadPool.c\<close>, the sequential part: the state of a pool and the pieces of
  code that run while its mutex is held. \<open>ThreadPoolSteps\<close> composes them into the concurrent
  system.

  A job is a block of the pool's job free list. Its contents do not change between its
  creation and its release, so a pointer to it is modelled as the pair of the block and the
  contents. Times are read once per critical section and passed in as \<open>now\<close>. Totals that the
  code keeps in \<open>double\<close> hold whole numbers and are integers here.
\<close>

subsection \<open>Constants and data\<close>

definition JOBFREELISTSIZE :: int where "JOBFREELISTSIZE = 100"
definition INFINITE_THREADS :: int where "INFINITE_THREADS = -1"
definition EOUTOFMEM :: int where "EOUTOFMEM = and (- 7) (2 ^ 29)"
definition EMAXTHREADS :: int where "EMAXTHREADS = and (- 8) (2 ^ 29)"
definition INVALID_POLICY :: int where "INVALID_POLICY = and (- 9) (2 ^ 29)"
definition INVALID_JOB_ID :: int where "INVALID_JOB_ID = and (- 2) (2 ^ 29)"

datatype ThreadPriority = LOW_PRIORITY | MED_PRIORITY | HIGH_PRIORITY | OTHER_PRIORITY int

record timeval =
  tv_sec :: int
  tv_usec :: int

record ThreadPoolJob =
  func :: "nat option"
  arg :: "nat option"
  job_free_func :: "nat option"
  requestTime :: timeval
  priority :: ThreadPriority
  jobId :: int

type_synonym job_ref = "nat \<times> ThreadPoolJob"

record ThreadPoolAttr =
  minThreads :: int
  maxThreads :: int
  stackSize :: int
  maxIdleTime :: int
  jobsPerThread :: int
  maxJobsTotal :: int
  starvationTime :: int
  schedPolicy :: int

record ThreadPoolStats =
  totalTimeHQ :: int
  totalJobsHQ :: int
  avgWaitHQ :: real
  totalTimeMQ :: int
  totalJobsMQ :: int
  avgWaitMQ :: real
  totalTimeLQ :: int
  totalJobsLQ :: int
  avgWaitLQ :: real
  totalWorkTime :: int
  totalIdleTime :: int
  workerThreads :: int
  idleThreads :: int
  st_persistentThreads :: int
  st_totalThreads :: int
  st_maxThreads :: int
  currentJobsHQ :: int
  currentJobsLQ :: int
  currentJobsMQ :: int

record ThreadPool =
  lastJobId :: int
  shutdown :: bool
  totalThreads :: int
  pendingWorkerThreadStart :: bool
  busyThreads :: int
  persistentThreads :: int
  jobFreeList :: FreeList
  lowJobQ :: "job_ref LinkedList"
  medJobQ :: "job_ref LinkedList"
  highJobQ :: "job_ref LinkedList"
  persistentJob :: "job_ref option"
  attr :: ThreadPoolAttr
  stats :: ThreadPoolStats
  freed_args :: "(nat \<times> nat option) list"

text \<open>\<open>freed_args\<close> records the calls \<open>job->free_func(job->arg)\<close>.\<close>

definition DEFAULT_POLICY :: int where "DEFAULT_POLICY = 0"
definition DEFAULT_STACK_SIZE :: int where "DEFAULT_STACK_SIZE = 0"

subsection \<open>Time and statistics\<close>

definition DiffMillis :: "timeval \<Rightarrow> timeval \<Rightarrow> int" where
  "DiffMillis t1 t2 =
     ((tv_sec t1 - tv_sec t2) * 1000000 + (tv_usec t1 - tv_usec t2)) sdiv 1000"

definition StatsInit :: "ThreadPoolStats \<Rightarrow> ThreadPoolStats" where
  "StatsInit st =
     st\<lparr>totalIdleTime := 0, totalJobsHQ := 0, totalJobsLQ := 0, totalJobsMQ := 0,
        totalTimeHQ := 0, totalTimeMQ := 0, totalTimeLQ := 0, totalWorkTime := 0,
        avgWaitHQ := 0, avgWaitMQ := 0, avgWaitLQ := 0, workerThreads := 0, idleThreads := 0,
        st_persistentThreads := 0, st_maxThreads := 0, st_totalThreads := 0\<rparr>"

definition StatsAccountLQ :: "int \<Rightarrow> ThreadPool \<Rightarrow> ThreadPool" where
  "StatsAccountLQ d tp =
     tp\<lparr>stats := (stats tp)\<lparr>totalJobsLQ := totalJobsLQ (stats tp) + 1,
                           totalTimeLQ := totalTimeLQ (stats tp) + d\<rparr>\<rparr>"

definition StatsAccountMQ :: "int \<Rightarrow> ThreadPool \<Rightarrow> ThreadPool" where
  "StatsAccountMQ d tp =
     tp\<lparr>stats := (stats tp)\<lparr>totalJobsMQ := totalJobsMQ (stats tp) + 1,
                           totalTimeMQ := totalTimeMQ (stats tp) + d\<rparr>\<rparr>"

definition StatsAccountHQ :: "int \<Rightarrow> ThreadPool \<Rightarrow> ThreadPool" where
  "StatsAccountHQ d tp =
     tp\<lparr>stats := (stats tp)\<lparr>totalJobsHQ := totalJobsHQ (stats tp) + 1,
                           totalTimeHQ := totalTimeHQ (stats tp) + d\<rparr>\<rparr>"

definition CalcWaitTime ::
  "timeval \<Rightarrow> ThreadPriority \<Rightarrow> job_ref \<Rightarrow> ThreadPool \<Rightarrow> ThreadPool" where
  "CalcWaitTime now p job tp =
     (let diff = DiffMillis now (requestTime (snd job)) in
      case p of
        LOW_PRIORITY \<Rightarrow> StatsAccountLQ diff tp
      | MED_PRIORITY \<Rightarrow> StatsAccountMQ diff tp
      | HIGH_PRIORITY \<Rightarrow> StatsAccountHQ diff tp
      | OTHER_PRIORITY _ \<Rightarrow> tp)"

text \<open>The absolute time a worker waits until; the result is \<open>(tv_sec, tv_nsec)\<close>.\<close>

definition SetRelTimeout :: "timeval \<Rightarrow> int \<Rightarrow> int \<times> int" where
  "SetRelTimeout now relMillis =
     (let sec = relMillis sdiv 1000; milliSeconds = relMillis smod 1000
      in (tv_sec now + sec, (tv_usec now sdiv 1000 + milliSeconds) * 1000000))"

subsection \<open>Jobs\<close>

fun CmpThreadPoolJob :: "job_ref option \<Rightarrow> job_ref option \<Rightarrow> bool" where
  "CmpThreadPoolJob (Some a) (Some b) = (jobId (snd a) = jobId (snd b))"
| "CmpThreadPoolJob _ _ = False"

definition FreeThreadPoolJob :: "job_ref \<Rightarrow> ThreadPool \<Rightarrow> ThreadPool" where
  "FreeThreadPoolJob tpj tp =
     tp\<lparr>jobFreeList := snd (FreeListFree (jobFreeList tp) (Some (fst tpj)))\<rparr>"

definition CreateThreadPoolJob ::
  "timeval \<Rightarrow> ThreadPoolJob \<Rightarrow> int \<Rightarrow> ThreadPool \<Rightarrow> job_ref option \<times> ThreadPool" where
  "CreateThreadPoolJob now job i tp =
     (case FreeListAlloc (jobFreeList tp) of
        (Some newJob, f) \<Rightarrow>
          (Some (newJob, job\<lparr>jobId := i, requestTime := now\<rparr>), tp\<lparr>jobFreeList := f\<rparr>)
      | (None, f) \<Rightarrow> (None, tp\<lparr>jobFreeList := f\<rparr>))"

definition TPJobInit ::
  "ThreadPoolJob option \<Rightarrow> nat option \<Rightarrow> nat option \<Rightarrow> int \<times> ThreadPoolJob option" where
  "TPJobInit job fn a =
     (case (job, fn) of
        (Some j, Some f) \<Rightarrow>
          (0, Some (j\<lparr>func := Some f, arg := a, priority := MED_PRIORITY, job_free_func := None\<rparr>))
      | _ \<Rightarrow> (EINVAL, job))"

definition TPJobSetPriority ::
  "ThreadPoolJob option \<Rightarrow> ThreadPriority \<Rightarrow> int \<times> ThreadPoolJob option" where
  "TPJobSetPriority job p =
     (case job of
        None \<Rightarrow> (EINVAL, None)
      | Some j \<Rightarrow>
          (case p of
             OTHER_PRIORITY _ \<Rightarrow> (EINVAL, Some j)
           | _ \<Rightarrow> (0, Some (j\<lparr>priority := p\<rparr>))))"

definition TPJobSetFreeFunction ::
  "ThreadPoolJob option \<Rightarrow> nat option \<Rightarrow> int \<times> ThreadPoolJob option" where
  "TPJobSetFreeFunction job fn =
     (case job of None \<Rightarrow> (EINVAL, None) | Some j \<Rightarrow> (0, Some (j\<lparr>job_free_func := fn\<rparr>)))"

subsection \<open>Attributes\<close>

definition TPAttrInit :: "ThreadPoolAttr option \<Rightarrow> int \<times> ThreadPoolAttr option" where
  "TPAttrInit atp =
     (case atp of
        None \<Rightarrow> (EINVAL, None)
      | Some a \<Rightarrow>
          (0, Some (a\<lparr>jobsPerThread := 10, maxIdleTime := 10 * 1000, maxThreads := 10,
                      minThreads := 1, stackSize := DEFAULT_STACK_SIZE,
                      schedPolicy := DEFAULT_POLICY, starvationTime := 500,
                      maxJobsTotal := 100\<rparr>)))"

definition TPAttr_set ::
  "(ThreadPoolAttr \<Rightarrow> ThreadPoolAttr) \<Rightarrow> ThreadPoolAttr option \<Rightarrow> int \<times> ThreadPoolAttr option" where
  "TPAttr_set f atp = (case atp of None \<Rightarrow> (EINVAL, None) | Some a \<Rightarrow> (0, Some (f a)))"

definition TPAttrSetMaxThreads :: "ThreadPoolAttr option \<Rightarrow> int \<Rightarrow> int \<times> ThreadPoolAttr option" where
  "TPAttrSetMaxThreads atp n = TPAttr_set (\<lambda>a. a\<lparr>maxThreads := n\<rparr>) atp"

definition TPAttrSetMinThreads :: "ThreadPoolAttr option \<Rightarrow> int \<Rightarrow> int \<times> ThreadPoolAttr option" where
  "TPAttrSetMinThreads atp n = TPAttr_set (\<lambda>a. a\<lparr>minThreads := n\<rparr>) atp"

definition TPAttrSetStackSize :: "ThreadPoolAttr option \<Rightarrow> int \<Rightarrow> int \<times> ThreadPoolAttr option" where
  "TPAttrSetStackSize atp n = TPAttr_set (\<lambda>a. a\<lparr>stackSize := n\<rparr>) atp"

definition TPAttrSetIdleTime :: "ThreadPoolAttr option \<Rightarrow> int \<Rightarrow> int \<times> ThreadPoolAttr option" where
  "TPAttrSetIdleTime atp n = TPAttr_set (\<lambda>a. a\<lparr>maxIdleTime := n\<rparr>) atp"

definition TPAttrSetJobsPerThread :: "ThreadPoolAttr option \<Rightarrow> int \<Rightarrow> int \<times> ThreadPoolAttr option" where
  "TPAttrSetJobsPerThread atp n = TPAttr_set (\<lambda>a. a\<lparr>jobsPerThread := n\<rparr>) atp"

definition TPAttrSetStarvationTime :: "ThreadPoolAttr option \<Rightarrow> int \<Rightarrow> int \<times> ThreadPoolAttr option" where
  "TPAttrSetStarvationTime atp n = TPAttr_set (\<lambda>a. a\<lparr>starvationTime := n\<rparr>) atp"

definition TPAttrSetSchedPolicy :: "ThreadPoolAttr option \<Rightarrow> int \<Rightarrow> int \<times> ThreadPoolAttr option" where
  "TPAttrSetSchedPolicy atp n = TPAttr_set (\<lambda>a. a\<lparr>schedPolicy := n\<rparr>) atp"

definition TPAttrSetMaxJobsTotal :: "ThreadPoolAttr option \<Rightarrow> int \<Rightarrow> int \<times> ThreadPoolAttr option" where
  "TPAttrSetMaxJobsTotal atp n = TPAttr_set (\<lambda>a. a\<lparr>maxJobsTotal := n\<rparr>) atp"

subsection \<open>Queues\<close>

text \<open>
  \<open>front_item q\<close> is \<open>q.head.next->item\<close>. The loops return \<open>None\<close> where they would not
  end or would follow a NULL pointer, which a well-formed pool excludes.
\<close>

definition front_item :: "job_ref LinkedList \<Rightarrow> job_ref option" where
  "front_item q = item (node q (next (node q Head)))"

definition starved ::
  "timeval \<Rightarrow> int \<Rightarrow> job_ref LinkedList \<Rightarrow> (job_ref \<times> int) option option" where
  "starved now limit q =
     (if lsize q \<noteq> 0
      then do {
        tempJob \<leftarrow> front_item q;
        let diffTime = DiffMillis now (requestTime (snd tempJob));
        Some (if diffTime \<ge> limit then Some (tempJob, diffTime) else None)
      }
      else Some None)"

definition bump_med :: "job_ref \<Rightarrow> int \<Rightarrow> ThreadPool \<Rightarrow> ThreadPool" where
  "bump_med tempJob diffTime tp =
     (let tp1 = StatsAccountMQ diffTime tp;
          (_, mq) = ListDelNode (medJobQ tp1) (next (node (medJobQ tp1) Head)) False;
          (_, hq) = ListAddTail (highJobQ tp1) (Some tempJob)
      in tp1\<lparr>medJobQ := mq, highJobQ := hq\<rparr>)"

definition bump_low :: "job_ref \<Rightarrow> int \<Rightarrow> ThreadPool \<Rightarrow> ThreadPool" where
  "bump_low tempJob diffTime tp =
     (let tp1 = StatsAccountLQ diffTime tp;
          (_, lq) = ListDelNode (lowJobQ tp1) (next (node (lowJobQ tp1) Head)) False;
          (_, mq) = ListAddTail (medJobQ tp1) (Some tempJob)
      in tp1\<lparr>lowJobQ := lq, medJobQ := mq\<rparr>)"

partial_function (option) BumpPriority :: "timeval \<Rightarrow> ThreadPool \<Rightarrow> ThreadPool option" where
  "BumpPriority now tp =
     do {
       med \<leftarrow> starved now (starvationTime (attr tp)) (medJobQ tp);
       case med of
         Some (tempJob, diffTime) \<Rightarrow> BumpPriority now (bump_med tempJob diffTime tp)
       | None \<Rightarrow>
           do {
             low \<leftarrow> starved now (maxIdleTime (attr tp)) (lowJobQ tp);
             case low of
               Some (tempJob, diffTime) \<Rightarrow> BumpPriority now (bump_low tempJob diffTime tp)
             | None \<Rightarrow> Some tp
           }
     }"

declare BumpPriority.simps [code]

text \<open>
  The pieces of \<open>WorkerThread\<close>. A worker's local variables are the job it has run, its
  \<open>persistent\<close> flag and \<open>start\<close>; between the pieces it waits or runs a job without the mutex.
\<close>

datatype worker_pc = W_new | W_started | W_idle | W_busy | W_done

record worker =
  w_pc :: worker_pc
  w_job :: "job_ref option"
  persistent :: int
  w_start :: int

definition new_worker :: worker where
  "new_worker = \<lparr>w_pc = W_new, w_job = None, persistent = -1, w_start = 0\<rparr>"

definition worker_enter :: "ThreadPool \<Rightarrow> ThreadPool" where
  "worker_enter tp = tp\<lparr>totalThreads := totalThreads tp + 1, pendingWorkerThreadStart := False\<rparr>"

definition worker_top :: "timeval \<Rightarrow> worker \<Rightarrow> ThreadPool \<Rightarrow> worker \<times> ThreadPool" where
  "worker_top now w tp =
     (let tp1 = (case w_job w of
                   Some job \<Rightarrow> FreeThreadPoolJob job (tp\<lparr>busyThreads := busyThreads tp - 1\<rparr>)
                 | None \<Rightarrow> tp);
          tp2 = tp1\<lparr>stats := (stats tp1)\<lparr>idleThreads := idleThreads (stats tp1) + 1,
                       totalWorkTime := totalWorkTime (stats tp1) + (tv_sec now - w_start w)\<rparr>\<rparr>;
          tp3 = (if persistent w = 0
                 then tp2\<lparr>stats := (stats tp2)\<lparr>workerThreads := workerThreads (stats tp2) - 1\<rparr>\<rparr>
                 else if persistent w = 1
                 then tp2\<lparr>persistentThreads := persistentThreads tp2 - 1\<rparr>
                 else tp2)
      in (w\<lparr>w_pc := W_idle, w_job := None, w_start := tv_sec now\<rparr>, tp3))"

definition no_work :: "ThreadPool \<Rightarrow> bool" where
  "no_work tp \<longleftrightarrow>
     lsize (lowJobQ tp) = 0 \<and> lsize (medJobQ tp) = 0 \<and> lsize (highJobQ tp) = 0 \<and>
     persistentJob tp = None \<and> \<not> shutdown tp"

definition should_die :: "bool \<Rightarrow> ThreadPool \<Rightarrow> bool" where
  "should_die timedout tp \<longleftrightarrow>
     (timedout \<and> totalThreads tp > minThreads (attr tp)) \<or>
     (maxThreads (attr tp) \<noteq> -1 \<and> totalThreads tp > maxThreads (attr tp))"

definition worker_exit :: "worker \<Rightarrow> ThreadPool \<Rightarrow> worker \<times> ThreadPool" where
  "worker_exit w tp = (w\<lparr>w_pc := W_done\<rparr>, tp\<lparr>totalThreads := totalThreads tp - 1\<rparr>)"

definition idle_dec :: "ThreadPool \<Rightarrow> ThreadPool" where
  "idle_dec tp = tp\<lparr>stats := (stats tp)\<lparr>idleThreads := idleThreads (stats tp) - 1\<rparr>\<rparr>"

definition worker_dec :: "ThreadPool \<Rightarrow> ThreadPool" where
  "worker_dec tp = tp\<lparr>stats := (stats tp)\<lparr>workerThreads := workerThreads (stats tp) - 1\<rparr>\<rparr>"

definition pick_from ::
  "timeval \<Rightarrow> ThreadPriority \<Rightarrow> job_ref LinkedList \<Rightarrow>
   (job_ref LinkedList \<Rightarrow> ThreadPool \<Rightarrow> ThreadPool) \<Rightarrow> worker \<Rightarrow> ThreadPool \<Rightarrow>
   (worker \<times> ThreadPool) option" where
  "pick_from now p q store w tp =
     (let head = ListHead q in
      if head = Null then Some (worker_exit w (worker_dec tp))
      else do {
        job \<leftarrow> item (node q head);
        let tp1 = CalcWaitTime now p job tp;
        let (_, q') = ListDelNode q head False;
        let tp2 = store q' tp1;
        Some (w\<lparr>w_job := Some job, w_pc := W_busy\<rparr>, tp2\<lparr>busyThreads := busyThreads tp2 + 1\<rparr>)
      })"

definition worker_choose :: "timeval \<Rightarrow> worker \<Rightarrow> ThreadPool \<Rightarrow> (worker \<times> ThreadPool) option" where
  "worker_choose now w1 tp =
     (if shutdown tp then Some (worker_exit w1 tp)
      else case persistentJob tp of
             Some job \<Rightarrow>
               Some (w1\<lparr>w_job := Some job, persistent := 1, w_pc := W_busy\<rparr>,
                     tp\<lparr>persistentJob := None, persistentThreads := persistentThreads tp + 1,
                        busyThreads := busyThreads tp + 1\<rparr>)
           | None \<Rightarrow>
               (let tp3 = tp\<lparr>stats := (stats tp)\<lparr>workerThreads := workerThreads (stats tp) + 1\<rparr>\<rparr>;
                    w2 = w1\<lparr>persistent := 0\<rparr>
                in if lsize (highJobQ tp3) > 0
                   then pick_from now HIGH_PRIORITY (highJobQ tp3) (\<lambda>q t. t\<lparr>highJobQ := q\<rparr>) w2 tp3
                   else if lsize (medJobQ tp3) > 0
                   then pick_from now MED_PRIORITY (medJobQ tp3) (\<lambda>q t. t\<lparr>medJobQ := q\<rparr>) w2 tp3
                   else if lsize (lowJobQ tp3) > 0
                   then pick_from now LOW_PRIORITY (lowJobQ tp3) (\<lambda>q t. t\<lparr>lowJobQ := q\<rparr>) w2 tp3
                   else Some (worker_exit w2 (worker_dec tp3))))"

definition worker_take :: "timeval \<Rightarrow> worker \<Rightarrow> ThreadPool \<Rightarrow> (worker \<times> ThreadPool) option" where
  "worker_take now w tp =
     (let tp1 = idle_dec tp;
          tp2 = tp1\<lparr>stats := (stats tp1)\<lparr>totalIdleTime :=
                    totalIdleTime (stats tp1) + (tv_sec now - w_start w)\<rparr>\<rparr>
      in do {
        tp3 \<leftarrow> BumpPriority now tp2;
        worker_choose now (w\<lparr>w_start := tv_sec now\<rparr>) tp3
      })"

text \<open>
  \<open>worker_resume\<close> is the code from the test of the waiting loop on: the worker goes (back) to
  sleep, dies, or takes a job. \<open>worker_loop\<close> is one turn of \<open>while (1)\<close>.
\<close>

definition worker_resume ::
  "timeval \<Rightarrow> bool \<Rightarrow> worker \<Rightarrow> ThreadPool \<Rightarrow> (worker \<times> ThreadPool) option" where
  "worker_resume now timedout w tp =
     (if no_work tp
      then if should_die timedout tp then Some (worker_exit w (idle_dec tp))
           else Some (w\<lparr>w_pc := W_idle\<rparr>, tp)
      else worker_take now w tp)"

definition worker_loop :: "timeval \<Rightarrow> worker \<Rightarrow> ThreadPool \<Rightarrow> (worker \<times> ThreadPool) option" where
  "worker_loop now w tp = (case worker_top now w tp of (w1, tp1) \<Rightarrow> worker_resume now False w1 tp1)"

subsection \<open>Creating workers\<close>

text \<open>
  \<open>CreateWorker\<close> waits twice on \<open>start_and_shutdown\<close>, which releases the mutex, so it is two
  pieces: up to the creation of the thread, and from the moment the new worker has started.
  The environment of a step supplies the clock, the result of \<open>pthread_create\<close> and the result
  of setting the scheduling policy.
\<close>

record env =
  clock :: timeval
  create_rc :: int
  policy_rc :: int

datatype cw = CW_wait | CW_spawned ThreadPool | CW_return int ThreadPool

definition note_max :: "ThreadPool \<Rightarrow> ThreadPool" where
  "note_max tp =
     (if st_maxThreads (stats tp) < totalThreads tp
      then tp\<lparr>stats := (stats tp)\<lparr>st_maxThreads := totalThreads tp\<rparr>\<rparr> else tp)"

definition CreateWorker_begin :: "env \<Rightarrow> ThreadPool \<Rightarrow> cw" where
  "CreateWorker_begin e tp =
     (if pendingWorkerThreadStart tp then CW_wait
      else if maxThreads (attr tp) \<noteq> INFINITE_THREADS \<and>
              totalThreads tp + 1 > maxThreads (attr tp)
      then CW_return EMAXTHREADS tp
      else if create_rc e = 0 then CW_spawned (tp\<lparr>pendingWorkerThreadStart := True\<rparr>)
      else CW_return (create_rc e) (note_max tp))"

definition CreateWorker_end :: "ThreadPool \<Rightarrow> cw" where
  "CreateWorker_end tp =
     (if pendingWorkerThreadStart tp then CW_wait else CW_return 0 (note_max tp))"

subsection \<open>The callers\<close>

text \<open>
  Where a caller is while it does not hold the mutex: before or after the creation of a thread
  (\<open>kont\<close> holds the local variables of the function that called \<open>CreateWorker\<close>), waiting for
  its persistent job to be picked up, about to call \<open>ThreadPoolShutdown\<close> or waiting in it, or
  returned with a result and, where one is written, the job id.
\<close>

datatype kont =
    K_init int
  | K_setattr int
  | K_add int int job_ref int
  | K_persistent ThreadPoolJob

datatype client =
    C_begin kont
  | C_end kont
  | C_picked
  | C_call_shutdown "int option"
  | C_shutdown "int option"
  | C_done int "int option"

definition add_finish :: "job_ref \<Rightarrow> int \<Rightarrow> ThreadPool \<Rightarrow> client \<times> bool \<times> ThreadPool" where
  "add_finish temp rc tp =
     (let tp1 = (if rc = 0 then tp else FreeThreadPoolJob temp tp)
      in (C_done rc (Some (lastJobId tp1)), False, tp1\<lparr>lastJobId := lastJobId tp1 + 1\<rparr>))"

definition persistent_enqueue ::
  "env \<Rightarrow> ThreadPoolJob \<Rightarrow> ThreadPool \<Rightarrow> client \<times> bool \<times> ThreadPool" where
  "persistent_enqueue e job tp =
     (case CreateThreadPoolJob (clock e) job (lastJobId tp) tp of
        (None, tp1) \<Rightarrow> (C_done EOUTOFMEM (Some INVALID_JOB_ID), False, tp1)
      | (Some temp, tp1) \<Rightarrow> (C_picked, False, tp1\<lparr>persistentJob := Some temp\<rparr>))"

text \<open>What the caller does when \<open>CreateWorker\<close> has failed, and when it has succeeded.\<close>

definition create_failed ::
  "env \<Rightarrow> kont \<Rightarrow> int \<Rightarrow> ThreadPool \<Rightarrow> client \<times> bool \<times> ThreadPool" where
  "create_failed e k rc tp =
     (case k of
        K_init i \<Rightarrow> (C_call_shutdown (Some rc), False, tp)
      | K_setattr i \<Rightarrow> (C_call_shutdown (Some rc), False, tp)
      | K_add jobs threads temp rc' \<Rightarrow> add_finish temp rc' tp
      | K_persistent job \<Rightarrow> persistent_enqueue e job tp)"

definition call_create :: "env \<Rightarrow> kont \<Rightarrow> ThreadPool \<Rightarrow> client \<times> bool \<times> ThreadPool" where
  "call_create e k tp =
     (case CreateWorker_begin e tp of
        CW_wait \<Rightarrow> (C_begin k, False, tp)
      | CW_spawned tp1 \<Rightarrow> (C_end k, True, tp1)
      | CW_return rc tp1 \<Rightarrow> create_failed e k rc tp1)"

definition addworker_test :: "int \<Rightarrow> int \<Rightarrow> ThreadPool \<Rightarrow> bool" where
  "addworker_test jobs threads tp \<longleftrightarrow>
     threads = 0 \<or> (jobs sdiv threads) \<ge> jobsPerThread (attr tp) \<or>
     totalThreads tp = busyThreads tp"

definition AddWorker ::
  "env \<Rightarrow> int \<Rightarrow> int \<Rightarrow> job_ref \<Rightarrow> int \<Rightarrow> ThreadPool \<Rightarrow> client \<times> bool \<times> ThreadPool" where
  "AddWorker e jobs threads temp rc tp =
     (if addworker_test jobs threads tp then call_create e (K_add jobs threads temp rc) tp
      else add_finish temp rc tp)"

definition create_succeeded :: "env \<Rightarrow> kont \<Rightarrow> ThreadPool \<Rightarrow> client \<times> bool \<times> ThreadPool" where
  "create_succeeded e k tp =
     (case k of
        K_init i \<Rightarrow>
          (if i + 1 < minThreads (attr tp) then call_create e (K_init (i + 1)) tp
           else (C_done 0 None, False, tp))
      | K_setattr i \<Rightarrow>
          (if i + 1 < minThreads (attr tp) then call_create e (K_setattr (i + 1)) tp
           else (C_done 0 None, False, tp))
      | K_add jobs threads temp rc \<Rightarrow> AddWorker e jobs (threads + 1) temp rc tp
      | K_persistent job \<Rightarrow> persistent_enqueue e job tp)"

definition ThreadPoolInit ::
  "env \<Rightarrow> int \<Rightarrow> ThreadPool \<Rightarrow> ThreadPoolAttr option \<Rightarrow> client \<times> bool \<times> ThreadPool" where
  "ThreadPoolInit e sync_rc tp a =
     (if sync_rc \<noteq> 0 then (C_done EAGAIN None, False, tp)
      else
        let tp1 = tp\<lparr>attr := (case a of Some x \<Rightarrow> x
                                      | None \<Rightarrow> the (snd (TPAttrInit (Some (attr tp)))))\<rparr>
        in if policy_rc e \<noteq> 0 then (C_done INVALID_POLICY None, False, tp1)
           else
             let (r0, fl) = FreeListInit 48 JOBFREELISTSIZE (jobFreeList tp1);
                 tp2 = tp1\<lparr>jobFreeList := fl, stats := StatsInit (stats tp1)\<rparr>;
                 (r1, hq) = ListInit (highJobQ tp2) (Some CmpThreadPoolJob) False;
                 (r2, mq) = ListInit (medJobQ tp2) (Some CmpThreadPoolJob) False;
                 (r3, lq) = ListInit (lowJobQ tp2) (Some CmpThreadPoolJob) False;
                 tp3 = tp2\<lparr>highJobQ := hq, medJobQ := mq, lowJobQ := lq\<rparr>
             in if r0 + r1 + r2 + r3 \<noteq> 0 then (C_call_shutdown (Some EAGAIN), False, tp3)
                else
                  let tp4 = tp3\<lparr>persistentJob := None, lastJobId := 0, shutdown := False,
                                totalThreads := 0, busyThreads := 0, persistentThreads := 0,
                                pendingWorkerThreadStart := False\<rparr>
                  in if 0 < minThreads (attr tp4) then call_create e (K_init 0) tp4
                     else (C_done 0 None, False, tp4))"

definition ThreadPoolAddPersistent ::
  "env \<Rightarrow> ThreadPoolJob option \<Rightarrow> ThreadPool \<Rightarrow> client \<times> bool \<times> ThreadPool" where
  "ThreadPoolAddPersistent e jo tp =
     (case jo of
        None \<Rightarrow> (C_done EINVAL None, False, tp)
      | Some job \<Rightarrow>
          if totalThreads tp < maxThreads (attr tp) then call_create e (K_persistent job) tp
          else if totalThreads tp - persistentThreads tp - 1 = 0
          then (C_done EMAXTHREADS (Some INVALID_JOB_ID), False, tp)
          else persistent_enqueue e job tp)"

definition total_jobs :: "ThreadPool \<Rightarrow> int" where
  "total_jobs tp = lsize (highJobQ tp) + lsize (lowJobQ tp) + lsize (medJobQ tp)"

definition enqueue :: "job_ref \<Rightarrow> ThreadPriority \<Rightarrow> ThreadPool \<Rightarrow> int \<times> ThreadPool" where
  "enqueue temp p tp =
     (case p of
        HIGH_PRIORITY \<Rightarrow>
          (case ListAddTail (highJobQ tp) (Some temp) of
             (r, q) \<Rightarrow> (if r \<noteq> Null then 0 else EOUTOFMEM, tp\<lparr>highJobQ := q\<rparr>))
      | MED_PRIORITY \<Rightarrow>
          (case ListAddTail (medJobQ tp) (Some temp) of
             (r, q) \<Rightarrow> (if r \<noteq> Null then 0 else EOUTOFMEM, tp\<lparr>medJobQ := q\<rparr>))
      | _ \<Rightarrow>
          (case ListAddTail (lowJobQ tp) (Some temp) of
             (r, q) \<Rightarrow> (if r \<noteq> Null then 0 else EOUTOFMEM, tp\<lparr>lowJobQ := q\<rparr>)))"

definition ThreadPoolAdd ::
  "env \<Rightarrow> ThreadPoolJob option \<Rightarrow> ThreadPool \<Rightarrow> client \<times> bool \<times> ThreadPool" where
  "ThreadPoolAdd e jo tp =
     (case jo of
        None \<Rightarrow> (C_done EINVAL None, False, tp)
      | Some job \<Rightarrow>
          if total_jobs tp \<ge> maxJobsTotal (attr tp) then (C_done EOUTOFMEM None, False, tp)
          else
            (case CreateThreadPoolJob (clock e) job (lastJobId tp) tp of
               (None, tp1) \<Rightarrow> (C_done EOUTOFMEM (Some INVALID_JOB_ID), False, tp1)
             | (Some temp, tp1) \<Rightarrow>
                 (case enqueue temp (priority job) tp1 of
                    (rc, tp2) \<Rightarrow>
                      AddWorker e (total_jobs tp2) (totalThreads tp2 - persistentThreads tp2)
                        temp rc tp2)))"

definition blank_job :: ThreadPoolJob where
  "blank_job = \<lparr>func = None, arg = None, job_free_func = None,
                requestTime = \<lparr>tv_sec = 0, tv_usec = 0\<rparr>, priority = LOW_PRIORITY, jobId = 0\<rparr>"

definition ThreadPoolRemove ::
  "int \<Rightarrow> ThreadPool \<Rightarrow> (int \<times> ThreadPoolJob option \<times> ThreadPool) option" where
  "ThreadPoolRemove i tp =
     (let dummy = Some (0, blank_job\<lparr>jobId := i\<rparr>) in
      do {
        hn \<leftarrow> ListFind (highJobQ tp) Null dummy;
        if hn \<noteq> Null
        then do {
          temp \<leftarrow> item (node (highJobQ tp) hn);
          Some (0, Some (snd temp),
                FreeThreadPoolJob temp (tp\<lparr>highJobQ := snd (ListDelNode (highJobQ tp) hn False)\<rparr>))
        }
        else do {
          mn \<leftarrow> ListFind (medJobQ tp) Null dummy;
          if mn \<noteq> Null
          then do {
            temp \<leftarrow> item (node (medJobQ tp) mn);
            Some (0, Some (snd temp),
                  FreeThreadPoolJob temp (tp\<lparr>medJobQ := snd (ListDelNode (medJobQ tp) mn False)\<rparr>))
          }
          else do {
            ln \<leftarrow> ListFind (lowJobQ tp) Null dummy;
            if ln \<noteq> Null
            then do {
              temp \<leftarrow> item (node (lowJobQ tp) ln);
              Some (0, Some (snd temp),
                    FreeThreadPoolJob temp (tp\<lparr>lowJobQ := snd (ListDelNode (lowJobQ tp) ln False)\<rparr>))
            }
            else
              case persistentJob tp of
                Some temp \<Rightarrow>
                  (if jobId (snd temp) = i
                   then Some (0, Some (snd temp),
                              (FreeThreadPoolJob temp tp)\<lparr>persistentJob := None\<rparr>)
                   else Some (INVALID_JOB_ID, None, tp))
              | None \<Rightarrow> Some (INVALID_JOB_ID, None, tp)
          }
        }
      })"

definition ThreadPoolGetAttr :: "ThreadPool \<Rightarrow> ThreadPoolAttr" where
  "ThreadPoolGetAttr tp = attr tp"

definition ThreadPoolSetAttr ::
  "env \<Rightarrow> ThreadPoolAttr option \<Rightarrow> ThreadPool \<Rightarrow> client \<times> bool \<times> ThreadPool" where
  "ThreadPoolSetAttr e a tp =
     (let temp = (case a of Some x \<Rightarrow> x | None \<Rightarrow> the (snd (TPAttrInit (Some (attr tp)))))
      in if policy_rc e \<noteq> 0 then (C_done INVALID_POLICY None, False, tp)
         else
           let tp1 = tp\<lparr>attr := temp\<rparr>
           in if totalThreads tp1 < minThreads (attr tp1)
              then call_create e (K_setattr (totalThreads tp1)) tp1
              else (C_done 0 None, False, tp1))"

subsection \<open>Shutting down\<close>

definition run_free_func :: "job_ref \<Rightarrow> ThreadPool \<Rightarrow> ThreadPool" where
  "run_free_func temp tp =
     (case job_free_func (snd temp) of
        Some f \<Rightarrow> tp\<lparr>freed_args := freed_args tp @ [(f, arg (snd temp))]\<rparr>
      | None \<Rightarrow> tp)"

text \<open>One of the three draining loops; \<open>get\<close> and \<open>put\<close> name its queue.\<close>

partial_function (option) drain ::
  "(ThreadPool \<Rightarrow> job_ref LinkedList) \<Rightarrow> (job_ref LinkedList \<Rightarrow> ThreadPool \<Rightarrow> ThreadPool) \<Rightarrow>
   ThreadPool \<Rightarrow> (int \<times> ThreadPool) option" where
  "drain get put tp =
     (if lsize (get tp) = 0 then Some (0, tp)
      else if ListHead (get tp) = Null then Some (EINVAL, tp)
      else do {
        temp \<leftarrow> item (node (get tp) (ListHead (get tp)));
        let tp1 = FreeThreadPoolJob temp (run_free_func temp tp);
        drain get put (put (snd (ListDelNode (get tp1) (ListHead (get tp)) False)) tp1)
      })"

declare drain.simps [code]

definition ThreadPoolShutdown_begin :: "ThreadPool \<Rightarrow> (int \<times> ThreadPool) option" where
  "ThreadPoolShutdown_begin tp =
     do {
       (rh, tp1) \<leftarrow> drain highJobQ (\<lambda>q t. t\<lparr>highJobQ := q\<rparr>) tp;
       if rh \<noteq> 0 then Some (rh, tp1)
       else do {
         (_, hq) \<leftarrow> ListDestroy (highJobQ tp1) False;
         (rm, tp2) \<leftarrow> drain medJobQ (\<lambda>q t. t\<lparr>medJobQ := q\<rparr>) (tp1\<lparr>highJobQ := hq\<rparr>);
         if rm \<noteq> 0 then Some (rm, tp2)
         else do {
           (_, mq) \<leftarrow> ListDestroy (medJobQ tp2) False;
           (rl, tp3) \<leftarrow> drain lowJobQ (\<lambda>q t. t\<lparr>lowJobQ := q\<rparr>) (tp2\<lparr>medJobQ := mq\<rparr>);
           if rl \<noteq> 0 then Some (rl, tp3)
           else do {
             (_, lq) \<leftarrow> ListDestroy (lowJobQ tp3) False;
             let tp4 = tp3\<lparr>lowJobQ := lq\<rparr>;
             let tp5 = (case persistentJob tp4 of
                          Some temp \<Rightarrow>
                            (FreeThreadPoolJob temp (run_free_func temp tp4))\<lparr>persistentJob := None\<rparr>
                        | None \<Rightarrow> tp4);
             Some (0, tp5\<lparr>shutdown := True\<rparr>)
           }
         }
       }
     }"

definition ThreadPoolShutdown_end :: "ThreadPool \<Rightarrow> ThreadPool option" where
  "ThreadPoolShutdown_end tp =
     map_option (\<lambda>(_, f). tp\<lparr>jobFreeList := f\<rparr>) (FreeListDestroy (jobFreeList tp))"

definition ThreadPoolGetStats :: "ThreadPool \<Rightarrow> ThreadPoolStats" where
  "ThreadPoolGetStats tp =
     (let st = stats tp in
      st\<lparr>avgWaitHQ := (if totalJobsHQ st > 0
                        then real_of_int (totalTimeHQ st) / real_of_int (totalJobsHQ st) else 0),
         avgWaitMQ := (if totalJobsMQ st > 0
                        then real_of_int (totalTimeMQ st) / real_of_int (totalJobsMQ st) else 0),
         avgWaitLQ := (if totalJobsLQ st > 0
                        then real_of_int (totalTimeLQ st) / real_of_int (totalJobsLQ st) else 0),
         st_totalThreads := totalThreads tp, st_persistentThreads := persistentThreads tp,
         currentJobsHQ := ListSize (highJobQ tp), currentJobsLQ := ListSize (lowJobQ tp),
         currentJobsMQ := ListSize (medJobQ tp)\<rparr>)"

end
