(* ===== verification/PoolQueues.thy ===== *)
theory PoolQueues
  imports ThreadPool
begin

text \<open>
  The three job queues of a pool: their abstraction to lists of jobs, the invariant
  \<open>queues_ok\<close>, and the effect of the sequential pieces of \<open>ThreadPool.c\<close> on them. Moving jobs
  between queues (\<open>BumpPriority\<close>) refines the function \<open>bump_spec\<close> on lists when no
  allocation fails, and only ever loses jobs when one does.
\<close>

subsection \<open>Abstraction\<close>

definition qjobs :: "job_ref LinkedList \<Rightarrow> job_ref list" where
  "qjobs q = map (\<lambda>e. the (snd e)) (entries q)"

definition queue_ok :: "job_ref LinkedList \<Rightarrow> bool" where
  "queue_ok q \<longleftrightarrow> List_ok q \<and> None \<notin> snd ` set (entries q) \<and>
     cmp_func q = Some CmpThreadPoolJob"

definition queues_ok :: "ThreadPool \<Rightarrow> bool" where
  "queues_ok tp \<longleftrightarrow> queue_ok (highJobQ tp) \<and> queue_ok (medJobQ tp) \<and> queue_ok (lowJobQ tp)"

definition pool_jobs :: "ThreadPool \<Rightarrow> job_ref list" where
  "pool_jobs tp =
     qjobs (highJobQ tp) @ qjobs (medJobQ tp) @ qjobs (lowJobQ tp) @
     (case persistentJob tp of Some j \<Rightarrow> [j] | None \<Rightarrow> [])"

lemma queue_ok_Cons:
  assumes "queue_ok q" and "qjobs q = x # xs"
  obtains a es where "entries q = (a, Some x) # es" and "map (\<lambda>e. the (snd e)) es = xs"
  using assms by (cases "entries q") (auto simp: queue_ok_def qjobs_def)

lemma queue_ok_size: "queue_ok q \<Longrightarrow> lsize q = int (length (qjobs q))"
  using List_ok_size [of q] by (simp add: queue_ok_def qjobs_def ListSize_def)

lemma queue_ok_empty: "queue_ok q \<Longrightarrow> lsize q = 0 \<longleftrightarrow> qjobs q = []"
  by (simp add: queue_ok_size)

lemma queue_ok_pos: "queue_ok q \<Longrightarrow> lsize q > 0 \<longleftrightarrow> qjobs q \<noteq> []"
  by (simp add: queue_ok_size)

lemma front_link: "queue_ok q \<Longrightarrow> qjobs q \<noteq> [] \<Longrightarrow> next (node q Head) = ListHead q"
  using queue_ok_size [of q] by (simp add: ListHead_def)

lemma front_item_queue:
  assumes "queue_ok q" and "qjobs q = x # xs"
  shows "ListHead q \<noteq> Null" and "item (node q (ListHead q)) = Some x" and "front_item q = Some x"
proof -
  from queue_ok_Cons [OF assms] obtain a es where en: "entries q = (a, Some x) # es" .
  have ok: "List_ok q" using assms(1) by (simp add: queue_ok_def)
  with en have h: "ListHead q = Blk a" by (simp add: ll.front_seq)
  moreover have "item (node q (Blk a)) = Some x" using ok en by (intro item_entries) auto
  ultimately show "ListHead q \<noteq> Null" and "item (node q (ListHead q)) = Some x" by simp_all
  then show "front_item q = Some x"
    using front_link [OF assms(1)] assms(2) by (simp add: front_item_def)
qed

lemma queue_del_front:
  assumes "queue_ok q" and "qjobs q = x # xs"
  shows "queue_ok (snd (ListDelNode q (ListHead q) False))"
    and "qjobs (snd (ListDelNode q (ListHead q) False)) = xs"
    and "fst (ListDelNode q (ListHead q) False) = Some x"
proof -
  from queue_ok_Cons [OF assms] obtain a es where
    en: "entries q = (a, Some x) # es" and es: "map (\<lambda>e. the (snd e)) es = xs" .
  obtain y q' where d: "ListDelNode q (ListHead q) False = (y, q')" by fastforce
  have ok: "List_ok q" using assms(1) by (simp add: queue_ok_def)
  with en have h: "ListHead q = Blk a" by (simp add: ll.front_seq)
  from ll.del_seq [OF ok, of "[]" a "Some x" es y q'] en d h
  have "List_ok q' \<and> entries q' = es \<and> y = Some x" by simp
  moreover have "cmp_func q' = cmp_func q"
    using cmp_func_ops(4) [of q "ListHead q" False] d by simp
  ultimately show "queue_ok (snd (ListDelNode q (ListHead q) False))"
    and "qjobs (snd (ListDelNode q (ListHead q) False)) = xs"
    and "fst (ListDelNode q (ListHead q) False) = Some x"
    using assms(1) en es d by (auto simp: queue_ok_def qjobs_def)
qed

lemma queue_add_tail:
  assumes "queue_ok q" and "ListAddTail q (Some x) = (r, q')"
  shows "queue_ok q'" and "qjobs q' = qjobs q @ (if r = Null then [] else [x])"
proof -
  have "List_ok q" using assms(1) by (simp add: queue_ok_def)
  from ll.add_tail_seq [OF this assms(2)] have
    "List_ok q' \<and> (r = Null \<and> entries q' = entries q \<or>
       (\<exists>a. r = Blk a \<and> entries q' = entries q @ [(a, Some x)]))" .
  moreover have "cmp_func q' = cmp_func q"
    using cmp_func_ops(3) [of q "Some x"] assms(2) by simp
  ultimately show "queue_ok q'" and "qjobs q' = qjobs q @ (if r = Null then [] else [x])"
    using assms(1) by (auto simp: queue_ok_def qjobs_def)
qed

subsection \<open>Frames\<close>

text \<open>The fields a piece of code leaves alone, apart from the queues and the time statistics.\<close>

definition same_core :: "ThreadPool \<Rightarrow> ThreadPool \<Rightarrow> bool" where
  "same_core tp tp' \<longleftrightarrow>
     lastJobId tp' = lastJobId tp \<and> shutdown tp' = shutdown tp \<and>
     totalThreads tp' = totalThreads tp \<and>
     pendingWorkerThreadStart tp' = pendingWorkerThreadStart tp \<and>
     busyThreads tp' = busyThreads tp \<and> persistentThreads tp' = persistentThreads tp \<and>
     jobFreeList tp' = jobFreeList tp \<and> persistentJob tp' = persistentJob tp \<and>
     attr tp' = attr tp \<and> idleThreads (stats tp') = idleThreads (stats tp) \<and>
     workerThreads (stats tp') = workerThreads (stats tp) \<and>
     freed_args tp' = freed_args tp"

lemma same_core_refl [simp]: "same_core tp tp"
  by (simp add: same_core_def)

lemma same_core_trans: "same_core a b \<Longrightarrow> same_core b c \<Longrightarrow> same_core a c"
  by (simp add: same_core_def)

lemma stats_frame:
  "same_core tp (StatsAccountHQ d tp)" "same_core tp (StatsAccountMQ d tp)"
  "same_core tp (StatsAccountLQ d tp)" "same_core tp (CalcWaitTime n p j tp)"
  by (auto simp: same_core_def StatsAccountHQ_def StatsAccountMQ_def StatsAccountLQ_def
        CalcWaitTime_def Let_def split: ThreadPriority.splits)

lemma stats_queues [simp]:
  "highJobQ (StatsAccountHQ d tp) = highJobQ tp" "medJobQ (StatsAccountHQ d tp) = medJobQ tp"
  "lowJobQ (StatsAccountHQ d tp) = lowJobQ tp"
  "highJobQ (StatsAccountMQ d tp) = highJobQ tp" "medJobQ (StatsAccountMQ d tp) = medJobQ tp"
  "lowJobQ (StatsAccountMQ d tp) = lowJobQ tp"
  "highJobQ (StatsAccountLQ d tp) = highJobQ tp" "medJobQ (StatsAccountLQ d tp) = medJobQ tp"
  "lowJobQ (StatsAccountLQ d tp) = lowJobQ tp"
  by (simp_all add: StatsAccountHQ_def StatsAccountMQ_def StatsAccountLQ_def)

lemma CalcWaitTime_queues [simp]:
  "highJobQ (CalcWaitTime n p j tp) = highJobQ tp"
  "medJobQ (CalcWaitTime n p j tp) = medJobQ tp"
  "lowJobQ (CalcWaitTime n p j tp) = lowJobQ tp"
  by (auto simp: CalcWaitTime_def Let_def split: ThreadPriority.splits)

subsection \<open>BumpPriority\<close>

definition waited :: "timeval \<Rightarrow> int \<Rightarrow> job_ref \<Rightarrow> bool" where
  "waited now limit j \<longleftrightarrow> DiffMillis now (requestTime (snd j)) \<ge> limit"

text \<open>
  The abstract behaviour: while the first job of the medium queue has waited long enough it
  goes to the high queue; then the first job of the low queue, if it has waited long enough,
  goes to the medium queue and the medium queue is looked at again.
\<close>

function bump_spec ::
  "('j \<Rightarrow> bool) \<Rightarrow> ('j \<Rightarrow> bool) \<Rightarrow> 'j list \<Rightarrow> 'j list \<Rightarrow> 'j list \<Rightarrow> 'j list \<times> 'j list \<times> 'j list" where
  "bump_spec sm sl hs (x # ms) ls =
     (if sm x then bump_spec sm sl (hs @ [x]) ms ls
      else case ls of
             y # ls' \<Rightarrow> (if sl y then bump_spec sm sl hs (x # ms @ [y]) ls' else (hs, x # ms, ls))
           | [] \<Rightarrow> (hs, x # ms, ls))"
| "bump_spec sm sl hs [] (y # ls) =
     (if sl y then bump_spec sm sl hs [y] ls else (hs, [], y # ls))"
| "bump_spec sm sl hs [] [] = (hs, [], [])"
  by pat_completeness auto
termination
  by (relation "measure (\<lambda>(sm, sl, hs, ms, ls). 2 * length ls + length ms)") auto

lemma starved_queue:
  assumes "queue_ok q"
  shows "starved now limit q =
           Some (case qjobs q of
                   [] \<Rightarrow> None
                 | x # _ \<Rightarrow> if waited now limit x
                            then Some (x, DiffMillis now (requestTime (snd x))) else None)"
proof (cases "qjobs q")
  case Nil
  with queue_ok_empty [OF assms] show ?thesis by (simp add: starved_def)
next
  case (Cons x xs)
  with front_item_queue [OF assms Cons] queue_ok_empty [OF assms]
  show ?thesis by (simp add: starved_def waited_def)
qed

lemma move_jobs:
  assumes "queue_ok p" and "queue_ok q" and "qjobs p = x # xs"
    and "ListDelNode p (next (node p Head)) False = (y, p')"
    and "ListAddTail q (Some x) = (r, q')"
  shows "queue_ok p'" and "qjobs p' = xs" and "queue_ok q'"
    and "qjobs q' = qjobs q @ (if r = Null then [] else [x])"
proof -
  have "next (node p Head) = ListHead p" using front_link assms(1,3) by simp
  with queue_del_front [OF assms(1,3)] assms(4) show "queue_ok p'" and "qjobs p' = xs"
    by auto
  from queue_add_tail [OF assms(2,5)] show "queue_ok q'"
    and "qjobs q' = qjobs q @ (if r = Null then [] else [x])" .
qed

definition queues_granted :: "ThreadPool \<Rightarrow> bool" where
  "queues_granted tp \<longleftrightarrow> granted (highJobQ tp) \<and> granted (medJobQ tp) \<and> granted (lowJobQ tp)"

lemma bump_med_step:
  assumes "queues_ok tp" and "qjobs (medJobQ tp) = x # ms" and "bump_med x d tp = tp'"
  shows "queues_ok tp'" and "same_core tp tp'" and "qjobs (medJobQ tp') = ms"
    and "lowJobQ tp' = lowJobQ tp"
    and "\<exists>ys. mset ys \<subseteq># {#x#} \<and> qjobs (highJobQ tp') = qjobs (highJobQ tp) @ ys"
    and "queues_granted tp \<Longrightarrow>
           queues_granted tp' \<and> qjobs (highJobQ tp') = qjobs (highJobQ tp) @ [x]"
proof -
  obtain y mq where d: "ListDelNode (medJobQ tp) (next (node (medJobQ tp) Head)) False = (y, mq)"
    by fastforce
  obtain r hq where a: "ListAddTail (highJobQ tp) (Some x) = (r, hq)" by fastforce
  have tp': "tp' = (StatsAccountMQ d tp)\<lparr>medJobQ := mq, highJobQ := hq\<rparr>"
    using assms(3) d a by (simp add: bump_med_def Let_def)
  have q: "queue_ok (medJobQ tp)" "queue_ok (highJobQ tp)" "queue_ok (lowJobQ tp)"
    using assms(1) by (auto simp: queues_ok_def)
  note m = move_jobs [OF q(1,2) assms(2) d a]
  have g: "granted mq = granted (medJobQ tp)"
    using granted_ListDelNode [of "medJobQ tp" "next (node (medJobQ tp) Head)" False] d by simp
  show "queues_ok tp'" using m q by (simp add: tp' queues_ok_def)
  show "same_core tp tp'" using stats_frame(2) [of tp d] by (simp add: tp' same_core_def)
  show "qjobs (medJobQ tp') = ms" using m by (simp add: tp')
  show "lowJobQ tp' = lowJobQ tp" by (simp add: tp')
  show "\<exists>ys. mset ys \<subseteq># {#x#} \<and> qjobs (highJobQ tp') = qjobs (highJobQ tp) @ ys"
    using m(4) by (auto simp: tp')
  show "queues_granted tp' \<and> qjobs (highJobQ tp') = qjobs (highJobQ tp) @ [x]"
    if "queues_granted tp"
    using granted_ListAddTail [OF _ a] that m(4) g by (auto simp: tp' queues_granted_def)
qed

lemma bump_low_step:
  assumes "queues_ok tp" and "qjobs (lowJobQ tp) = x # ls" and "bump_low x d tp = tp'"
  shows "queues_ok tp'" and "same_core tp tp'" and "qjobs (lowJobQ tp') = ls"
    and "highJobQ tp' = highJobQ tp"
    and "\<exists>ys. mset ys \<subseteq># {#x#} \<and> qjobs (medJobQ tp') = qjobs (medJobQ tp) @ ys"
    and "queues_granted tp \<Longrightarrow>
           queues_granted tp' \<and> qjobs (medJobQ tp') = qjobs (medJobQ tp) @ [x]"
proof -
  obtain y lq where d: "ListDelNode (lowJobQ tp) (next (node (lowJobQ tp) Head)) False = (y, lq)"
    by fastforce
  obtain r mq where a: "ListAddTail (medJobQ tp) (Some x) = (r, mq)" by fastforce
  have tp': "tp' = (StatsAccountLQ d tp)\<lparr>lowJobQ := lq, medJobQ := mq\<rparr>"
    using assms(3) d a by (simp add: bump_low_def Let_def)
  have q: "queue_ok (medJobQ tp)" "queue_ok (highJobQ tp)" "queue_ok (lowJobQ tp)"
    using assms(1) by (auto simp: queues_ok_def)
  note m = move_jobs [OF q(3,1) assms(2) d a]
  have g: "granted lq = granted (lowJobQ tp)"
    using granted_ListDelNode [of "lowJobQ tp" "next (node (lowJobQ tp) Head)" False] d by simp
  show "queues_ok tp'" using m q by (simp add: tp' queues_ok_def)
  show "same_core tp tp'" using stats_frame(3) [of tp d] by (simp add: tp' same_core_def)
  show "qjobs (lowJobQ tp') = ls" using m by (simp add: tp')
  show "highJobQ tp' = highJobQ tp" by (simp add: tp')
  show "\<exists>ys. mset ys \<subseteq># {#x#} \<and> qjobs (medJobQ tp') = qjobs (medJobQ tp) @ ys"
    using m(4) by (auto simp: tp')
  show "queues_granted tp' \<and> qjobs (medJobQ tp') = qjobs (medJobQ tp) @ [x]"
    if "queues_granted tp"
    using granted_ListAddTail [OF _ a] that m(4) g by (auto simp: tp' queues_granted_def)
qed

definition queued :: "ThreadPool \<Rightarrow> job_ref multiset" where
  "queued tp = mset (qjobs (highJobQ tp)) + mset (qjobs (medJobQ tp)) + mset (qjobs (lowJobQ tp))"

definition settled :: "timeval \<Rightarrow> ThreadPool \<Rightarrow> bool" where
  "settled now tp \<longleftrightarrow>
     (\<forall>x xs. qjobs (medJobQ tp) = x # xs \<longrightarrow> \<not> waited now (starvationTime (attr tp)) x) \<and>
     (\<forall>x xs. qjobs (lowJobQ tp) = x # xs \<longrightarrow> \<not> waited now (maxIdleTime (attr tp)) x)"

definition bump_result :: "timeval \<Rightarrow> ThreadPool \<Rightarrow> ThreadPool \<Rightarrow> bool" where
  "bump_result now tp tp' \<longleftrightarrow>
     queues_ok tp' \<and> same_core tp tp' \<and> queued tp' \<subseteq># queued tp \<and> settled now tp' \<and>
     (queues_granted tp \<longrightarrow>
        queues_granted tp' \<and>
        (qjobs (highJobQ tp'), qjobs (medJobQ tp'), qjobs (lowJobQ tp')) =
          bump_spec (waited now (starvationTime (attr tp))) (waited now (maxIdleTime (attr tp)))
            (qjobs (highJobQ tp)) (qjobs (medJobQ tp)) (qjobs (lowJobQ tp)))"

text \<open>One turn of the loop on the abstract lists.\<close>

lemma BumpPriority_med:
  assumes "queues_ok tp" and "qjobs (medJobQ tp) = x # ms"
    and "waited now (starvationTime (attr tp)) x"
  shows "BumpPriority now tp =
           BumpPriority now (bump_med x (DiffMillis now (requestTime (snd x))) tp)"
  using assms by (subst BumpPriority.simps) (simp add: starved_queue queues_ok_def)

lemma BumpPriority_low:
  assumes "queues_ok tp"
    and "\<forall>x ms. qjobs (medJobQ tp) = x # ms \<longrightarrow> \<not> waited now (starvationTime (attr tp)) x"
    and "qjobs (lowJobQ tp) = y # ls" and "waited now (maxIdleTime (attr tp)) y"
  shows "BumpPriority now tp =
           BumpPriority now (bump_low y (DiffMillis now (requestTime (snd y))) tp)"
  using assms
  by (subst BumpPriority.simps) (auto simp: starved_queue queues_ok_def split: list.splits)

lemma BumpPriority_stop:
  assumes "queues_ok tp" and "settled now tp"
  shows "BumpPriority now tp = Some tp"
  using assms
  by (subst BumpPriority.simps)
    (auto simp: starved_queue queues_ok_def settled_def split: list.splits)

lemma bump_spec_stop:
  assumes "\<forall>x xs. ms = x # xs \<longrightarrow> \<not> sm x" and "\<forall>y ys. ls = y # ys \<longrightarrow> \<not> sl y"
  shows "bump_spec sm sl hs ms ls = (hs, ms, ls)"
  using assms by (cases ms; cases ls) auto

lemma bump_spec_low:
  assumes "\<forall>x xs. ms = x # xs \<longrightarrow> \<not> sm x" and "sl y"
  shows "bump_spec sm sl hs ms (y # ls) = bump_spec sm sl hs (ms @ [y]) ls"
  using assms by (cases ms) auto

lemma bump_result_step:
  assumes "bump_result now tp1 tp'" and "same_core tp tp1" and "queued tp1 \<subseteq># queued tp"
    and "queues_granted tp \<Longrightarrow> queues_granted tp1"
    and "queues_granted tp \<Longrightarrow>
       bump_spec (waited now (starvationTime (attr tp))) (waited now (maxIdleTime (attr tp)))
          (qjobs (highJobQ tp1)) (qjobs (medJobQ tp1)) (qjobs (lowJobQ tp1)) =
       bump_spec (waited now (starvationTime (attr tp))) (waited now (maxIdleTime (attr tp)))
          (qjobs (highJobQ tp)) (qjobs (medJobQ tp)) (qjobs (lowJobQ tp))"
  shows "bump_result now tp tp'"
proof -
  have "attr tp1 = attr tp" using assms(2) by (simp add: same_core_def)
  with assms show ?thesis
    unfolding bump_result_def
    by (auto intro: same_core_trans subset_mset.order_trans)
qed

lemma BumpPriority_result:
  assumes "queues_ok tp"
  shows "\<exists>tp'. BumpPriority now tp = Some tp' \<and> bump_result now tp tp'"
  using assms
proof (induction "2 * length (qjobs (lowJobQ tp)) + length (qjobs (medJobQ tp))"
    arbitrary: tp rule: less_induct)
  case less
  show ?case
  proof (cases "\<exists>x ms. qjobs (medJobQ tp) = x # ms \<and> waited now (starvationTime (attr tp)) x")
    case True
    then obtain x ms where m: "qjobs (medJobQ tp) = x # ms"
      and w: "waited now (starvationTime (attr tp)) x" by blast
    let ?d = "DiffMillis now (requestTime (snd x))"
    obtain tp1 where tp1: "bump_med x ?d tp = tp1" by simp
    note st = bump_med_step [OF less.prems m tp1]
    from less.hyps [OF _ st(1)] obtain tp' where
      tp': "BumpPriority now tp1 = Some tp'" "bump_result now tp1 tp'"
      using m st(3,4) by auto
    have "queued tp1 \<subseteq># queued tp"
      using st(5) by (auto simp: queued_def st(3,4) m)
    with bump_result_step [OF tp'(2) st(2)] st(3,4,6) m w
    have "bump_result now tp tp'" by auto
    with BumpPriority_med [OF less.prems m w] tp1 tp'(1) show ?thesis by auto
  next
    case False
    then have nm: "\<forall>x ms. qjobs (medJobQ tp) = x # ms \<longrightarrow> \<not> waited now (starvationTime (attr tp)) x"
      by blast
    show ?thesis
    proof (cases "\<exists>y ls. qjobs (lowJobQ tp) = y # ls \<and> waited now (maxIdleTime (attr tp)) y")
      case True
      then obtain y ls where l: "qjobs (lowJobQ tp) = y # ls"
        and w: "waited now (maxIdleTime (attr tp)) y" by blast
      let ?d = "DiffMillis now (requestTime (snd y))"
      obtain tp1 where tp1: "bump_low y ?d tp = tp1" by simp
      note st = bump_low_step [OF less.prems l tp1]
      from st(5) obtain ys where ys: "mset ys \<subseteq># {#y#}"
        and m1: "qjobs (medJobQ tp1) = qjobs (medJobQ tp) @ ys" by blast
      from size_mset_mono [OF ys] have "length ys \<le> 1" by simp
      with less.hyps [OF _ st(1)] obtain tp' where
        tp': "BumpPriority now tp1 = Some tp'" "bump_result now tp1 tp'"
        using l m1 st(3) by auto
      have "queued tp1 \<subseteq># queued tp"
        using ys by (auto simp: queued_def st(3,4) m1 l)
      with bump_result_step [OF tp'(2) st(2)] st(3,4,6) l w bump_spec_low [OF nm, of "waited now (maxIdleTime (attr tp))" y]
      have "bump_result now tp tp'" by auto
      with BumpPriority_low [OF less.prems nm l w] tp1 tp'(1) show ?thesis by auto
    next
      case False
      with nm have s: "settled now tp" by (auto simp: settled_def)
      have "bump_spec (waited now (starvationTime (attr tp))) (waited now (maxIdleTime (attr tp)))
          (qjobs (highJobQ tp)) (qjobs (medJobQ tp)) (qjobs (lowJobQ tp)) =
          (qjobs (highJobQ tp), qjobs (medJobQ tp), qjobs (lowJobQ tp))"
        using s unfolding settled_def by (intro bump_spec_stop) blast+
      with less.prems s have "bump_result now tp tp" by (simp add: bump_result_def)
      with BumpPriority_stop [OF less.prems s] show ?thesis by auto
    qed
  qed
qed

text \<open>The abstract function only moves jobs, and keeps the order within what it moves.\<close>

lemma bump_spec_mset:
  "bump_spec sm sl hs ms ls = (hs', ms', ls') \<Longrightarrow>
     mset hs' + mset ms' + mset ls' = mset hs + mset ms + mset ls"
  by (induction sm sl hs ms ls rule: bump_spec.induct) (auto split: if_splits list.splits)

lemma bump_keeps:
  assumes "bump_result now tp tp'" and "queues_granted tp"
  shows "queued tp' = queued tp"
proof -
  from assms have
    "(qjobs (highJobQ tp'), qjobs (medJobQ tp'), qjobs (lowJobQ tp')) =
       bump_spec (waited now (starvationTime (attr tp))) (waited now (maxIdleTime (attr tp)))
         (qjobs (highJobQ tp)) (qjobs (medJobQ tp)) (qjobs (lowJobQ tp))"
    by (simp add: bump_result_def)
  from bump_spec_mset [OF this [symmetric]] show ?thesis by (simp add: queued_def)
qed

end
