(* ===== verification/PoolWorker.thy ===== *)
theory PoolWorker
  imports PoolQueues
begin

text \<open>
  What one turn of a worker does to the counters, the queues and the ownership of job blocks.
  Each worker contributes to the counters of the pool according to where it is
  (\<open>c_total\<close> and so on); a turn changes a counter by exactly the change of the worker's
  contribution (\<open>worker_delta\<close>).
\<close>

subsection \<open>Contributions of a worker\<close>

definition c_new :: "worker \<Rightarrow> int" where
  "c_new w = (if w_pc w = W_new then 1 else 0)"

definition c_total :: "worker \<Rightarrow> int" where
  "c_total w = (if w_pc w \<in> {W_started, W_idle, W_busy} then 1 else 0)"

definition c_busy :: "worker \<Rightarrow> int" where
  "c_busy w = (if w_pc w = W_busy then 1 else 0)"

definition c_persistent :: "worker \<Rightarrow> int" where
  "c_persistent w = (if w_pc w = W_busy \<and> persistent w = 1 then 1 else 0)"

definition c_working :: "worker \<Rightarrow> int" where
  "c_working w = (if w_pc w = W_busy \<and> persistent w = 0 then 1 else 0)"

definition c_idle :: "worker \<Rightarrow> int" where
  "c_idle w = (if w_pc w = W_idle then 1 else 0)"

lemmas contributions = c_new_def c_total_def c_busy_def c_persistent_def c_working_def c_idle_def

definition worker_wf :: "worker \<Rightarrow> bool" where
  "worker_wf w \<longleftrightarrow>
     (w_job w \<noteq> None \<longleftrightarrow> w_pc w = W_busy) \<and>
     (w_pc w = W_busy \<longrightarrow> persistent w \<in> {0, 1}) \<and>
     (w_pc w \<in> {W_new, W_started} \<longrightarrow> persistent w = -1)"

definition worker_delta :: "worker \<Rightarrow> ThreadPool \<Rightarrow> worker \<Rightarrow> ThreadPool \<Rightarrow> bool" where
  "worker_delta w tp w' tp' \<longleftrightarrow>
     totalThreads tp' - totalThreads tp = c_total w' - c_total w \<and>
     busyThreads tp' - busyThreads tp = c_busy w' - c_busy w \<and>
     persistentThreads tp' - persistentThreads tp = c_persistent w' - c_persistent w \<and>
     workerThreads (stats tp') - workerThreads (stats tp) = c_working w' - c_working w \<and>
     idleThreads (stats tp') - idleThreads (stats tp) = c_idle w' - c_idle w"

lemma worker_delta_trans:
  "worker_delta a tp b tp1 \<Longrightarrow> worker_delta b tp1 c tp2 \<Longrightarrow> worker_delta a tp c tp2"
  by (simp add: worker_delta_def)

text \<open>Fields no turn of a worker changes.\<close>

definition worker_frame :: "ThreadPool \<Rightarrow> ThreadPool \<Rightarrow> bool" where
  "worker_frame tp tp' \<longleftrightarrow>
     lastJobId tp' = lastJobId tp \<and> shutdown tp' = shutdown tp \<and> attr tp' = attr tp \<and>
     pendingWorkerThreadStart tp' = pendingWorkerThreadStart tp \<and>
     freed_args tp' = freed_args tp"

subsection \<open>Ownership of job blocks\<close>

definition job_addr :: "job_ref option \<Rightarrow> nat multiset" where
  "job_addr j = (case j of Some x \<Rightarrow> {#fst x#} | None \<Rightarrow> {#})"

definition queued_addrs :: "ThreadPool \<Rightarrow> nat multiset" where
  "queued_addrs tp = image_mset fst (queued tp) + job_addr (persistentJob tp)"

definition owns :: "ThreadPool \<Rightarrow> nat multiset \<Rightarrow> bool" where
  "owns tp X \<longleftrightarrow>
     (\<exists>us. FreeList_ok (jobFreeList tp) us \<and> set_mset X \<subseteq> us) \<and> (\<forall>a. count X a \<le> 1)"

lemma job_addr_simps [simp]: "job_addr None = {#}" "job_addr (Some x) = {#fst x#}"
  by (simp_all add: job_addr_def)

lemma owns_mono: "owns tp X \<Longrightarrow> Y \<subseteq># X \<Longrightarrow> jobFreeList tp' = jobFreeList tp \<Longrightarrow> owns tp' Y"
  unfolding owns_def
  by (metis (no_types, lifting) dual_order.trans mset_subset_eq_count set_mset_mono)

lemma owns_free:
  assumes "owns tp (add_mset (fst j) X)"
  shows "owns (FreeThreadPoolJob j tp) X"
proof -
  from assms obtain us where us: "FreeList_ok (jobFreeList tp) us"
    "set_mset (add_mset (fst j) X) \<subseteq> us" and c: "\<forall>a. count (add_mset (fst j) X) a \<le> 1"
    by (auto simp: owns_def)
  have "FreeList_ok (jobFreeList (FreeThreadPoolJob j tp)) (us - {fst j})"
    using us fl.release_ok [of "jobFreeList tp" us "fst j"] by (simp add: FreeThreadPoolJob_def)
  moreover have "fst j \<notin># X"
    using c [THEN spec, of "fst j"] by (simp add: count_eq_zero_iff [symmetric])
  moreover have "\<forall>a. count X a \<le> 1"
  proof
    fix a show "count X a \<le> 1" using c [THEN spec, of a] by (auto split: if_splits)
  qed
  ultimately show ?thesis using us(2) by (auto simp: owns_def)
qed

lemma owns_create:
  assumes "owns tp X" and "CreateThreadPoolJob n job i tp = (Some j, tp')"
  shows "owns tp' (add_mset (fst j) X)"
proof -
  from assms(1) obtain us where us: "FreeList_ok (jobFreeList tp) us" "set_mset X \<subseteq> us"
    and c: "\<forall>a. count X a \<le> 1" by (auto simp: owns_def)
  from assms(2) obtain f where a: "FreeListAlloc (jobFreeList tp) = (Some (fst j), f)"
    and tp': "tp' = tp\<lparr>jobFreeList := f\<rparr>"
    by (auto simp: CreateThreadPoolJob_def split: prod.splits option.splits)
  have "fst j \<notin> us" and ok: "FreeList_ok f (insert (fst j) us)"
    using fl.alloc_fresh [OF us(1) a] fl.alloc_ok [OF us(1) a] by auto
  then have "count X (fst j) = 0"
    using us(2) by (auto simp: count_eq_zero_iff)
  with ok us c show ?thesis by (auto simp: owns_def tp')
qed

lemma owns_create_fail:
  assumes "owns tp X" and "CreateThreadPoolJob n job i tp = (None, tp')"
  shows "owns tp' X"
  using assms fl.alloc_fail
  by (fastforce simp: owns_def CreateThreadPoolJob_def split: prod.splits option.splits)

subsection \<open>Taking a job\<close>

lemma pick_from_queue:
  assumes "queue_ok q" and "qjobs q = x # xs"
  shows "pick_from n p q store w tp =
           Some (w\<lparr>w_job := Some x, w_pc := W_busy\<rparr>,
                 (let t = store (snd (ListDelNode q (ListHead q) False)) (CalcWaitTime n p x tp)
                  in t\<lparr>busyThreads := busyThreads t + 1\<rparr>))"
  using front_item_queue [OF assms] by (simp add: pick_from_def Let_def case_prod_unfold)

definition next_job :: "ThreadPool \<Rightarrow> job_ref option" where
  "next_job tp =
     (case persistentJob tp of
        Some j \<Rightarrow> Some j
      | None \<Rightarrow> (case qjobs (highJobQ tp) @ qjobs (medJobQ tp) @ qjobs (lowJobQ tp) of
                   [] \<Rightarrow> None | x # _ \<Rightarrow> Some x))"

definition take_post :: "worker \<Rightarrow> ThreadPool \<Rightarrow> worker \<Rightarrow> ThreadPool \<Rightarrow> bool" where
  "take_post w tp w' tp' \<longleftrightarrow>
     queues_ok tp' \<and> worker_delta w tp w' tp' \<and> worker_wf w' \<and> worker_frame tp tp' \<and>
     jobFreeList tp' = jobFreeList tp \<and> w_pc w' \<in> {W_busy, W_done} \<and>
     job_addr (w_job w') + queued_addrs tp' \<subseteq># queued_addrs tp \<and>
     w_job w' = (if shutdown tp then None else next_job tp) \<and>
     (w_pc w' = W_done \<longrightarrow> \<not> shutdown tp \<longrightarrow> next_job tp = None)"

text \<open>A worker that has been counted out of the idle ones and is not yet counted in anywhere.\<close>

definition choosing :: "worker \<Rightarrow> ThreadPool \<Rightarrow> worker \<Rightarrow> ThreadPool \<Rightarrow> bool" where
  "choosing w tp w' tp' \<longleftrightarrow>
     totalThreads tp' - totalThreads tp = c_total w' - c_total w \<and>
     busyThreads tp' - busyThreads tp = c_busy w' - c_busy w \<and>
     persistentThreads tp' - persistentThreads tp = c_persistent w' - c_persistent w \<and>
     workerThreads (stats tp') - workerThreads (stats tp) = c_working w' - c_working w \<and>
     idleThreads (stats tp') = idleThreads (stats tp)"

lemma CalcWaitTime_fields [simp]:
  "totalThreads (CalcWaitTime n p j tp) = totalThreads tp"
  "busyThreads (CalcWaitTime n p j tp) = busyThreads tp"
  "persistentThreads (CalcWaitTime n p j tp) = persistentThreads tp"
  "workerThreads (stats (CalcWaitTime n p j tp)) = workerThreads (stats tp)"
  "idleThreads (stats (CalcWaitTime n p j tp)) = idleThreads (stats tp)"
  "jobFreeList (CalcWaitTime n p j tp) = jobFreeList tp"
  "persistentJob (CalcWaitTime n p j tp) = persistentJob tp"
  "shutdown (CalcWaitTime n p j tp) = shutdown tp"
  "attr (CalcWaitTime n p j tp) = attr tp"
  "lastJobId (CalcWaitTime n p j tp) = lastJobId tp"
  "pendingWorkerThreadStart (CalcWaitTime n p j tp) = pendingWorkerThreadStart tp"
  "freed_args (CalcWaitTime n p j tp) = freed_args tp"
  using stats_frame(4) [of tp n p j] by (simp_all add: same_core_def)

lemma queued_pick:
  assumes "queues_ok tp"
  shows "qjobs (highJobQ tp) = x # xs \<Longrightarrow>
           queued tp = add_mset x (queued (tp\<lparr>highJobQ := snd (ListDelNode (highJobQ tp) (ListHead (highJobQ tp)) False)\<rparr>))"
    and "qjobs (medJobQ tp) = x # xs \<Longrightarrow>
           queued tp = add_mset x (queued (tp\<lparr>medJobQ := snd (ListDelNode (medJobQ tp) (ListHead (medJobQ tp)) False)\<rparr>))"
    and "qjobs (lowJobQ tp) = x # xs \<Longrightarrow>
           queued tp = add_mset x (queued (tp\<lparr>lowJobQ := snd (ListDelNode (lowJobQ tp) (ListHead (lowJobQ tp)) False)\<rparr>))"
  using assms by (auto simp: queued_def queues_ok_def queue_del_front(2))

definition choose_post :: "worker \<Rightarrow> ThreadPool \<Rightarrow> worker \<Rightarrow> ThreadPool \<Rightarrow> bool" where
  "choose_post w tp w' tp' \<longleftrightarrow>
     queues_ok tp' \<and> choosing w tp w' tp' \<and> worker_wf w' \<and> worker_frame tp tp' \<and>
     jobFreeList tp' = jobFreeList tp \<and> w_pc w' \<in> {W_busy, W_done} \<and>
     job_addr (w_job w') + queued_addrs tp' \<subseteq># queued_addrs tp \<and>
     w_job w' = (if shutdown tp then None else next_job tp)"

lemmas choose_simps =
  choose_post_def choosing_def worker_frame_def worker_wf_def contributions queued_addrs_def
  next_job_def queues_ok_def queue_del_front

lemma worker_choose_ok:
  assumes q: "queues_ok tp" and w: "w_pc w = W_idle" "w_job w = None"
  shows "\<exists>w' tp'. worker_choose n w tp = Some (w', tp') \<and> choose_post w tp w' tp'"
proof -
  have ok: "queue_ok (highJobQ tp)" "queue_ok (medJobQ tp)" "queue_ok (lowJobQ tp)"
    using q by (auto simp: queues_ok_def)
  consider (sd) "shutdown tp"
    | (pj) j where "\<not> shutdown tp" "persistentJob tp = Some j"
    | (high) x xs where "\<not> shutdown tp" "persistentJob tp = None" "qjobs (highJobQ tp) = x # xs"
    | (med) x xs where "\<not> shutdown tp" "persistentJob tp = None" "qjobs (highJobQ tp) = []"
        "qjobs (medJobQ tp) = x # xs"
    | (low) x xs where "\<not> shutdown tp" "persistentJob tp = None" "qjobs (highJobQ tp) = []"
        "qjobs (medJobQ tp) = []" "qjobs (lowJobQ tp) = x # xs"
    | (none) "\<not> shutdown tp" "persistentJob tp = None" "qjobs (highJobQ tp) = []"
        "qjobs (medJobQ tp) = []" "qjobs (lowJobQ tp) = []"
    by (meson neq_Nil_conv not_None_eq)
  then show ?thesis
  proof cases
    case sd
    then show ?thesis using q w
      by (auto simp: worker_choose_def worker_exit_def choose_simps queued_def)
  next
    case pj
    then show ?thesis using q w
      by (auto simp: worker_choose_def choose_simps queued_def)
  next
    case high
    with q w ok queued_pick(1) [OF q high(3)] show ?thesis
      by (auto simp: worker_choose_def Let_def queue_ok_pos pick_from_queue choose_simps)
        (auto simp: queued_def)
  next
    case med
    with q w ok queued_pick(2) [OF q med(4)] show ?thesis
      by (auto simp: worker_choose_def Let_def queue_ok_pos pick_from_queue choose_simps)
        (auto simp: queued_def)
  next
    case low
    with q w ok queued_pick(3) [OF q low(5)] show ?thesis
      by (auto simp: worker_choose_def Let_def queue_ok_pos pick_from_queue choose_simps)
        (auto simp: queued_def)
  next
    case none
    with q w ok show ?thesis
      by (auto simp: worker_choose_def worker_exit_def worker_dec_def Let_def queue_ok_pos
          choose_simps queued_def)
  qed
qed

lemma bump_queued_addrs:
  assumes "bump_result n tp tp'"
  shows "queued_addrs tp' \<subseteq># queued_addrs tp"
  using assms
  by (auto simp: bump_result_def same_core_def queued_addrs_def intro: image_mset_subseteq_mono)

lemma next_job_empty: "next_job tp = None \<longleftrightarrow> queued tp = {#} \<and> persistentJob tp = None"
  by (auto simp: next_job_def queued_def split: option.splits list.splits)

text \<open>
  A worker woken up with something to do: it gets a job, or it leaves the pool because of a
  shutdown. With failing allocations it can also find that \<open>BumpPriority\<close> lost the last job.
\<close>

definition take_result :: "worker \<Rightarrow> ThreadPool \<Rightarrow> worker \<Rightarrow> ThreadPool \<Rightarrow> bool" where
  "take_result w tp w' tp' \<longleftrightarrow>
     queues_ok tp' \<and> worker_delta w tp w' tp' \<and> worker_wf w' \<and> worker_frame tp tp' \<and>
     jobFreeList tp' = jobFreeList tp \<and> w_pc w' \<in> {W_busy, W_done} \<and>
     job_addr (w_job w') + queued_addrs tp' \<subseteq># queued_addrs tp \<and>
     (queues_granted tp \<longrightarrow> w_pc w' = W_done \<longrightarrow> shutdown tp \<or> next_job tp = None)"

lemma worker_take_ok:
  assumes q: "queues_ok tp" and w: "w_pc w = W_idle" "w_job w = None"
  shows "\<exists>w' tp'. worker_take n w tp = Some (w', tp') \<and> take_result w tp w' tp'"
proof -
  define t2 where "t2 = (let tp1 = idle_dec tp
      in tp1\<lparr>stats := (stats tp1)\<lparr>totalIdleTime :=
             totalIdleTime (stats tp1) + (tv_sec n - w_start w)\<rparr>\<rparr>)"
  have t2: "highJobQ t2 = highJobQ tp" "medJobQ t2 = medJobQ tp" "lowJobQ t2 = lowJobQ tp"
    "persistentJob t2 = persistentJob tp" "jobFreeList t2 = jobFreeList tp" "attr t2 = attr tp"
    "shutdown t2 = shutdown tp" "worker_frame tp t2"
    "totalThreads t2 = totalThreads tp" "busyThreads t2 = busyThreads tp"
    "persistentThreads t2 = persistentThreads tp"
    "workerThreads (stats t2) = workerThreads (stats tp)"
    "idleThreads (stats t2) = idleThreads (stats tp) - 1"
    by (simp_all add: t2_def idle_dec_def Let_def worker_frame_def)
  from q t2 have "queues_ok t2" by (simp add: queues_ok_def)
  from BumpPriority_result [OF this, of n] obtain t3 where
    t3: "BumpPriority n t2 = Some t3" "bump_result n t2 t3" by blast
  then have q3: "queues_ok t3" and core: "same_core t2 t3" by (auto simp: bump_result_def)
  let ?w1 = "w\<lparr>w_start := tv_sec n\<rparr>"
  from worker_choose_ok [OF q3, of ?w1 n] w obtain w' tp' where
    c: "worker_choose n ?w1 t3 = Some (w', tp')" "choose_post ?w1 t3 w' tp'" by auto
  have "worker_take n w tp = Some (w', tp')"
    using t3(1) c(1) by (simp add: worker_take_def t2_def Let_def)
  moreover have "take_result w tp w' tp'"
  proof -
    have "job_addr (w_job w') + queued_addrs tp' \<subseteq># queued_addrs t2"
      using c(2) bump_queued_addrs [OF t3(2)]
      by (auto simp: choose_post_def intro: subset_mset.order_trans)
    moreover have "queued_addrs t2 = queued_addrs tp"
      by (simp add: queued_addrs_def queued_def t2)
    moreover have "worker_delta w tp w' tp'"
      using c(2) core t2(9-13) w
      by (auto simp: choose_post_def choosing_def worker_delta_def same_core_def contributions)
    moreover have "worker_frame tp tp'"
      using c(2) core t2(8) by (auto simp: choose_post_def worker_frame_def same_core_def)
    moreover have "shutdown tp \<or> next_job tp = None"
      if g: "queues_granted tp" and d: "w_pc w' = W_done"
    proof -
      have "w_job w' = None" using c(2) d unfolding choose_post_def worker_wf_def by fastforce
      moreover have "w_job w' = (if shutdown t3 then None else next_job t3)"
        using c(2) by (simp add: choose_post_def)
      ultimately have "shutdown t3 \<or> next_job t3 = None" by metis
      moreover have "queued t3 = queued t2"
        using bump_keeps [OF t3(2)] g by (simp add: queues_granted_def t2)
      ultimately show ?thesis
        using core t2 by (auto simp: next_job_empty same_core_def queued_def)
    qed
    ultimately show ?thesis
      using c(2) core t2(5) by (simp add: take_result_def choose_post_def same_core_def)
  qed
  ultimately show ?thesis by blast
qed

text \<open>
  The whole turn. \<open>died\<close>: a worker leaves only for a reason the attributes or a shutdown give.
\<close>

definition turn_result ::
  "bool \<Rightarrow> worker \<Rightarrow> ThreadPool \<Rightarrow> worker \<Rightarrow> ThreadPool \<Rightarrow> bool" where
  "turn_result timedout w tp w' tp' \<longleftrightarrow>
     queues_ok tp' \<and> worker_delta w tp w' tp' \<and> worker_wf w' \<and> worker_frame tp tp' \<and>
     w_pc w' \<in> {W_idle, W_busy, W_done} \<and>
     (\<forall>X. owns tp (X + job_addr (w_job w) + queued_addrs tp) \<longrightarrow>
          owns tp' (X + job_addr (w_job w') + queued_addrs tp')) \<and>
     (queues_granted tp \<longrightarrow> w_pc w' = W_done \<longrightarrow> shutdown tp \<or> should_die timedout tp)"

lemma no_work_next: "queues_ok tp \<Longrightarrow> \<not> shutdown tp \<Longrightarrow> no_work tp \<longleftrightarrow> next_job tp = None"
  by (auto simp: no_work_def next_job_def queues_ok_def queue_ok_empty
      split: option.splits list.splits)

lemma worker_resume_ok:
  assumes q: "queues_ok tp" and w: "w_pc w = W_idle" "w_job w = None"
  shows "\<exists>w' tp'. worker_resume n timedout w tp = Some (w', tp') \<and>
           turn_result timedout w tp w' tp'"
proof (cases "no_work tp")
  case True
  then have "worker_resume n timedout w tp =
      Some (if should_die timedout tp then worker_exit w (idle_dec tp) else (w, tp))"
    using w by (simp add: worker_resume_def)
  then show ?thesis using q w
    by (auto simp: turn_result_def worker_exit_def idle_dec_def worker_delta_def worker_wf_def
        worker_frame_def contributions queues_ok_def queued_addrs_def queued_def
        intro: owns_mono)
next
  case False
  from worker_take_ok [OF q w, of n] obtain w' tp' where
    t: "worker_take n w tp = Some (w', tp')" "take_result w tp w' tp'" by blast
  have "worker_resume n timedout w tp = Some (w', tp')"
    using False t(1) by (simp add: worker_resume_def)
  moreover have "shutdown tp \<or> next_job tp \<noteq> None"
    using False no_work_next [OF q] by blast
  then have "turn_result timedout w tp w' tp'"
    using t(2) w
    by (auto simp: turn_result_def take_result_def add.assoc intro: owns_mono)
  ultimately show ?thesis by blast
qed

lemma worker_top_ok:
  assumes q: "queues_ok tp" and wf: "worker_wf w" and pc: "w_pc w \<in> {W_started, W_busy}"
    and e: "worker_top n w tp = (w1, tp1)"
  shows "queues_ok tp1" and "w_pc w1 = W_idle" and "w_job w1 = None" and "worker_wf w1"
    and "worker_delta w tp w1 tp1" and "worker_frame tp tp1"
    and "owns tp (X + job_addr (w_job w) + queued_addrs tp) \<Longrightarrow> owns tp1 (X + queued_addrs tp1)"
    and "queues_granted tp1 = queues_granted tp"
proof -
  from e have w1: "w1 = w\<lparr>w_pc := W_idle, w_job := None, w_start := tv_sec n\<rparr>"
    and tp1: "tp1 = snd (worker_top n w tp)"
    by (auto simp: worker_top_def Let_def)
  have fields: "highJobQ tp1 = highJobQ tp" "medJobQ tp1 = medJobQ tp" "lowJobQ tp1 = lowJobQ tp"
    "persistentJob tp1 = persistentJob tp"
    "jobFreeList tp1 = (case w_job w of Some j \<Rightarrow> jobFreeList (FreeThreadPoolJob j tp)
                                      | None \<Rightarrow> jobFreeList tp)"
    by (auto simp: tp1 worker_top_def Let_def FreeThreadPoolJob_def split: option.splits)
  show "queues_ok tp1" using q fields by (simp add: queues_ok_def)
  show "queues_granted tp1 = queues_granted tp" using fields by (simp add: queues_granted_def)
  show "w_pc w1 = W_idle" "w_job w1 = None" "worker_wf w1"
    by (simp_all add: w1 worker_wf_def)
  show "worker_delta w tp w1 tp1"
    using wf pc by (auto simp: tp1 w1 worker_top_def Let_def worker_delta_def worker_wf_def
        contributions FreeThreadPoolJob_def split: option.splits)
  show "worker_frame tp tp1"
    by (auto simp: tp1 worker_top_def Let_def worker_frame_def FreeThreadPoolJob_def
        split: option.splits)
  have qa: "queued_addrs tp1 = queued_addrs tp"
    using fields by (simp add: queued_addrs_def queued_def)
  show "owns tp1 (X + queued_addrs tp1)" if o: "owns tp (X + job_addr (w_job w) + queued_addrs tp)"
  proof (cases "w_job w")
    case None
    with o fields qa show ?thesis by (simp add: owns_def)
  next
    case (Some j)
    with o have "owns tp (add_mset (fst j) (X + queued_addrs tp))" by (simp add: ac_simps)
    from owns_free [OF this] show ?thesis
      using fields Some qa by (simp add: owns_def)
  qed
qed

lemma worker_loop_ok:
  assumes "queues_ok tp" and "worker_wf w" and "w_pc w \<in> {W_started, W_busy}"
  shows "\<exists>w' tp'. worker_loop n w tp = Some (w', tp') \<and> turn_result False w tp w' tp'"
proof -
  obtain w1 tp1 where e: "worker_top n w tp = (w1, tp1)" by fastforce
  note top = worker_top_ok [OF assms e]
  from worker_resume_ok [OF top(1-3), of n False] obtain w' tp' where
    r: "worker_resume n False w1 tp1 = Some (w', tp')" "turn_result False w1 tp1 w' tp'" by blast
  have "turn_result False w tp w' tp'"
    unfolding turn_result_def
  proof (intro conjI allI impI)
    fix X assume "owns tp (X + job_addr (w_job w) + queued_addrs tp)"
    from top(7) [OF this] r(2) top(3) show "owns tp' (X + job_addr (w_job w') + queued_addrs tp')"
      by (simp add: turn_result_def)
  next
    assume "queues_granted tp" and "w_pc w' = W_done"
    with r(2) top(6,8) have "shutdown tp \<or> should_die False tp1"
      by (auto simp: turn_result_def worker_frame_def)
    moreover have "totalThreads tp1 = totalThreads tp"
      using top(2,5) assms(3) by (auto simp: worker_delta_def contributions)
    ultimately show "shutdown tp \<or> should_die False tp"
      using top(6) by (simp add: should_die_def worker_frame_def)
  qed (use r(2) top(5,6) worker_delta_trans in \<open>auto simp: turn_result_def worker_frame_def\<close>)
  with e r(1) show ?thesis by (auto simp: worker_loop_def)
qed

end
