(* ===== verification/PoolClients.thy ===== *)
theory PoolClients
  imports PoolWorker
begin

text \<open>
  What the callers' pieces of code do to the pool: \<open>ThreadPoolAdd\<close>,
  \<open>ThreadPoolAddPersistent\<close> and \<open>ThreadPoolSetAttr\<close>.
\<close>

subsection \<open>Contributions of a caller\<close>

fun kont_jobs :: "kont \<Rightarrow> nat multiset" where
  "kont_jobs (K_add jobs threads temp rc) = (if rc = 0 then {#} else {#fst temp#})"
| "kont_jobs _ = {#}"

fun client_jobs :: "client \<Rightarrow> nat multiset" where
  "client_jobs (C_begin k) = kont_jobs k"
| "client_jobs (C_end k) = kont_jobs k"
| "client_jobs _ = {#}"

definition client_frame :: "ThreadPool \<Rightarrow> ThreadPool \<Rightarrow> bool" where
  "client_frame tp tp' \<longleftrightarrow>
     totalThreads tp' = totalThreads tp \<and> busyThreads tp' = busyThreads tp \<and>
     persistentThreads tp' = persistentThreads tp \<and> shutdown tp' = shutdown tp \<and>
     idleThreads (stats tp') = idleThreads (stats tp) \<and>
     workerThreads (stats tp') = workerThreads (stats tp)"

text \<open>
  \<open>client_ok J tp r\<close>: the result \<open>r\<close> of a piece of a caller that held the job blocks \<open>J\<close>.
  A thread is created only if none is starting and the maximum allows one more.
\<close>

definition client_ok ::
  "nat multiset \<Rightarrow> ThreadPool \<Rightarrow> client \<times> bool \<times> ThreadPool \<Rightarrow> bool" where
  "client_ok J tp r \<longleftrightarrow>
     (case r of (c, spawned, tp') \<Rightarrow>
        queues_ok tp' \<and> client_frame tp tp' \<and> attr tp' = attr tp \<and>
        (queues_granted tp \<longrightarrow> queues_granted tp') \<and>
        pendingWorkerThreadStart tp' = (pendingWorkerThreadStart tp \<or> spawned) \<and>
        (spawned \<longrightarrow> \<not> pendingWorkerThreadStart tp \<and>
           (maxThreads (attr tp) = INFINITE_THREADS \<or> totalThreads tp + 1 \<le> maxThreads (attr tp))) \<and>
        (\<forall>X. owns tp (X + J + queued_addrs tp) \<longrightarrow>
             owns tp' (X + client_jobs c + queued_addrs tp')))"

definition client_prep :: "nat multiset \<Rightarrow> ThreadPool \<Rightarrow> nat multiset \<Rightarrow> ThreadPool \<Rightarrow> bool" where
  "client_prep J tp J1 tp1 \<longleftrightarrow>
     client_frame tp tp1 \<and> attr tp1 = attr tp \<and>
     (queues_granted tp \<longrightarrow> queues_granted tp1) \<and>
     pendingWorkerThreadStart tp1 = pendingWorkerThreadStart tp \<and>
     (\<forall>X. owns tp (X + J + queued_addrs tp) \<longrightarrow> owns tp1 (X + J1 + queued_addrs tp1))"

lemma client_ok_prep:
  "client_prep J tp J1 tp1 \<Longrightarrow> client_ok J1 tp1 r \<Longrightarrow> client_ok J tp r"
  by (auto simp: client_ok_def client_prep_def client_frame_def split: prod.splits)

lemma codes_nonzero [simp]:
  "EOUTOFMEM \<noteq> 0" "EMAXTHREADS \<noteq> 0" "INVALID_POLICY \<noteq> 0" "INVALID_JOB_ID \<noteq> 0" "EAGAIN \<noteq> 0"
  "EINVAL \<noteq> 0"
  by (simp_all add: EOUTOFMEM_def EMAXTHREADS_def INVALID_POLICY_def INVALID_JOB_ID_def errno_defs)

lemma client_ok_done: "queues_ok tp \<Longrightarrow> client_ok {#} tp (C_done r i, False, tp)"
  by (auto simp: client_ok_def client_frame_def)

lemma note_max_fields [simp]:
  "totalThreads (note_max tp) = totalThreads tp" "busyThreads (note_max tp) = busyThreads tp"
  "persistentThreads (note_max tp) = persistentThreads tp" "shutdown (note_max tp) = shutdown tp"
  "idleThreads (stats (note_max tp)) = idleThreads (stats tp)"
  "workerThreads (stats (note_max tp)) = workerThreads (stats tp)"
  "attr (note_max tp) = attr tp" "highJobQ (note_max tp) = highJobQ tp"
  "medJobQ (note_max tp) = medJobQ tp" "lowJobQ (note_max tp) = lowJobQ tp"
  "persistentJob (note_max tp) = persistentJob tp" "jobFreeList (note_max tp) = jobFreeList tp"
  "pendingWorkerThreadStart (note_max tp) = pendingWorkerThreadStart tp"
  "lastJobId (note_max tp) = lastJobId tp" "freed_args (note_max tp) = freed_args tp"
  by (simp_all add: note_max_def)

lemma note_max_prep: "client_prep J tp J (note_max tp)"
  by (auto simp: client_prep_def client_frame_def queues_granted_def queued_addrs_def queued_def
      intro: owns_mono)

lemma add_finish_ok:
  assumes "queues_ok tp"
  shows "client_ok (kont_jobs (K_add jobs threads temp rc)) tp (add_finish temp rc tp)"
proof (cases "rc = 0")
  case True
  with assms show ?thesis
    by (auto simp: add_finish_def client_ok_def client_frame_def queues_ok_def queues_granted_def
        queued_addrs_def queued_def intro: owns_mono)
next
  case False
  let ?tp' = "(FreeThreadPoolJob temp tp)\<lparr>lastJobId := lastJobId tp + 1\<rparr>"
  have qa: "queued_addrs ?tp' = queued_addrs tp"
    by (simp add: queued_addrs_def queued_def FreeThreadPoolJob_def)
  have o: "owns ?tp' (X + queued_addrs tp)"
    if "owns tp (add_mset (fst temp) (X + queued_addrs tp))" for X
    using owns_free [OF that] by (simp add: owns_def FreeThreadPoolJob_def)
  have "add_finish temp rc tp = (C_done rc (Some (lastJobId tp)), False, ?tp')"
    using False by (simp add: add_finish_def FreeThreadPoolJob_def)
  with assms False o qa show ?thesis
    by (simp add: client_ok_def client_frame_def queues_ok_def queues_granted_def
        FreeThreadPoolJob_def)
qed

lemma persistent_enqueue_ok:
  assumes "queues_ok tp"
  shows "client_ok {#} tp (persistent_enqueue e job tp)"
proof (cases "CreateThreadPoolJob (clock e) job (lastJobId tp) tp")
  case (Pair j tp1)
  have f: "highJobQ tp1 = highJobQ tp" "medJobQ tp1 = medJobQ tp" "lowJobQ tp1 = lowJobQ tp"
    "persistentJob tp1 = persistentJob tp" "attr tp1 = attr tp" "client_frame tp tp1"
    "pendingWorkerThreadStart tp1 = pendingWorkerThreadStart tp"
    using Pair by (auto simp: CreateThreadPoolJob_def client_frame_def
        split: prod.splits option.splits)
  have qa: "queued_addrs tp1 = queued_addrs tp" using f by (simp add: queued_addrs_def queued_def)
  show ?thesis
  proof (cases j)
    case None
    with Pair assms f qa owns_create_fail [of tp _ "clock e" job "lastJobId tp" tp1]
    show ?thesis
      by (auto simp: persistent_enqueue_def client_ok_def queues_ok_def queues_granted_def)
  next
    case (Some temp)
    have "owns (tp1\<lparr>persistentJob := Some temp\<rparr>)
        (X + queued_addrs (tp1\<lparr>persistentJob := Some temp\<rparr>))"
      if o: "owns tp (X + queued_addrs tp)" for X
    proof (rule owns_mono)
      show "owns tp1 (add_mset (fst temp) (X + queued_addrs tp))"
        using owns_create [OF o] Pair Some by simp
      show "X + queued_addrs (tp1\<lparr>persistentJob := Some temp\<rparr>)
          \<subseteq># add_mset (fst temp) (X + queued_addrs tp)"
        using f by (simp add: queued_addrs_def queued_def)
    qed simp
    with Pair Some assms f show ?thesis
      by (auto simp: persistent_enqueue_def client_ok_def client_frame_def queues_ok_def
          queues_granted_def)
  qed
qed

lemma create_failed_ok:
  assumes "queues_ok tp"
  shows "client_ok (kont_jobs k) tp (create_failed e k rc tp)"
proof (cases k)
  case (K_init i)
  with assms show ?thesis by (auto simp: create_failed_def client_ok_def client_frame_def)
next
  case (K_setattr i)
  with assms show ?thesis by (auto simp: create_failed_def client_ok_def client_frame_def)
next
  case (K_add jobs threads temp rc')
  with add_finish_ok [OF assms] show ?thesis by (simp add: create_failed_def)
next
  case (K_persistent job)
  with persistent_enqueue_ok [OF assms] show ?thesis by (simp add: create_failed_def)
qed

lemma call_create_ok:
  assumes "queues_ok tp"
  shows "client_ok (kont_jobs k) tp (call_create e k tp)"
proof (cases "CreateWorker_begin e tp")
  case CW_wait
  then have "pendingWorkerThreadStart tp" by (auto simp: CreateWorker_begin_def split: if_splits)
  with CW_wait assms show ?thesis by (auto simp: call_create_def client_ok_def client_frame_def)
next
  case (CW_spawned tp1)
  then have "tp1 = tp\<lparr>pendingWorkerThreadStart := True\<rparr>" "\<not> pendingWorkerThreadStart tp"
    "maxThreads (attr tp) = INFINITE_THREADS \<or> totalThreads tp + 1 \<le> maxThreads (attr tp)"
    by (auto simp: CreateWorker_begin_def split: if_splits)
  with CW_spawned assms show ?thesis
    by (auto simp: call_create_def client_ok_def client_frame_def queues_ok_def
        queues_granted_def queued_addrs_def queued_def intro: owns_mono)
next
  case (CW_return rc tp1)
  then have tp1: "tp1 = tp \<or> tp1 = note_max tp"
    by (auto simp: CreateWorker_begin_def split: if_splits)
  with assms have "queues_ok tp1" by (auto simp: queues_ok_def)
  from create_failed_ok [OF this] have f: "client_ok (kont_jobs k) tp1 (create_failed e k rc tp1)" .
  have "client_prep (kont_jobs k) tp (kont_jobs k) tp1"
    using tp1 note_max_prep by (auto simp: client_prep_def client_frame_def)
  from client_ok_prep [OF this f] CW_return show ?thesis by (simp add: call_create_def)
qed

lemma AddWorker_ok:
  assumes "queues_ok tp"
  shows "client_ok (kont_jobs (K_add jobs threads temp rc)) tp (AddWorker e jobs threads temp rc tp)"
  using assms add_finish_ok call_create_ok [of tp "K_add jobs threads temp rc" e]
  by (simp add: AddWorker_def)

lemma create_succeeded_ok:
  assumes "queues_ok tp"
  shows "client_ok (kont_jobs k) tp (create_succeeded e k tp)"
proof (cases k)
  case (K_init i)
  with assms call_create_ok [OF assms, of "K_init (i + 1)" e] client_ok_done [OF assms]
  show ?thesis by (simp add: create_succeeded_def)
next
  case (K_setattr i)
  with assms call_create_ok [OF assms, of "K_setattr (i + 1)" e] client_ok_done [OF assms]
  show ?thesis by (simp add: create_succeeded_def)
next
  case (K_add jobs threads temp rc)
  with AddWorker_ok [OF assms, of jobs "threads + 1" temp rc e] show ?thesis
    by (simp add: create_succeeded_def)
next
  case (K_persistent job)
  with persistent_enqueue_ok [OF assms] show ?thesis by (simp add: create_succeeded_def)
qed

lemma ThreadPoolAddPersistent_ok:
  assumes "queues_ok tp"
  shows "client_ok {#} tp (ThreadPoolAddPersistent e jo tp)"
proof (cases jo)
  case None
  with client_ok_done [OF assms] show ?thesis by (simp add: ThreadPoolAddPersistent_def)
next
  case (Some job)
  with call_create_ok [OF assms, of "K_persistent job" e] client_ok_done [OF assms]
    persistent_enqueue_ok [OF assms] show ?thesis
    by (simp add: ThreadPoolAddPersistent_def)
qed

lemma enqueue_result:
  assumes "queues_ok tp" and "enqueue temp p tp = (rc, tp')"
  shows "queues_ok tp'" and "same_core tp tp'" and "rc \<in> {0, EOUTOFMEM}"
    and "queued tp' = (if rc = 0 then add_mset temp (queued tp) else queued tp)"
    and "queues_granted tp \<Longrightarrow> queues_granted tp' \<and> rc = 0"
proof -
  have q: "queue_ok (highJobQ tp)" "queue_ok (medJobQ tp)" "queue_ok (lowJobQ tp)"
    using assms(1) by (auto simp: queues_ok_def)
  obtain rh hq rm mq rl lq where
    a: "ListAddTail (highJobQ tp) (Some temp) = (rh, hq)"
      "ListAddTail (medJobQ tp) (Some temp) = (rm, mq)"
      "ListAddTail (lowJobQ tp) (Some temp) = (rl, lq)"
    by (meson surj_pair)
  note adds = queue_add_tail [OF q(1) a(1)] queue_add_tail [OF q(2) a(2)]
    queue_add_tail [OF q(3) a(3)]
  have e: "(rc, tp') =
      (case p of
         HIGH_PRIORITY \<Rightarrow> (if rh \<noteq> Null then 0 else EOUTOFMEM, tp\<lparr>highJobQ := hq\<rparr>)
       | MED_PRIORITY \<Rightarrow> (if rm \<noteq> Null then 0 else EOUTOFMEM, tp\<lparr>medJobQ := mq\<rparr>)
       | _ \<Rightarrow> (if rl \<noteq> Null then 0 else EOUTOFMEM, tp\<lparr>lowJobQ := lq\<rparr>))"
    using assms(2) by (cases p) (simp_all add: enqueue_def a)
  show "queues_ok tp'" "same_core tp tp'" "rc \<in> {0, EOUTOFMEM}"
    using e q adds by (cases p; simp add: queues_ok_def same_core_def)+
  show "queued tp' = (if rc = 0 then add_mset temp (queued tp) else queued tp)"
    using e adds by (cases p) (simp_all add: queued_def)
  show "queues_granted tp \<Longrightarrow> queues_granted tp' \<and> rc = 0"
    using e granted_ListAddTail [OF _ a(1)] granted_ListAddTail [OF _ a(2)]
      granted_ListAddTail [OF _ a(3)]
    by (cases p) (simp_all add: queues_granted_def)
qed

lemma ThreadPoolAdd_ok:
  assumes "queues_ok tp"
  shows "client_ok {#} tp (ThreadPoolAdd e jo tp)"
proof (cases jo)
  case None
  with client_ok_done [OF assms] show ?thesis by (simp add: ThreadPoolAdd_def)
next
  case (Some job)
  show ?thesis
  proof (cases "CreateThreadPoolJob (clock e) job (lastJobId tp) tp")
    case (Pair j tp1)
    have f: "highJobQ tp1 = highJobQ tp" "medJobQ tp1 = medJobQ tp" "lowJobQ tp1 = lowJobQ tp"
      "persistentJob tp1 = persistentJob tp" "attr tp1 = attr tp" "client_frame tp tp1"
      "pendingWorkerThreadStart tp1 = pendingWorkerThreadStart tp"
      using Pair by (auto simp: CreateThreadPoolJob_def client_frame_def
          split: prod.splits option.splits)
    then have q1: "queues_ok tp1" and qa: "queued_addrs tp1 = queued_addrs tp"
      using assms by (simp_all add: queues_ok_def queued_addrs_def queued_def)
    show ?thesis
    proof (cases j)
      case None
      have "client_ok {#} tp (C_done EOUTOFMEM (Some INVALID_JOB_ID), False, tp1)"
        using Pair None f q1 qa owns_create_fail [of tp _ "clock e" job "lastJobId tp" tp1]
        by (auto simp: client_ok_def queues_granted_def)
      with Some Pair None client_ok_done [OF assms] show ?thesis by (simp add: ThreadPoolAdd_def)
    next
      case j: (Some temp)
      obtain rc tp2 where en: "enqueue temp (priority job) tp1 = (rc, tp2)" by fastforce
      note r = enqueue_result [OF q1 en]
      have "client_prep {#} tp (kont_jobs (K_add jobs threads temp rc)) tp2" for jobs threads
        unfolding client_prep_def
      proof (intro conjI allI impI)
        fix X assume "owns tp (X + {#} + queued_addrs tp)"
        then have "owns tp1 (add_mset (fst temp) (X + queued_addrs tp))"
          using owns_create Pair j by simp
        then show "owns tp2 (X + kont_jobs (K_add jobs threads temp rc) + queued_addrs tp2)"
          by (rule owns_mono) (use r f qa in
              \<open>auto simp: same_core_def queued_addrs_def\<close>)
      qed (use r(2,5) f in \<open>auto simp: same_core_def client_frame_def queues_granted_def\<close>)
      from client_ok_prep [OF this AddWorker_ok [OF r(1)]] client_ok_done [OF assms]
      show ?thesis
        using Some Pair j en by (auto simp: ThreadPoolAdd_def)
    qed
  qed
qed

end
