(* ===== verification/PoolShutdown.thy ===== *)
theory PoolShutdown
  imports PoolClients
begin

text \<open>
  The callers' operations that take jobs out of the pool: \<open>ThreadPoolRemove\<close> and
  \<open>ThreadPoolShutdown\<close>. The three queue fields are handled uniformly through the locale
  \<open>queue_field\<close>.
\<close>

subsection \<open>Removing a job\<close>

fun remove_job :: "int \<Rightarrow> job_ref list \<Rightarrow> (job_ref \<times> job_ref list) option" where
  "remove_job i [] = None"
| "remove_job i (j # js) =
     (if jobId (snd j) = i then Some (j, js)
      else map_option (\<lambda>(x, r). (x, j # r)) (remove_job i js))"

lemma remove_job_append:
  "remove_job i (xs @ ys) =
     (case remove_job i xs of
        Some (j, r) \<Rightarrow> Some (j, r @ ys)
      | None \<Rightarrow> map_option (\<lambda>(j, r). (j, xs @ r)) (remove_job i ys))"
proof (induction xs)
  case Nil
  then show ?case by (cases "remove_job i ys") auto
next
  case (Cons x xs)
  then show ?case by (cases "remove_job i ys") (auto split: option.splits)
qed

lemma remove_job_split:
  "remove_job i (map f es) =
     (case dropWhile (\<lambda>e. jobId (snd (f e)) \<noteq> i) es of
        [] \<Rightarrow> None
      | e # fs \<Rightarrow> Some (f e, map f (takeWhile (\<lambda>e. jobId (snd (f e)) \<noteq> i) es @ fs)))"
proof (induction es)
  case Nil
  then show ?case by simp
next
  case (Cons e es)
  then show ?case
    by (cases "dropWhile (\<lambda>e. jobId (snd (f e)) \<noteq> i) es")
      (auto simp del: dropWhile_eq_Nil_conv)
qed

lemma ListFind_job:
  assumes "queue_ok q"
  shows "ListFind q Null (Some (0, blank_job\<lparr>jobId := i\<rparr>)) =
           Some (first_addr (dropWhile (\<lambda>e. jobId (snd (the (snd e))) \<noteq> i) (entries q)))"
proof -
  have m: "(\<not> matches q (Some (0, blank_job\<lparr>jobId := i\<rparr>)) (snd e)) =
        (jobId (snd (the (snd e))) \<noteq> i)" if "e \<in> set (entries q)" for e
  proof -
    from assms that obtain j where "snd e = Some j"
      unfolding queue_ok_def by (metis image_eqI option.exhaust)
    with assms show ?thesis by (auto simp: queue_ok_def matches_def)
  qed
  have "dropWhile (\<lambda>e. \<not> matches q (Some (0, blank_job\<lparr>jobId := i\<rparr>)) (snd e)) (entries q) =
        dropWhile (\<lambda>e. jobId (snd (the (snd e))) \<noteq> i) (entries q)"
    by (intro dropWhile_cong refl) (rule m)
  with assms show ?thesis by (simp add: ListFind_entries queue_ok_def)
qed

lemma queue_remove_None:
  assumes "queue_ok q" and "remove_job i (qjobs q) = None"
  shows "ListFind q Null (Some (0, blank_job\<lparr>jobId := i\<rparr>)) = Some Null"
proof -
  have "dropWhile (\<lambda>e. jobId (snd (the (snd e))) \<noteq> i) (entries q) = []"
    using assms(2) unfolding qjobs_def remove_job_split by (auto split: list.splits)
  with ListFind_job [OF assms(1), of i] show ?thesis by simp
qed

lemma queue_remove_Some:
  assumes "queue_ok q" and "remove_job i (qjobs q) = Some (j, js)"
  shows "\<exists>n. ListFind q Null (Some (0, blank_job\<lparr>jobId := i\<rparr>)) = Some n \<and> n \<noteq> Null \<and>
           item (node q n) = Some j \<and> queue_ok (snd (ListDelNode q n False)) \<and>
           qjobs (snd (ListDelNode q n False)) = js"
proof -
  let ?P = "\<lambda>e. jobId (snd (the (snd e))) \<noteq> i"
  from assms(2) obtain e fs where d: "dropWhile ?P (entries q) = e # fs"
    and j: "j = the (snd e)" and js: "js = map (\<lambda>e. the (snd e)) (takeWhile ?P (entries q) @ fs)"
    unfolding qjobs_def remove_job_split by (auto split: list.splits)
  obtain a x where e: "e = (a, x)" by (cases e)
  let ?es = "takeWhile ?P (entries q)"
  have en: "entries q = ?es @ (a, x) # fs"
    using takeWhile_dropWhile_id [of ?P "entries q"] d e by simp
  have ok: "List_ok q" and ns: "None \<notin> snd ` set (entries q)" and c: "cmp_func q = Some CmpThreadPoolJob"
    using assms(1) by (auto simp: queue_ok_def)
  have mem: "(a, x) \<in> set (entries q)" by (subst en) simp
  with ns have x: "x = Some j" using j e by (cases x) force+
  obtain y q' where del: "ListDelNode q (Blk a) False = (y, q')" by fastforce
  from ll.del_seq [OF ok en del] have q': "List_ok q'" "entries q' = ?es @ fs" by auto
  have "None \<notin> snd ` set (entries q')"
    using ns unfolding q'(2) by (subst (asm) en) auto
  moreover have "cmp_func q' = Some CmpThreadPoolJob"
    using cmp_func_ops(4) [of q "Blk a" False] del c by simp
  ultimately have "queue_ok q'" using q'(1) by (simp add: queue_ok_def)
  moreover have "qjobs q' = js" by (simp add: qjobs_def q'(2) js)
  moreover have "item (node q (Blk a)) = Some j" using item_entries [OF ok mem] x by simp
  moreover have "ListFind q Null (Some (0, blank_job\<lparr>jobId := i\<rparr>)) = Some (Blk a)"
    using ListFind_job [OF assms(1), of i] d e by simp
  ultimately show ?thesis using del by (intro exI [of _ "Blk a"]) simp
qed

definition remove_post ::
  "int \<Rightarrow> ThreadPool \<Rightarrow> int \<Rightarrow> ThreadPoolJob option \<Rightarrow> ThreadPool \<Rightarrow> bool" where
  "remove_post i tp rc out tp' \<longleftrightarrow>
     (case remove_job i (pool_jobs tp) of
        None \<Rightarrow> rc = INVALID_JOB_ID \<and> out = None \<and> tp' = tp
      | Some (j, js) \<Rightarrow>
          rc = 0 \<and> out = Some (snd j) \<and> queues_ok tp' \<and> pool_jobs tp' = js \<and>
          jobFreeList tp' = jobFreeList (FreeThreadPoolJob j tp) \<and>
          client_frame tp tp' \<and> attr tp' = attr tp \<and>
          pendingWorkerThreadStart tp' = pendingWorkerThreadStart tp)"

lemma ThreadPoolRemove_ok:
  assumes "queues_ok tp"
  shows "\<exists>rc out tp'. ThreadPoolRemove i tp = Some (rc, out, tp') \<and> remove_post i tp rc out tp'"
proof -
  have q: "queue_ok (highJobQ tp)" "queue_ok (medJobQ tp)" "queue_ok (lowJobQ tp)"
    using assms by (auto simp: queues_ok_def)
  note frame = remove_post_def client_frame_def pool_jobs_def remove_job_append queues_ok_def
    FreeThreadPoolJob_def Let_def
  show ?thesis
  proof (cases "remove_job i (qjobs (highJobQ tp))")
    case (Some p)
    then obtain j js where r: "remove_job i (qjobs (highJobQ tp)) = Some (j, js)" by (cases p) simp
    from queue_remove_Some [OF q(1) r] q r show ?thesis
      by (auto simp: ThreadPoolRemove_def frame)
  next
    case h: None
    note h' = queue_remove_None [OF q(1) h]
    show ?thesis
    proof (cases "remove_job i (qjobs (medJobQ tp))")
      case (Some p)
      then obtain j js where r: "remove_job i (qjobs (medJobQ tp)) = Some (j, js)" by (cases p) simp
      from queue_remove_Some [OF q(2) r] q r h h' show ?thesis
        by (auto simp: ThreadPoolRemove_def frame)
    next
      case m: None
      note m' = queue_remove_None [OF q(2) m]
      show ?thesis
      proof (cases "remove_job i (qjobs (lowJobQ tp))")
        case (Some p)
        then obtain j js where r: "remove_job i (qjobs (lowJobQ tp)) = Some (j, js)"
          by (cases p) simp
        from queue_remove_Some [OF q(3) r] q r h h' m m' show ?thesis
          by (auto simp: ThreadPoolRemove_def frame)
      next
        case None
        with queue_remove_None [OF q(3) None] q h h' m m' show ?thesis
          by (auto simp: ThreadPoolRemove_def frame split: option.splits)
      qed
    qed
  qed
qed

subsection \<open>Draining a queue\<close>

text \<open>What shutting down does with a job: its free function runs, its block is released.\<close>

definition discard :: "job_ref \<Rightarrow> ThreadPool \<Rightarrow> ThreadPool" where
  "discard j tp = FreeThreadPoolJob j (run_free_func j tp)"

definition free_calls :: "job_ref list \<Rightarrow> (nat \<times> nat option) list" where
  "free_calls js =
     concat (map (\<lambda>j. case job_free_func (snd j) of Some f \<Rightarrow> [(f, arg (snd j))] | None \<Rightarrow> []) js)"

lemma free_calls_simps [simp]:
  "free_calls [] = []" "free_calls (xs @ ys) = free_calls xs @ free_calls ys"
  "free_calls (j # js) =
     (case job_free_func (snd j) of Some f \<Rightarrow> [(f, arg (snd j))] | None \<Rightarrow> []) @ free_calls js"
  by (simp_all add: free_calls_def)

lemma discard_fields [simp]:
  "highJobQ (discard j tp) = highJobQ tp" "medJobQ (discard j tp) = medJobQ tp"
  "lowJobQ (discard j tp) = lowJobQ tp" "persistentJob (discard j tp) = persistentJob tp"
  "attr (discard j tp) = attr tp" "client_frame tp (discard j tp)"
  "pendingWorkerThreadStart (discard j tp) = pendingWorkerThreadStart tp"
  "freed_args (discard j tp) = freed_args tp @ free_calls [j]"
  "shutdown (discard j tp) = shutdown tp"
  by (auto simp: discard_def run_free_func_def FreeThreadPoolJob_def client_frame_def
      split: option.splits)

lemma owns_discard: "owns tp (add_mset (fst j) X) \<Longrightarrow> owns (discard j tp) X"
  using owns_free [of "run_free_func j tp" j X]
  by (auto simp: discard_def run_free_func_def owns_def split: option.splits)

lemma fold_discard_fields [simp]:
  "highJobQ (fold discard js tp) = highJobQ tp" "medJobQ (fold discard js tp) = medJobQ tp"
  "lowJobQ (fold discard js tp) = lowJobQ tp" "persistentJob (fold discard js tp) = persistentJob tp"
  "attr (fold discard js tp) = attr tp"
  "pendingWorkerThreadStart (fold discard js tp) = pendingWorkerThreadStart tp"
  "freed_args (fold discard js tp) = freed_args tp @ free_calls js"
  "shutdown (fold discard js tp) = shutdown tp"
  by (induction js arbitrary: tp) auto

lemma client_frame_trans: "client_frame a b \<Longrightarrow> client_frame b c \<Longrightarrow> client_frame a c"
  by (simp add: client_frame_def)

lemma fold_discard_frame [simp]: "client_frame tp (fold discard js tp)"
proof (induction js arbitrary: tp)
  case Nil
  then show ?case by (simp add: client_frame_def)
next
  case (Cons j js)
  from client_frame_trans [OF discard_fields(6) Cons.IH] show ?case by simp
qed

lemma owns_fold_discard:
  "owns tp (X + mset (map fst js)) \<Longrightarrow> owns (fold discard js tp) X"
proof (induction js arbitrary: tp)
  case Nil
  then show ?case by simp
next
  case (Cons j js)
  from Cons.prems have "owns (discard j tp) (X + mset (map fst js))"
    by (intro owns_discard) (simp add: ac_simps)
  from Cons.IH [OF this] show ?case by simp
qed

text \<open>
  A queue field of the pool: how it is read and written, and that writing it commutes with
  releasing a job. The three loops of \<open>ThreadPoolShutdown\<close> are one lemma in this locale.
\<close>

locale queue_field =
  fixes get :: "ThreadPool \<Rightarrow> job_ref LinkedList"
    and put :: "job_ref LinkedList \<Rightarrow> ThreadPool \<Rightarrow> ThreadPool"
  assumes get_put: "get (put q t) = q"
    and put_put: "put q (put q' t) = put q t"
    and put_get: "put (get t) t = t"
    and get_discard: "get (discard j t) = get t"
    and put_discard: "put q (discard j t) = discard j (put q t)"
begin

lemma put_fold: "put q (fold discard js t) = fold discard js (put q t)"
  by (induction js arbitrary: t) (simp_all add: put_discard)

lemma drain_step:
  assumes "queue_ok (get tp)" and "qjobs (get tp) = x # xs"
  shows "drain get put tp =
           drain get put (put (snd (ListDelNode (get tp) (ListHead (get tp)) False)) (discard x tp))"
  using front_item_queue [OF assms] queue_ok_empty [OF assms(1)] assms(2)
  by (subst drain.simps) (simp add: discard_def [symmetric] get_discard Let_def)

lemma drain_all:
  assumes "queue_ok (get tp)"
  shows "\<exists>q. drain get put tp = Some (0, put q (fold discard (qjobs (get tp)) tp)) \<and>
             queue_ok q \<and> qjobs q = []"
  using assms
proof (induction "qjobs (get tp)" arbitrary: tp)
  case Nil
  then have "drain get put tp = Some (0, tp)"
    using queue_ok_empty [OF Nil.prems] by (subst drain.simps) simp
  with Nil show ?case by (metis fold_simps(1) put_get)
next
  case (Cons x xs)
  note e = Cons.hyps(2) [symmetric]
  define q1 where "q1 = snd (ListDelNode (get tp) (ListHead (get tp)) False)"
  note del = queue_del_front [OF Cons.prems e, folded q1_def]
  from Cons.hyps(1) [of "put q1 (discard x tp)"] del(1,2) obtain q where
    q: "drain get put (put q1 (discard x tp)) =
          Some (0, put q (fold discard xs (put q1 (discard x tp))))" "queue_ok q" "qjobs q = []"
    by (auto simp: get_put)
  moreover have "put q (fold discard xs (put q1 (discard x tp))) = put q (fold discard (x # xs) tp)"
    by (simp add: put_fold put_put put_discard)
  ultimately show ?case using drain_step [OF Cons.prems e] e q1_def by auto
qed

end

interpretation hq: queue_field highJobQ "\<lambda>q t. t\<lparr>highJobQ := q\<rparr>"
  by unfold_locales
    (auto simp: discard_def run_free_func_def FreeThreadPoolJob_def split: option.splits)

interpretation mq: queue_field medJobQ "\<lambda>q t. t\<lparr>medJobQ := q\<rparr>"
  by unfold_locales
    (auto simp: discard_def run_free_func_def FreeThreadPoolJob_def split: option.splits)

interpretation lq: queue_field lowJobQ "\<lambda>q t. t\<lparr>lowJobQ := q\<rparr>"
  by unfold_locales
    (auto simp: discard_def run_free_func_def FreeThreadPoolJob_def split: option.splits)

subsection \<open>Shutting down\<close>

lemma ListDestroy_queue:
  assumes "queue_ok q"
  shows "\<exists>q'. ListDestroy q False = Some (0, q') \<and> queue_ok q' \<and> qjobs q' = []"
proof -
  from assms have "List_ok q" by (simp add: queue_ok_def)
  from ListDestroy_ok [OF this, of False] obtain q' where
    "ListDestroy q False = Some (0, q') \<and> List_ok q' \<and> entries q' = [] \<and>
     cmp_func q' = cmp_func q" by blast
  with assms show ?thesis by (auto simp: queue_ok_def qjobs_def)
qed

text \<open>
  The draining part of \<open>ThreadPoolShutdown\<close> ends; it empties the pool, calls the free
  function of every job still in it, queue by queue, and releases the blocks.
\<close>

definition shutdown_post :: "ThreadPool \<Rightarrow> ThreadPool \<Rightarrow> bool" where
  "shutdown_post tp tp' \<longleftrightarrow>
     queues_ok tp' \<and> pool_jobs tp' = [] \<and> shutdown tp' \<and> attr tp' = attr tp \<and>
     totalThreads tp' = totalThreads tp \<and> busyThreads tp' = busyThreads tp \<and>
     persistentThreads tp' = persistentThreads tp \<and>
     idleThreads (stats tp') = idleThreads (stats tp) \<and>
     workerThreads (stats tp') = workerThreads (stats tp) \<and>
     pendingWorkerThreadStart tp' = pendingWorkerThreadStart tp \<and>
     freed_args tp' = freed_args tp @ free_calls (pool_jobs tp) \<and>
     (\<forall>X. owns tp (X + queued_addrs tp) \<longrightarrow> owns tp' X)"

lemma queued_addrs_pool_jobs: "queued_addrs tp = mset (map fst (pool_jobs tp))"
  by (auto simp: queued_addrs_def queued_def pool_jobs_def job_addr_def ac_simps
      split: option.splits)

lemma ThreadPoolShutdown_begin_ok:
  assumes "queues_ok tp"
  shows "\<exists>tp'. ThreadPoolShutdown_begin tp = Some (0, tp') \<and> shutdown_post tp tp'"
proof -
  have q: "queue_ok (highJobQ tp)" "queue_ok (medJobQ tp)" "queue_ok (lowJobQ tp)"
    using assms by (auto simp: queues_ok_def)
  from hq.drain_all [OF q(1)] obtain h where
    h: "drain highJobQ (\<lambda>q t. t\<lparr>highJobQ := q\<rparr>) tp =
          Some (0, (fold discard (qjobs (highJobQ tp)) tp)\<lparr>highJobQ := h\<rparr>)"
    "queue_ok h" "qjobs h = []" by blast
  from ListDestroy_queue [OF h(2)] obtain h' where
    h': "ListDestroy h False = Some (0, h')" "queue_ok h'" "qjobs h' = []" by blast
  define t1 where "t1 = (fold discard (qjobs (highJobQ tp)) tp)\<lparr>highJobQ := h'\<rparr>"
  have m1: "medJobQ t1 = medJobQ tp" by (simp add: t1_def)
  from mq.drain_all [of t1] q(2) obtain m where
    m: "drain medJobQ (\<lambda>q t. t\<lparr>medJobQ := q\<rparr>) t1 =
          Some (0, (fold discard (qjobs (medJobQ tp)) t1)\<lparr>medJobQ := m\<rparr>)"
    "queue_ok m" "qjobs m = []" by (auto simp: m1)
  from ListDestroy_queue [OF m(2)] obtain m' where
    m': "ListDestroy m False = Some (0, m')" "queue_ok m'" "qjobs m' = []" by blast
  define t2 where "t2 = (fold discard (qjobs (medJobQ tp)) t1)\<lparr>medJobQ := m'\<rparr>"
  have l2: "lowJobQ t2 = lowJobQ tp" by (simp add: t1_def t2_def)
  from lq.drain_all [of t2] q(3) obtain l where
    l: "drain lowJobQ (\<lambda>q t. t\<lparr>lowJobQ := q\<rparr>) t2 =
          Some (0, (fold discard (qjobs (lowJobQ tp)) t2)\<lparr>lowJobQ := l\<rparr>)"
    "queue_ok l" "qjobs l = []" by (auto simp: l2)
  from ListDestroy_queue [OF l(2)] obtain l' where
    l': "ListDestroy l False = Some (0, l')" "queue_ok l'" "qjobs l' = []" by blast
  define t3 where "t3 = (fold discard (qjobs (lowJobQ tp)) t2)\<lparr>lowJobQ := l'\<rparr>"
  define t4 where "t4 = (case persistentJob t3 of
      Some temp \<Rightarrow> (discard temp t3)\<lparr>persistentJob := None\<rparr> | None \<Rightarrow> t3)"
  have flat: "t3 = ((fold discard
        (qjobs (highJobQ tp) @ qjobs (medJobQ tp) @ qjobs (lowJobQ tp)) tp)
        \<lparr>highJobQ := h', medJobQ := m', lowJobQ := l'\<rparr>)"
    by (simp add: t3_def t2_def t1_def hq.put_fold mq.put_fold lq.put_fold)
  have pj: "persistentJob t3 = persistentJob tp" "persistentJob t2 = persistentJob tp"
    by (simp_all add: flat t1_def t2_def)
  have "ThreadPoolShutdown_begin tp = Some (0, t4\<lparr>shutdown := True\<rparr>)"
    using h(1) h'(1) m(1) m'(1) l(1) l'(1) pj
    by (cases "persistentJob tp")
      (simp_all add: ThreadPoolShutdown_begin_def t1_def [symmetric] t2_def [symmetric]
        t3_def [symmetric] t4_def discard_def [symmetric] Let_def)
  moreover have "shutdown_post tp (t4\<lparr>shutdown := True\<rparr>)"
  proof -
    define js where "js = qjobs (highJobQ tp) @ qjobs (medJobQ tp) @ qjobs (lowJobQ tp)"
    have js: "pool_jobs tp = js @ (case persistentJob tp of Some j \<Rightarrow> [j] | None \<Rightarrow> [])"
      by (simp add: pool_jobs_def js_def)
    define t where "t = fold discard (pool_jobs tp) tp"
    have t4: "t4 = t\<lparr>highJobQ := h', medJobQ := m', lowJobQ := l', persistentJob := None\<rparr>"
      using pj by (cases "persistentJob tp")
        (simp_all add: t4_def flat t_def js js_def [symmetric]
          hq.put_discard mq.put_discard lq.put_discard)
    have "owns t X" if "owns tp (X + queued_addrs tp)" for X
      unfolding t_def by (rule owns_fold_discard) (use that in \<open>simp add: queued_addrs_pool_jobs\<close>)
    moreover have "client_frame tp t" by (simp add: t_def)
    ultimately show ?thesis
      using h'(2,3) m'(2,3) l'(2,3)
      by (simp add: t4 shutdown_post_def queues_ok_def pool_jobs_def client_frame_def owns_def)
        (simp add: t_def pool_jobs_def)
  qed
  ultimately show ?thesis by blast
qed

end
