(* ===== verification/ThreadPoolSteps.thy ===== *)
theory ThreadPoolSteps
  imports PoolShutdown
begin

text \<open>
  The concurrent system around a thread pool: any number of worker threads and of callers, each
  performing one critical section of \<open>ThreadPool.c\<close> at a time (the pool's mutex makes them
  atomic). Waking up from \<open>pthread_cond_wait\<close> may happen at any time: signals are not
  modelled, so the system has every behaviour of the code and also those of spurious wake-ups.
  Jobs run between the critical sections and are not part of the state.
\<close>

subsection \<open>The transition system\<close>

record sys =
  pool :: ThreadPool
  workers :: "worker multiset"
  callers :: "client multiset"
  destroyed :: bool

definition resumed :: "sys \<Rightarrow> client multiset \<Rightarrow> client \<times> bool \<times> ThreadPool \<Rightarrow> sys" where
  "resumed s C r =
     (case r of (c, spawned, tp') \<Rightarrow>
        s\<lparr>pool := tp', callers := add_mset c C,
          workers := (if spawned then add_mset new_worker (workers s) else workers s)\<rparr>)"

definition moved :: "sys \<Rightarrow> worker multiset \<Rightarrow> worker \<times> ThreadPool \<Rightarrow> sys" where
  "moved s W r = s\<lparr>pool := snd r, workers := add_mset (fst r) W\<rparr>"

inductive pool_step :: "sys \<Rightarrow> sys \<Rightarrow> bool" where
  worker_enters:
    "\<not> destroyed s \<Longrightarrow> workers s = add_mset w W \<Longrightarrow> w_pc w = W_new \<Longrightarrow>
     pool_step s (moved s W (w\<lparr>w_pc := W_started, w_start := t\<rparr>, worker_enter (pool s)))"
| worker_loops:
    "\<not> destroyed s \<Longrightarrow> workers s = add_mset w W \<Longrightarrow> w_pc w \<in> {W_started, W_busy} \<Longrightarrow>
     worker_loop n w (pool s) = Some r \<Longrightarrow> pool_step s (moved s W r)"
| worker_wakes:
    "\<not> destroyed s \<Longrightarrow> workers s = add_mset w W \<Longrightarrow> w_pc w = W_idle \<Longrightarrow>
     worker_resume n timedout w (pool s) = Some r \<Longrightarrow> pool_step s (moved s W r)"
| adds: "\<not> destroyed s \<Longrightarrow> pool_step s (resumed s (callers s) (ThreadPoolAdd e jo (pool s)))"
| adds_persistent:
    "\<not> destroyed s \<Longrightarrow>
     pool_step s (resumed s (callers s) (ThreadPoolAddPersistent e jo (pool s)))"
| sets_attr:
    "\<not> destroyed s \<Longrightarrow> pool_step s (resumed s (callers s) (ThreadPoolSetAttr e a (pool s)))"
| removes:
    "\<not> destroyed s \<Longrightarrow> ThreadPoolRemove i (pool s) = Some (rc, out, tp') \<Longrightarrow>
     pool_step s (s\<lparr>pool := tp'\<rparr>)"
| calls_shutdown:
    "\<not> destroyed s \<Longrightarrow>
     pool_step s (s\<lparr>callers := add_mset (C_call_shutdown None) (callers s)\<rparr>)"
| resumes_create:
    "\<not> destroyed s \<Longrightarrow> callers s = add_mset (C_begin k) C \<Longrightarrow>
     \<not> pendingWorkerThreadStart (pool s) \<Longrightarrow>
     pool_step s (resumed s C (call_create e k (pool s)))"
| resumes_created:
    "\<not> destroyed s \<Longrightarrow> callers s = add_mset (C_end k) C \<Longrightarrow>
     CreateWorker_end (pool s) = CW_return rc tp' \<Longrightarrow>
     pool_step s (resumed s C (create_succeeded e k tp'))"
| picked_up:
    "\<not> destroyed s \<Longrightarrow> callers s = add_mset C_picked C \<Longrightarrow> persistentJob (pool s) = None \<Longrightarrow>
     pool_step s (resumed s C (C_done 0 (Some (lastJobId (pool s))), False,
       (pool s)\<lparr>lastJobId := lastJobId (pool s) + 1\<rparr>))"
| shuts_down:
    "\<not> destroyed s \<Longrightarrow> callers s = add_mset (C_call_shutdown ret) C \<Longrightarrow>
     ThreadPoolShutdown_begin (pool s) = Some (rc, tp') \<Longrightarrow>
     pool_step s (resumed s C ((if rc = 0 then C_shutdown ret
        else C_done (case ret of None \<Rightarrow> rc | Some r \<Rightarrow> r) None), False, tp'))"
| destroys:
    "\<not> destroyed s \<Longrightarrow> callers s = add_mset (C_shutdown ret) C \<Longrightarrow> totalThreads (pool s) \<le> 0 \<Longrightarrow>
     ThreadPoolShutdown_end (pool s) = Some tp' \<Longrightarrow>
     pool_step s ((resumed s C (C_done (case ret of None \<Rightarrow> 0 | Some r \<Rightarrow> r) None, False, tp'))
       \<lparr>destroyed := True\<rparr>)"

inductive_cases stepE: "pool_step s s'"

text \<open>The pool right after \<open>ThreadPoolInit\<close> was called by one thread.\<close>

definition started :: "client \<times> bool \<times> ThreadPool \<Rightarrow> sys" where
  "started r =
     resumed \<lparr>pool = snd (snd r), workers = {#}, callers = {#}, destroyed = False\<rparr> {#} r"

subsection \<open>The invariant\<close>

lemma sum_nonneg: "(\<And>w. f w \<ge> (0::int)) \<Longrightarrow> (\<Sum>w\<in>#W. f w) \<ge> 0"
  by (induction W) auto

lemma worker_wf_job: "worker_wf w \<Longrightarrow> w_pc w \<noteq> W_busy \<Longrightarrow> w_job w = None"
  by (metis worker_wf_def)

definition counters_ok :: "sys \<Rightarrow> bool" where
  "counters_ok s \<longleftrightarrow>
     totalThreads (pool s) = (\<Sum>w\<in>#workers s. c_total w) \<and>
     busyThreads (pool s) = (\<Sum>w\<in>#workers s. c_busy w) \<and>
     persistentThreads (pool s) = (\<Sum>w\<in>#workers s. c_persistent w) \<and>
     workerThreads (stats (pool s)) = (\<Sum>w\<in>#workers s. c_working w) \<and>
     idleThreads (stats (pool s)) = (\<Sum>w\<in>#workers s. c_idle w) \<and>
     (if pendingWorkerThreadStart (pool s) then 1 else 0) = (\<Sum>w\<in>#workers s. c_new w)"

definition held :: "sys \<Rightarrow> nat multiset" where
  "held s = \<Sum>\<^sub># (image_mset (\<lambda>w. job_addr (w_job w)) (workers s)) +
            \<Sum>\<^sub># (image_mset client_jobs (callers s))"

definition sys_ok :: "sys \<Rightarrow> bool" where
  "sys_ok s \<longleftrightarrow>
     queues_ok (pool s) \<and> (\<forall>w\<in>#workers s. worker_wf w) \<and> counters_ok s \<and>
     owns (pool s) (held s + queued_addrs (pool s))"

lemma sys_ok_moved:
  assumes "sys_ok s" and "workers s = add_mset w W" and "queues_ok tp'" and "worker_wf w'"
    and "worker_delta w (pool s) w' tp'"
    and "(if pendingWorkerThreadStart tp' then 1 else 0) - (if pendingWorkerThreadStart (pool s) then 1 else 0)
           = c_new w' - c_new w"
    and "\<And>X. owns (pool s) (X + job_addr (w_job w) + queued_addrs (pool s)) \<Longrightarrow>
              owns tp' (X + job_addr (w_job w') + queued_addrs tp')"
  shows "sys_ok (moved s W (w', tp'))"
proof -
  let ?X = "\<Sum>\<^sub># (image_mset (\<lambda>w. job_addr (w_job w)) W) + \<Sum>\<^sub># (image_mset client_jobs (callers s))"
  have "counters_ok (moved s W (w', tp'))"
    using assms(1,2,5,6) by (auto simp: sys_ok_def counters_ok_def moved_def worker_delta_def)
  moreover have "owns tp' (?X + job_addr (w_job w') + queued_addrs tp')"
    by (rule assms(7)) (use assms(1,2) in \<open>simp add: sys_ok_def held_def ac_simps\<close>)
  ultimately show ?thesis
    using assms(1-4) by (simp add: sys_ok_def moved_def held_def ac_simps)
qed

lemma sys_ok_resumed:
  assumes "sys_ok s" and "callers s = C + D" and "client_ok J tp r"
    and "client_prep (\<Sum>\<^sub># (image_mset client_jobs D)) (pool s) J tp"
  shows "sys_ok (resumed s C r)"
proof -
  obtain c sp tp' where r: "r = (c, sp, tp')" by (cases r)
  from client_ok_prep [OF assms(4,3)]
  have k: "client_ok (\<Sum>\<^sub># (image_mset client_jobs D)) (pool s) (c, sp, tp')" by (simp add: r)
  let ?X = "\<Sum>\<^sub># (image_mset (\<lambda>w. job_addr (w_job w)) (workers s)) + \<Sum>\<^sub># (image_mset client_jobs C)"
  have "owns (pool s) (?X + \<Sum>\<^sub># (image_mset client_jobs D) + queued_addrs (pool s))"
    using assms(1,2) by (simp add: sys_ok_def held_def ac_simps)
  with k have "owns tp' (?X + client_jobs c + queued_addrs tp')" by (simp add: client_ok_def)
  moreover have "counters_ok (resumed s C r)"
    using assms(1) k
    by (auto simp: sys_ok_def counters_ok_def resumed_def r client_ok_def client_frame_def
        contributions new_worker_def)
  ultimately show ?thesis
    using assms(1) k
    by (auto simp: sys_ok_def resumed_def r held_def client_ok_def new_worker_def worker_wf_def
        ac_simps)
qed

lemma client_prep_refl: "client_prep J tp J tp"
  by (simp add: client_prep_def client_frame_def)

lemma sys_ok_call:
  assumes "sys_ok s" and "client_ok {#} (pool s) r"
  shows "sys_ok (resumed s (callers s) r)"
  using sys_ok_resumed [OF assms(1) _ assms(2), of "callers s" "{#}"] client_prep_refl by simp

lemma sys_ok_continue:
  assumes "sys_ok s" and "callers s = add_mset c C" and "client_ok (client_jobs c) (pool s) r"
  shows "sys_ok (resumed s C r)"
  using sys_ok_resumed [OF assms(1) _ assms(3), of C "{#c#}"] client_prep_refl assms(2) by simp

lemma sys_ok_attr:
  "sys_ok s \<Longrightarrow> sys_ok (s\<lparr>pool := (pool s)\<lparr>attr := a\<rparr>\<rparr>)"
  by (auto simp: sys_ok_def queues_ok_def counters_ok_def held_def queued_addrs_def queued_def
      owns_def)

lemma resumed_pool: "resumed (s\<lparr>pool := t\<rparr>) C r = resumed s C r"
  by (cases r) (simp add: resumed_def)

lemma sys_ok_set_attr:
  assumes "sys_ok s"
  shows "sys_ok (resumed s (callers s) (ThreadPoolSetAttr e a (pool s)))"
proof (cases "policy_rc e = 0")
  case False
  moreover have "queues_ok (pool s)" using assms by (simp add: sys_ok_def)
  ultimately show ?thesis
    using sys_ok_call [OF assms client_ok_done] by (simp add: ThreadPoolSetAttr_def)
next
  case True
  define x where "x = (case a of Some x \<Rightarrow> x | None \<Rightarrow> the (snd (TPAttrInit (Some (attr (pool s))))))"
  let ?s = "s\<lparr>pool := (pool s)\<lparr>attr := x\<rparr>\<rparr>"
  have ok: "sys_ok ?s" by (rule sys_ok_attr [OF assms])
  then have q: "queues_ok (pool ?s)" by (simp add: sys_ok_def)
  have "client_ok {#} (pool ?s) (ThreadPoolSetAttr e a (pool s))"
    using True client_ok_done [OF q] call_create_ok [OF q, of "K_setattr (totalThreads (pool s))" e]
    by (simp add: ThreadPoolSetAttr_def x_def [symmetric] Let_def)
  from sys_ok_call [OF ok this] show ?thesis by (simp add: resumed_pool)
qed

lemma worker_step_ok:
  assumes "sys_ok s" and "workers s = add_mset w W" and "turn_result td w (pool s) w' tp'"
    and "w_pc w \<noteq> W_new"
  shows "sys_ok (moved s W (w', tp'))"
  using assms(3,4)
  by (intro sys_ok_moved [OF assms(1,2)])
    (auto simp: turn_result_def worker_frame_def contributions)

lemma worker_enter_ok:
  assumes "sys_ok s" and "workers s = add_mset w W" and "w_pc w = W_new"
  shows "sys_ok (moved s W (w\<lparr>w_pc := W_started, w_start := t\<rparr>, worker_enter (pool s)))"
proof (rule sys_ok_moved [OF assms(1,2)])
  have ok: "queues_ok (pool s)" "worker_wf w" "counters_ok s"
    using assms(1,2) by (auto simp: sys_ok_def)
  then show "queues_ok (worker_enter (pool s))" "worker_wf (w\<lparr>w_pc := W_started, w_start := t\<rparr>)"
    "worker_delta w (pool s) (w\<lparr>w_pc := W_started, w_start := t\<rparr>) (worker_enter (pool s))"
    using assms(3) by (auto simp: worker_enter_def queues_ok_def worker_wf_def worker_delta_def
        contributions)
  have "(\<Sum>w\<in>#W. c_new w) \<ge> 0" by (rule sum_nonneg) (simp add: c_new_def)
  then have "pendingWorkerThreadStart (pool s)"
    using ok(3) assms(2,3) by (auto simp: counters_ok_def c_new_def split: if_splits)
  then show "(if pendingWorkerThreadStart (worker_enter (pool s)) then 1 else 0) -
      (if pendingWorkerThreadStart (pool s) then 1 else 0) =
      c_new (w\<lparr>w_pc := W_started, w_start := t\<rparr>) - c_new w"
    using assms(3) by (simp add: worker_enter_def c_new_def)
qed (auto simp: worker_enter_def queued_addrs_def queued_def owns_def)

lemma remove_job_mset:
  "remove_job i js = Some (j, r) \<Longrightarrow> mset js = add_mset j (mset r) \<and> jobId (snd j) = i"
  by (induction js arbitrary: r) (auto split: if_splits)

lemma remove_step_ok:
  assumes "sys_ok s" and "remove_post i (pool s) rc out tp'"
  shows "sys_ok (s\<lparr>pool := tp'\<rparr>)"
proof (cases "remove_job i (pool_jobs (pool s))")
  case None
  with assms show ?thesis by (simp add: remove_post_def)
next
  case (Some p)
  then obtain j js where r: "remove_job i (pool_jobs (pool s)) = Some (j, js)" by (cases p) simp
  have "queued_addrs (pool s) = add_mset (fst j) (queued_addrs tp')"
    using remove_job_mset [OF r] assms(2) r by (simp add: queued_addrs_pool_jobs remove_post_def)
  then have "owns (pool s) (add_mset (fst j) (held s + queued_addrs tp'))"
    using assms(1) by (simp add: sys_ok_def)
  from owns_free [OF this] have "owns tp' (held s + queued_addrs tp')"
    using assms(2) r by (simp add: owns_def remove_post_def)
  with assms r show ?thesis
    by (auto simp: sys_ok_def remove_post_def counters_ok_def client_frame_def held_def)
qed

lemma shutdown_step_ok:
  assumes "sys_ok s" and "callers s = add_mset (C_call_shutdown ret) C"
    and "shutdown_post (pool s) tp'"
  shows "sys_ok (resumed s C (C_shutdown ret, False, tp'))"
proof -
  have "owns tp' (held s)" using assms(1,3) by (simp add: sys_ok_def shutdown_post_def)
  moreover have "queued_addrs tp' = {#}"
    using assms(3) by (simp add: queued_addrs_pool_jobs shutdown_post_def)
  ultimately show ?thesis
    using assms by (simp add: sys_ok_def resumed_def shutdown_post_def counters_ok_def held_def)
qed

lemma destroy_step_ok:
  assumes "sys_ok s" and "callers s = add_mset (C_shutdown ret) C"
    and "ThreadPoolShutdown_end (pool s) = Some tp'"
  shows "sys_ok ((resumed s C (C_done r None, False, tp'))\<lparr>destroyed := True\<rparr>)"
proof -
  from assms(3) obtain x f where f: "FreeListDestroy (jobFreeList (pool s)) = Some (x, f)"
    and tp': "tp' = (pool s)\<lparr>jobFreeList := f\<rparr>" by (auto simp: ThreadPoolShutdown_end_def)
  from assms(1) obtain us where us: "FreeList_ok (jobFreeList (pool s)) us"
    "set_mset (held s + queued_addrs (pool s)) \<subseteq> us"
    and c: "\<forall>a. count (held s + queued_addrs (pool s)) a \<le> 1"
    unfolding sys_ok_def owns_def by blast
  from FreeListDestroy_ok [OF us(1)] f have "FreeList_ok f us" by auto
  with us(2) c have "owns tp' (held s + queued_addrs (pool s))"
    unfolding owns_def by (auto simp: tp')
  with assms(1,2) show ?thesis
    by (simp add: sys_ok_def resumed_def tp' queues_ok_def counters_ok_def held_def
        queued_addrs_def queued_def)
qed

lemma pool_step_ok: "pool_step s s' \<Longrightarrow> sys_ok s \<Longrightarrow> sys_ok s'"
proof (induction rule: pool_step.induct)
  case (worker_enters s w W t)
  then show ?case by (intro worker_enter_ok) auto
next
  case (worker_loops s w W n r)
  then have "queues_ok (pool s)" "worker_wf w" by (auto simp: sys_ok_def)
  from worker_loop_ok [OF this worker_loops.hyps(3), of n] worker_loops show ?case
    by (cases r) (auto intro: worker_step_ok)
next
  case (worker_wakes s w W n td r)
  then have "queues_ok (pool s)" "w_job w = None" by (auto simp: sys_ok_def intro: worker_wf_job)
  from worker_resume_ok [OF this(1) worker_wakes.hyps(3) this(2), of n td] worker_wakes show ?case
    by (cases r) (auto intro: worker_step_ok)
next
  case (adds s e jo)
  then show ?case by (intro sys_ok_call ThreadPoolAdd_ok) (auto simp: sys_ok_def)
next
  case (adds_persistent s e jo)
  then show ?case by (intro sys_ok_call ThreadPoolAddPersistent_ok) (auto simp: sys_ok_def)
next
  case (sets_attr s e a)
  then show ?case by (intro sys_ok_set_attr)
next
  case (removes s i rc out tp')
  then have "queues_ok (pool s)" by (simp add: sys_ok_def)
  from ThreadPoolRemove_ok [OF this, of i] removes show ?case by (auto intro: remove_step_ok)
next
  case (calls_shutdown s)
  then show ?case by (simp add: sys_ok_def counters_ok_def held_def)
next
  case (resumes_create s k C e)
  then show ?case
    by (intro sys_ok_continue [OF resumes_create.prems resumes_create.hyps(2)])
      (auto simp: sys_ok_def intro: call_create_ok)
next
  case (resumes_created s k C rc tp' e)
  then have tp': "tp' = note_max (pool s)" by (simp add: CreateWorker_end_def split: if_splits)
  have "queues_ok (pool s)" using resumes_created.prems by (simp add: sys_ok_def)
  then have "queues_ok tp'" by (simp add: tp' queues_ok_def)
  from client_ok_prep [OF note_max_prep create_succeeded_ok [OF this [unfolded tp']]]
  show ?case
    by (intro sys_ok_continue [OF resumes_created.prems resumes_created.hyps(2)]) (simp add: tp')
next
  case (picked_up s C)
  then have q: "queues_ok (pool s)" by (simp add: sys_ok_def)
  have "client_ok {#} (pool s) (C_done 0 (Some (lastJobId (pool s))), False,
      (pool s)\<lparr>lastJobId := lastJobId (pool s) + 1\<rparr>)"
    using q by (auto simp: client_ok_def client_frame_def queues_ok_def queues_granted_def
        queued_addrs_def queued_def owns_def)
  with picked_up show ?case by (intro sys_ok_continue [OF picked_up.prems picked_up.hyps(2)]) simp
next
  case (shuts_down s ret C rc tp')
  then have "queues_ok (pool s)" by (simp add: sys_ok_def)
  from ThreadPoolShutdown_begin_ok [OF this] shuts_down show ?case
    by (auto intro: shutdown_step_ok)
next
  case (destroys s ret C tp')
  then show ?case by (intro destroy_step_ok)
qed

subsection \<open>The number of threads\<close>

definition starting :: "sys \<Rightarrow> int" where
  "starting s = (if pendingWorkerThreadStart (pool s) then 1 else 0)"

definition within_max :: "sys \<Rightarrow> bool" where
  "within_max s \<longleftrightarrow>
     maxThreads (attr (pool s)) = INFINITE_THREADS \<or>
     totalThreads (pool s) + starting s \<le> maxThreads (attr (pool s))"

lemma within_resumed:
  assumes "within_max s" and "client_ok J tp r" and "client_frame (pool s) tp"
    and "attr tp = attr (pool s)"
    and "pendingWorkerThreadStart tp = pendingWorkerThreadStart (pool s)"
  shows "within_max (resumed s C r)"
  using assms
  by (auto simp: within_max_def client_ok_def client_frame_def resumed_def starting_def
      split: prod.splits if_splits)

lemma within_moved:
  assumes "within_max s" and "turn_result td w (pool s) w' tp'" and "w_pc w \<noteq> W_new" "w_pc w \<noteq> W_done"
  shows "within_max (moved s W (w', tp'))"
proof -
  have "c_total w' \<le> c_total w" using assms(3,4) by (cases "w_pc w") (auto simp: c_total_def)
  with assms(1,2) show ?thesis
    by (auto simp: within_max_def moved_def starting_def turn_result_def worker_delta_def
        worker_frame_def)
qed

lemma within_step:
  assumes "pool_step s s'" and "sys_ok s" and "within_max s"
    and "attr (pool s') = attr (pool s)"
  shows "within_max s'"
  using assms
proof (induction rule: pool_step.induct)
  case (worker_enters s w W t)
  then have "(\<Sum>w\<in>#W. c_new w) \<ge> 0" "counters_ok s"
    by (auto simp: c_new_def sys_ok_def intro: sum_nonneg)
  with worker_enters show ?case
    by (auto simp: counters_ok_def within_max_def starting_def moved_def worker_enter_def c_new_def
        split: if_splits)
next
  case (worker_loops s w W n r)
  then have "queues_ok (pool s)" "worker_wf w" by (auto simp: sys_ok_def)
  from worker_loop_ok [OF this worker_loops.hyps(3), of n] worker_loops show ?case
    by (cases r) (auto intro: within_moved)
next
  case (worker_wakes s w W n td r)
  then have "queues_ok (pool s)" "w_job w = None" by (auto simp: sys_ok_def intro: worker_wf_job)
  from worker_resume_ok [OF this(1) worker_wakes.hyps(3) this(2), of n td] worker_wakes show ?case
    by (cases r) (auto intro: within_moved)
next
  case (adds s e jo)
  then have "queues_ok (pool s)" by (simp add: sys_ok_def)
  from within_resumed [OF adds.prems(2) ThreadPoolAdd_ok [OF this]] show ?case
    by (simp add: client_frame_def)
next
  case (adds_persistent s e jo)
  then have "queues_ok (pool s)" by (simp add: sys_ok_def)
  from within_resumed [OF adds_persistent.prems(2) ThreadPoolAddPersistent_ok [OF this]] show ?case
    by (simp add: client_frame_def)
next
  case (sets_attr s e a)
  then have q: "queues_ok (pool s)" by (simp add: sys_ok_def)
  define x where "x = (case a of Some x \<Rightarrow> x | None \<Rightarrow> the (snd (TPAttrInit (Some (attr (pool s))))))"
  show ?case
  proof (cases "policy_rc e = 0")
    case False
    with sets_attr show ?thesis
      by (simp add: ThreadPoolSetAttr_def within_max_def resumed_def starting_def)
  next
    case True
    let ?tp = "(pool s)\<lparr>attr := x\<rparr>"
    have "queues_ok ?tp" using q by (simp add: queues_ok_def)
    from client_ok_done [OF this] call_create_ok [OF this, of "K_setattr (totalThreads (pool s))" e]
    have c: "client_ok {#} ?tp (ThreadPoolSetAttr e a (pool s))"
      using True by (simp add: ThreadPoolSetAttr_def x_def [symmetric] Let_def)
    then have "attr (pool (resumed s (callers s) (ThreadPoolSetAttr e a (pool s)))) = x"
      by (auto simp: client_ok_def resumed_def split: prod.splits)
    with sets_attr.prems(3) have "x = attr (pool s)" by simp
    with within_resumed [OF sets_attr.prems(2) c] show ?thesis by (simp add: client_frame_def)
  qed
next
  case (removes s i rc out tp')
  then have "queues_ok (pool s)" by (simp add: sys_ok_def)
  from ThreadPoolRemove_ok [OF this, of i] removes show ?case
    by (auto simp: remove_post_def within_max_def starting_def client_frame_def
        split: option.splits)
next
  case (calls_shutdown s)
  then show ?case by (simp add: within_max_def starting_def)
next
  case (resumes_create s k C e)
  then have "queues_ok (pool s)" by (simp add: sys_ok_def)
  from within_resumed [OF resumes_create.prems(2) call_create_ok [OF this]] show ?case
    by (simp add: client_frame_def)
next
  case (resumes_created s k C rc tp' e)
  then have tp': "tp' = note_max (pool s)" by (simp add: CreateWorker_end_def split: if_splits)
  have "queues_ok (pool s)" using resumes_created.prems by (simp add: sys_ok_def)
  then have "queues_ok tp'" by (simp add: tp' queues_ok_def)
  from within_resumed [OF resumes_created.prems(2) create_succeeded_ok [OF this]] show ?case
    by (simp add: client_frame_def tp')
next
  case (picked_up s C)
  then show ?case by (simp add: within_max_def starting_def resumed_def)
next
  case (shuts_down s ret C rc tp')
  then have "queues_ok (pool s)" by (simp add: sys_ok_def)
  from ThreadPoolShutdown_begin_ok [OF this] shuts_down show ?case
    by (auto simp: within_max_def starting_def resumed_def shutdown_post_def)
next
  case (destroys s ret C tp')
  then show ?case
    by (auto simp: within_max_def starting_def resumed_def ThreadPoolShutdown_end_def)
qed

subsection \<open>From \<open>ThreadPoolInit\<close> on\<close>

text \<open>Storage handed to \<open>ThreadPoolInit\<close>: no block of any of its lists is in use.\<close>

definition fresh_list :: "FreeList \<Rightarrow> bool" where
  "fresh_list f \<longleftrightarrow> heap_ok (fl_heap f) \<and> live (fl_heap f) = {}"

definition fresh_pool :: "ThreadPool \<Rightarrow> bool" where
  "fresh_pool tp \<longleftrightarrow>
     fresh_list (jobFreeList tp) \<and> fresh_list (freeNodeList (highJobQ tp)) \<and>
     fresh_list (freeNodeList (medJobQ tp)) \<and> fresh_list (freeNodeList (lowJobQ tp))"

definition init_ok :: "env \<Rightarrow> ThreadPool \<Rightarrow> ThreadPoolAttr option \<Rightarrow> bool" where
  "init_ok e tp a \<longleftrightarrow> fresh_pool tp \<and> policy_rc e = 0"

lemma ListInit_queue:
  assumes "fresh_list (freeNodeList q)" and "ListInit q (Some CmpThreadPoolJob) False = (r, q')"
  shows "r = 0" and "queue_ok q'" and "qjobs q' = []"
  using ListInit_ok [OF _ _ assms(2)] assms(1) by (auto simp: fresh_list_def queue_ok_def qjobs_def)

lemma ThreadPoolInit_result:
  assumes "init_ok e tp a"
  shows "sys_ok (started (ThreadPoolInit e 0 tp a)) \<and>
         attr (pool (started (ThreadPoolInit e 0 tp a))) =
           (case a of Some x \<Rightarrow> x | None \<Rightarrow> the (snd (TPAttrInit (Some (attr tp))))) \<and>
         (maxThreads (attr (pool (started (ThreadPoolInit e 0 tp a)))) \<ge> -1 \<longrightarrow>
            within_max (started (ThreadPoolInit e 0 tp a)))"
proof -
  define x where "x = (case a of Some x \<Rightarrow> x | None \<Rightarrow> the (snd (TPAttrInit (Some (attr tp)))))"
  obtain r0 fl where fl: "FreeListInit 48 JOBFREELISTSIZE (jobFreeList tp) = (r0, fl)" by fastforce
  obtain rh hq where h: "ListInit (highJobQ tp) (Some CmpThreadPoolJob) False = (rh, hq)" by fastforce
  obtain rm mq where m: "ListInit (medJobQ tp) (Some CmpThreadPoolJob) False = (rm, mq)" by fastforce
  obtain rl lq where l: "ListInit (lowJobQ tp) (Some CmpThreadPoolJob) False = (rl, lq)" by fastforce
  have fresh: "fresh_list (jobFreeList tp)" "fresh_list (freeNodeList (highJobQ tp))"
    "fresh_list (freeNodeList (medJobQ tp))" "fresh_list (freeNodeList (lowJobQ tp))"
    using assms by (auto simp: init_ok_def fresh_pool_def)
  note qs = ListInit_queue [OF fresh(2) h] ListInit_queue [OF fresh(3) m] ListInit_queue [OF fresh(4) l]
  have r0: "r0 = 0" and "FreeList_ok fl {}"
    using FreeListInit_ok [of "jobFreeList tp" 48 JOBFREELISTSIZE] fresh(1) fl
    by (auto simp: fresh_list_def FreeListInit_def)
  then have f: "FreeList_ok fl {}" by simp
  define t where "t = tp\<lparr>attr := x, jobFreeList := fl, stats := StatsInit (stats tp), highJobQ := hq,
      medJobQ := mq, lowJobQ := lq, persistentJob := None, lastJobId := 0, shutdown := False,
      totalThreads := 0, busyThreads := 0, persistentThreads := 0,
      pendingWorkerThreadStart := False\<rparr>"
  have e: "ThreadPoolInit e 0 tp a =
      (if 0 < minThreads x then call_create e (K_init 0) t else (C_done 0 None, False, t))"
    using assms qs(1,4,7) r0
    by (simp add: ThreadPoolInit_def init_ok_def x_def [symmetric] fl h m l t_def Let_def)
  have q: "queues_ok t" using qs by (simp add: t_def queues_ok_def)
  have a: "attr t = x" by (simp add: t_def)
  have "queued_addrs t = {#}" using qs by (simp add: queued_addrs_def queued_def t_def)
  then have "owns t (queued_addrs t)" using f unfolding owns_def by (auto simp: t_def)
  define s0 where "s0 = \<lparr>pool = t, workers = {#}, callers = {#}, destroyed = False\<rparr>"
  have s0: "sys_ok s0"
    using q \<open>owns t (queued_addrs t)\<close>
    by (simp add: s0_def sys_ok_def counters_ok_def held_def) (simp add: t_def StatsInit_def)
  have c: "client_ok {#} t (ThreadPoolInit e 0 tp a)"
    using e client_ok_done [OF q] call_create_ok [OF q, of "K_init 0" e] by simp
  have st: "started r = resumed s0 {#} r" for r
    by (simp add: started_def resumed_def s0_def split: prod.splits)
  have "sys_ok (started (ThreadPoolInit e 0 tp a))"
    using sys_ok_call [OF s0] c by (simp add: st s0_def)
  moreover have "attr (pool (started (ThreadPoolInit e 0 tp a))) = x"
    using c a by (auto simp: client_ok_def st resumed_def split: prod.splits)
  moreover have "within_max s0" if "maxThreads x \<ge> -1"
    using that by (auto simp: within_max_def s0_def t_def starting_def INFINITE_THREADS_def)
  then have "within_max (started (ThreadPoolInit e 0 tp a))" if "maxThreads x \<ge> -1"
    using that within_resumed [OF _ c, of s0] by (simp add: st s0_def client_frame_def)
  ultimately show ?thesis by (simp add: x_def)
qed

end
