(* ===== verification/PoolProperties.thy ===== *)
theory PoolProperties
  imports ThreadPoolSteps
begin

text \<open>
  The properties of the thread pool, stated over the concurrent system of
  \<open>ThreadPoolSteps\<close> and over the single critical sections. The run used by the witnesses
  starts the pool with the attributes \<open>upnpapi.c\<close> gives to the pools of the UPnP library
  (2 to 12 threads, 100 jobs) and lets its first worker start.
\<close>

subsection \<open>Reachable states\<close>

definition quiet_step :: "sys \<Rightarrow> sys \<Rightarrow> bool" where
  "quiet_step s s' \<longleftrightarrow> pool_step s s' \<and> attr (pool s') = attr (pool s)"

lemma reachable_ok:
  assumes "pool_step\<^sup>*\<^sup>* s0 s" and "sys_ok s0"
  shows "sys_ok s"
  using assms by (induction rule: rtranclp_induct) (auto intro: pool_step_ok)

lemma quiet_within:
  assumes "quiet_step\<^sup>*\<^sup>* s0 s" and "sys_ok s0" and "within_max s0"
  shows "sys_ok s \<and> within_max s \<and> attr (pool s) = attr (pool s0)"
  using assms
  by (induction rule: rtranclp_induct)
    (auto simp: quiet_step_def intro: pool_step_ok within_step)

lemma sum_count:
  "(\<Sum>w\<in>#W. if P w then 1 else (0::int)) = int (size (filter_mset P W))"
  by (induction W) auto

lemma no_worker: "filter_mset P W = {#} \<longleftrightarrow> (\<forall>w\<in>#W. \<not> P w)"
  by (induction W) auto

definition in_phase :: "worker_pc set \<Rightarrow> sys \<Rightarrow> int" where
  "in_phase ps s = int (size (filter_mset (\<lambda>w. w_pc w \<in> ps) (workers s)))"

subsection \<open>The counters\<close>


subsection \<open>The number of threads\<close>

text \<open>C26: As long as nobody changes the attributes, the threads of the pool together with the one
  being started never exceed the configured \<open>maxThreads\<close> (12 for the pools of the UPnP
  library), in any interleaving of the callers and the workers.\<close>
theorem pool_threads_bounded:
  assumes "init_ok e tp (Some a)" and "0 \<le> maxThreads a"
    and "quiet_step\<^sup>*\<^sup>* (started (ThreadPoolInit e 0 tp (Some a))) s"
  shows "totalThreads (pool s) + starting s \<le> maxThreads a"
proof -
  note init = ThreadPoolInit_result [OF assms(1)]
  from quiet_within [OF assms(3)] init assms(2)
  have "within_max s" "attr (pool s) = a" by auto
  with assms(2) show ?thesis by (simp add: within_max_def INFINITE_THREADS_def)
qed

subsection \<open>Memory\<close>

lemma FreeList_ok_live: "FreeList_ok f us \<Longrightarrow> us \<subseteq> live (fl_heap f) \<and> \<not> bad_free (fl_heap f)"
  by (auto simp: FreeList_ok_def FreeList_rep_def heap_ok_def)

lemma queue_ok_heap: "queue_ok q \<Longrightarrow> \<not> bad_free (fl_heap (freeNodeList q))"
  using FreeList_ok_live by (auto simp: queue_ok_def List_ok_def dll_def)

text \<open>C27: No execution of the pool frees a block twice or frees something it does not own, in the
  job list or in the node caches of the three queues; every job that is queued, pending as a
  persistent job, run by a worker or held by a caller is a live block, and no two of these
  references are to the same block.\<close>
theorem pool_memory_safe:
  assumes "init_ok e tp a" and "pool_step\<^sup>*\<^sup>* (started (ThreadPoolInit e 0 tp a)) s"
  shows "(\<forall>f \<in> {jobFreeList (pool s), freeNodeList (highJobQ (pool s)),
                freeNodeList (medJobQ (pool s)), freeNodeList (lowJobQ (pool s))}.
            \<not> bad_free (fl_heap f)) \<and>
         (\<forall>b. count (held s + mset (map fst (pool_jobs (pool s)))) b \<le> 1) \<and>
         set_mset (held s + mset (map fst (pool_jobs (pool s)))) \<subseteq> live (fl_heap (jobFreeList (pool s)))"
proof -
  have ok: "sys_ok s" using reachable_ok [OF assms(2)] ThreadPoolInit_result [OF assms(1)] by simp
  then have "owns (pool s) (held s + mset (map fst (pool_jobs (pool s))))"
    by (simp add: sys_ok_def queued_addrs_pool_jobs)
  then obtain us where us: "FreeList_ok (jobFreeList (pool s)) us"
    "set_mset (held s + mset (map fst (pool_jobs (pool s)))) \<subseteq> us"
    "\<forall>b. count (held s + mset (map fst (pool_jobs (pool s)))) b \<le> 1"
    unfolding owns_def by blast
  have "\<not> bad_free (fl_heap (freeNodeList (highJobQ (pool s))))"
    "\<not> bad_free (fl_heap (freeNodeList (medJobQ (pool s))))"
    "\<not> bad_free (fl_heap (freeNodeList (lowJobQ (pool s))))"
    using ok by (simp_all add: sys_ok_def queues_ok_def queue_ok_heap)
  with FreeList_ok_live [OF us(1)] us(2,3) show ?thesis by blast
qed

subsection \<open>Workers\<close>

text \<open>C28: A worker never gets stuck inside a critical section: in every reachable state the loop
  of a worker that has just started or has finished its job, and the code after a wake-up,
  end and lead to one of: waiting, running a job, leaving the pool.\<close>
theorem worker_progress:
  assumes "init_ok e tp a" and "pool_step\<^sup>*\<^sup>* (started (ThreadPoolInit e 0 tp a)) s"
    and "w \<in># workers s"
  shows "(w_pc w \<in> {W_started, W_busy} \<longrightarrow>
            (\<exists>w' tp'. worker_loop n w (pool s) = Some (w', tp') \<and>
                      w_pc w' \<in> {W_idle, W_busy, W_done})) \<and>
         (w_pc w = W_idle \<longrightarrow>
            (\<exists>w' tp'. worker_resume n timedout w (pool s) = Some (w', tp') \<and>
                      w_pc w' \<in> {W_idle, W_busy, W_done}))"
proof -
  have ok: "sys_ok s" using reachable_ok [OF assms(2)] ThreadPoolInit_result [OF assms(1)] by simp
  then have q: "queues_ok (pool s)" and wf: "worker_wf w" using assms(3) by (auto simp: sys_ok_def)
  show ?thesis
  proof (intro conjI impI)
    assume "w_pc w \<in> {W_started, W_busy}"
    from worker_loop_ok [OF q wf this, of n] show "\<exists>w' tp'. worker_loop n w (pool s) = Some (w', tp') \<and>
        w_pc w' \<in> {W_idle, W_busy, W_done}"
      unfolding turn_result_def by blast
  next
    assume i: "w_pc w = W_idle"
    then have "w_job w = None" using worker_wf_job [OF wf] by simp
    from worker_resume_ok [OF q i this, of n timedout] show "\<exists>w' tp'.
        worker_resume n timedout w (pool s) = Some (w', tp') \<and> w_pc w' \<in> {W_idle, W_busy, W_done}"
      unfolding turn_result_def by blast
  qed
qed


text \<open>A worker leaves the pool only for a reason: the pool is shut down, it has waited
  \<open>maxIdleTime\<close> without work while there are more than \<open>minThreads\<close> threads, or there are more
  threads than \<open>maxThreads\<close> allows. (Provided no allocation of a queue node fails.)\<close>
theorem worker_leaves_for_a_reason:
  assumes "queues_ok tp" and "queues_granted tp" and "w_pc w = W_idle" and "w_job w = None"
    and "worker_resume n timedout w tp = Some (w', tp')" and "w_pc w' = W_done"
  shows "(shutdown tp \<or> (timedout \<and> minThreads (attr tp) < totalThreads tp) \<or>
          (maxThreads (attr tp) \<noteq> -1 \<and> maxThreads (attr tp) < totalThreads tp)) \<and>
         totalThreads tp' = totalThreads tp - 1"
proof -
  from worker_resume_ok [OF assms(1,3,4), of n timedout] assms(5)
  have "turn_result timedout w tp w' tp'" by auto
  with assms(2,3,6) show ?thesis
    by (auto simp: turn_result_def should_die_def worker_delta_def c_total_def)
qed

subsection \<open>Rearranging the queues\<close>


subsection \<open>Adding a job\<close>

definition jobs_of :: "ThreadPriority \<Rightarrow> ThreadPool \<Rightarrow> job_ref list" where
  "jobs_of p tp =
     (case p of
        HIGH_PRIORITY \<Rightarrow> qjobs (highJobQ tp)
      | MED_PRIORITY \<Rightarrow> qjobs (medJobQ tp)
      | _ \<Rightarrow> qjobs (lowJobQ tp))"

definition same_queues :: "ThreadPool \<Rightarrow> ThreadPool \<Rightarrow> bool" where
  "same_queues tp tp' \<longleftrightarrow> highJobQ tp' = highJobQ tp \<and> medJobQ tp' = medJobQ tp \<and> lowJobQ tp' = lowJobQ tp"

definition add_outcome :: "job_ref \<Rightarrow> int \<Rightarrow> ThreadPool \<Rightarrow> client \<times> bool \<times> ThreadPool \<Rightarrow> bool" where
  "add_outcome temp rc tp r \<longleftrightarrow>
     (case r of (c, spawned, tp') \<Rightarrow>
        same_queues tp tp' \<and>
        ((c = C_done rc (Some (lastJobId tp)) \<and> lastJobId tp' = lastJobId tp + 1) \<or>
         (\<exists>jobs threads. c \<in> {C_begin (K_add jobs threads temp rc), C_end (K_add jobs threads temp rc)}
            \<and> lastJobId tp' = lastJobId tp)))"

lemma AddWorker_outcome: "add_outcome temp rc tp (AddWorker e jobs threads temp rc tp)"
  by (auto simp: add_outcome_def AddWorker_def add_finish_def call_create_def create_failed_def
      CreateWorker_begin_def same_queues_def FreeThreadPoolJob_def Let_def split: if_splits)

lemma enqueue_tail:
  assumes "queues_ok tp" and "queues_granted tp" and "enqueue temp p tp = (rc, tp')"
  shows "rc = 0 \<and> jobs_of p tp' = jobs_of p tp @ [temp] \<and> lastJobId tp' = lastJobId tp"
proof -
  have q: "queue_ok (highJobQ tp)" "queue_ok (medJobQ tp)" "queue_ok (lowJobQ tp)"
    using assms(1) by (auto simp: queues_ok_def)
  obtain rh hq rm mq rl lq where
    a: "ListAddTail (highJobQ tp) (Some temp) = (rh, hq)"
      "ListAddTail (medJobQ tp) (Some temp) = (rm, mq)"
      "ListAddTail (lowJobQ tp) (Some temp) = (rl, lq)"
    by (meson surj_pair)
  have "rh \<noteq> Null" "rm \<noteq> Null" "rl \<noteq> Null"
    using assms(2) granted_ListAddTail a unfolding queues_granted_def by blast+
  with queue_add_tail(2) [OF q(1) a(1)] queue_add_tail(2) [OF q(2) a(2)]
    queue_add_tail(2) [OF q(3) a(3)] assms(3) show ?thesis
    by (cases p) (auto simp: enqueue_def a jobs_of_def)
qed

text \<open>C31: \<open>ThreadPoolAdd\<close> refuses a job, changing nothing, when \<open>maxJobsTotal\<close> jobs are queued;
  otherwise it appends a copy of the job, with its time and the next job id, to the queue of its
  priority, and either returns that id and advances it, or goes on with the creation of a worker
  for that job.\<close>
theorem ThreadPoolAdd_appends:
  assumes "queues_ok tp" and "queues_granted tp"
    and "CreateThreadPoolJob (clock e) job (lastJobId tp) tp = (Some temp, tp1)"
  shows "if maxJobsTotal (attr tp) \<le> int (length (qjobs (highJobQ tp) @ qjobs (medJobQ tp) @ qjobs (lowJobQ tp)))
         then ThreadPoolAdd e (Some job) tp = (C_done EOUTOFMEM None, False, tp)
         else \<exists>c spawned tp'. ThreadPoolAdd e (Some job) tp = (c, spawned, tp') \<and>
                jobs_of (priority job) tp' = jobs_of (priority job) tp @ [temp] \<and>
                snd temp = job\<lparr>jobId := lastJobId tp, requestTime := clock e\<rparr> \<and>
                queued tp' = add_mset temp (queued tp) \<and>
                ((c = C_done 0 (Some (lastJobId tp)) \<and> lastJobId tp' = lastJobId tp + 1) \<or>
                 (\<exists>jobs threads. c \<in> {C_begin (K_add jobs threads temp 0), C_end (K_add jobs threads temp 0)}))"
proof -
  have q: "queue_ok (highJobQ tp)" "queue_ok (medJobQ tp)" "queue_ok (lowJobQ tp)"
    using assms(1) by (auto simp: queues_ok_def)
  have n: "total_jobs tp = int (length (qjobs (highJobQ tp) @ qjobs (medJobQ tp) @ qjobs (lowJobQ tp)))"
    using q by (simp add: total_jobs_def queue_ok_size)
  show ?thesis
  proof (cases "maxJobsTotal (attr tp) \<le> total_jobs tp")
    case True
    then show ?thesis by (simp add: ThreadPoolAdd_def n)
  next
    case False
    have f: "highJobQ tp1 = highJobQ tp" "medJobQ tp1 = medJobQ tp" "lowJobQ tp1 = lowJobQ tp"
      "lastJobId tp1 = lastJobId tp"
      "snd temp = job\<lparr>jobId := lastJobId tp, requestTime := clock e\<rparr>"
      using assms(3) by (auto simp: CreateThreadPoolJob_def split: prod.splits option.splits)
    then have q1: "queues_ok tp1" "queues_granted tp1" and "jobs_of (priority job) tp1 = jobs_of (priority job) tp"
      and "queued tp1 = queued tp"
      using assms(1,2)
      by (auto simp: queues_ok_def queues_granted_def jobs_of_def queued_def split: ThreadPriority.splits)
    moreover obtain rc tp2 where en: "enqueue temp (priority job) tp1 = (rc, tp2)" by fastforce
    note t = enqueue_tail [OF q1 en] enqueue_result(4) [OF q1(1) en]
    obtain c sp tp' where r: "AddWorker e (total_jobs tp2) (totalThreads tp2 - persistentThreads tp2)
        temp rc tp2 = (c, sp, tp')" by (metis prod_cases3)
    have "add_outcome temp rc tp2 (c, sp, tp')" using AddWorker_outcome r by metis
    moreover have "ThreadPoolAdd e (Some job) tp = (c, sp, tp')"
      using False assms(3) en r by (simp add: ThreadPoolAdd_def)
    ultimately show ?thesis
      using False t f
      by (auto simp: n add_outcome_def same_queues_def jobs_of_def queued_def
          split: ThreadPriority.splits)
  qed
qed

subsection \<open>Removing jobs and shutting down\<close>

text \<open>\<open>ThreadPoolRemove\<close> ends; it takes out the first job with the given id, looking through
  the high, medium and low queue and then at the pending persistent job, returns its contents
  and leaves the order of the others alone; when there is none it reports
  \<open>INVALID_JOB_ID\<close> and changes nothing.\<close>
theorem ThreadPoolRemove_removes:
  assumes "queues_ok tp"
  shows "case remove_job i (pool_jobs tp) of
           None \<Rightarrow> ThreadPoolRemove i tp = Some (INVALID_JOB_ID, None, tp)
         | Some (j, js) \<Rightarrow>
             jobId (snd j) = i \<and> mset (pool_jobs tp) = add_mset j (mset js) \<and>
             (\<exists>tp'. ThreadPoolRemove i tp = Some (0, Some (snd j), tp') \<and> queues_ok tp' \<and> pool_jobs tp' = js)"
proof -
  from ThreadPoolRemove_ok [OF assms, of i] obtain rc out tp' where
    "ThreadPoolRemove i tp = Some (rc, out, tp')" "remove_post i tp rc out tp'" by blast
  then show ?thesis
    using remove_job_mset [of i "pool_jobs tp"] by (auto simp: remove_post_def split: option.splits)
qed

text \<open>C32: The draining part of \<open>ThreadPoolShutdown\<close> ends: every job of the pool is discarded once,
  in the order of the queues and the persistent job last, its free function is called on its
  argument, the pool is empty afterwards and is marked as shut down.\<close>
theorem ThreadPoolShutdown_discards:
  assumes "queues_ok tp"
  shows "\<exists>tp'. ThreadPoolShutdown_begin tp = Some (0, tp') \<and>
           queues_ok tp' \<and> pool_jobs tp' = [] \<and> shutdown tp' \<and>
           freed_args tp' = freed_args tp @ free_calls (pool_jobs tp) \<and>
           (\<forall>X. owns tp (X + mset (map fst (pool_jobs tp))) \<longrightarrow> owns tp' X)"
  using ThreadPoolShutdown_begin_ok [OF assms]
  by (auto simp: shutdown_post_def queued_addrs_pool_jobs)

lemma destroyed_empty:
  assumes "pool_step\<^sup>*\<^sup>* s0 s" and "\<not> destroyed s0"
  shows "destroyed s \<longrightarrow> totalThreads (pool s) \<le> 0"
  using assms
proof (induction rule: rtranclp_induct)
  case base
  then show ?case by simp
next
  case (step s s')
  from step.hyps(2) show ?case
    by (cases rule: pool_step.cases)
      (auto simp: moved_def resumed_def ThreadPoolShutdown_end_def split: prod.splits)
qed

text \<open>C33: When \<open>ThreadPoolShutdown\<close> destroys the pool, no thread is inside \<open>WorkerThread\<close> any
  more, except possibly one: a thread whose start is still pending (\<open>ThreadPoolShutdown\<close>
  waits for \<open>totalThreads\<close>, which does not count it). If no start is pending every worker has
  left.\<close>
theorem shutdown_waits_for_workers:
  assumes "init_ok e tp a" and "pool_step\<^sup>*\<^sup>* (started (ThreadPoolInit e 0 tp a)) s"
    and "destroyed s"
  shows "in_phase {W_started, W_idle, W_busy} s = 0 \<and> in_phase {W_new} s = starting s \<and>
         (\<not> pendingWorkerThreadStart (pool s) \<longrightarrow> (\<forall>w\<in>#workers s. w_pc w = W_done))"
proof -
  have ok: "sys_ok s" using reachable_ok [OF assms(2)] ThreadPoolInit_result [OF assms(1)] by simp
  then have c: "counters_ok s" by (simp add: sys_ok_def)
  have "\<not> destroyed (started (ThreadPoolInit e 0 tp a))"
    by (simp add: started_def resumed_def split: prod.splits)
  from destroyed_empty [OF assms(2) this] assms(3) have "totalThreads (pool s) \<le> 0" by simp
  moreover have "totalThreads (pool s) = in_phase {W_started, W_idle, W_busy} s"
    and n: "in_phase {W_new} s = starting s"
    using c
    by (simp_all add: counters_ok_def starting_def in_phase_def sum_count [symmetric] c_total_def
        c_new_def)
  ultimately have t: "in_phase {W_started, W_idle, W_busy} s = 0" by (simp add: in_phase_def)
  moreover have "w_pc w = W_done" if "\<not> pendingWorkerThreadStart (pool s)" and "w \<in># workers s" for w
    using t n that by (cases "w_pc w") (auto simp: in_phase_def starting_def no_worker)
  ultimately show ?thesis using n by simp
qed

subsection \<open>A run of the pool\<close>

definition empty_list :: FreeList where
  "empty_list = \<lparr>fl_head = None, fl_next = (\<lambda>_. None), element_size = 0, maxFreeListLength = 0,
     freeListLength = 0,
     fl_heap = \<lparr>live = {}, calls = 0, grants = (\<lambda>_. True), bad_free = False\<rparr>\<rparr>"

definition empty_queue :: "job_ref LinkedList" where
  "empty_queue = \<lparr>node = (\<lambda>_. \<lparr>prev = Null, next = Null, item = None\<rparr>), lsize = 0,
     freeNodeList = empty_list, free_func = False, cmp_func = None, freed = []\<rparr>"

definition upnp_attr :: ThreadPoolAttr where
  "upnp_attr = \<lparr>minThreads = 2, maxThreads = 12, stackSize = 0, maxIdleTime = 5000,
     jobsPerThread = 10, maxJobsTotal = 100, starvationTime = 500, schedPolicy = 0\<rparr>"

definition no_stats :: ThreadPoolStats where
  "no_stats = \<lparr>totalTimeHQ = 0, totalJobsHQ = 0, avgWaitHQ = 0, totalTimeMQ = 0, totalJobsMQ = 0,
     avgWaitMQ = 0, totalTimeLQ = 0, totalJobsLQ = 0, avgWaitLQ = 0, totalWorkTime = 0,
     totalIdleTime = 0, workerThreads = 0, idleThreads = 0, st_persistentThreads = 0,
     st_totalThreads = 0, st_maxThreads = 0, currentJobsHQ = 0, currentJobsLQ = 0,
     currentJobsMQ = 0\<rparr>"

definition raw_pool :: ThreadPool where
  "raw_pool = \<lparr>lastJobId = 0, shutdown = False, totalThreads = 0,
     pendingWorkerThreadStart = False, busyThreads = 0, persistentThreads = 0,
     jobFreeList = empty_list, lowJobQ = empty_queue, medJobQ = empty_queue,
     highJobQ = empty_queue, persistentJob = None, attr = upnp_attr, stats = no_stats,
     freed_args = []\<rparr>"

definition good_env :: env where
  "good_env = \<lparr>clock = \<lparr>tv_sec = 0, tv_usec = 0\<rparr>, create_rc = 0, policy_rc = 0\<rparr>"

definition run0 :: sys where
  "run0 = started (ThreadPoolInit good_env 0 raw_pool (Some upnp_attr))"

definition run1 :: sys where
  "run1 = moved run0 {#} (new_worker\<lparr>w_pc := W_started, w_start := 0\<rparr>, worker_enter (pool run0))"

lemmas run_defs = run0_def run1_def moved_def started_def resumed_def ThreadPoolInit_def good_env_def
  raw_pool_def upnp_attr_def empty_queue_def empty_list_def call_create_def CreateWorker_begin_def
  FreeListInit_def ListInit_def INFINITE_THREADS_def new_worker_def worker_enter_def

lemma run_init: "init_ok good_env raw_pool a"
  by (simp add: init_ok_def fresh_pool_def fresh_list_def heap_ok_def run_defs)

lemma run_step: "pool_step run0 run1"
  unfolding run1_def
  by (rule worker_enters [where w = new_worker]) (simp_all add: run_defs Let_def)

lemma run_reaches: "pool_step\<^sup>*\<^sup>* (started (ThreadPoolInit good_env 0 raw_pool (Some upnp_attr))) run1"
  using run_step by (simp add: run0_def [symmetric])


lemma run_quiet:
  "quiet_step\<^sup>*\<^sup>* (started (ThreadPoolInit good_env 0 raw_pool (Some upnp_attr))) run1"
proof -
  have "attr (pool run1) = attr (pool run0)" by (simp add: run1_def moved_def worker_enter_def)
  with run_step have "quiet_step run0 run1" by (simp add: quiet_step_def)
  then show ?thesis unfolding run0_def [symmetric] by (rule r_into_rtranclp)
qed

theorem pool_threads_bounded_witness: "totalThreads (pool run1) + starting run1 \<le> 12"
  using pool_threads_bounded [OF run_init _ run_quiet] by (simp add: upnp_attr_def)

theorem pool_memory_safe_witness: "\<not> bad_free (fl_heap (jobFreeList (pool run1)))"
  using pool_memory_safe [OF run_init run_reaches] by simp

theorem worker_progress_witness:
  "\<exists>w' tp'. worker_loop \<lparr>tv_sec = 1, tv_usec = 0\<rparr>
              \<lparr>w_pc = W_started, w_job = None, persistent = -1, w_start = 0\<rparr> (pool run1) =
            Some (w', tp')"
  using worker_progress [OF run_init run_reaches,
      of "\<lparr>w_pc = W_started, w_job = None, persistent = -1, w_start = 0\<rparr>"
         "\<lparr>tv_sec = 1, tv_usec = 0\<rparr>" False]
  by (auto simp: run_defs)

text \<open>The same pool with one job in its medium queue, and a worker waiting.\<close>

definition some_job :: ThreadPoolJob where
  "some_job = blank_job\<lparr>func := Some 1, arg := Some 2, job_free_func := Some 3,
                        priority := MED_PRIORITY, jobId := 7\<rparr>"

definition loaded :: ThreadPool where
  "loaded = snd (enqueue (0, some_job) MED_PRIORITY (pool run1))"

definition waiting :: worker where
  "waiting = \<lparr>w_pc = W_idle, w_job = None, persistent = -1, w_start = 0\<rparr>"

lemma run_pool: "queues_ok (pool run1)" "queues_granted (pool run1)" "pool_jobs (pool run1) = []"
proof -
  from reachable_ok [OF run_reaches] ThreadPoolInit_result [OF run_init, of "Some upnp_attr"]
  show "queues_ok (pool run1)" by (simp add: sys_ok_def)
  show "queues_granted (pool run1)"
    by (simp add: queues_granted_def granted_def granted_fl_def run_defs Let_def list_defs)
  show "pool_jobs (pool run1) = []"
    by (simp add: pool_jobs_def qjobs_def entries_def ListNodes_def run_defs Let_def list_defs)
qed

lemma loaded_pool:
  "queues_ok loaded" "queues_granted loaded" "\<not> shutdown loaded" "attr loaded = upnp_attr"
  "persistentJob loaded = None" "pool_jobs loaded = [(0, some_job)]" "\<not> no_work loaded"
  "freed_args loaded = []" "qjobs (highJobQ loaded) = []"
  "qjobs (medJobQ loaded) = [(0, some_job)]" "qjobs (lowJobQ loaded) = []"
proof -
  obtain rc where e: "enqueue (0, some_job) MED_PRIORITY (pool run1) = (rc, loaded)"
    by (metis loaded_def surjective_pairing)
  note r = enqueue_result [OF run_pool(1) e]
  show q: "queues_ok loaded" and "queues_granted loaded" using r(1,5) run_pool(2) by auto
  have b: "\<not> shutdown (pool run1)" "attr (pool run1) = upnp_attr" "persistentJob (pool run1) = None"
    "freed_args (pool run1) = []"
    by (simp_all add: run_defs Let_def)
  with r(2) show l: "\<not> shutdown loaded" "attr loaded = upnp_attr" "persistentJob loaded = None"
    "freed_args loaded = []"
    by (simp_all add: same_core_def)
  have "highJobQ loaded = highJobQ (pool run1)" "lowJobQ loaded = lowJobQ (pool run1)"
    by (simp_all add: loaded_def enqueue_def split: prod.splits)
  then show j: "qjobs (highJobQ loaded) = []" "qjobs (lowJobQ loaded) = []"
    "qjobs (medJobQ loaded) = [(0, some_job)]"
    using enqueue_tail [OF run_pool(1,2) e] run_pool(3) by (simp_all add: jobs_of_def pool_jobs_def)
  then show "pool_jobs loaded = [(0, some_job)]" using l by (simp add: pool_jobs_def)
  show "\<not> no_work loaded" using no_work_next [OF q l(1)] j l by (simp add: next_job_def)
qed


theorem worker_leaves_for_a_reason_witness:
  "totalThreads (snd (the (worker_resume \<lparr>tv_sec = 9, tv_usec = 0\<rparr> True waiting
     ((pool run1)\<lparr>totalThreads := 3\<rparr>)))) = 2"
proof -
  have q: "queues_ok ((pool run1)\<lparr>totalThreads := 3\<rparr>)" "queues_granted ((pool run1)\<lparr>totalThreads := 3\<rparr>)"
    using run_pool(1,2) by (simp_all add: queues_ok_def queues_granted_def)
  have "no_work ((pool run1)\<lparr>totalThreads := 3\<rparr>)"
    by (simp add: no_work_def run_defs Let_def list_defs)
  then have "worker_resume \<lparr>tv_sec = 9, tv_usec = 0\<rparr> True waiting ((pool run1)\<lparr>totalThreads := 3\<rparr>) =
      Some (worker_exit waiting (idle_dec ((pool run1)\<lparr>totalThreads := 3\<rparr>)))"
    by (simp add: worker_resume_def should_die_def run_defs Let_def)
  from worker_leaves_for_a_reason [OF q _ _ this [unfolded worker_exit_def]] this show ?thesis
    by (simp add: waiting_def worker_exit_def)
qed


theorem ThreadPoolRemove_removes_witness:
  "\<exists>tp'. ThreadPoolRemove 7 loaded = Some (0, Some some_job, tp') \<and> pool_jobs tp' = []"
  using ThreadPoolRemove_removes [OF loaded_pool(1), of 7] loaded_pool(6)
  by (auto simp: some_job_def)

theorem ThreadPoolShutdown_discards_witness:
  "\<exists>tp'. ThreadPoolShutdown_begin loaded = Some (0, tp') \<and> freed_args tp' = [(3, Some 2)]"
  using ThreadPoolShutdown_discards [OF loaded_pool(1)] loaded_pool(6,8)
  by (auto simp: some_job_def)

theorem ThreadPoolAdd_appends_witness:
  "\<exists>c spawned tp'. ThreadPoolAdd good_env (Some some_job) (pool run1) = (c, spawned, tp') \<and>
     map (jobId \<circ> snd) (jobs_of MED_PRIORITY tp') = [0]"
proof -
  obtain temp tp1 where c:
    "CreateThreadPoolJob (clock good_env) some_job (lastJobId (pool run1)) (pool run1) = (Some temp, tp1)"
    by (simp add: CreateThreadPoolJob_def FreeListAlloc_def malloc_def run_defs Let_def list_defs)
  have p: "attr (pool run1) = upnp_attr" "lastJobId (pool run1) = 0" by (simp_all add: run_defs Let_def)
  from run_pool(3) have "qjobs (highJobQ (pool run1)) = []" "qjobs (medJobQ (pool run1)) = []"
    "qjobs (lowJobQ (pool run1)) = []" by (auto simp: pool_jobs_def)
  with ThreadPoolAdd_appends [OF run_pool(1,2) c] p show ?thesis
    by (auto simp: upnp_attr_def some_job_def blank_job_def jobs_of_def)
qed

text \<open>A pool without threads is shut down at once.\<close>

theorem shutdown_waits_for_workers_witness:
  "\<exists>s. pool_step\<^sup>*\<^sup>* (started (ThreadPoolInit good_env 0 raw_pool (Some (upnp_attr\<lparr>minThreads := 0\<rparr>)))) s \<and>
       destroyed s \<and> (\<forall>w\<in>#workers s. w_pc w = W_done)"
proof -
  define s0 where "s0 = started (ThreadPoolInit good_env 0 raw_pool (Some (upnp_attr\<lparr>minThreads := 0\<rparr>)))"
  define s1 where "s1 = s0\<lparr>callers := add_mset (C_call_shutdown None) (callers s0)\<rparr>"
  have f: "\<not> destroyed s0" "totalThreads (pool s0) = 0" "\<not> pendingWorkerThreadStart (pool s0)"
    by (simp_all add: s0_def run_defs Let_def)
  from ThreadPoolInit_result [OF run_init, of "Some (upnp_attr\<lparr>minThreads := 0\<rparr>)"]
  have ok: "sys_ok s0" by (simp add: s0_def)
  have 1: "pool_step s0 s1" unfolding s1_def by (rule calls_shutdown [OF f(1)])
  have "queues_ok (pool s1)" using ok by (simp add: s1_def sys_ok_def)
  from ThreadPoolShutdown_begin_ok [OF this] obtain tp where
    tp: "ThreadPoolShutdown_begin (pool s1) = Some (0, tp)" "shutdown_post (pool s1) tp" by blast
  define s2 where "s2 = resumed s1 (callers s0) (C_shutdown None, False, tp)"
  have 2: "pool_step s1 s2"
    using shuts_down [of s1 None "callers s0" 0 tp] tp(1) f(1) by (simp add: s1_def s2_def)
  have ok2: "sys_ok s2" using pool_step_ok [OF 2 pool_step_ok [OF 1 ok]] .
  then obtain us where "FreeList_ok (jobFreeList (pool s2)) us" by (auto simp: sys_ok_def owns_def)
  from FreeListDestroy_ok [OF this] obtain fl where
    "FreeListDestroy (jobFreeList (pool s2)) = Some (0, fl)" by blast
  then obtain tp' where e: "ThreadPoolShutdown_end (pool s2) = Some tp'"
    by (simp add: ThreadPoolShutdown_end_def)
  then have pend: "pendingWorkerThreadStart tp' = pendingWorkerThreadStart (pool s2)"
    by (auto simp: ThreadPoolShutdown_end_def)
  have p2: "totalThreads (pool s2) = 0" "\<not> pendingWorkerThreadStart (pool s2)"
    using tp(2) f by (simp_all add: s2_def s1_def resumed_def shutdown_post_def)
  define s3 where "s3 = (resumed s2 (callers s0) (C_done 0 None, False, tp'))\<lparr>destroyed := True\<rparr>"
  have 3: "pool_step s2 s3"
    using destroys [of s2 None "callers s0" tp'] e p2(1) f(1) by (simp add: s3_def s2_def s1_def resumed_def)
  have r: "pool_step\<^sup>*\<^sup>* s0 s3" 
    by (rule converse_rtranclp_into_rtranclp [OF 1
        converse_rtranclp_into_rtranclp [where r = pool_step, OF 2 r_into_rtranclp [where r = pool_step, OF 3]]])
  from shutdown_waits_for_workers [OF run_init r [unfolded s0_def]] pend p2(2) r s0_def show ?thesis
    by (auto simp: s3_def resumed_def)
qed

end
