(* ===== verification/ListProperties.thy ===== *)
theory ListProperties
  imports LinkedList
begin

text \<open>
  The properties of \<open>FreeList.c\<close> and \<open>LinkedList.c\<close>: any sequence of operations on a linked
  list does what the same sequence does on a sequence of items, and any client of a free list
  gets blocks it does not already hold.
\<close>

subsection \<open>Sequences of operations on a linked list\<close>

text \<open>Positions stand for the node addresses a client has kept.\<close>

datatype 'a list_op =
    Op_head 'a
  | Op_tail 'a
  | Op_before nat 'a
  | Op_after nat 'a
  | Op_del nat

definition nth_node :: "'a LinkedList \<Rightarrow> nat \<Rightarrow> addr" where
  "nth_node l k = (if k < length (entries l) then Blk (fst (entries l ! k)) else Null)"

fun list_do :: "'a list_op \<Rightarrow> 'a LinkedList \<Rightarrow> 'a LinkedList" where
  "list_do (Op_head x) l = snd (ListAddHead l (Some x))"
| "list_do (Op_tail x) l = snd (ListAddTail l (Some x))"
| "list_do (Op_before k x) l = snd (ListAddBefore l (Some x) (nth_node l k))"
| "list_do (Op_after k x) l = snd (ListAddAfter l (Some x) (nth_node l k))"
| "list_do (Op_del k) l = snd (ListDelNode l (nth_node l k) False)"

definition insert_at :: "nat \<Rightarrow> 'a \<Rightarrow> 'a list \<Rightarrow> 'a list" where
  "insert_at k x xs = take k xs @ x # drop k xs"

fun seq_do :: "'a list_op \<Rightarrow> 'a list \<Rightarrow> 'a list" where
  "seq_do (Op_head x) xs = x # xs"
| "seq_do (Op_tail x) xs = xs @ [x]"
| "seq_do (Op_before k x) xs = (if k < length xs then insert_at k x xs else xs)"
| "seq_do (Op_after k x) xs = (if k < length xs then insert_at (Suc k) x xs else xs)"
| "seq_do (Op_del k) xs = take k xs @ drop (Suc k) xs"

definition list_abs :: "'a LinkedList \<Rightarrow> 'a list" where
  "list_abs l = map (\<lambda>e. the (snd e)) (entries l)"

lemma granted_add:
  "granted l \<Longrightarrow> ListAddAfter l it b = (r, l') \<Longrightarrow> b \<noteq> Null \<Longrightarrow> r \<noteq> Null \<and> granted l'"
  "granted l \<Longrightarrow> ListAddBefore l it b = (r, l') \<Longrightarrow> b \<noteq> Null \<Longrightarrow> r \<noteq> Null \<and> granted l'"
  using granted_FreeListAlloc [of "freeNodeList l"]
  by (auto simp: granted_def list_defs)

lemma add_after_abs:
  assumes "List_ok l" and "granted l" and "entries l = es @ fs"
    and "b = before (map fst es)"
  shows "List_ok (snd (ListAddAfter l (Some x) b)) \<and> granted (snd (ListAddAfter l (Some x) b)) \<and>
         list_abs (snd (ListAddAfter l (Some x) b)) =
           map (\<lambda>e. the (snd e)) es @ x # map (\<lambda>e. the (snd e)) fs"
proof -
  obtain r l' where r: "ListAddAfter l (Some x) b = (r, l')" by fastforce
  have "b \<noteq> Null" unfolding assms(4) by (cases es rule: rev_cases) auto
  from granted_add(1) [OF assms(2) r this] ListAddAfter_entries [OF assms(1,3) r [unfolded assms(4)]] r
  show ?thesis by (auto simp: list_abs_def)
qed

lemma add_before_abs:
  assumes "List_ok l" and "granted l" and "entries l = es @ fs"
    and "b = after (map fst fs)"
  shows "List_ok (snd (ListAddBefore l (Some x) b)) \<and> granted (snd (ListAddBefore l (Some x) b)) \<and>
         list_abs (snd (ListAddBefore l (Some x) b)) =
           map (\<lambda>e. the (snd e)) es @ x # map (\<lambda>e. the (snd e)) fs"
proof -
  obtain r l' where r: "ListAddBefore l (Some x) b = (r, l')" by fastforce
  have "b \<noteq> Null" unfolding assms(4) by (cases fs) auto
  from granted_add(2) [OF assms(2) r this] ListAddBefore_entries [OF assms(1,3) r [unfolded assms(4)]] r
  show ?thesis by (auto simp: list_abs_def)
qed

lemma entries_at:
  "k < length (entries l) \<Longrightarrow>
     entries l = take k (entries l) @ (fst (entries l ! k), snd (entries l ! k)) # drop (Suc k) (entries l)"
  by (simp add: id_take_nth_drop)

lemma list_do_step:
  assumes "List_ok l" and "granted l"
  shows "List_ok (list_do op l) \<and> granted (list_do op l) \<and>
         list_abs (list_do op l) = seq_do op (list_abs l)"
proof (cases op)
  case (Op_head x)
  with add_after_abs [OF assms, of "[]" "entries l" Head x] show ?thesis
    by (simp add: ListAddHead_def list_abs_def)
next
  case (Op_tail x)
  with add_before_abs [OF assms, of "entries l" "[]" Tail x] show ?thesis
    by (simp add: ListAddTail_def list_abs_def)
next
  case (Op_before k x)
  show ?thesis
  proof (cases "k < length (entries l)")
    case True
    from add_before_abs [OF assms append_take_drop_id [of k, symmetric],
        of "Blk (fst (entries l ! k))" x] True Op_before
    show ?thesis
      by (simp add: nth_node_def list_abs_def insert_at_def take_map drop_map
          Cons_nth_drop_Suc [symmetric])
  next
    case False
    with Op_before assms show ?thesis by (simp add: nth_node_def list_abs_def ListAddBefore_def)
  qed
next
  case (Op_after k x)
  show ?thesis
  proof (cases "k < length (entries l)")
    case True
    from add_after_abs [OF assms append_take_drop_id [of "Suc k", symmetric],
        of "Blk (fst (entries l ! k))" x] True Op_after
    show ?thesis
      by (simp add: nth_node_def list_abs_def insert_at_def take_map drop_map take_Suc_conv_app_nth)
  next
    case False
    with Op_after assms show ?thesis by (simp add: nth_node_def list_abs_def ListAddAfter_def)
  qed
next
  case (Op_del k)
  show ?thesis
  proof (cases "k < length (entries l)")
    case True
    obtain y l' where d: "ListDelNode l (Blk (fst (entries l ! k))) False = (y, l')" by fastforce
    from ll.del_seq [OF assms(1) entries_at [OF True] d]
      granted_ListDelNode [of l "Blk (fst (entries l ! k))" False] d True Op_del assms(2)
    show ?thesis by (simp add: nth_node_def list_abs_def take_map drop_map)
  next
    case False
    with Op_del assms show ?thesis by (simp add: nth_node_def list_abs_def ListDelNode_def)
  qed
qed

lemma list_do_run:
  assumes "List_ok l" and "granted l"
  shows "List_ok (fold list_do ops l) \<and> list_abs (fold list_do ops l) = fold seq_do ops (list_abs l)"
  using assms
proof (induction ops arbitrary: l)
  case Nil
  then show ?case by simp
next
  case (Cons op ops)
  with list_do_step [OF Cons.prems, of op] show ?case by simp
qed

definition new_list :: "(nat \<Rightarrow> bool) \<Rightarrow> 'a LinkedList" where
  "new_list g = \<lparr>node = (\<lambda>_. \<lparr>prev = Null, next = Null, item = None\<rparr>), lsize = 5,
     freeNodeList = \<lparr>fl_head = None, fl_next = (\<lambda>_. None), element_size = 0,
       maxFreeListLength = 0, freeListLength = 0,
       fl_heap = \<lparr>live = {}, calls = 0, grants = g, bad_free = False\<rparr>\<rparr>,
     free_func = False, cmp_func = None, freed = []\<rparr>"

text \<open>C34: Any sequence of insertions at the head, the tail, before or after a node and of deletions,
  performed on a list just initialised, has the effect of the same operations on a plain
  sequence, as long as nodes can be allocated; the list stays well formed (links in both
  directions, size, node blocks owned once) and \<open>ListSize\<close> is the length of that sequence.\<close>
theorem list_operations_refine:
  assumes "\<forall>n. g n"
  shows "list_abs (fold list_do ops (snd (ListInit (new_list g) cmp ff))) = fold seq_do ops [] \<and>
         List_ok (fold list_do ops (snd (ListInit (new_list g) cmp ff))) \<and>
         ListSize (fold list_do ops (snd (ListInit (new_list g) cmp ff))) =
           int (length (fold seq_do ops ([] :: 'a list)))"
proof -
  define l :: "'a LinkedList" where "l = snd (ListInit (new_list g) cmp ff)"
  have i: "ListInit (new_list g) cmp ff = (fst (ListInit (new_list g) cmp ff), l)" by (simp add: l_def)
  have "List_ok l" "entries l = []"
    by (rule ListInit_ok [OF _ _ i]; simp add: new_list_def heap_ok_def)+
  moreover have "granted l"
    using assms by (simp add: l_def granted_def granted_fl_def ListInit_def FreeListInit_def new_list_def)
  ultimately have r: "List_ok (fold list_do ops l)" "list_abs (fold list_do ops l) = fold seq_do ops []"
    using list_do_run [of l ops] by (auto simp: list_abs_def)
  have "length (fold seq_do ops []) = length (entries (fold list_do ops l))"
    unfolding r(2) [symmetric] by (simp add: list_abs_def)
  with List_ok_size [OF r(1)] r show ?thesis by (simp add: l_def)
qed

theorem list_operations_refine_witness:
  "list_abs (fold list_do [Op_tail (1::nat), Op_head 2, Op_after 0 3, Op_del 0]
     (snd (ListInit (new_list (\<lambda>_. True)) None False))) = [3, 1]"
  using list_operations_refine [of "\<lambda>_. True" "[Op_tail (1::nat), Op_head 2, Op_after 0 3, Op_del 0]" None False]
  by (simp add: insert_at_def)

text \<open>A client that takes blocks from a free list and gives back blocks it holds, in any order
  and with any of the allocations failing, never holds the same block twice, and the list never
  frees a block that is not allocated.\<close>
theorem FreeList_never_shares:
  assumes "run_client FreeListAlloc FreeListFree
             (snd (FreeListInit n m (freeNodeList (new_list g :: nat LinkedList)))) [] ops = (held, f)"
  shows "distinct held \<and> set held \<subseteq> live (fl_heap f) \<and> \<not> bad_free (fl_heap f)"
proof -
  have "FreeList_ok (snd (FreeListInit n m (freeNodeList (new_list g :: nat LinkedList)))) (set [])"
    using FreeListInit_ok [of "freeNodeList (new_list g :: nat LinkedList)" n m]
    by (simp add: new_list_def heap_ok_def)
  from fl.client_never_shares [OF this _ assms] have "distinct held" "FreeList_ok f (set held)" by auto
  then show ?thesis by (auto simp: FreeList_ok_def FreeList_rep_def heap_ok_def)
qed

theorem FreeList_never_shares_witness:
  "fst (run_client FreeListAlloc FreeListFree
          (snd (FreeListInit 24 100 (freeNodeList (new_list (\<lambda>_. True) :: nat LinkedList)))) []
          [Take, Take, Give 0, Take]) = [1, 0]
   \<and> distinct [1, 0 :: nat]"
proof -
  obtain f where r: "run_client FreeListAlloc FreeListFree
      (snd (FreeListInit 24 100 (freeNodeList (new_list (\<lambda>_. True) :: nat LinkedList)))) []
      [Take, Take, Give 0, Take] = ([1, 0], f)"
    by (simp add: new_list_def FreeListInit_def FreeListAlloc_def FreeListFree_def malloc_def)
  from FreeList_never_shares [OF r] r show ?thesis by simp
qed

end
