(* ===== verification/TimerThread.thy ===== *)
theory TimerThread
  imports ThreadPool
begin

text \<open>
  \<open>threadutil/src/TimerThread.c\<close>: the queue of timed events and the thread that hands their
  jobs to the thread pool when they are due. Every function is one critical section of
  the timer's mutex; the thread's loop is cut where it waits on the condition variable. What
  the thread pool answers when a job is added is decided by the environment (\<open>add_rc\<close>), and
  so is every reading of the clock.
\<close>

subsection \<open>State\<close>

datatype TimeoutType = ABS_SEC | REL_SEC
datatype Duration = SHORT_TERM | LONG_TERM

definition INVALID_EVENT_ID :: int where "INVALID_EVENT_ID = and (- 10) (2 ^ 29)"

record TimerEvent =
  te_job :: ThreadPoolJob
  eventTime :: int
  te_persistent :: Duration
  te_id :: int

type_synonym event_ref = "nat \<times> TimerEvent"

text \<open>
  \<open>dispatched\<close> records the events whose job was offered to the pool, with the answer;
  \<open>t_freed\<close> records the calls of job free functions.
\<close>

record TimerThread =
  lastEventId :: int
  eventQ :: "event_ref LinkedList"
  t_shutdown :: bool
  freeEvents :: FreeList
  dispatched :: "(TimerEvent \<times> int) list"
  t_freed :: "(nat \<times> nat option) list"

definition FreeTimerEvent :: "event_ref \<Rightarrow> TimerThread \<Rightarrow> TimerThread" where
  "FreeTimerEvent ev tm = tm\<lparr>freeEvents := snd (FreeListFree (freeEvents tm) (Some (fst ev)))\<rparr>"

definition CalculateEventTime :: "int \<Rightarrow> int \<Rightarrow> TimeoutType \<Rightarrow> int" where
  "CalculateEventTime now timeout ty = (case ty of ABS_SEC \<Rightarrow> timeout | REL_SEC \<Rightarrow> timeout + now)"

definition CreateTimerEvent ::
  "ThreadPoolJob \<Rightarrow> Duration \<Rightarrow> int \<Rightarrow> int \<Rightarrow> TimerThread \<Rightarrow> event_ref option \<times> TimerThread" where
  "CreateTimerEvent job pers t i tm =
     (case FreeListAlloc (freeEvents tm) of
        (Some a, f) \<Rightarrow>
          (Some (a, \<lparr>te_job = job, eventTime = t, te_persistent = pers, te_id = i\<rparr>),
           tm\<lparr>freeEvents := f\<rparr>)
      | (None, f) \<Rightarrow> (None, tm\<lparr>freeEvents := f\<rparr>))"

subsection \<open>Operations\<close>

text \<open>
  The search loops of \<open>TimerThreadSchedule\<close> and \<open>TimerThreadRemove\<close>: the first node from
  \<open>n\<close> on whose event satisfies the test. \<open>None\<close>: a NULL item or an endless list.
\<close>

partial_function (option) scan ::
  "(TimerEvent \<Rightarrow> bool) \<Rightarrow> event_ref LinkedList \<Rightarrow> addr \<Rightarrow> addr option" where
  "scan test q n =
     (if n = Null then Some Null
      else do {
        temp \<leftarrow> item (node q n);
        if test (snd temp) then Some n else scan test q (ListNext q n)
      })"

declare scan.simps [code]

definition TimerThreadInit ::
  "int \<Rightarrow> int \<Rightarrow> TimerThread \<Rightarrow> (int \<times> TimerThread) option" where
  "TimerThreadInit sync_rc add_rc tm =
     (case FreeListInit 64 100 (freeEvents tm) of
        (r1, f) \<Rightarrow>
          (case ListInit (eventQ tm) None False of
             (r2, q) \<Rightarrow>
               (let tm1 = tm\<lparr>freeEvents := f, t_shutdown := False, lastEventId := 0, eventQ := q\<rparr>;
                    rc = (if sync_rc + r1 + r2 \<noteq> 0 then EAGAIN else add_rc)
                in if rc \<noteq> 0
                   then do {
                     (_, f') \<leftarrow> FreeListDestroy (freeEvents tm1);
                     (_, q') \<leftarrow> ListDestroy (eventQ tm1) False;
                     Some (rc, tm1\<lparr>freeEvents := f', eventQ := q'\<rparr>)
                   }
                   else Some (rc, tm1))))"

definition TimerThreadSchedule ::
  "int \<Rightarrow> int \<Rightarrow> TimeoutType \<Rightarrow> ThreadPoolJob option \<Rightarrow> Duration \<Rightarrow> TimerThread \<Rightarrow>
   (int \<times> int option \<times> TimerThread) option" where
  "TimerThreadSchedule now timeout0 ty jo dur tm =
     (case jo of
        None \<Rightarrow> Some (EINVAL, None, tm)
      | Some job \<Rightarrow>
          (let timeout = CalculateEventTime now timeout0 ty in
           case CreateTimerEvent job dur timeout (lastEventId tm) tm of
             (None, tm1) \<Rightarrow> Some (EOUTOFMEM, Some INVALID_EVENT_ID, tm1)
           | (Some newEvent, tm1) \<Rightarrow>
               do {
                 tempNode \<leftarrow> scan (\<lambda>e. eventTime e \<ge> timeout) (eventQ tm1) (ListHead (eventQ tm1));
                 let (r, q) = (if tempNode \<noteq> Null
                               then ListAddBefore (eventQ tm1) (Some newEvent) tempNode
                               else ListAddTail (eventQ tm1) (Some newEvent));
                 let rc = (if r \<noteq> Null then 0 else EOUTOFMEM);
                 let tm2 = tm1\<lparr>eventQ := q\<rparr>;
                 let tm3 = (if rc = 0 then tm2 else FreeTimerEvent newEvent tm2);
                 Some (rc, Some (lastEventId tm3), tm3\<lparr>lastEventId := lastEventId tm3 + 1\<rparr>)
               }))"

definition TimerThreadRemove ::
  "int \<Rightarrow> TimerThread \<Rightarrow> (int \<times> ThreadPoolJob option \<times> TimerThread) option" where
  "TimerThreadRemove i tm =
     do {
       tempNode \<leftarrow> scan (\<lambda>e. te_id e = i) (eventQ tm) (ListHead (eventQ tm));
       if tempNode = Null then Some (INVALID_EVENT_ID, None, tm)
       else do {
         temp \<leftarrow> item (node (eventQ tm) tempNode);
         let tm1 = tm\<lparr>eventQ := snd (ListDelNode (eventQ tm) tempNode False)\<rparr>;
         Some (0, Some (te_job (snd temp)), FreeTimerEvent temp tm1)
       }
     }"

definition call_free :: "ThreadPoolJob \<Rightarrow> TimerThread \<Rightarrow> TimerThread" where
  "call_free job tm =
     (case job_free_func job of
        Some f \<Rightarrow> tm\<lparr>t_freed := t_freed tm @ [(f, arg job)]\<rparr>
      | None \<Rightarrow> tm)"

partial_function (option) shutdown_loop :: "TimerThread \<Rightarrow> addr \<Rightarrow> TimerThread option" where
  "shutdown_loop tm tempNode =
     (if tempNode = Null then Some tm
      else do {
        temp \<leftarrow> item (node (eventQ tm) tempNode);
        let tempNode2 = ListNext (eventQ tm) tempNode;
        let tm1 = tm\<lparr>eventQ := snd (ListDelNode (eventQ tm) tempNode False)\<rparr>;
        shutdown_loop (FreeTimerEvent temp (call_free (te_job (snd temp)) tm1)) tempNode2
      })"

declare shutdown_loop.simps [code]

text \<open>\<open>TimerThreadShutdown\<close> up to the point where it waits for the thread to leave.\<close>

definition TimerThreadShutdown :: "TimerThread \<Rightarrow> TimerThread option" where
  "TimerThreadShutdown tm =
     do {
       tm1 \<leftarrow> shutdown_loop (tm\<lparr>t_shutdown := True\<rparr>) (ListHead (eventQ tm));
       (_, q) \<leftarrow> ListDestroy (eventQ tm1) False;
       (_, f) \<leftarrow> FreeListDestroy (freeEvents tm1);
       Some (tm1\<lparr>eventQ := q, freeEvents := f\<rparr>)
     }"

subsection \<open>The timer thread\<close>

datatype timer_wait = T_returned | T_again | T_until int | T_forever

definition dispatch :: "int \<Rightarrow> event_ref \<Rightarrow> TimerThread \<Rightarrow> TimerThread" where
  "dispatch add_rc ev tm =
     (let tm1 = tm\<lparr>dispatched := dispatched tm @ [(snd ev, add_rc)]\<rparr>;
          job = te_job (snd ev)
      in if add_rc \<noteq> 0 \<and> arg job \<noteq> None \<and> job_free_func job \<noteq> None then call_free job tm1 else tm1)"

text \<open>One turn of the loop of \<open>TimerThreadWorker\<close>.\<close>

definition timer_turn :: "int \<Rightarrow> int \<Rightarrow> TimerThread \<Rightarrow> (timer_wait \<times> TimerThread) option" where
  "timer_turn now add_rc tm =
     (if t_shutdown tm then Some (T_returned, tm\<lparr>t_shutdown := False\<rparr>)
      else if lsize (eventQ tm) > 0
      then
        (let head = ListHead (eventQ tm) in
         if head = Null then Some (T_returned, tm)
         else do {
           nextEvent \<leftarrow> item (node (eventQ tm) head);
           if now \<ge> eventTime (snd nextEvent)
           then (let tm1 = dispatch add_rc nextEvent tm;
                     tm2 = tm1\<lparr>eventQ := snd (ListDelNode (eventQ tm1) head False)\<rparr>
                 in Some (T_again, FreeTimerEvent nextEvent tm2))
           else Some (T_until (eventTime (snd nextEvent)), tm)
         })
      else Some (T_forever, tm))"

text \<open>
  Turns until the thread waits or returns; the \<open>k\<close>-th turn reads the clock \<open>now k\<close> and gets
  the answer \<open>add_rc k\<close> from the pool.
\<close>

partial_function (option) timer_run ::
  "(nat \<Rightarrow> int) \<Rightarrow> (nat \<Rightarrow> int) \<Rightarrow> nat \<Rightarrow> TimerThread \<Rightarrow> (timer_wait \<times> TimerThread) option" where
  "timer_run now add_rc k tm =
     do {
       (st, tm') \<leftarrow> timer_turn (now k) (add_rc k) tm;
       if st = T_again then timer_run now add_rc (Suc k) tm' else Some (st, tm')
     }"

declare timer_run.simps [code]

subsection \<open>Abstraction and invariant\<close>

definition events :: "TimerThread \<Rightarrow> TimerEvent list" where
  "events tm = map (\<lambda>e. snd (the (snd e))) (entries (eventQ tm))"

definition blocks :: "TimerThread \<Rightarrow> nat list" where
  "blocks tm = map (\<lambda>e. fst (the (snd e))) (entries (eventQ tm))"

text \<open>
  The queue is sorted by time, the ids in it are distinct and already given out, and the
  blocks in use of the event list are exactly those of the queued events.
\<close>

definition timer_ok :: "TimerThread \<Rightarrow> bool" where
  "timer_ok tm \<longleftrightarrow>
     List_ok (eventQ tm) \<and> None \<notin> snd ` set (entries (eventQ tm)) \<and>
     sorted (map eventTime (events tm)) \<and>
     distinct (map te_id (events tm)) \<and> (\<forall>e \<in> set (events tm). te_id e < lastEventId tm) \<and>
     distinct (blocks tm) \<and> FreeList_ok (freeEvents tm) (set (blocks tm))"

lemma entry_Some:
  "None \<notin> snd ` set es \<Longrightarrow> (a, x) \<in> set es \<Longrightarrow> x = Some (the x)"
  by (cases x) force+

lemma scan_entries:
  assumes "List_ok q" and "entries q = es @ fs" and "None \<notin> snd ` set (entries q)"
  shows "scan test q (first_addr fs) =
           Some (first_addr (dropWhile (\<lambda>e. \<not> test (snd (the (snd e)))) fs))"
  using assms(2)
proof (induction fs arbitrary: es)
  case Nil
  then show ?case by (subst scan.simps) simp
next
  case (Cons f fs)
  obtain a x where f: "f = (a, x)" by (cases f)
  have mem: "(a, x) \<in> set (entries q)" using Cons.prems f by simp
  then have i: "item (node q (Blk a)) = Some (the x)"
    using item_entries [OF assms(1) mem] entry_Some [OF assms(3) mem] by simp
  have n: "ListNext q (Blk a) = first_addr fs"
    using ListNext_entries [OF assms(1), of es a x fs] Cons.prems f by simp
  from Cons.IH [of "es @ [f]"] Cons.prems show ?case
    by (subst scan.simps) (simp add: f i n)
qed

lemma scan_front:
  assumes "List_ok q" and "None \<notin> snd ` set (entries q)"
  shows "scan test q (ListHead q) =
           Some (first_addr (dropWhile (\<lambda>e. \<not> test (snd (the (snd e)))) (entries q)))"
  using scan_entries [OF assms(1) _ assms(2), of "[]"] assms(1) by (simp add: ll.front_seq)

text \<open>Inserting before the first event that is not earlier.\<close>

lemma insort_key_split:
  "insort_key f x xs = takeWhile (\<lambda>y. f y < f x) xs @ x # dropWhile (\<lambda>y. f y < f x) xs"
  by (induction xs) auto

lemma map_takeWhile: "map g (takeWhile (P \<circ> g) xs) = takeWhile P (map g xs)"
  "map g (dropWhile (P \<circ> g) xs) = dropWhile P (map g xs)"
  by (induction xs) auto

lemma timer_okD:
  assumes "timer_ok tm"
  shows "List_ok (eventQ tm)" "None \<notin> snd ` set (entries (eventQ tm))"
    "sorted (map eventTime (events tm))" "distinct (map te_id (events tm))"
    "\<forall>e \<in> set (events tm). te_id e < lastEventId tm"
    "distinct (blocks tm)" "FreeList_ok (freeEvents tm) (set (blocks tm))"
  using assms by (simp_all add: timer_ok_def)

text \<open>The queue after inserting a node at the place the scan found.\<close>

lemma insert_event:
  assumes "List_ok q" and "None \<notin> snd ` set (entries q)"
    and "n = first_addr (dropWhile (\<lambda>e. \<not> test (snd (the (snd e)))) (entries q))"
    and "(if n \<noteq> Null then ListAddBefore q (Some ev) n else ListAddTail q (Some ev)) = (r, q')"
  shows "List_ok q' \<and>
    (r = Null \<and> entries q' = entries q \<or>
     (\<exists>a. r \<noteq> Null \<and>
       entries q' = takeWhile (\<lambda>e. \<not> test (snd (the (snd e)))) (entries q) @ (a, Some ev) #
                    dropWhile (\<lambda>e. \<not> test (snd (the (snd e)))) (entries q)))"
proof (cases "dropWhile (\<lambda>e. \<not> test (snd (the (snd e)))) (entries q)")
  case Nil
  then have tw: "takeWhile (\<lambda>e. \<not> test (snd (the (snd e)))) (entries q) = entries q"
    by (metis append_Nil2 takeWhile_dropWhile_id)
  have "n = Null" using assms(3) unfolding Nil by simp
  with assms(4) have "ListAddTail q (Some ev) = (r, q')" by simp
  from ll.add_tail_seq [OF assms(1) this] show ?thesis unfolding Nil tw by auto
next
  case (Cons f fs)
  obtain a x where f: "f = (a, x)" by (cases f)
  let ?es = "takeWhile (\<lambda>e. \<not> test (snd (the (snd e)))) (entries q)"
  have "entries q = ?es @ (a, x) # fs"
    using takeWhile_dropWhile_id [of "\<lambda>e. \<not> test (snd (the (snd e)))" "entries q"] Cons f by simp
  from ll.add_before_seq [OF assms(1) this, of "Some ev" r q'] Cons f assms(3,4) show ?thesis by auto
qed

subsection \<open>Scheduling\<close>

text \<open>What scheduling does to the abstract queue, when event and node can be allocated.\<close>

definition schedule_post ::
  "int \<Rightarrow> ThreadPoolJob \<Rightarrow> Duration \<Rightarrow> TimerThread \<Rightarrow> int \<Rightarrow> int option \<Rightarrow> TimerThread \<Rightarrow> bool" where
  "schedule_post t job dur tm rc i tm' \<longleftrightarrow>
     timer_ok tm' \<and> dispatched tm' = dispatched tm \<and> t_shutdown tm' = t_shutdown tm \<and>
     t_freed tm' = t_freed tm \<and>
     (if rc = 0
      then i = Some (lastEventId tm) \<and> lastEventId tm' = lastEventId tm + 1 \<and>
           events tm' = insort_key eventTime
             \<lparr>te_job = job, eventTime = t, te_persistent = dur, te_id = lastEventId tm\<rparr> (events tm)
      else rc = EOUTOFMEM \<and> events tm' = events tm)"

lemma EOUTOFMEM_nonzero: "EOUTOFMEM \<noteq> 0"
  by (simp add: EOUTOFMEM_def)

lemma events_split:
  "events tm = map (\<lambda>e. snd (the (snd e))) (takeWhile P (entries (eventQ tm))) @
               map (\<lambda>e. snd (the (snd e))) (dropWhile P (entries (eventQ tm)))"
  "blocks tm = map (\<lambda>e. fst (the (snd e))) (takeWhile P (entries (eventQ tm))) @
               map (\<lambda>e. fst (the (snd e))) (dropWhile P (entries (eventQ tm)))"
  by (simp_all add: events_def blocks_def map_append [symmetric] del: map_append)

lemma set_split: "set (entries q) = set (takeWhile P (entries q)) \<union> set (dropWhile P (entries q))"
  by (metis set_append takeWhile_dropWhile_id)

lemma schedule_inserts:
  assumes "timer_ok tm" and "te_id ev = lastEventId tm"
    and "events tm' = insort_key eventTime ev (events tm)"
    and "mset (blocks tm') = mset (a # blocks tm)" and "a \<notin> set (blocks tm)"
    and "List_ok (eventQ tm')" and "None \<notin> snd ` set (entries (eventQ tm'))"
    and "lastEventId tm' = lastEventId tm + 1"
    and "FreeList_ok (freeEvents tm') (insert a (set (blocks tm)))"
  shows "timer_ok tm'"
proof -
  note tm = timer_okD [OF assms(1)]
  have "mset (map te_id (events tm')) = mset (te_id ev # map te_id (events tm))"
    unfolding assms(3) by (simp add: mset_map)
  then have "distinct (map te_id (events tm'))"
    using mset_eq_imp_distinct_iff tm(4,5) assms(2) by fastforce
  moreover have "distinct (blocks tm')"
    using mset_eq_imp_distinct_iff [OF assms(4)] tm(6) assms(5) by simp
  moreover have "set (blocks tm') = insert a (set (blocks tm))"
    using mset_eq_setD [OF assms(4)] by simp
  ultimately show ?thesis
    using assms tm by (auto simp: timer_ok_def sorted_insort_key set_insort_key)
qed

lemma TimerThreadSchedule_result:
  assumes ok: "timer_ok tm"
  shows "\<exists>rc i tm'. TimerThreadSchedule now t0 ty (Some job) dur tm = Some (rc, i, tm') \<and>
           schedule_post (CalculateEventTime now t0 ty) job dur tm rc i tm'"
proof -
  define t where "t = CalculateEventTime now t0 ty"
  define ev where "ev = \<lparr>te_job = job, eventTime = t, te_persistent = dur, te_id = lastEventId tm\<rparr>"
  note tm = timer_okD [OF ok]
  show ?thesis
  proof (cases "FreeListAlloc (freeEvents tm)")
    case (Pair p f)
    show ?thesis
    proof (cases p)
      case None
      with fl.alloc_fail [OF tm(7)] Pair have "FreeList_ok f (set (blocks tm))" by simp
      with ok Pair None show ?thesis
        by (auto simp: TimerThreadSchedule_def CreateTimerEvent_def Let_def schedule_post_def
            timer_ok_def events_def blocks_def EOUTOFMEM_nonzero)
    next
      case (Some a)
      let ?test = "\<lambda>e. eventTime e \<ge> t"
      let ?P = "\<lambda>e. \<not> ?test (snd (the (snd e)))"
      define n where "n = first_addr (dropWhile ?P (entries (eventQ tm)))"
      note fresh = fl.alloc_fresh [OF tm(7)] fl.alloc_ok [OF tm(7)]
      have a: "a \<notin> set (blocks tm)" "FreeList_ok f (insert a (set (blocks tm)))"
        using fresh Pair Some by auto
      have sc: "scan ?test (eventQ tm) (ListHead (eventQ tm)) = Some n"
        unfolding n_def by (rule scan_front [OF tm(1,2)])
      obtain r q where rq: "(if n \<noteq> Null then ListAddBefore (eventQ tm) (Some (a, ev)) n
          else ListAddTail (eventQ tm) (Some (a, ev))) = (r, q)" by fastforce
      note ins = insert_event [OF tm(1,2) n_def rq]
      define tm2 where "tm2 = tm\<lparr>freeEvents := f, eventQ := q\<rparr>"
      define rc where "rc = (if r \<noteq> Null then 0 else EOUTOFMEM)"
      define tm3 where "tm3 = (if rc = 0 then tm2 else FreeTimerEvent (a, ev) tm2)"
      have e: "TimerThreadSchedule now t0 ty (Some job) dur tm =
          Some (rc, Some (lastEventId tm3), tm3\<lparr>lastEventId := lastEventId tm3 + 1\<rparr>)"
        using Pair Some sc rq
        by (cases "n = Null")
          (simp_all add: TimerThreadSchedule_def CreateTimerEvent_def t_def [symmetric]
            ev_def [symmetric] tm2_def [symmetric] rc_def [symmetric] tm3_def Let_def)
      have "schedule_post t job dur tm rc (Some (lastEventId tm3))
              (tm3\<lparr>lastEventId := lastEventId tm3 + 1\<rparr>)"
      proof (cases "r = Null")
        case True
        with ins have q: "List_ok q" "entries q = entries (eventQ tm)" by auto
        have "FreeList_ok (freeEvents (FreeTimerEvent (a, ev) tm2)) (insert a (set (blocks tm)) - {a})"
          using fl.release_ok [OF a(2), of a] by (simp add: FreeTimerEvent_def tm2_def)
        with True q a tm show ?thesis
          by (auto simp: schedule_post_def rc_def tm3_def tm2_def FreeTimerEvent_def timer_ok_def
              events_def blocks_def EOUTOFMEM_nonzero)
      next
        case False
        with ins obtain b where q: "List_ok q"
          "entries q = takeWhile ?P (entries (eventQ tm)) @ (b, Some (a, ev)) #
                       dropWhile ?P (entries (eventQ tm))" by blast
        have tm3: "tm3 = tm2" and "rc = 0" using False by (simp_all add: tm3_def rc_def)
        have P: "?P = (\<lambda>y. eventTime y < eventTime ev) \<circ> (\<lambda>e. snd (the (snd e)))"
          by (rule ext) (auto simp: ev_def not_le)
        have "events tm3 = insort_key eventTime ev (events tm)"
          unfolding insort_key_split events_def tm3 map_takeWhile [symmetric] P [symmetric]
          by (simp add: tm2_def q(2))
        moreover have "mset (blocks tm3) = mset (a # blocks tm)"
          unfolding events_split(2) [of tm ?P] by (simp add: blocks_def tm3 tm2_def q(2))
        moreover have "None \<notin> snd ` set (entries q)"
          using tm(2) set_split [of "eventQ tm" ?P] by (auto simp: q(2))
        moreover have "lastEventId tm3 = lastEventId tm" by (simp add: tm3 tm2_def)
        moreover have "freeEvents tm3 = f" "eventQ tm3 = q" "dispatched tm3 = dispatched tm"
          "t_shutdown tm3 = t_shutdown tm" "t_freed tm3 = t_freed tm"
          by (simp_all add: tm3 tm2_def)
        ultimately show ?thesis
          using tm q(1) a \<open>rc = 0\<close> schedule_inserts [OF ok, of ev "tm3\<lparr>lastEventId := lastEventId tm + 1\<rparr>" a]
          by (auto simp: schedule_post_def ev_def t_def events_def blocks_def)
      qed
      with e show ?thesis by (auto simp: t_def)
    qed
  qed
qed

subsection \<open>Taking events out\<close>

lemma timer_ok_frame:
  "eventQ tm' = eventQ tm \<Longrightarrow> freeEvents tm' = freeEvents tm \<Longrightarrow> lastEventId tm' = lastEventId tm \<Longrightarrow>
   timer_ok tm' = timer_ok tm"
  by (simp add: timer_ok_def events_def blocks_def)

definition take_out :: "addr \<Rightarrow> event_ref \<Rightarrow> TimerThread \<Rightarrow> TimerThread" where
  "take_out n ev tm = FreeTimerEvent ev (tm\<lparr>eventQ := snd (ListDelNode (eventQ tm) n False)\<rparr>)"

lemma take_out_fields [simp]:
  "dispatched (take_out n ev tm) = dispatched tm" "t_freed (take_out n ev tm) = t_freed tm"
  "t_shutdown (take_out n ev tm) = t_shutdown tm" "lastEventId (take_out n ev tm) = lastEventId tm"
  "eventQ (take_out n ev tm) = snd (ListDelNode (eventQ tm) n False)"
  by (simp_all add: take_out_def FreeTimerEvent_def)

lemma take_out_event:
  assumes "timer_ok tm" and "entries (eventQ tm) = es @ (b, x) # fs"
  shows "\<exists>a ev. x = Some (a, ev) \<and> item (node (eventQ tm) (Blk b)) = Some (a, ev) \<and>
           events tm = map (\<lambda>e. snd (the (snd e))) es @ ev # map (\<lambda>e. snd (the (snd e))) fs \<and>
           timer_ok (take_out (Blk b) (a, ev) tm) \<and>
           entries (eventQ (take_out (Blk b) (a, ev) tm)) = es @ fs"
proof -
  note tm = timer_okD [OF assms(1)]
  have mem: "(b, x) \<in> set (entries (eventQ tm))" by (simp add: assms(2))
  with tm(2) obtain a ev where x: "x = Some (a, ev)" by (cases x) (force simp: assms(2))+
  obtain y q where d: "ListDelNode (eventQ tm) (Blk b) False = (y, q)" by fastforce
  from ll.del_seq [OF tm(1) assms(2) d] have q: "List_ok q" "entries q = es @ fs" by auto
  let ?tm = "take_out (Blk b) (a, ev) tm"
  have ev: "events tm = map (\<lambda>e. snd (the (snd e))) es @ ev # map (\<lambda>e. snd (the (snd e))) fs"
    and bl: "blocks tm = map (\<lambda>e. fst (the (snd e))) es @ a # map (\<lambda>e. fst (the (snd e))) fs"
    by (simp_all add: events_def blocks_def assms(2) x)
  have e: "events ?tm = map (\<lambda>e. snd (the (snd e))) es @ map (\<lambda>e. snd (the (snd e))) fs"
    and b: "blocks ?tm = map (\<lambda>e. fst (the (snd e))) es @ map (\<lambda>e. fst (the (snd e))) fs"
    by (simp_all add: events_def blocks_def d q(2))
  have "set (blocks tm) - {a} = set (blocks ?tm)" using tm(6) by (auto simp: bl b)
  then have "FreeList_ok (freeEvents ?tm) (set (blocks ?tm))"
    using fl.release_ok [OF tm(7), of a] by (simp add: take_out_def FreeTimerEvent_def bl)
  then have "timer_ok ?tm"
    using tm q d unfolding timer_ok_def ev bl e b
    by (auto simp: assms(2) sorted_append)
  then show ?thesis using item_entries [OF tm(1) mem] ev d q(2) by (simp add: x)
qed

lemma TimerThreadRemove_result:
  assumes "timer_ok tm"
  shows "\<exists>rc out tm'. TimerThreadRemove i tm = Some (rc, out, tm') \<and> timer_ok tm' \<and>
           dispatched tm' = dispatched tm \<and> t_freed tm' = t_freed tm \<and>
           events tm' = filter (\<lambda>e. te_id e \<noteq> i) (events tm) \<and>
           (case filter (\<lambda>e. te_id e = i) (events tm) of
              [] \<Rightarrow> rc = INVALID_EVENT_ID \<and> out = None \<and> tm' = tm
            | e # _ \<Rightarrow> rc = 0 \<and> out = Some (te_job e))"
proof -
  note tm = timer_okD [OF assms]
  let ?P = "\<lambda>e. \<not> te_id (snd (the (snd e))) = i"
  have sc: "scan (\<lambda>e. te_id e = i) (eventQ tm) (ListHead (eventQ tm)) =
      Some (first_addr (dropWhile ?P (entries (eventQ tm))))"
    by (rule scan_front [OF tm(1,2)])
  show ?thesis
  proof (cases "dropWhile ?P (entries (eventQ tm))")
    case Nil
    then have "\<forall>e\<in>set (events tm). te_id e \<noteq> i" by (auto simp: events_def)
    moreover from this have "filter (\<lambda>e. te_id e = i) (events tm) = []" "filter (\<lambda>e. te_id e \<noteq> i) (events tm) = events tm"
      by (auto simp: filter_empty_conv)
    moreover have "TimerThreadRemove i tm = Some (INVALID_EVENT_ID, None, tm)"
      using sc unfolding Nil by (simp add: TimerThreadRemove_def)
    ultimately show ?thesis using assms by simp
  next
    case (Cons f fs)
    obtain b x where f: "f = (b, x)" by (cases f)
    let ?es = "takeWhile ?P (entries (eventQ tm))"
    have en: "entries (eventQ tm) = ?es @ (b, x) # fs"
      using takeWhile_dropWhile_id [of ?P "entries (eventQ tm)"] Cons f by simp
    from take_out_event [OF assms en] obtain a ev where
      t: "x = Some (a, ev)" "item (node (eventQ tm) (Blk b)) = Some (a, ev)"
        "events tm = map (\<lambda>e. snd (the (snd e))) ?es @ ev # map (\<lambda>e. snd (the (snd e))) fs"
        "timer_ok (take_out (Blk b) (a, ev) tm)"
        "entries (eventQ (take_out (Blk b) (a, ev) tm)) = ?es @ fs" by blast
    have i: "te_id ev = i" using hd_dropWhile [of ?P "entries (eventQ tm)"] Cons f t(1) by simp
    have r: "TimerThreadRemove i tm = Some (0, Some (te_job ev), take_out (Blk b) (a, ev) tm)"
      using sc t(2) unfolding Cons f by (simp add: TimerThreadRemove_def take_out_def)
    define us vs where "us = map (\<lambda>e. snd (the (snd e))) ?es" and "vs = map (\<lambda>e. snd (the (snd e))) fs"
    have ev: "events tm = us @ ev # vs" unfolding t(3) us_def vs_def ..
    have d: "distinct (map te_id (us @ ev # vs))" using tm(4) unfolding ev .
    have ids: "\<forall>e \<in> set us \<union> set vs. te_id e \<noteq> i"
      using d unfolding i [symmetric] by (auto simp: rev_image_eqI)
    have keep: "filter (\<lambda>e. te_id e \<noteq> i) (events tm) = us @ vs"
      unfolding ev using ids i by (simp add: filter_id_conv)
    have found: "filter (\<lambda>e. te_id e = i) (events tm) = [ev]"
      unfolding ev using ids i by (simp add: filter_empty_conv)
    have "events (take_out (Blk b) (a, ev) tm) = us @ vs"
      unfolding events_def t(5) us_def vs_def map_append ..
    then have "events (take_out (Blk b) (a, ev) tm) = filter (\<lambda>e. te_id e \<noteq> i) (events tm)"
      unfolding keep .
    with r t(4) found show ?thesis by simp
  qed
qed

subsection \<open>The timer thread's loop\<close>

text \<open>One turn, on the abstract queue.\<close>

lemma timer_turn_result:
  assumes "timer_ok tm"
  shows "if t_shutdown tm then timer_turn now rc tm = Some (T_returned, tm\<lparr>t_shutdown := False\<rparr>)
         else case events tm of
           [] \<Rightarrow> timer_turn now rc tm = Some (T_forever, tm)
         | e # es \<Rightarrow>
             if now < eventTime e then timer_turn now rc tm = Some (T_until (eventTime e), tm)
             else \<exists>tm'. timer_turn now rc tm = Some (T_again, tm') \<and> timer_ok tm' \<and> events tm' = es \<and>
                        dispatched tm' = dispatched tm @ [(e, rc)] \<and> \<not> t_shutdown tm'"
proof (cases "t_shutdown tm")
  case True
  then show ?thesis by (simp add: timer_turn_def)
next
  case False
  note tm = timer_okD [OF assms]
  have size: "lsize (eventQ tm) = int (length (events tm))"
    using List_ok_size [OF tm(1)] by (simp add: events_def ListSize_def)
  show ?thesis
  proof (cases "entries (eventQ tm)")
    case Nil
    with False size show ?thesis by (simp add: timer_turn_def events_def)
  next
    case (Cons f fs)
    obtain b x where f: "f = (b, x)" by (cases f)
    from take_out_event [OF assms, of "[]" b x fs] Cons f obtain a ev where
      t: "item (node (eventQ tm) (Blk b)) = Some (a, ev)"
        "events tm = ev # map (\<lambda>e. snd (the (snd e))) fs" by auto
    have h: "ListHead (eventQ tm) = Blk b" using ll.front_seq [OF tm(1)] Cons f by simp
    show ?thesis
    proof (cases "now < eventTime ev")
      case True
      with False t size h show ?thesis by (simp add: timer_turn_def)
    next
      case due: False
      let ?tm = "dispatch rc (a, ev) tm"
      have q: "eventQ ?tm = eventQ tm" "freeEvents ?tm = freeEvents tm" "lastEventId ?tm = lastEventId tm"
        "t_shutdown ?tm = t_shutdown tm" "dispatched ?tm = dispatched tm @ [(ev, rc)]"
        by (simp_all add: dispatch_def call_free_def Let_def split: option.splits)
      then have "timer_ok ?tm" using assms timer_ok_frame [of ?tm tm] by simp
      from take_out_event [OF this, of "[]" b x fs] Cons f q(1) t(1) have
        o: "timer_ok (take_out (Blk b) (a, ev) ?tm)" "entries (eventQ (take_out (Blk b) (a, ev) ?tm)) = fs"
        by auto
      have "timer_turn now rc tm = Some (T_again, take_out (Blk b) (a, ev) ?tm)"
        using False due t size h by (simp add: timer_turn_def take_out_def q)
      with o False due t q show ?thesis by (simp add: events_def)
    qed
  qed
qed

text \<open>
  The whole run until the thread waits: the events dispatched are a prefix of the queue, each
  one due when the clock was read for it, and the event left at the head was not.
\<close>

lemma timer_run_result:
  assumes "timer_ok tm" and "\<not> t_shutdown tm"
  shows "\<exists>tm' n. timer_run now rc k tm =
             Some (case drop n (events tm) of [] \<Rightarrow> T_forever | e # _ \<Rightarrow> T_until (eventTime e), tm') \<and>
           timer_ok tm' \<and> n \<le> length (events tm) \<and> events tm' = drop n (events tm) \<and>
           dispatched tm' = dispatched tm @ map (\<lambda>i. (events tm ! i, rc (k + i))) [0..<n] \<and>
           (\<forall>i < n. eventTime (events tm ! i) \<le> now (k + i)) \<and>
           (n < length (events tm) \<longrightarrow> now (k + n) < eventTime (events tm ! n))"
  using assms
proof (induction "events tm" arbitrary: tm k)
  case Nil
  then have "timer_turn (now k) (rc k) tm = Some (T_forever, tm)"
    using timer_turn_result [OF Nil.prems(1), of "now k" "rc k"] by (simp split: if_splits)
  then have "timer_run now rc k tm = Some (T_forever, tm)" by (subst timer_run.simps) simp
  with Nil show ?case by (intro exI [of _ tm] exI [of _ 0]) simp
next
  case (Cons e es)
  note ev = Cons.hyps(2) [symmetric]
  show ?case
  proof (cases "now k < eventTime e")
    case True
    then have "timer_turn (now k) (rc k) tm = Some (T_until (eventTime e), tm)"
      using timer_turn_result [OF Cons.prems(1), of "now k" "rc k"] Cons.prems(2) ev by simp
    then have "timer_run now rc k tm = Some (T_until (eventTime e), tm)" by (subst timer_run.simps) simp
    with Cons.prems ev True show ?thesis by (intro exI [of _ tm] exI [of _ 0]) simp
  next
    case False
    then obtain tm1 where t1: "timer_turn (now k) (rc k) tm = Some (T_again, tm1)" "timer_ok tm1"
      "events tm1 = es" "dispatched tm1 = dispatched tm @ [(e, rc k)]" "\<not> t_shutdown tm1"
      using timer_turn_result [OF Cons.prems(1), of "now k" "rc k"] Cons.prems(2) ev by auto
    from Cons.hyps(1) [OF t1(3) [symmetric] t1(2,5), of "Suc k"] obtain tm' n where
      r: "timer_run now rc (Suc k) tm1 =
            Some (case drop n es of [] \<Rightarrow> T_forever | e # _ \<Rightarrow> T_until (eventTime e), tm')"
        "timer_ok tm'" "n \<le> length es" "events tm' = drop n es"
        "dispatched tm' = dispatched tm1 @ map (\<lambda>i. (es ! i, rc (Suc k + i))) [0..<n]"
        "\<forall>i < n. eventTime (es ! i) \<le> now (Suc k + i)"
        "n < length es \<longrightarrow> now (Suc k + n) < eventTime (es ! n)"
      unfolding t1(3) by blast
    have "timer_run now rc k tm = timer_run now rc (Suc k) tm1"
      by (subst timer_run.simps) (simp add: t1(1))
    moreover have "map (\<lambda>i. ((e # es) ! i, rc (k + i))) [0..<Suc n] =
        (e, rc k) # map (\<lambda>i. (es ! i, rc (Suc k + i))) [0..<n]"
      by (subst upt_conv_Cons) (simp_all add: map_Suc_upt [symmetric] del: upt_Suc)
    moreover have "\<forall>i < Suc n. eventTime ((e # es) ! i) \<le> now (k + i)"
      using r(6) False by (auto simp: less_Suc_eq_0_disj)
    ultimately show ?thesis
      using r t1(4) ev by (intro exI [of _ tm'] exI [of _ "Suc n"]) simp
  qed
qed

subsection \<open>Shutting the timer down\<close>

definition event_frees :: "TimerEvent list \<Rightarrow> (nat \<times> nat option) list" where
  "event_frees es =
     concat (map (\<lambda>e. case job_free_func (te_job e) of Some f \<Rightarrow> [(f, arg (te_job e))] | None \<Rightarrow> []) es)"

lemma shutdown_loop_result:
  assumes "timer_ok tm"
  shows "\<exists>tm'. shutdown_loop tm (ListHead (eventQ tm)) = Some tm' \<and> timer_ok tm' \<and> events tm' = [] \<and>
           t_freed tm' = t_freed tm @ event_frees (events tm) \<and> t_shutdown tm' = t_shutdown tm \<and>
           dispatched tm' = dispatched tm"
  using assms
proof (induction "entries (eventQ tm)" arbitrary: tm)
  case Nil
  then have "ListHead (eventQ tm) = Null" using ll.front_seq timer_okD(1) by force
  with Nil show ?case by (subst shutdown_loop.simps) (simp add: events_def event_frees_def)
next
  case (Cons f fs)
  note en = Cons.hyps(2) [symmetric]
  obtain b x where f: "f = (b, x)" by (cases f)
  note tm = timer_okD [OF Cons.prems]
  from take_out_event [OF Cons.prems, of "[]" b x fs] en f obtain a ev where
    i: "item (node (eventQ tm) (Blk b)) = Some (a, ev)"
      "events tm = ev # map (\<lambda>e. snd (the (snd e))) fs" by auto
  have h: "ListHead (eventQ tm) = Blk b" "ListNext (eventQ tm) (Blk b) = first_addr fs"
    using ll.front_seq [OF tm(1)] ll.succ_seq [OF tm(1), of "[]" b x fs] en f by simp_all
  let ?tm = "call_free (te_job ev) tm"
  have q: "eventQ ?tm = eventQ tm" "freeEvents ?tm = freeEvents tm" "lastEventId ?tm = lastEventId tm"
    "t_shutdown ?tm = t_shutdown tm" "dispatched ?tm = dispatched tm"
    "t_freed ?tm = t_freed tm @ event_frees [ev]"
    by (simp_all add: call_free_def event_frees_def split: option.splits)
  then have "timer_ok ?tm" using Cons.prems timer_ok_frame [of ?tm tm] by simp
  from take_out_event [OF this, of "[]" b x fs] en f q(1) i(1) have
    o: "timer_ok (take_out (Blk b) (a, ev) ?tm)" "entries (eventQ (take_out (Blk b) (a, ev) ?tm)) = fs"
    by auto
  let ?tm1 = "take_out (Blk b) (a, ev) ?tm"
  have front: "ListHead (eventQ ?tm1) = first_addr fs"
    using ll.front_seq [OF timer_okD(1) [OF o(1)]] o(2) by simp
  have "FreeTimerEvent (a, ev) (call_free (te_job ev)
      (tm\<lparr>eventQ := snd (ListDelNode (eventQ tm) (Blk b) False)\<rparr>)) = ?tm1"
    by (simp add: take_out_def FreeTimerEvent_def call_free_def split: option.splits)
  then have step: "shutdown_loop tm (ListHead (eventQ tm)) = shutdown_loop ?tm1 (ListHead (eventQ ?tm1))"
    unfolding front by (subst shutdown_loop.simps) (simp add: h i(1) Let_def)
  have "events ?tm1 = map (\<lambda>e. snd (the (snd e))) fs" unfolding events_def o(2) ..
  with Cons.hyps(1) [OF o(2) [symmetric] o(1)] step i(2) q show ?case
    by (auto simp: event_frees_def)
qed

lemma TimerThreadShutdown_result:
  assumes "timer_ok tm"
  shows "\<exists>tm'. TimerThreadShutdown tm = Some tm' \<and> timer_ok tm' \<and> events tm' = [] \<and> t_shutdown tm' \<and>
           t_freed tm' = t_freed tm @ event_frees (events tm) \<and> dispatched tm' = dispatched tm"
proof -
  let ?tm = "tm\<lparr>t_shutdown := True\<rparr>"
  have "timer_ok ?tm" using assms timer_ok_frame [of ?tm tm] by simp
  from shutdown_loop_result [OF this] obtain tm1 where
    l: "shutdown_loop ?tm (ListHead (eventQ tm)) = Some tm1" "timer_ok tm1" "events tm1 = []"
      "t_freed tm1 = t_freed tm @ event_frees (events tm)" "t_shutdown tm1" "dispatched tm1 = dispatched tm"
    by (auto simp: events_def)
  note t1 = timer_okD [OF l(2)]
  from ListDestroy_ok [OF t1(1), of False] obtain q where
    q: "ListDestroy (eventQ tm1) False = Some (0, q)" "List_ok q" "entries q = []" by blast
  from FreeListDestroy_ok [OF t1(7)] obtain f where
    f: "FreeListDestroy (freeEvents tm1) = Some (0, f)" "FreeList_ok f (set (blocks tm1))" by blast
  have "blocks tm1 = []" using l(3) by (simp add: events_def blocks_def)
  with f(2) q have "timer_ok (tm1\<lparr>eventQ := q, freeEvents := f\<rparr>)"
    by (simp add: timer_ok_def events_def blocks_def)
  with l q f show ?thesis by (simp add: TimerThreadShutdown_def events_def)
qed

lemma TimerThreadInit_result:
  assumes "heap_ok (fl_heap (freeEvents tm))" and "live (fl_heap (freeEvents tm)) = {}"
    and "heap_ok (fl_heap (freeNodeList (eventQ tm)))"
    and "live (fl_heap (freeNodeList (eventQ tm))) = {}"
  shows "\<exists>tm'. TimerThreadInit 0 rc tm = Some (rc, tm') \<and> timer_ok tm' \<and> events tm' = [] \<and>
           \<not> t_shutdown tm' \<and> dispatched tm' = dispatched tm \<and> t_freed tm' = t_freed tm"
proof -
  obtain r1 f where f: "FreeListInit 64 100 (freeEvents tm) = (r1, f)" by fastforce
  obtain r2 q where q: "ListInit (eventQ tm) None False = (r2, q)" by fastforce
  have f': "r1 = 0" "FreeList_ok f {}"
    using FreeListInit_ok [OF assms(1), of 64 100] assms(2) f by (auto simp: FreeListInit_def)
  note q' = ListInit_ok [OF assms(3,4) q]
  let ?tm = "tm\<lparr>freeEvents := f, t_shutdown := False, lastEventId := 0, eventQ := q\<rparr>"
  have ok: "timer_ok ?tm" using f' q' by (simp add: timer_ok_def events_def blocks_def)
  from FreeListDestroy_ok [OF f'(2)] obtain f2 where
    f2: "FreeListDestroy f = Some (0, f2)" "FreeList_ok f2 {}" by blast
  from ListDestroy_ok [OF q'(2), of False] obtain q2 where
    q2: "ListDestroy q False = Some (0, q2)" "List_ok q2" "entries q2 = []" by blast
  have "timer_ok (?tm\<lparr>freeEvents := f2, eventQ := q2\<rparr>)"
    using f2 q2 by (simp add: timer_ok_def events_def blocks_def)
  with ok f q f' q' f2 q2 show ?thesis
    by (auto simp: TimerThreadInit_def events_def Let_def)
qed

end
