(* ===== verification/TimerProperties.thy ===== *)
theory TimerProperties
  imports TimerThread
begin

text \<open>
  The properties of the timer thread: every sequence of its operations keeps the queue sorted
  and owned once, scheduling inserts by time, due events are dispatched in order and never
  early, removal and shutdown release what they take out.
\<close>

subsection \<open>Sequences of operations\<close>

text \<open>A step is one critical section of a caller or of the timer thread.\<close>

inductive timer_step :: "TimerThread \<Rightarrow> TimerThread \<Rightarrow> bool" where
  schedules: "TimerThreadSchedule now t ty jo dur tm = Some (rc, i, tm') \<Longrightarrow> timer_step tm tm'"
| removes: "TimerThreadRemove i tm = Some (rc, out, tm') \<Longrightarrow> timer_step tm tm'"
| runs: "timer_turn now rc tm = Some (st, tm') \<Longrightarrow> timer_step tm tm'"
| shuts_down: "TimerThreadShutdown tm = Some tm' \<Longrightarrow> timer_step tm tm'"

inductive_cases timer_stepE: "timer_step tm tm'"


definition fresh_timer :: "(nat \<Rightarrow> bool) \<Rightarrow> TimerThread" where
  "fresh_timer g =
     (let f = \<lparr>fl_head = None, fl_next = (\<lambda>_. None), element_size = 0, maxFreeListLength = 0,
               freeListLength = 0,
               fl_heap = \<lparr>live = {}, calls = 0, grants = g, bad_free = False\<rparr>\<rparr>
      in \<lparr>lastEventId = 0,
          eventQ = \<lparr>node = (\<lambda>_. \<lparr>prev = Null, next = Null, item = None\<rparr>), lsize = 0,
                    freeNodeList = f, free_func = False, cmp_func = None, freed = []\<rparr>,
          t_shutdown = False, freeEvents = f, dispatched = [], t_freed = []\<rparr>)"

lemma fresh_timer_init:
  "\<exists>tm'. TimerThreadInit 0 rc (fresh_timer g) = Some (rc, tm') \<and> timer_ok tm' \<and> events tm' = [] \<and>
         \<not> t_shutdown tm' \<and> dispatched tm' = [] \<and> t_freed tm' = []"
  using TimerThreadInit_result [of "fresh_timer g" rc]
  by (simp add: fresh_timer_def Let_def heap_ok_def)


text \<open>\<open>TimerThreadSchedule\<close> ends; when the event and its node can be allocated it puts the event
  in its place by absolute time (before the events of the same time), stamps it with the next
  id and returns that id; otherwise it returns \<open>EOUTOFMEM\<close> and leaves the queue as it was.\<close>
theorem schedule_inserts_by_time:
  assumes "timer_ok tm"
  shows "\<exists>rc i tm'. TimerThreadSchedule now t ty (Some job) dur tm = Some (rc, i, tm') \<and> timer_ok tm' \<and>
           (if rc = 0
            then i = Some (lastEventId tm) \<and> lastEventId tm' = lastEventId tm + 1 \<and>
                 events tm' = insort_key eventTime
                   \<lparr>te_job = job, eventTime = (if ty = REL_SEC then t + now else t),
                    te_persistent = dur, te_id = lastEventId tm\<rparr> (events tm)
            else rc = EOUTOFMEM \<and> events tm' = events tm)"
proof -
  have "CalculateEventTime now t ty = (if ty = REL_SEC then t + now else t)"
    by (cases ty) (simp_all add: CalculateEventTime_def)
  from TimerThreadSchedule_result [OF assms, of now t ty job dur, unfolded this schedule_post_def]
  show ?thesis by blast
qed

text \<open>C36: The timer thread, once running, works until it waits: the events whose jobs it offered to
  the pool are exactly a prefix of the sorted queue, each of them due at the time read for it
  (never early), the event then at the head was not yet due, and the thread waits until exactly
  that event's time, or without limit when no event is left.\<close>
theorem timer_fires_due_events:
  assumes "timer_ok tm" and "\<not> t_shutdown tm"
  shows "\<exists>tm' n. timer_run now rc k tm =
             Some (case drop n (events tm) of [] \<Rightarrow> T_forever | e # _ \<Rightarrow> T_until (eventTime e), tm') \<and>
           timer_ok tm' \<and> n \<le> length (events tm) \<and> events tm' = drop n (events tm) \<and>
           dispatched tm' = dispatched tm @ map (\<lambda>i. (events tm ! i, rc (k + i))) [0..<n] \<and>
           (\<forall>i < n. eventTime (events tm ! i) \<le> now (k + i)) \<and>
           (n < length (events tm) \<longrightarrow> now (k + n) < eventTime (events tm ! n))"
  by (rule timer_run_result [OF assms])

text \<open>\<open>TimerThreadRemove\<close> ends and takes out exactly the event with the given id, returning its
  job, and reports \<open>INVALID_EVENT_ID\<close> without changing anything when no such event is queued;
  removed events are neither dispatched nor freed.\<close>
theorem remove_takes_out_event:
  assumes "timer_ok tm"
  shows "\<exists>rc out tm'. TimerThreadRemove i tm = Some (rc, out, tm') \<and> timer_ok tm' \<and>
           dispatched tm' = dispatched tm \<and> t_freed tm' = t_freed tm \<and>
           events tm' = filter (\<lambda>e. te_id e \<noteq> i) (events tm) \<and>
           (case filter (\<lambda>e. te_id e = i) (events tm) of
              [] \<Rightarrow> rc = INVALID_EVENT_ID \<and> out = None \<and> tm' = tm
            | e # _ \<Rightarrow> rc = 0 \<and> out = Some (te_job e))"
  by (rule TimerThreadRemove_result [OF assms])

text \<open>\<open>TimerThreadShutdown\<close> empties the queue, calls the free function of every queued job that
  has one, in the order of the queue, dispatches nothing, and asks the thread to leave; the
  next turn of the thread then returns and clears the flag \<open>TimerThreadShutdown\<close> waits for.\<close>
theorem timer_shutdown_discards:
  assumes "timer_ok tm"
  shows "\<exists>tm'. TimerThreadShutdown tm = Some tm' \<and> events tm' = [] \<and>
           t_freed tm' = t_freed tm @ event_frees (events tm) \<and> dispatched tm' = dispatched tm \<and>
           timer_turn now rc tm' = Some (T_returned, tm'\<lparr>t_shutdown := False\<rparr>)"
  using TimerThreadShutdown_result [OF assms] by (auto simp: timer_turn_def)

subsection \<open>A run\<close>

definition tick_job :: ThreadPoolJob where
  "tick_job = \<lparr>func = Some 1, arg = Some 2, job_free_func = Some 3,
               requestTime = \<lparr>tv_sec = 0, tv_usec = 0\<rparr>, priority = LOW_PRIORITY, jobId = 0\<rparr>"

lemma timer_example:
  "\<exists>tm0 tm1. TimerThreadInit 0 0 (fresh_timer (\<lambda>_. True)) = Some (0, tm0) \<and>
     TimerThreadSchedule 100 30 REL_SEC (Some tick_job) SHORT_TERM tm0 = Some (0, Some 0, tm1) \<and>
     timer_ok tm1 \<and> lastEventId tm1 = 1 \<and> dispatched tm1 = [] \<and> t_freed tm1 = [] \<and> \<not> t_shutdown tm1 \<and>
     events tm1 = [\<lparr>te_job = tick_job, eventTime = 130, te_persistent = SHORT_TERM, te_id = 0\<rparr>]"
proof -
  from fresh_timer_init [of 0 "\<lambda>_. True"] obtain tm0 where
    i: "TimerThreadInit 0 0 (fresh_timer (\<lambda>_. True)) = Some (0, tm0)" "timer_ok tm0" "events tm0 = []"
      "\<not> t_shutdown tm0" "dispatched tm0 = []" "t_freed tm0 = []" by auto
  then have tm0: "tm0 = snd (the (TimerThreadInit 0 0 (fresh_timer (\<lambda>_. True))))" by simp
  have l: "lastEventId tm0 = 0" unfolding tm0
    by (simp add: TimerThreadInit_def fresh_timer_def FreeListInit_def ListInit_def Let_def)
  have en: "entries (eventQ tm0) = []" using i(3) by (simp add: events_def)
  have "fst (the (TimerThreadSchedule 100 30 REL_SEC (Some tick_job) SHORT_TERM tm0)) = 0"
    unfolding tm0
    by (simp add: TimerThreadInit_def fresh_timer_def FreeListInit_def ListInit_def Let_def
        TimerThreadSchedule_def CreateTimerEvent_def FreeListAlloc_def malloc_def scan.simps
        ListHead_def ListSize_def ListAddTail_def ListAddBefore_def CreateListNode_def)
  moreover from TimerThreadSchedule_result [OF i(2), of 100 30 REL_SEC tick_job SHORT_TERM] obtain rc j tm1 where
    s: "TimerThreadSchedule 100 30 REL_SEC (Some tick_job) SHORT_TERM tm0 = Some (rc, j, tm1)"
      "schedule_post (CalculateEventTime 100 30 REL_SEC) tick_job SHORT_TERM tm0 rc j tm1" by blast
  ultimately have "rc = 0" by simp
  with i s l show ?thesis
    by (auto simp: schedule_post_def CalculateEventTime_def)
qed


theorem schedule_inserts_by_time_witness:
  "\<exists>tm rc i tm'. events tm \<noteq> [] \<and>
     TimerThreadSchedule 100 5 ABS_SEC (Some tick_job) LONG_TERM tm = Some (rc, i, tm') \<and>
     (rc = 0 \<longrightarrow> map eventTime (events tm') = [5, 130])"
proof -
  from timer_example obtain tm where e: "timer_ok tm"
    "events tm = [\<lparr>te_job = tick_job, eventTime = 130, te_persistent = SHORT_TERM, te_id = 0\<rparr>]"
    by blast
  from schedule_inserts_by_time [OF e(1), of 100 5 ABS_SEC tick_job LONG_TERM] obtain rc i tm' where
    s: "TimerThreadSchedule 100 5 ABS_SEC (Some tick_job) LONG_TERM tm = Some (rc, i, tm')"
      "rc = 0 \<longrightarrow> map eventTime (events tm') = [5, 130]"
    by (auto simp: e(2) split: if_splits)
  show ?thesis
    by (intro exI [of _ tm] exI [of _ rc] exI [of _ i] exI [of _ tm']) (use s e(2) in simp)
qed

theorem timer_fires_due_events_witness:
  "\<exists>tm tm'. timer_run (\<lambda>_. 131) (\<lambda>_. 0) 0 tm = Some (T_forever, tm') \<and>
     map (te_job \<circ> fst) (dispatched tm') = [tick_job]"
proof -
  from timer_example obtain tm where e: "timer_ok tm" "\<not> t_shutdown tm" "dispatched tm = []"
    "events tm = [\<lparr>te_job = tick_job, eventTime = 130, te_persistent = SHORT_TERM, te_id = 0\<rparr>]"
    by blast
  from timer_fires_due_events [OF e(1,2), of "\<lambda>_. 131" "\<lambda>_. 0" 0] obtain tm' n where
    r: "timer_run (\<lambda>_. 131) (\<lambda>_. 0) 0 tm =
          Some (case drop n (events tm) of [] \<Rightarrow> T_forever | e # _ \<Rightarrow> T_until (eventTime e), tm')"
      "dispatched tm' = dispatched tm @ map (\<lambda>i. (events tm ! i, 0)) [0..<n]"
      "n \<le> length (events tm)" "n < length (events tm) \<longrightarrow> 131 < eventTime (events tm ! n)"
    by blast
  from r(3,4) have "n = 1" by (cases n) (auto simp: e(4))
  with r(1,2) show ?thesis by (intro exI [of _ tm] exI [of _ tm']) (simp add: e(3,4))
qed

theorem remove_takes_out_event_witness:
  "\<exists>tm rc tm'. TimerThreadRemove 0 tm = Some (rc, Some tick_job, tm') \<and> rc = 0 \<and> events tm' = []"
proof -
  from timer_example obtain tm where e: "timer_ok tm"
    "events tm = [\<lparr>te_job = tick_job, eventTime = 130, te_persistent = SHORT_TERM, te_id = 0\<rparr>]"
    by blast
  from remove_takes_out_event [OF e(1), of 0] show ?thesis by (auto simp: e(2))
qed

theorem timer_shutdown_discards_witness:
  "\<exists>tm tm'. TimerThreadShutdown tm = Some tm' \<and> t_freed tm' = [(3, Some 2)]"
proof -
  from timer_example obtain tm where e: "timer_ok tm" "t_freed tm = []"
    "events tm = [\<lparr>te_job = tick_job, eventTime = 130, te_persistent = SHORT_TERM, te_id = 0\<rparr>]"
    by blast
  from timer_shutdown_discards [OF e(1), of 0 0] e(2,3) show ?thesis
    by (auto simp: event_frees_def tick_job_def)
qed

end
