(* ===== verification/CStrings.thy ===== *)
theory CStrings
  imports Prelude "HOL-Library.Char_ord"
begin

text \<open>
  The parts of the C library's string and character functions the UPnP code uses, on lists of
  characters. A C string is the list of its characters before the NUL: reading at its end gives
  NUL. Character codes are those of \<open>unsigned char\<close>, which is how \<open>strncmp\<close> and the
  \<open>ctype.h\<close> functions look at them; the locale is "C".
\<close>

subsection \<open>Characters\<close>

definition code :: "char \<Rightarrow> nat" where
  "code c = of_char c"

lemma code_less [simp]: "code c < 256"
  by (simp add: code_def)

lemma code_inj [simp]: "code c = code d \<longleftrightarrow> c = d"
  by (simp add: code_def)

definition isdigit :: "char \<Rightarrow> bool" where
  "isdigit c \<longleftrightarrow> code CHR ''0'' \<le> code c \<and> code c \<le> code CHR ''9''"

definition isupper :: "char \<Rightarrow> bool" where
  "isupper c \<longleftrightarrow> code CHR ''A'' \<le> code c \<and> code c \<le> code CHR ''Z''"

definition islower :: "char \<Rightarrow> bool" where
  "islower c \<longleftrightarrow> code CHR ''a'' \<le> code c \<and> code c \<le> code CHR ''z''"

definition isalpha :: "char \<Rightarrow> bool" where
  "isalpha c \<longleftrightarrow> isupper c \<or> islower c"

definition isalnum :: "char \<Rightarrow> bool" where
  "isalnum c \<longleftrightarrow> isalpha c \<or> isdigit c"

definition isxdigit :: "char \<Rightarrow> bool" where
  "isxdigit c \<longleftrightarrow> isdigit c \<or> (code CHR ''a'' \<le> code c \<and> code c \<le> code CHR ''f'') \<or>
                  (code CHR ''A'' \<le> code c \<and> code c \<le> code CHR ''F'')"

definition tolower :: "char \<Rightarrow> char" where
  "tolower c = (if isupper c then char_of (code c + 32) else c)"

lemma tolower_code: "code (tolower c) = (if isupper c then code c + 32 else code c)"
  by (simp add: tolower_def code_def isupper_def)

lemma tolower_idem [simp]: "tolower (tolower c) = tolower c"
proof -
  have "\<not> isupper (tolower c)" if "isupper c"
    using that tolower_code [of c] by (simp add: isupper_def code_def)
  then show ?thesis by (auto simp: tolower_def)
qed

subsection \<open>Comparing\<close>

text \<open>\<open>peek_char s\<close> is the character \<open>s\<close> points to, NUL at the end of the string.\<close>

fun peek_char :: "char list \<Rightarrow> nat" where
  "peek_char [] = 0"
| "peek_char (c # cs) = code c"

fun strncmp :: "nat \<Rightarrow> char list \<Rightarrow> char list \<Rightarrow> int" where
  "strncmp 0 a b = 0"
| "strncmp (Suc n) a b =
     (if peek_char a \<noteq> peek_char b then int (peek_char a) - int (peek_char b)
      else if peek_char a = 0 then 0
      else strncmp n (tl a) (tl b))"

definition strncasecmp :: "nat \<Rightarrow> char list \<Rightarrow> char list \<Rightarrow> int" where
  "strncasecmp n a b = strncmp n (map tolower a) (map tolower b)"

definition no_nul :: "char list \<Rightarrow> bool" where
  "no_nul s \<longleftrightarrow> CHR 0x00 \<notin> set s"

lemma no_nul_simps [simp]:
  "no_nul []" "no_nul (c # s) \<longleftrightarrow> c \<noteq> CHR 0x00 \<and> no_nul s"
  "no_nul (s @ t) \<longleftrightarrow> no_nul s \<and> no_nul t"
  by (auto simp: no_nul_def)

lemma code_zero [simp]: "code c = 0 \<longleftrightarrow> c = CHR 0x00"
proof -
  have "code CHR 0x00 = 0" by (simp add: code_def)
  then show ?thesis by (metis code_inj)
qed

lemma code_pos [simp]: "0 < code c \<longleftrightarrow> c \<noteq> CHR 0x00"
  using code_zero [of c] by (auto simp del: code_zero)

lemma tolower_nul [simp]: "tolower c = CHR 0x00 \<longleftrightarrow> c = CHR 0x00"
  using tolower_code [of c] by (auto simp: isupper_def tolower_def code_def)

lemma no_nul_tolower [simp]: "no_nul (map tolower s) = no_nul s"
  by (induction s) auto

text \<open>
  \<open>lex_less\<close> is the order of C strings; the comparison of a length-delimited string with a
  NUL-terminated one below gives exactly it.
\<close>

fun lex_less :: "char list \<Rightarrow> char list \<Rightarrow> bool" where
  "lex_less [] ys = (ys \<noteq> [])"
| "lex_less (x # xs) [] = False"
| "lex_less (x # xs) (y # ys) = (code x < code y \<or> (x = y \<and> lex_less xs ys))"

lemma lex_less_irrefl [simp]: "\<not> lex_less xs xs"
  by (induction xs) auto

lemma lex_less_Nil2 [simp]: "\<not> lex_less xs []"
  by (cases xs) auto

lemma lex_less_trans: "lex_less xs ys \<Longrightarrow> lex_less ys zs \<Longrightarrow> lex_less xs zs"
proof (induction xs ys arbitrary: zs rule: lex_less.induct)
  case (1 ys)
  then show ?case by (cases zs) auto
next
  case (2 x xs)
  then show ?case by simp
next
  case (3 x xs y ys)
  then show ?case by (cases zs) (auto intro: less_trans)
qed

lemma lex_less_linear: "lex_less xs ys \<or> xs = ys \<or> lex_less ys xs"
proof (induction xs ys rule: lex_less.induct)
  case (3 x xs y ys)
  then show ?case using code_inj [of x y] by (auto simp: not_less le_less)
qed auto

lemma lex_less_asym: "lex_less xs ys \<Longrightarrow> \<not> lex_less ys xs"
  using lex_less_trans by fastforce

text \<open>What \<open>memptr_cmp\<close> computes: the sign of the comparison.\<close>

definition cmp_sign :: "char list \<Rightarrow> char list \<Rightarrow> int" where
  "cmp_sign a b = (if a = b then 0 else if lex_less a b then -1 else 1)"

lemma strncmp_sign:
  "no_nul a \<Longrightarrow> no_nul b \<Longrightarrow>
     sgn (let c = strncmp (length a) a b in if c = 0 \<and> length a < length b then -1 else c) = cmp_sign a b"
proof (induction a arbitrary: b)
  case Nil
  then show ?case by (cases b) (auto simp: cmp_sign_def)
next
  case (Cons x xs)
  show ?case
  proof (cases b)
    case Nil
    with Cons.prems show ?thesis by (simp add: cmp_sign_def Let_def)
  next
    case (Cons y ys)
    show ?thesis
    proof (cases "x = y")
      case True
      with Cons.prems Cons Cons.IH [of ys] show ?thesis
        by (auto simp: cmp_sign_def Let_def)
    next
      case False
      then have "code x < code y \<or> code y < code x"
        using code_inj [of x y] by (auto simp: not_less le_less simp del: code_inj)
      with Cons.prems Cons False show ?thesis
        by (auto simp: cmp_sign_def Let_def sgn_if)
    qed
  qed
qed

end
