(* ===== verification/MemBuffer.thy ===== *)
theory MemBuffer
  imports CStrings "HOL-Library.Word"
begin

text \<open>
  \<open>upnp/src/genlib/util/membuffer.c\<close>: growable byte buffers. Sizes are 64-bit \<open>size_t\<close>. The
  memory of a buffer is the list of its bytes; an access outside of it is undefined behaviour
  and is the result \<open>None\<close>. The allocator decides which sizes it grants and what fresh bytes
  contain.
\<close>

type_synonym size_t = "64 word"

definition MEMBUF_DEF_SIZE_INC :: size_t where "MEMBUF_DEF_SIZE_INC = 5"
definition UPNP_E_OUTOF_MEMORY :: int where "UPNP_E_OUTOF_MEMORY = -104"
definition UPNP_E_OUTOF_BOUNDS :: int where "UPNP_E_OUTOF_BOUNDS = -506"

record membuffer =
  buf :: "char list option"
  mlength :: size_t
  capacity :: size_t
  size_inc :: size_t

record allocator =
  can_alloc :: "nat \<Rightarrow> bool"
  fresh :: char

subsection \<open>Memory\<close>

definition peek :: "nat \<Rightarrow> nat \<Rightarrow> char list \<Rightarrow> char list option" where
  "peek i n m = (if i + n \<le> length m then Some (take n (drop i m)) else None)"

definition poke :: "nat \<Rightarrow> char list \<Rightarrow> char list \<Rightarrow> char list option" where
  "poke i bs m =
     (if i + length bs \<le> length m then Some (take i m @ bs @ drop (i + length bs) m) else None)"

definition memmove :: "nat \<Rightarrow> nat \<Rightarrow> nat \<Rightarrow> char list \<Rightarrow> char list option" where
  "memmove d s n m = (if n = 0 then Some m else do { bs \<leftarrow> peek s n m; poke d bs m })"

definition realloc :: "allocator \<Rightarrow> char list option \<Rightarrow> nat \<Rightarrow> char list option" where
  "realloc al p n =
     (let old = (case p of Some m \<Rightarrow> m | None \<Rightarrow> []) in
      if can_alloc al n then Some (take n old @ replicate (n - length old) (fresh al)) else None)"

definition str_alloc :: "allocator \<Rightarrow> char list \<Rightarrow> size_t \<Rightarrow> char list option option" where
  "str_alloc al str str_len =
     (case realloc al None (unat (str_len + 1)) of
        None \<Rightarrow> Some None
      | Some s \<Rightarrow>
          do {
            bs \<leftarrow> peek 0 (unat str_len) str;
            s1 \<leftarrow> poke 0 bs s;
            s2 \<leftarrow> poke (unat str_len) [CHR 0x00] s1;
            Some (Some s2)
          })"

definition memptr_cmp :: "char list \<Rightarrow> char list \<Rightarrow> int" where
  "memptr_cmp m s =
     (let cmp = strncmp (length m) m s in if cmp = 0 \<and> length m < length s then -1 else cmp)"

definition memptr_cmp_nocase :: "char list \<Rightarrow> char list \<Rightarrow> int" where
  "memptr_cmp_nocase m s =
     (let cmp = strncasecmp (length m) m s in if cmp = 0 \<and> length m < length s then -1 else cmp)"

subsection \<open>Operations\<close>

definition membuffer_initialize :: "membuffer \<Rightarrow> membuffer" where
  "membuffer_initialize m = m\<lparr>buf := None, mlength := 0, capacity := 0\<rparr>"

definition membuffer_set_size :: "allocator \<Rightarrow> membuffer \<Rightarrow> size_t \<Rightarrow> int \<times> membuffer" where
  "membuffer_set_size al m new_length =
     (if (if new_length \<ge> mlength m then new_length \<le> capacity m
          else capacity m - new_length \<le> size_inc m)
      then (0, m)
      else
        (let diff = new_length - mlength m;
             alloc_len = (if new_length \<ge> mlength m then max (size_inc m) diff + capacity m
                          else new_length + size_inc m)
         in case realloc al (buf m) (unat (alloc_len + 1)) of
              Some temp_buf \<Rightarrow> (0, m\<lparr>buf := Some temp_buf, capacity := alloc_len\<rparr>)
            | None \<Rightarrow>
                (case realloc al (buf m) (unat (new_length + 1)) of
                   Some temp_buf \<Rightarrow> (0, m\<lparr>buf := Some temp_buf, capacity := new_length\<rparr>)
                 | None \<Rightarrow> (UPNP_E_OUTOF_MEMORY, m))))"

definition membuffer_init :: "membuffer \<Rightarrow> membuffer" where
  "membuffer_init m = membuffer_initialize (m\<lparr>size_inc := MEMBUF_DEF_SIZE_INC\<rparr>)"

definition membuffer_destroy :: "membuffer \<Rightarrow> membuffer" where
  "membuffer_destroy m = membuffer_init m"

definition membuffer_assign ::
  "allocator \<Rightarrow> membuffer \<Rightarrow> char list option \<Rightarrow> size_t \<Rightarrow> (int \<times> membuffer) option" where
  "membuffer_assign al m src buf_len =
     (case src of
        None \<Rightarrow> Some (0, membuffer_destroy m)
      | Some bytes \<Rightarrow>
          (case membuffer_set_size al m buf_len of
             (return_code, m1) \<Rightarrow>
               if return_code \<noteq> 0 then Some (return_code, m1)
               else if buf_len \<noteq> 0
               then do {
                 mem \<leftarrow> buf m1;
                 bs \<leftarrow> peek 0 (unat buf_len) bytes;
                 mem1 \<leftarrow> poke 0 bs mem;
                 mem2 \<leftarrow> poke (unat buf_len) [CHR 0x00] mem1;
                 Some (0, m1\<lparr>buf := Some mem2, mlength := buf_len\<rparr>)
               }
               else Some (0, m1\<lparr>mlength := buf_len\<rparr>)))"

definition membuffer_insert ::
  "allocator \<Rightarrow> membuffer \<Rightarrow> char list option \<Rightarrow> size_t \<Rightarrow> size_t \<Rightarrow> (int \<times> membuffer) option" where
  "membuffer_insert al m src buf_len index =
     (if index > mlength m then Some (UPNP_E_OUTOF_BOUNDS, m)
      else case src of
             None \<Rightarrow> Some (0, m)
           | Some bytes \<Rightarrow>
               if buf_len = 0 then Some (0, m)
               else
                 (case membuffer_set_size al m (mlength m + buf_len) of
                    (return_code, m1) \<Rightarrow>
                      if return_code \<noteq> 0 then Some (return_code, m1)
                      else do {
                        mem \<leftarrow> buf m1;
                        mem1 \<leftarrow> memmove (unat (index + buf_len)) (unat index)
                                  (unat (mlength m1 - index)) mem;
                        bs \<leftarrow> peek 0 (unat buf_len) bytes;
                        mem2 \<leftarrow> poke (unat index) bs mem1;
                        mem3 \<leftarrow> poke (unat (mlength m1 + buf_len)) [CHR 0x00] mem2;
                        Some (0, m1\<lparr>buf := Some mem3, mlength := mlength m1 + buf_len\<rparr>)
                      }))"

definition membuffer_append ::
  "allocator \<Rightarrow> membuffer \<Rightarrow> char list option \<Rightarrow> size_t \<Rightarrow> (int \<times> membuffer) option" where
  "membuffer_append al m src buf_len = membuffer_insert al m src buf_len (mlength m)"

definition strlen :: "char list \<Rightarrow> size_t" where
  "strlen s = of_nat (length (takeWhile (\<lambda>c. c \<noteq> CHR 0x00) s))"

definition membuffer_assign_str ::
  "allocator \<Rightarrow> membuffer \<Rightarrow> char list \<Rightarrow> (int \<times> membuffer) option" where
  "membuffer_assign_str al m c_str = membuffer_assign al m (Some c_str) (strlen c_str)"

definition membuffer_append_str ::
  "allocator \<Rightarrow> membuffer \<Rightarrow> char list \<Rightarrow> (int \<times> membuffer) option" where
  "membuffer_append_str al m c_str = membuffer_insert al m (Some c_str) (strlen c_str) (mlength m)"

definition membuffer_delete ::
  "allocator \<Rightarrow> membuffer \<Rightarrow> size_t \<Rightarrow> size_t \<Rightarrow> membuffer option" where
  "membuffer_delete al m index num_bytes0 =
     (if mlength m = 0 then Some m
      else
        (let past = index + num_bytes0 > mlength m;
             num_bytes = (if past then mlength m - index else num_bytes0);
             copy_len = (if past then 0 else mlength m - (index + num_bytes0))
         in do {
           mem \<leftarrow> buf m;
           mem1 \<leftarrow> memmove (unat index) (unat (index + num_bytes)) (unat copy_len) mem;
           let new_length = mlength m - num_bytes;
           let (return_value, m1) = membuffer_set_size al (m\<lparr>buf := Some mem1\<rparr>) new_length;
           if return_value \<noteq> 0 then Some m1
           else do {
             mem2 \<leftarrow> buf m1;
             mem3 \<leftarrow> poke (unat new_length) [CHR 0x00] mem2;
             Some (m1\<lparr>buf := Some mem3, mlength := new_length\<rparr>)
           }
         }))"

definition membuffer_detach :: "membuffer \<Rightarrow> char list option \<times> membuffer" where
  "membuffer_detach m = (buf m, membuffer_initialize m)"

definition membuffer_attach :: "membuffer \<Rightarrow> char list option \<Rightarrow> size_t \<Rightarrow> membuffer" where
  "membuffer_attach m new_buf buf_len =
     (membuffer_destroy m)\<lparr>buf := new_buf, mlength := buf_len, capacity := buf_len\<rparr>"

subsection \<open>Invariant\<close>

definition contents :: "membuffer \<Rightarrow> char list" where
  "contents m = (case buf m of None \<Rightarrow> [] | Some mem \<Rightarrow> take (unat (mlength m)) mem)"

definition mb_ok :: "membuffer \<Rightarrow> bool" where
  "mb_ok m \<longleftrightarrow>
     (case buf m of
        None \<Rightarrow> mlength m = 0 \<and> capacity m = 0
      | Some mem \<Rightarrow> length mem = unat (capacity m) + 1 \<and> mlength m \<le> capacity m)"

definition terminated :: "membuffer \<Rightarrow> bool" where
  "terminated m \<longleftrightarrow> (case buf m of None \<Rightarrow> True | Some mem \<Rightarrow> mem ! unat (mlength m) = CHR 0x00)"

text \<open>Room for \<open>n\<close> more bytes without a size overflowing.\<close>

definition room :: "membuffer \<Rightarrow> nat \<Rightarrow> bool" where
  "room m n \<longleftrightarrow> unat (capacity m) + unat (size_inc m) + n + 1 < 2 ^ 64"

lemma contents_length: "mb_ok m \<Longrightarrow> length (contents m) = unat (mlength m)"
  by (auto simp: contents_def mb_ok_def word_le_nat_alt split: option.splits)

lemma unat_add_small: "unat (a :: size_t) + unat b < 2 ^ 64 \<Longrightarrow> unat (a + b) = unat a + unat b"
  using unat_add_lem [of a b] by simp

lemma unat_bound: "unat (w :: size_t) < 2 ^ 64"
  using unsigned_less [of w] by simp

lemma unat_of_small: "n < 2 ^ 64 \<Longrightarrow> unat (of_nat n :: size_t) = n"
  by (simp add: unsigned_of_nat take_bit_nat_eq_self)

lemma realloc_length: "realloc al p n = Some mem \<Longrightarrow> length mem = n"
  by (auto simp: realloc_def Let_def split: if_splits)

lemma realloc_take:
  "realloc al (Some old) n = Some mem \<Longrightarrow> k \<le> n \<Longrightarrow> k \<le> length old \<Longrightarrow> take k mem = take k old"
  by (auto simp: realloc_def Let_def min_def split: if_splits)

lemma set_size_grow:
  assumes ok: "mb_ok m" and le: "mlength m \<le> new" and rm: "room m (unat new - unat (mlength m))"
    and e: "membuffer_set_size al m new = (rc, m')"
  shows "(rc = 0 \<and> mlength m' = mlength m \<and> size_inc m' = size_inc m \<and>
            (case buf m' of
               None \<Rightarrow> m' = m \<and> new = 0
             | Some mem \<Rightarrow> length mem = unat (capacity m') + 1 \<and> new \<le> capacity m' \<and>
                           take (unat (mlength m)) mem = contents m)) \<or>
         (rc = UPNP_E_OUTOF_MEMORY \<and> m' = m)"
proof (cases "new \<le> capacity m")
  case True
  then have "rc = 0 \<and> m' = m" using e le by (simp add: membuffer_set_size_def)
  with ok le True show ?thesis
    by (auto simp: mb_ok_def contents_def split: option.splits)
next
  case False
  define alloc_len where "alloc_len = max (size_inc m) (new - mlength m) + capacity m"
  have d: "unat (new - mlength m) = unat new - unat (mlength m)"
    using le by (simp add: unat_sub)
  have "unat (max (size_inc m) (new - mlength m)) = max (unat (size_inc m)) (unat (new - mlength m))"
    by (simp add: max_def word_le_nat_alt)
  then have mx: "unat (max (size_inc m) (new - mlength m)) \<le> unat (size_inc m) + (unat new - unat (mlength m))"
    "unat (max (size_inc m) (new - mlength m)) \<ge> unat new - unat (mlength m)"
    by (simp_all add: d)
  have al: "unat alloc_len = unat (max (size_inc m) (new - mlength m)) + unat (capacity m)"
    unfolding alloc_len_def by (rule unat_add_small) (use mx rm in \<open>simp add: room_def\<close>)
  have al1: "unat (alloc_len + 1) = unat alloc_len + 1"
    using unat_add_small [of alloc_len 1] al mx rm by (simp add: room_def)
  have lc: "unat (mlength m) \<le> unat (capacity m)"
    using ok by (auto simp: mb_ok_def word_le_nat_alt split: option.splits)
  have n1: "unat (new + 1) = unat new + 1"
    using unat_add_small [of new 1] rm lc by (simp add: room_def)
  have new_al: "new \<le> alloc_len" using al mx(2) lc by (simp add: word_le_nat_alt)
  have keep: "take (unat (mlength m)) mem = contents m"
    if "realloc al (buf m) k = Some mem" and "unat (mlength m) \<le> k" for mem k
  proof (cases "buf m")
    case None
    with ok show ?thesis by (simp add: mb_ok_def contents_def)
  next
    case (Some old)
    with ok lc have "unat (mlength m) \<le> length old" by (simp add: mb_ok_def)
    with that Some realloc_take show ?thesis by (simp add: contents_def)
  qed
  have ml: "unat (mlength m) \<le> unat new" using le by (simp add: word_le_nat_alt)
  show ?thesis
  proof (cases "realloc al (buf m) (unat (alloc_len + 1))")
    case (Some mem)
    with e False le have "rc = 0" "m' = m\<lparr>buf := Some mem, capacity := alloc_len\<rparr>"
      by (auto simp: membuffer_set_size_def Let_def alloc_len_def)
    with Some keep [OF Some] realloc_length [OF Some] al1 new_al ml show ?thesis
      by (simp add: word_le_nat_alt)
  next
    case None
    show ?thesis
    proof (cases "realloc al (buf m) (unat (new + 1))")
      case (Some mem)
      with None e False le have "rc = 0" "m' = m\<lparr>buf := Some mem, capacity := new\<rparr>"
        by (auto simp: membuffer_set_size_def Let_def alloc_len_def)
      with Some keep [OF Some] realloc_length [OF Some] n1 ml show ?thesis by simp
    next
      case nope: None
      with None e False le show ?thesis
        by (auto simp: membuffer_set_size_def Let_def alloc_len_def)
    qed
  qed
qed

lemma set_size_shrink:
  assumes ok: "mb_ok m" and lt: "new < mlength m" and e: "membuffer_set_size al m new = (rc, m')"
  shows "(rc = 0 \<and> mlength m' = mlength m \<and> size_inc m' = size_inc m \<and>
            (\<exists>mem. buf m' = Some mem \<and> length mem = unat (capacity m') + 1 \<and> new \<le> capacity m' \<and>
                   take (unat new) mem = take (unat new) (contents m))) \<or>
         (rc = UPNP_E_OUTOF_MEMORY \<and> m' = m)"
proof -
  from ok lt obtain old where old: "buf m = Some old" "length old = unat (capacity m) + 1"
    "mlength m \<le> capacity m"
    by (auto simp: mb_ok_def split: option.splits)
  have n: "\<not> mlength m \<le> new" "unat new < unat (mlength m)" "unat (mlength m) \<le> unat (capacity m)"
    using lt old(3) by (simp_all add: not_le word_less_nat_alt word_le_nat_alt)
  have cont: "take (unat new) (contents m) = take (unat new) old"
    using old(1) n by (simp add: contents_def min_def)
  show ?thesis
  proof (cases "capacity m - new \<le> size_inc m")
    case True
    then have "rc = 0" "m' = m" using e n by (auto simp: membuffer_set_size_def)
    with old cont n show ?thesis by (simp add: word_le_nat_alt)
  next
    case False
    have d: "unat (capacity m - new) = unat (capacity m) - unat new"
      using n by (simp add: unat_sub word_le_nat_alt)
    with False have s: "unat (size_inc m) + unat new < unat (capacity m)"
      using n by (simp add: word_le_nat_alt)
    then have al: "unat (new + size_inc m) = unat new + unat (size_inc m)"
      using unat_bound [of "capacity m"] by (intro unat_add_small) simp
    have al1: "unat (new + size_inc m + 1) = unat new + unat (size_inc m) + 1"
      using unat_add_small [of "new + size_inc m" 1] al s unat_bound [of "capacity m"] by simp
    have n1: "unat (new + 1) = unat new + 1"
      using unat_add_small [of new 1] s unat_bound [of "capacity m"] by simp
    have keep: "take (unat new) mem = take (unat new) old"
      if "realloc al (Some old) k = Some mem" and "unat new \<le> k" for mem k
      using that realloc_take old(2) n by simp
    show ?thesis
    proof (cases "realloc al (Some old) (unat (new + size_inc m + 1))")
      case (Some mem)
      with e n False old(1) have "rc = 0" "m' = m\<lparr>buf := Some mem, capacity := new + size_inc m\<rparr>"
        by (auto simp: membuffer_set_size_def Let_def)
      with Some realloc_length [OF Some] keep [OF Some] al al1 cont show ?thesis
        by (simp add: word_le_nat_alt)
    next
      case None
      show ?thesis
      proof (cases "realloc al (Some old) (unat (new + 1))")
        case (Some mem)
        with None e n False old(1) have "rc = 0" "m' = m\<lparr>buf := Some mem, capacity := new\<rparr>"
          by (auto simp: membuffer_set_size_def Let_def)
        with Some realloc_length [OF Some] keep [OF Some] n1 cont show ?thesis by simp
      next
        case nope: None
        with None e n False old(1) show ?thesis
          by (auto simp: membuffer_set_size_def Let_def)
      qed
    qed
  qed
qed

subsection \<open>What the operations do to the contents\<close>

lemma poke_Some:
  "i + length bs \<le> length m \<Longrightarrow>
     poke i bs m = Some (take i m @ bs @ drop (i + length bs) m)"
  by (simp add: poke_def)

lemma peek_Some: "i + n \<le> length m \<Longrightarrow> peek i n m = Some (take n (drop i m))"
  by (simp add: peek_def)

lemma nth_after: "n = length xs \<Longrightarrow> (xs @ y # zs) ! n = y"
  by (simp add: nth_append)

lemma membuffer_insert_result:
  assumes ok: "mb_ok m" and rm: "room m (length bytes)"
  shows "case membuffer_insert al m (Some bytes) (of_nat (length bytes)) index of
           None \<Rightarrow> False
         | Some (rc, m') \<Rightarrow>
             mb_ok m' \<and>
             (if unat index > length (contents m) then rc = UPNP_E_OUTOF_BOUNDS \<and> m' = m
              else if bytes = [] then rc = 0 \<and> m' = m
              else if rc = 0
              then contents m' = take (unat index) (contents m) @ bytes @ drop (unat index) (contents m) \<and>
                   terminated m'
              else rc = UPNP_E_OUTOF_MEMORY \<and> m' = m)"
proof -
  have l: "unat (of_nat (length bytes) :: size_t) = length bytes"
    using rm by (simp add: room_def unat_of_small)
  have ix: "index > mlength m \<longleftrightarrow> unat index > length (contents m)"
    using contents_length [OF ok] by (simp add: word_less_nat_alt)
  show ?thesis
  proof (cases "mlength m < index \<or> bytes = []")
    case True
    with ok ix show ?thesis by (auto simp: membuffer_insert_def)
  next
    case False
    then have le: "index \<le> mlength m" and "bytes \<noteq> []" by auto
    have nz: "(of_nat (length bytes) :: size_t) \<noteq> 0"
      using l \<open>bytes \<noteq> []\<close> by (metis length_0_conv unat_0)
    have cap: "unat (mlength m) \<le> unat (capacity m)"
      using ok by (auto simp: mb_ok_def word_le_nat_alt split: option.splits)
    let ?new = "mlength m + of_nat (length bytes)"
    have new: "unat ?new = unat (mlength m) + length bytes"
      using unat_add_small [of "mlength m" "of_nat (length bytes)"] l cap rm by (simp add: room_def)
    have i: "unat (index + of_nat (length bytes)) = unat index + length bytes"
      using unat_add_small [of index "of_nat (length bytes)"] l cap rm le
      by (simp add: room_def word_le_nat_alt)
    have d: "unat (mlength m - index) = unat (mlength m) - unat index"
      using le by (simp add: unat_sub)
    obtain rc m1 where e: "membuffer_set_size al m ?new = (rc, m1)" by fastforce
    from set_size_grow [OF ok _ _ e] new rm have
      g: "(rc = 0 \<and> mlength m1 = mlength m \<and>
            (case buf m1 of
               None \<Rightarrow> m1 = m \<and> ?new = 0
             | Some mem \<Rightarrow> length mem = unat (capacity m1) + 1 \<and> ?new \<le> capacity m1 \<and>
                           take (unat (mlength m)) mem = contents m)) \<or>
         (rc = UPNP_E_OUTOF_MEMORY \<and> m1 = m)"
      by (auto simp: word_le_nat_alt)
    show ?thesis
    proof (cases "rc = 0")
      case False
      with g e nz le ok ix \<open>bytes \<noteq> []\<close> show ?thesis
        by (auto simp: membuffer_insert_def not_less [symmetric] UPNP_E_OUTOF_MEMORY_def)
    next
      case True
      have "?new \<noteq> 0" using new \<open>bytes \<noteq> []\<close> by (metis add_is_0 length_0_conv unat_0)
      with g True obtain mem where mem: "buf m1 = Some mem" "length mem = unat (capacity m1) + 1"
        "?new \<le> capacity m1" "take (unat (mlength m)) mem = contents m" "mlength m1 = mlength m"
        by (auto simp: UPNP_E_OUTOF_MEMORY_def split: option.splits)
      have len: "unat (mlength m) + length bytes < length mem"
        using mem(2,3) new by (simp add: word_le_nat_alt)
      let ?i = "unat index" and ?n = "unat (mlength m)"
      have il: "?i \<le> ?n" using le by (simp add: word_le_nat_alt)
      define mem1 where "mem1 = take (?i + length bytes) mem @ take (?n - ?i) (drop ?i mem) @
          drop (?i + length bytes + (?n - ?i)) mem"
      have mv: "memmove (?i + length bytes) ?i (?n - ?i) mem = Some mem1"
        using len il by (auto simp: memmove_def peek_def poke_def mem1_def add.commute)
      have l1: "length mem1 = length mem" using len il by (simp add: mem1_def)
      define mem2 where "mem2 = take ?i mem @ bytes @ take (?n - ?i) (drop ?i mem) @ drop (?n + length bytes) mem"
      have p2: "poke ?i bytes mem1 = Some mem2"
        using len il l1 by (auto simp: poke_def mem1_def mem2_def add.commute)
      have split: "take ?i mem @ bytes @ take (?n - ?i) (drop ?i mem) =
          take ?i (contents m) @ bytes @ drop ?i (contents m)"
        using il len by (simp add: mem(4) [symmetric] drop_take min_def)
      define pre where "pre = take ?i (contents m) @ bytes @ drop ?i (contents m)"
      have prel: "length pre = ?n + length bytes"
        using contents_length [OF ok] il by (simp add: pre_def)
      have m2: "mem2 = pre @ drop (?n + length bytes) mem"
        using split by (simp add: mem2_def pre_def)
      define mem3 where "mem3 = pre @ CHR 0x00 # drop (?n + length bytes + 1) mem"
      have p3: "poke (?n + length bytes) [CHR 0x00] mem2 = Some mem3"
        using len prel by (simp add: poke_def m2 mem3_def drop_drop add.commute)
      have "membuffer_insert al m (Some bytes) (of_nat (length bytes)) index =
          Some (0, m1\<lparr>buf := Some mem3, mlength := ?new\<rparr>)"
        using False nz e True mem mv p2 p3 l i d new
        by (simp add: membuffer_insert_def peek_def)
      moreover have "mb_ok (m1\<lparr>buf := Some mem3, mlength := ?new\<rparr>)"
        using mem len prel by (simp add: mb_ok_def mem3_def)
      moreover have "contents (m1\<lparr>buf := Some mem3, mlength := ?new\<rparr>) = pre"
        "terminated (m1\<lparr>buf := Some mem3, mlength := ?new\<rparr>)"
        using prel new by (simp_all add: contents_def terminated_def mem3_def nth_after)
      ultimately show ?thesis
        using le ix \<open>bytes \<noteq> []\<close> by (auto simp: pre_def)
    qed
  qed
qed

lemma membuffer_assign_result:
  assumes ok: "mb_ok m" and rm: "room m (length bytes)"
  shows "case membuffer_assign al m (Some bytes) (of_nat (length bytes)) of
           None \<Rightarrow> False
         | Some (rc, m') \<Rightarrow>
             mb_ok m' \<and>
             (if rc = 0 then contents m' = bytes \<and> (bytes \<noteq> [] \<longrightarrow> terminated m')
              else rc = UPNP_E_OUTOF_MEMORY \<and> m' = m)"
proof -
  have l: "unat (of_nat (length bytes) :: size_t) = length bytes"
    using rm by (simp add: room_def unat_of_small)
  obtain rc m1 where e: "membuffer_set_size al m (of_nat (length bytes)) = (rc, m1)" by fastforce
  have cap: "case buf m1 of None \<Rightarrow> m1 = m \<and> bytes = []
      | Some mem \<Rightarrow> length mem = unat (capacity m1) + 1 \<and> length bytes \<le> unat (capacity m1)"
    if "rc = 0"
  proof (cases "mlength m \<le> of_nat (length bytes)")
    case True
    from set_size_grow [OF ok True _ e] that rm l show ?thesis
      by (auto simp: room_def UPNP_E_OUTOF_MEMORY_def word_le_nat_alt split: option.splits)
  next
    case False
    then have "(of_nat (length bytes) :: size_t) < mlength m" by simp
    from set_size_shrink [OF ok this e] that l show ?thesis
      by (auto simp: UPNP_E_OUTOF_MEMORY_def word_le_nat_alt)
  qed
  have fail: "rc = UPNP_E_OUTOF_MEMORY \<and> m1 = m" if "rc \<noteq> 0"
  proof (cases "mlength m \<le> of_nat (length bytes)")
    case True
    from set_size_grow [OF ok True _ e] that rm l show ?thesis by (auto simp: room_def)
  next
    case False
    then have "(of_nat (length bytes) :: size_t) < mlength m" by simp
    from set_size_shrink [OF ok this e] that show ?thesis by auto
  qed
  show ?thesis
  proof (cases "rc = 0")
    case False
    with fail ok e show ?thesis by (simp add: membuffer_assign_def)
  next
    case True
    show ?thesis
    proof (cases "bytes = []")
      case empty: True
      with True cap ok e show ?thesis
        by (auto simp: membuffer_assign_def mb_ok_def contents_def split: option.splits)
    next
      case False
      with cap True obtain mem where mem: "buf m1 = Some mem" "length mem = unat (capacity m1) + 1"
        "length bytes \<le> unat (capacity m1)" by (auto split: option.splits)
      have nz: "(of_nat (length bytes) :: size_t) \<noteq> 0" using l False by (metis length_0_conv unat_0)
      define mem2 where "mem2 = bytes @ CHR 0x00 # drop (length bytes + 1) mem"
      have "membuffer_assign al m (Some bytes) (of_nat (length bytes)) =
          Some (0, m1\<lparr>buf := Some mem2, mlength := of_nat (length bytes)\<rparr>)"
        using e True nz mem l
        by (simp add: membuffer_assign_def peek_def poke_def mem2_def)
      moreover have "mb_ok (m1\<lparr>buf := Some mem2, mlength := of_nat (length bytes)\<rparr>)"
        using mem l by (simp add: mb_ok_def mem2_def word_le_nat_alt)
      ultimately show ?thesis
        using l by (simp add: contents_def terminated_def mem2_def nth_after)
    qed
  qed
qed

lemma membuffer_delete_result:
  assumes ok: "mb_ok m" and ix: "unat index \<le> length (contents m)"
    and nw: "unat index + unat n < 2 ^ 64" and al: "\<forall>k. can_alloc al k"
  shows "case membuffer_delete al m index n of
           None \<Rightarrow> False
         | Some m' \<Rightarrow> mb_ok m' \<and>
             contents m' = take (unat index) (contents m) @ drop (unat index + unat n) (contents m) \<and>
             (contents m \<noteq> [] \<longrightarrow> terminated m')"
proof (cases "mlength m = 0")
  case True
  then have "contents m = []" using contents_length [OF ok] by simp
  with True ok show ?thesis by (simp add: membuffer_delete_def)
next
  case False
  let ?i = "unat index" and ?l = "unat (mlength m)"
  have len: "length (contents m) = ?l" by (rule contents_length [OF ok])
  from ok False obtain mem where mem: "buf m = Some mem" "length mem = unat (capacity m) + 1"
    "mlength m \<le> capacity m" by (auto simp: mb_ok_def split: option.splits)
  have lc: "?l \<le> unat (capacity m)" using mem(3) by (simp add: word_le_nat_alt)
  have add: "unat (index + n) = ?i + unat n" by (rule unat_add_small [OF nw])
  define past where "past = (index + n > mlength m)"
  have past: "past \<longleftrightarrow> ?i + unat n > ?l" by (simp add: past_def word_less_nat_alt add)
  define k where "k = (if past then mlength m - index else n)"
  define cl where "cl = (if past then 0 else mlength m - (index + n))"
  have ile: "index \<le> mlength m" using ix len by (simp add: word_le_nat_alt)
  have k: "unat k = (if past then ?l - ?i else unat n)" "?i + unat k \<le> ?l"
    using past ile ix len by (auto simp: k_def unat_sub word_le_nat_alt)
  have ik: "unat (index + k) = ?i + unat k"
    using unat_add_small [of index k] k(2) unat_bound [of "mlength m"] by simp
  have cl: "unat cl = ?l - (?i + unat k)"
    using past k by (auto simp: cl_def unat_sub word_le_nat_alt add)
  have nl: "unat (mlength m - k) = ?l - unat k"
    using k(2) by (simp add: unat_sub word_le_nat_alt)
  define mem1 where "mem1 = take ?i mem @ take (?l - (?i + unat k)) (drop (?i + unat k) mem) @
      drop (?l - unat k) mem"
  have mv: "memmove ?i (?i + unat k) (unat cl) mem = Some mem1"
    using k(2) lc mem(2) by (auto simp: memmove_def peek_def poke_def cl mem1_def)
  have len1: "length mem1 = length mem" using k(2) lc mem(2) by (auto simp: mem1_def)
  let ?m1 = "m\<lparr>buf := Some mem1\<rparr>"
  define res where "res = take ?i (contents m) @ drop (?i + unat n) (contents m)"
  have dk: "drop (?i + unat n) (contents m) = drop (?i + unat k) (contents m)"
    using past k len by auto
  define pre where "pre = take ?i mem @ take (?l - (?i + unat k)) (drop (?i + unat k) mem)"
  have "length pre = ?l - unat k" using k(2) lc mem(2) by (simp add: pre_def)
  moreover have "mem1 = pre @ drop (?l - unat k) mem" by (simp add: mem1_def pre_def)
  moreover have "pre = res"
    unfolding res_def dk using k(2) mem(1) by (simp add: pre_def contents_def drop_take min_def)
  ultimately have res: "take (?l - unat k) mem1 = res" by simp
  have ok1: "mb_ok ?m1" using ok mem(1) len1 by (simp add: mb_ok_def)
  obtain rc m2 where e: "membuffer_set_size al ?m1 (mlength m - k) = (rc, m2)" by fastforce
  have s: "rc = 0 \<and> (\<exists>mem2. buf m2 = Some mem2 \<and> length mem2 = unat (capacity m2) + 1 \<and>
      mlength m - k \<le> capacity m2 \<and> take (unat (mlength m - k)) mem2 = res)"
  proof (cases "k = 0")
    case True
    then have "rc = 0" "m2 = ?m1" using e mem(3) by (auto simp: membuffer_set_size_def)
    with True len1 mem res show ?thesis by simp
  next
    case False
    then have "unat k > 0" by (simp add: unat_gt_0)
    then have lt: "mlength m - k < mlength ?m1" using nl k(2) by (simp add: word_less_nat_alt)
    have "rc = 0"
      using e lt al by (auto simp: membuffer_set_size_def realloc_def Let_def split: if_splits)
    with set_size_shrink [OF ok1 lt e] res nl show ?thesis
      by (auto simp: UPNP_E_OUTOF_MEMORY_def contents_def)
  qed
  then obtain mem2 where m2: "rc = 0" "buf m2 = Some mem2" "length mem2 = unat (capacity m2) + 1"
    "mlength m - k \<le> capacity m2" "take (unat (mlength m - k)) mem2 = res" by blast
  have lres: "length res = ?l - unat k" using res len1 mem(2) lc by auto
  define mem3 where "mem3 = res @ CHR 0x00 # drop (?l - unat k + 1) mem2"
  have "unat (mlength m - k) < length mem2" using m2(3,4) by (simp add: word_le_nat_alt)
  then have p: "poke (unat (mlength m - k)) [CHR 0x00] mem2 = Some mem3"
    using m2(5) nl by (simp add: poke_def mem3_def)
  have "membuffer_delete al m index n = Some (m2\<lparr>buf := Some mem3, mlength := mlength m - k\<rparr>)"
    using False mem(1) mv e m2(1,2) p
    by (simp add: membuffer_delete_def Let_def past_def [symmetric] k_def [symmetric]
        cl_def [symmetric] ik)
  moreover have "mb_ok (m2\<lparr>buf := Some mem3, mlength := mlength m - k\<rparr>)"
    using m2(3,4) lres nl by (simp add: mb_ok_def mem3_def word_le_nat_alt)
  moreover have "contents (m2\<lparr>buf := Some mem3, mlength := mlength m - k\<rparr>) = res"
    "terminated (m2\<lparr>buf := Some mem3, mlength := mlength m - k\<rparr>)"
    using lres nl by (simp_all add: contents_def terminated_def mem3_def nth_after)
  ultimately show ?thesis by (simp add: res_def)
qed

subsection \<open>Properties\<close>

definition any_alloc :: allocator where
  "any_alloc = \<lparr>can_alloc = (\<lambda>_. True), fresh = CHR ''?''\<rparr>"

definition hello :: membuffer where
  "hello = \<lparr>buf = Some (''hello'' @ [CHR 0x00]), mlength = 5, capacity = 5, size_inc = 5\<rparr>"

lemma hello_ok: "mb_ok hello" "room hello 1000" "contents hello = ''hello''"
  by (simp_all add: hello_def mb_ok_def room_def contents_def)

text \<open>C37: \<open>membuffer_insert\<close> (and \<open>membuffer_append\<close>, at the end) never accesses memory outside of
  the buffer; on success the bytes are exactly inserted at the index and the result is
  NUL-terminated, an index behind the end is refused, and when memory runs out the buffer is
  unchanged.\<close>
theorem membuffer_insert_inserts:
  assumes "mb_ok m" and "room m (length bytes)"
  shows "case membuffer_insert al m (Some bytes) (of_nat (length bytes)) index of
           None \<Rightarrow> False
         | Some (rc, m') \<Rightarrow>
             mb_ok m' \<and>
             (if unat index > length (contents m) then rc = UPNP_E_OUTOF_BOUNDS \<and> m' = m
              else if bytes = [] then rc = 0 \<and> m' = m
              else if rc = 0
              then contents m' = take (unat index) (contents m) @ bytes @ drop (unat index) (contents m) \<and>
                   terminated m'
              else rc = UPNP_E_OUTOF_MEMORY \<and> m' = m)"
  by (rule membuffer_insert_result [OF assms])

theorem membuffer_insert_inserts_witness:
  "\<exists>m'. membuffer_insert any_alloc hello (Some ''XY'') 2 1 = Some (0, m') \<and> contents m' = ''hXYello''"
proof -
  have "membuffer_insert any_alloc hello (Some ''XY'') 2 1 \<noteq> None"
    "fst (the (membuffer_insert any_alloc hello (Some ''XY'') 2 1)) = 0"
    by (simp_all add: membuffer_insert_def hello_def membuffer_set_size_def realloc_def any_alloc_def
        memmove_def peek_def poke_def Let_def)
  moreover have "room hello (length ''XY'')" by (simp add: room_def hello_def)
  ultimately show ?thesis
    using membuffer_insert_inserts [OF hello_ok(1), where bytes = "''XY''" and al = any_alloc and index = 1]
    by (auto simp: hello_ok(3))
qed

text \<open>\<open>membuffer_delete\<close> removes the bytes from the index on, at most to the end, and leaves a
  NUL-terminated buffer, for an index within the buffer and sizes whose sum does not
  overflow; no access is outside of the buffer.\<close>
theorem membuffer_delete_deletes:
  assumes "mb_ok m" and "unat index \<le> length (contents m)" and "unat index + unat n < 2 ^ 64"
    and "\<forall>k. can_alloc al k"
  shows "case membuffer_delete al m index n of
           None \<Rightarrow> False
         | Some m' \<Rightarrow> mb_ok m' \<and>
             contents m' = take (unat index) (contents m) @ drop (unat index + unat n) (contents m) \<and>
             (contents m \<noteq> [] \<longrightarrow> terminated m')"
  by (rule membuffer_delete_result [OF assms])

theorem membuffer_delete_deletes_witness:
  "\<exists>m'. membuffer_delete any_alloc hello 1 3 = Some m' \<and> contents m' = ''ho''"
  using membuffer_delete_deletes [OF hello_ok(1), where index = 1 and n = 3 and al = any_alloc]
  by (auto simp: hello_ok(3) any_alloc_def split: option.splits)

text \<open>\<open>membuffer_assign\<close> replaces the contents, or leaves the buffer unchanged when memory runs
  out; assigning no bytes to a buffer that holds some keeps the old characters in memory and
  does not terminate the string, so that C code reading \<open>m->buf\<close> still sees the old string.\<close>
theorem membuffer_assign_replaces:
  "(mb_ok m \<and> room m (length bytes) \<longrightarrow>
      (case membuffer_assign al m (Some bytes) (of_nat (length bytes)) of
         None \<Rightarrow> False
       | Some (rc, m') \<Rightarrow> mb_ok m' \<and>
           (if rc = 0 then contents m' = bytes \<and> (bytes \<noteq> [] \<longrightarrow> terminated m')
            else rc = UPNP_E_OUTOF_MEMORY \<and> m' = m))) \<and>
   (\<exists>m'. membuffer_assign al hello (Some []) 0 = Some (0, m') \<and> contents m' = [] \<and>
         buf m' = buf hello \<and> \<not> terminated m')"
proof -
  have "membuffer_assign al hello (Some []) 0 = Some (0, hello\<lparr>mlength := 0\<rparr>)"
    by (simp add: membuffer_assign_def hello_def membuffer_set_size_def)
  moreover have "contents (hello\<lparr>mlength := 0\<rparr>) = []" "\<not> terminated (hello\<lparr>mlength := 0\<rparr>)"
    by (simp_all add: contents_def terminated_def hello_def)
  ultimately show ?thesis using membuffer_assign_result by auto
qed

theorem membuffer_assign_replaces_witness:
  "case membuffer_assign any_alloc hello (Some ''bye'') 3 of
     None \<Rightarrow> False | Some (rc, m') \<Rightarrow> rc = 0 \<longrightarrow> contents m' = ''bye''"
proof -
  have "room hello (length ''bye'')" by (simp add: room_def hello_def)
  with membuffer_assign_replaces [where m = hello and bytes = "''bye''" and al = any_alloc] hello_ok(1) show ?thesis
    by (auto split: option.splits)
qed

lemma replicate_2: "replicate 2 x = [x, x]"
  by (simp add: numeral_2_eq_2)

text \<open>An index behind the end makes \<open>membuffer_delete\<close> grow the buffer instead of shrinking it:
  the subtraction \<open>m->length - index\<close> wraps around, the length becomes the index, and the new
  bytes are whatever the allocator returned.\<close>
theorem membuffer_delete_past_end_grows:
  "\<exists>m'. membuffer_delete any_alloc hello 8 1 = Some m' \<and> mlength m' = 8 \<and>
        contents m' = ''hello'' @ [CHR 0x00] @ ''??''"
  by (simp add: membuffer_delete_def hello_def membuffer_set_size_def realloc_def any_alloc_def
      memmove_def poke_def contents_def Let_def replicate_2)

end
