(* ===== verification/Uri.thy ===== *)
theory Uri
  imports MemBuffer
begin

text \<open>
  \<open>upnp/src/genlib/net/uri/uri.c\<close>: parsing, unescaping and resolving URIs. A pointer into a
  string is an offset into the memory that holds it (the characters with their NUL and whatever
  follows); reading or writing outside of that memory is undefined behaviour and is the result
  \<open>None\<close>. Looking up host names and converting numeric addresses is done by the operating
  system: a \<open>resolver\<close> is a parameter.
\<close>

subsection \<open>Data\<close>

definition UPNP_E_SUCCESS :: int where "UPNP_E_SUCCESS = 0"
definition UPNP_E_INVALID_URL :: int where "UPNP_E_INVALID_URL = -108"
definition HTTP_SUCCESS :: int where "HTTP_SUCCESS = 1"

definition MARK :: string where "MARK = ''-_.!~*'' @ [CHR 0x27] @ ''()''"
definition RESERVED :: string where "RESERVED = '';/?:@&=+$,{}''"

datatype pathType = ABS_PATH | REL_PATH | OPAQUE_PART
datatype uriType = ABSOLUTE | RELATIVE

record token =
  tsize :: nat
  buff :: "nat option"

datatype sockaddr = No_addr | Inet nat nat | Inet6 nat nat nat

text \<open>\<open>Inet address port\<close>, \<open>Inet6 address port scope\<close>.\<close>

record hostport_type =
  htext :: token
  IPaddress :: sockaddr

record uri_type =
  utype :: uriType
  scheme :: token
  path_type :: pathType
  pathquery :: token
  fragment :: token
  hostport :: hostport_type

record resolver =
  getaddrinfo :: "string \<Rightarrow> sockaddr option"
  pton4 :: "string \<Rightarrow> nat option"
  pton6 :: "string \<Rightarrow> nat option"
  gIF_INDEX :: nat

definition no_token :: token where
  "no_token = \<lparr>tsize = 0, buff = None\<rparr>"

definition no_hostport :: hostport_type where
  "no_hostport = \<lparr>htext = no_token, IPaddress = No_addr\<rparr>"

subsection \<open>Character classes\<close>

text \<open>\<open>strchr\<close> also finds the NUL that ends its first argument.\<close>

definition strchr :: "string \<Rightarrow> char \<Rightarrow> bool" where
  "strchr s c \<longleftrightarrow> c \<in> set s \<or> c = CHR 0x00"

definition is_reserved :: "char \<Rightarrow> bool" where
  "is_reserved c \<longleftrightarrow> strchr RESERVED c"

definition is_mark :: "char \<Rightarrow> bool" where
  "is_mark c \<longleftrightarrow> strchr MARK c"

definition is_unreserved :: "char \<Rightarrow> bool" where
  "is_unreserved c \<longleftrightarrow> isalnum c \<or> is_mark c"

definition char_at :: "char list \<Rightarrow> nat \<Rightarrow> char option" where
  "char_at mem i = (if i < length mem then Some (mem ! i) else None)"

definition is_escaped :: "char list \<Rightarrow> nat \<Rightarrow> bool option" where
  "is_escaped mem i =
     do {
       c0 \<leftarrow> char_at mem i;
       if c0 \<noteq> CHR ''%'' then Some False
       else do {
         c1 \<leftarrow> char_at mem (i + 1);
         if \<not> isxdigit c1 then Some False
         else do {
           c2 \<leftarrow> char_at mem (i + 2);
           Some (isxdigit c2)
         }
       }
     }"

subsection \<open>Unescaping\<close>

text \<open>Subtraction of sizes wraps around.\<close>

definition sub64 :: "nat \<Rightarrow> nat \<Rightarrow> nat" where
  "sub64 a b = (if b \<le> a then a - b else a + 2 ^ 64 - b)"

definition hex_val :: "char \<Rightarrow> nat" where
  "hex_val c = (if isdigit c then code c - code CHR ''0''
                else if isupper c then code c - code CHR ''A'' + 10
                else code c - code CHR ''a'' + 10)"

function shift_loop ::
  "char list \<Rightarrow> nat \<Rightarrow> nat \<Rightarrow> nat \<Rightarrow> nat \<Rightarrow> char \<Rightarrow> char list option" where
  "shift_loop mem b i j limit tempChar =
     (if j < limit
      then do {
        mem1 \<leftarrow> poke (b + j) [tempChar] mem;
        t \<leftarrow> (if i < limit then char_at mem1 (b + i) else Some (CHR 0x00));
        shift_loop mem1 b (i + 1) (j + 1) limit t
      }
      else Some mem)"
  by pat_completeness auto
termination
  by (relation "measure (\<lambda>(mem, b, i, j, limit, t). limit - j)") auto

declare shift_loop.simps [simp del]

text \<open>The result is the return value, the memory and the new \<open>*max\<close>; \<open>in\<close> is at offset \<open>b\<close>.\<close>

definition replace_escaped ::
  "char list \<Rightarrow> nat \<Rightarrow> nat \<Rightarrow> nat \<Rightarrow> (int \<times> char list \<times> nat) option" where
  "replace_escaped mem b index limit =
     do {
       esc \<leftarrow> is_escaped mem (b + index);
       if esc
       then do {
         c1 \<leftarrow> char_at mem (b + index + 1);
         c2 \<leftarrow> char_at mem (b + index + 2);
         mem' \<leftarrow> shift_loop mem b (index + 3) index limit (char_of (16 * hex_val c1 + hex_val c2));
         Some (1, mem', sub64 limit 2)
       }
       else Some (0, mem, limit)
     }"

text \<open>
  A size that wraps around makes the loop run out of the string, hence the last \<open>None\<close>.
\<close>

function remove_escaped_loop ::
  "char list \<Rightarrow> nat \<Rightarrow> nat \<Rightarrow> nat \<Rightarrow> (char list \<times> nat) option" where
  "remove_escaped_loop mem b i sz =
     (if i < sz
      then (case replace_escaped mem b i sz of
              None \<Rightarrow> None
            | Some (r, mem', sz') \<Rightarrow>
                (if sz' \<le> sz then remove_escaped_loop mem' b (i + 1) sz' else None))
      else Some (mem, sz))"
  by pat_completeness auto
termination
  by (relation "measure (\<lambda>(mem, b, i, sz). sz - i)") auto

declare remove_escaped_loop.simps [simp del]

definition remove_escaped_chars ::
  "char list \<Rightarrow> nat \<Rightarrow> nat \<Rightarrow> (int \<times> char list \<times> nat) option" where
  "remove_escaped_chars mem b sz =
     map_option (\<lambda>(mem', sz'). (UPNP_E_SUCCESS, mem', sz')) (remove_escaped_loop mem b 0 sz)"

subsection \<open>Tokens\<close>

function uric_loop :: "char list \<Rightarrow> nat \<Rightarrow> nat \<Rightarrow> nat \<Rightarrow> nat option" where
  "uric_loop mem b limit i =
     (if i < limit
      then do {
        c \<leftarrow> char_at mem (b + i);
        ok \<leftarrow> (if is_unreserved c \<or> is_reserved c then Some True
               else if i + 2 < limit then is_escaped mem (b + i) else Some False);
        if ok then uric_loop mem b limit (i + 1) else Some i
      }
      else Some i)"
  by pat_completeness auto
termination
  by (relation "measure (\<lambda>(mem, b, limit, i). limit - i)") auto

declare uric_loop.simps [simp del]

definition parse_uric :: "char list \<Rightarrow> nat \<Rightarrow> nat \<Rightarrow> (nat \<times> token) option" where
  "parse_uric mem b limit =
     map_option (\<lambda>i. (i, \<lparr>tsize = i, buff = Some b\<rparr>)) (uric_loop mem b limit 0)"

definition copy_token :: "token \<Rightarrow> int \<Rightarrow> int \<Rightarrow> int \<Rightarrow> nat \<times> int" where
  "copy_token t in_buff in_base out_base = (tsize t, out_base + (in_buff - in_base))"

definition token_text :: "char list \<Rightarrow> token \<Rightarrow> char list" where
  "token_text mem t = (case buff t of None \<Rightarrow> [] | Some b \<Rightarrow> take (tsize t) (drop b mem))"

definition token_string_casecmp :: "char list \<Rightarrow> token \<Rightarrow> string \<Rightarrow> int" where
  "token_string_casecmp mem t s =
     (if tsize t \<noteq> length s then 1 else strncasecmp (tsize t) (token_text mem t) s)"

definition token_string_cmp :: "char list \<Rightarrow> token \<Rightarrow> string \<Rightarrow> int" where
  "token_string_cmp mem t s =
     (if tsize t \<noteq> length s then 1 else strncmp (tsize t) (token_text mem t) s)"

fun memcmp :: "char list \<Rightarrow> char list \<Rightarrow> int" where
  "memcmp (a # as) (b # bs) = (if a \<noteq> b then int (code a) - int (code b) else memcmp as bs)"
| "memcmp _ _ = 0"

definition token_cmp :: "char list \<Rightarrow> token \<Rightarrow> char list \<Rightarrow> token \<Rightarrow> int" where
  "token_cmp mem1 t1 mem2 t2 =
     (if tsize t1 \<noteq> tsize t2 then 1 else memcmp (token_text mem1 t1) (token_text mem2 t2))"

subsection \<open>Host and port\<close>

text \<open>\<open>strtol\<close> in base 10 as \<open>atoi\<close> uses it: clamped to \<open>long\<close>, the caller truncates.\<close>

definition isspace :: "char \<Rightarrow> bool" where
  "isspace c \<longleftrightarrow> c = CHR '' '' \<or> (9 \<le> code c \<and> code c \<le> 13)"

definition digits_val :: "nat \<Rightarrow> char list \<Rightarrow> nat" where
  "digits_val base ds = foldl (\<lambda>v d. v * base + hex_val d) 0 ds"

definition LONG_MAX :: int where "LONG_MAX = 2 ^ 63 - 1"
definition LONG_MIN :: int where "LONG_MIN = - (2 ^ 63)"

definition atol :: "char list \<Rightarrow> int" where
  "atol s =
     (let s1 = dropWhile isspace s;
          neg = (s1 \<noteq> [] \<and> hd s1 = CHR ''-'');
          s2 = (if s1 \<noteq> [] \<and> hd s1 \<in> {CHR ''-'', CHR ''+''} then tl s1 else s1);
          v = int (digits_val 10 (takeWhile isdigit s2))
      in if neg then max LONG_MIN (- v) else min LONG_MAX v)"

text \<open>The copy \<open>strncpy\<close> makes: up to the NUL, at most 255 characters; the rest is zero.\<close>

function cstr_n :: "char list \<Rightarrow> nat \<Rightarrow> nat \<Rightarrow> char list option" where
  "cstr_n mem b n =
     (if n = 0 then Some []
      else do {
        c \<leftarrow> char_at mem b;
        if c = CHR 0x00 then Some []
        else map_option (\<lambda>s. c # s) (cstr_n mem (b + 1) (n - 1))
      })"
  by pat_completeness auto
termination
  by (relation "measure (\<lambda>(mem, b, n). n)") auto

declare cstr_n.simps [simp del]

definition wch :: "char list \<Rightarrow> nat \<Rightarrow> char" where
  "wch s i = (if i < length s then s ! i else CHR 0x00)"

datatype af = AF_UNSPEC | AF_INET | AF_INET6

text \<open>
  The first half of \<open>parse_hostport\<close>: the address family, the name of the server, whether a
  port follows and the position after the name (and the colon).
\<close>

definition split_host :: "char list \<Rightarrow> (af \<times> string \<times> bool \<times> nat) option" where
  "split_host s =
     (if wch s 0 = CHR ''[''
      then
        (let srvname = takeWhile (\<lambda>c. c \<noteq> CHR '']'') (tl s);
             c = 1 + length srvname
         in if c \<ge> length s then None
            else if wch s (c + 1) = CHR '':'' then Some (AF_INET6, srvname, True, c + 2)
            else Some (AF_INET6, srvname, False, c + 1))
      else
        (let srvname = takeWhile (\<lambda>c. isalnum c \<or> c = CHR ''.'' \<or> c = CHR ''-'') s;
             c = length srvname;
             has_port = (wch s c = CHR '':'');
             tail = rev (takeWhile (\<lambda>c. c \<noteq> CHR ''.'') (rev srvname));
             numeric = (CHR ''.'' \<in> set srvname \<and> tail \<noteq> [] \<and> isdigit (hd tail))
         in Some (if numeric then AF_INET else AF_UNSPEC, srvname, has_port,
                  if has_port then c + 1 else c)))"

definition set_port :: "nat \<Rightarrow> sockaddr \<Rightarrow> sockaddr" where
  "set_port port a =
     (case a of
        Inet x _ \<Rightarrow> Inet x port
      | Inet6 x _ sc \<Rightarrow> Inet6 x port sc
      | No_addr \<Rightarrow> No_addr)"

text \<open>The result is the length of the text, or the (negative) error code.\<close>

definition parse_hostport ::
  "resolver \<Rightarrow> char list \<Rightarrow> nat \<Rightarrow> (int \<times> hostport_type) option" where
  "parse_hostport rs mem b =
     do {
       workbuf \<leftarrow> cstr_n mem b 255;
       case split_host workbuf of
         None \<Rightarrow> Some (UPNP_E_INVALID_URL, no_hostport)
       | Some (fam, srvname, has_port, c) \<Rightarrow>
           (case (if fam = AF_UNSPEC then getaddrinfo rs srvname else Some No_addr) of
              None \<Rightarrow> Some (UPNP_E_INVALID_URL, no_hostport)
            | Some found \<Rightarrow>
                (let port = (if has_port then nat (atol (drop c workbuf) mod 65536) else 80);
                     c' = (if has_port then c + length (takeWhile isdigit (drop c workbuf)) else c)
                 in if port = 0 then Some (UPNP_E_INVALID_URL, no_hostport\<lparr>IPaddress := found\<rparr>)
                    else
                      (let addr = (case fam of
                                     AF_INET \<Rightarrow> map_option (\<lambda>a. Inet a port) (pton4 rs srvname)
                                   | AF_INET6 \<Rightarrow>
                                       map_option (\<lambda>a. Inet6 a port (gIF_INDEX rs)) (pton6 rs srvname)
                                   | AF_UNSPEC \<Rightarrow> Some (set_port port found))
                       in case addr of
                            None \<Rightarrow> Some (UPNP_E_INVALID_URL, no_hostport)
                          | Some a \<Rightarrow>
                              Some (int c', \<lparr>htext = \<lparr>tsize = c', buff = Some b\<rparr>, IPaddress = a\<rparr>))))
     }"

subsection \<open>Parsing\<close>

function scheme_loop :: "char list \<Rightarrow> nat \<Rightarrow> nat \<Rightarrow> nat option option" where
  "scheme_loop mem limit i =
     (if i < limit
      then do {
        c \<leftarrow> char_at mem i;
        if c = CHR '':'' then Some (Some i)
        else if isalnum c \<or> c = CHR ''+'' \<or> c = CHR ''-'' \<or> c = CHR ''.''
        then scheme_loop mem limit (i + 1)
        else Some None
      }
      else Some None)"
  by pat_completeness auto
termination
  by (relation "measure (\<lambda>(mem, limit, i). limit - i)") auto

declare scheme_loop.simps [simp del]

definition parse_scheme :: "char list \<Rightarrow> nat \<Rightarrow> (nat \<times> token) option" where
  "parse_scheme mem limit =
     (if limit = 0 then Some (0, no_token)
      else do {
        c \<leftarrow> char_at mem 0;
        if \<not> isalpha c then Some (0, no_token)
        else do {
          r \<leftarrow> scheme_loop mem limit 1;
          Some (case r of
                  None \<Rightarrow> (0, no_token)
                | Some i \<Rightarrow> (i, \<lparr>tsize = i, buff = Some 0\<rparr>))
        }
      })"

definition parse_uri :: "resolver \<Rightarrow> char list \<Rightarrow> nat \<Rightarrow> uri_type \<Rightarrow> (int \<times> uri_type) option" where
  "parse_uri rs mem limit out =
     do {
       (n, sch) \<leftarrow> parse_scheme mem limit;
       let out1 = (if n \<noteq> 0 then out\<lparr>scheme := sch, utype := ABSOLUTE, path_type := OPAQUE_PART\<rparr>
                   else out\<lparr>scheme := sch, utype := RELATIVE, path_type := REL_PATH\<rparr>);
       let begin_hostport = (if n \<noteq> 0 then n + 1 else 0);
       two_slashes \<leftarrow> (if begin_hostport + 1 < limit
                       then do {
                         c0 \<leftarrow> char_at mem begin_hostport;
                         c1 \<leftarrow> char_at mem (begin_hostport + 1);
                         Some (c0 = CHR ''/'' \<and> c1 = CHR ''/'')
                       }
                       else Some False);
       (begin_path, hp) \<leftarrow> (if two_slashes
                            then do {
                              (r, hp) \<leftarrow> parse_hostport rs mem (begin_hostport + 2);
                              Some (if r \<ge> 0 then r + int (begin_hostport + 2) else r, hp)
                            }
                            else Some (int begin_hostport, no_hostport));
       let out2 = out1\<lparr>hostport := hp\<rparr>;
       if begin_path < 0 then Some (begin_path, out2)
       else do {
         let bp = nat begin_path;
         (k, pq) \<leftarrow> parse_uric mem bp (sub64 limit bp);
         let begin_fragment = k + bp;
         let out3 = out2\<lparr>pathquery := pq\<rparr>;
         c \<leftarrow> (if tsize pq > 0 then char_at mem bp else Some (CHR 0x00));
         let out4 = (if tsize pq > 0 \<and> c = CHR ''/'' then out3\<lparr>path_type := ABS_PATH\<rparr> else out3);
         hash \<leftarrow> (if begin_fragment < limit
                  then map_option (\<lambda>c. c = CHR ''#'') (char_at mem begin_fragment) else Some False);
         if hash
         then do {
           (_, fr) \<leftarrow> parse_uric mem (begin_fragment + 1) (sub64 limit (begin_fragment + 1));
           Some (HTTP_SUCCESS, out4\<lparr>fragment := fr\<rparr>)
         }
         else Some (HTTP_SUCCESS, out4\<lparr>fragment := no_token\<rparr>)
       }
     }"

definition parse_uri_and_unescape ::
  "resolver \<Rightarrow> char list \<Rightarrow> nat \<Rightarrow> uri_type \<Rightarrow> (int \<times> char list \<times> uri_type) option" where
  "parse_uri_and_unescape rs mem limit out =
     do {
       (ret, u) \<leftarrow> parse_uri rs mem limit out;
       if ret \<noteq> HTTP_SUCCESS then Some (ret, mem, u)
       else do {
         (mem1, u1) \<leftarrow> (if tsize (pathquery u) > 0
                         then do {
                           (_, m, n) \<leftarrow> remove_escaped_chars mem (the (buff (pathquery u))) (tsize (pathquery u));
                           Some (m, u\<lparr>pathquery := (pathquery u)\<lparr>tsize := n\<rparr>\<rparr>)
                         }
                         else Some (mem, u));
         (mem2, u2) \<leftarrow> (if tsize (fragment u1) > 0
                         then do {
                           (_, m, n) \<leftarrow> remove_escaped_chars mem1 (the (buff (fragment u1))) (tsize (fragment u1));
                           Some (m, u1\<lparr>fragment := (fragment u1)\<lparr>tsize := n\<rparr>\<rparr>)
                         }
                         else Some (mem1, u1));
         Some (HTTP_SUCCESS, mem2, u2)
       }
     }"

subsection \<open>Dot segments\<close>

text \<open>
  What is at \<open>copyFrom\<close>: 1 for a segment \<open>.\<close>, 2 for a segment \<open>..\<close>, 0 for anything else.
  The string is at offset \<open>b\<close> and ends before \<open>mx\<close>.
\<close>

definition dot_kind :: "char list \<Rightarrow> nat \<Rightarrow> nat \<Rightarrow> nat \<Rightarrow> nat option" where
  "dot_kind mem b mx i =
     do {
       c \<leftarrow> char_at mem i;
       if c \<noteq> CHR ''.'' then Some 0
       else do {
         first \<leftarrow> (if i = b then Some True else map_option (\<lambda>p. p = CHR ''/'') (char_at mem (i - 1)));
         if \<not> first then Some 0
         else if i + 1 = mx then Some 1
         else do {
           c1 \<leftarrow> char_at mem (i + 1);
           if c1 = CHR ''/'' then Some 1
           else if c1 \<noteq> CHR ''.'' then Some 0
           else if i + 2 = mx then Some 2
           else do {
             c2 \<leftarrow> char_at mem (i + 2);
             Some (if c2 = CHR ''/'' then 2 else 0)
           }
         }
       }
     }"

text \<open>
  \<open>segs\<close> is the part of the array \<open>Segments\<close> up to \<open>lastSegment\<close>, the last one first. The
  result is \<open>Inl\<close> the error or \<open>Inr\<close> the memory, \<open>copyTo\<close> and \<open>copyFrom\<close>.
\<close>

function dots_loop ::
  "char list \<Rightarrow> nat \<Rightarrow> nat \<Rightarrow> nat \<Rightarrow> nat \<Rightarrow> nat list \<Rightarrow> (int + (char list \<times> nat \<times> nat)) option" where
  "dots_loop mem b mx copyTo copyFrom segs =
     (if copyFrom < mx
      then (case char_at mem copyFrom of
              None \<Rightarrow> None
            | Some c \<Rightarrow>
                (if c = CHR ''?'' \<or> c = CHR ''#'' then Some (Inr (mem, copyTo, copyFrom))
                 else (case dot_kind mem b mx copyFrom of
                         None \<Rightarrow> None
                       | Some k \<Rightarrow>
                           (if k = 1 then dots_loop mem b mx copyTo (copyFrom + 2) segs
                            else if k = 2
                            then (case segs of
                                    _ # t # rest \<Rightarrow> dots_loop mem b mx t (copyFrom + 3) (t # rest)
                                  | _ \<Rightarrow> Some (Inl UPNP_E_INVALID_URL))
                            else (case poke copyTo [c] mem of
                                    None \<Rightarrow> None
                                  | Some mem' \<Rightarrow>
                                      dots_loop mem' b mx (copyTo + 1) (copyFrom + 1)
                                        (if c = CHR ''/'' then (copyTo + 1) # segs else segs))))))
      else Some (Inr (mem, copyTo, copyFrom)))"
  by pat_completeness auto
termination
  by (relation "measure (\<lambda>(mem, b, mx, t, f, segs). mx - f)") auto

declare dots_loop.simps [simp del]

definition remove_dots :: "bool \<Rightarrow> char list \<Rightarrow> nat \<Rightarrow> nat \<Rightarrow> (int \<times> char list) option" where
  "remove_dots mem_ok mem b sz =
     (if \<not> mem_ok then Some (UPNP_E_OUTOF_MEMORY, mem)
      else if sz = 0 then None
      else (case dots_loop mem b (b + sz) b b [] of
              None \<Rightarrow> None
            | Some (Inl e) \<Rightarrow> Some (e, mem)
            | Some (Inr (mem1, copyTo, copyFrom)) \<Rightarrow>
                do {
                  mem2 \<leftarrow> memmove copyTo copyFrom (b + sz - copyFrom) mem1;
                  mem3 \<leftarrow> poke (copyTo + (b + sz - copyFrom)) [CHR 0x00] mem2;
                  Some (UPNP_E_SUCCESS, mem3)
                }))"

subsection \<open>Resolving relative URLs\<close>

definition blank_uri :: uri_type where
  "blank_uri = \<lparr>utype = RELATIVE, scheme = no_token, path_type = REL_PATH, pathquery = no_token,
                fragment = no_token, hostport = no_hostport\<rparr>"

definition c_string :: "char list \<Rightarrow> string" where
  "c_string mem = takeWhile (\<lambda>c. c \<noteq> CHR 0x00) mem"

text \<open>
  The part of \<open>resolve_rel_url\<close> that joins a relative path to the path of the base: \<open>pos\<close> is
  \<open>out_finger\<close>.
\<close>

definition join_path ::
  "bool \<Rightarrow> char list \<Rightarrow> nat \<Rightarrow> string \<Rightarrow> string \<Rightarrow> (string option) option" where
  "join_path mem_ok out pos base_path rel_url =
     (let prefix = takeWhile (\<lambda>c. c \<noteq> CHR ''?'') base_path;
          last_slash = pos + length (dropWhile (\<lambda>c. c \<noteq> CHR ''/'') (rev prefix))
      in do {
        out1 \<leftarrow> poke pos prefix out;
        out2 \<leftarrow> poke last_slash rel_url out1;
        (r, out3) \<leftarrow> remove_dots mem_ok out2 pos (length (c_string (drop pos out2)));
        Some (if r = UPNP_E_SUCCESS then Some (c_string out3) else None)
      })"

definition build_url ::
  "bool \<Rightarrow> string \<Rightarrow> uri_type \<Rightarrow> string \<Rightarrow> uri_type \<Rightarrow> char list \<Rightarrow> (string option) option" where
  "build_url mem_ok base_url base rel_url rel out =
     (let sch = token_text base_url (scheme base);
          host = token_text base_url (htext (hostport base))
      in do {
        out1 \<leftarrow> poke 0 (sch @ '':'') out;
        let pos = length sch + 1;
        if tsize (htext (hostport rel)) > 0
        then map_option (\<lambda>m. Some (c_string m)) (poke pos (rel_url @ [CHR 0x00]) out1)
        else do {
          let auth = (if tsize (htext (hostport base)) > 0 then ''//'' @ host else []);
          out2 \<leftarrow> poke pos auth out1;
          let pos2 = pos + length auth;
          if path_type rel = ABS_PATH
          then map_option (\<lambda>m. Some (c_string m)) (poke pos2 rel_url out2)
          else join_path mem_ok out2 pos2
                 (if tsize (pathquery base) = 0 then ''/'' else token_text base_url (pathquery base)) rel_url
        }
      })"

definition resolve_rel_url ::
  "resolver \<Rightarrow> bool \<Rightarrow> string option \<Rightarrow> string option \<Rightarrow> (string option) option" where
  "resolve_rel_url rs mem_ok base_url rel_url =
     (case rel_url of
        None \<Rightarrow> Some None
      | Some r \<Rightarrow>
          (case base_url of
             None \<Rightarrow> Some (if mem_ok then Some r else None)
           | Some b \<Rightarrow>
               if \<not> mem_ok then Some None
               else do {
                 let out = replicate (length b + length r + 2) (CHR 0x00);
                 (ret, rel) \<leftarrow> parse_uri rs (r @ [CHR 0x00]) (length r) blank_uri;
                 if ret \<noteq> HTTP_SUCCESS then Some None
                 else if utype rel = ABSOLUTE
                 then map_option (\<lambda>m. Some (c_string m)) (poke 0 r out)
                 else do {
                   (ret2, base) \<leftarrow> parse_uri rs (b @ [CHR 0x00]) (length b) blank_uri;
                   if ret2 \<noteq> HTTP_SUCCESS \<or> utype base \<noteq> ABSOLUTE then Some None
                   else if r = [] then map_option (\<lambda>m. Some (c_string m)) (poke 0 b out)
                   else build_url mem_ok b base r rel out
                 }
               }))"

end
