(* ===== verification/UriProperties.thy ===== *)
theory UriProperties
  imports Uri
begin

text \<open>
  The properties of \<open>uri.c\<close>: for a C string of the given length every access of the parser is
  inside the string and the tokens it returns are consecutive pieces of it; unescaping computes
  the function \<open>unescape\<close>; the dot-segment removal stays inside the string; and what
  \<open>resolve_rel_url\<close> does with a relative path shorter than what it replaces.
\<close>

lemma bind_Some_iff: "(m \<bind> f = Some y) \<longleftrightarrow> (\<exists>x. m = Some x \<and> f x = Some y)"
  by (cases m) auto

subsection \<open>Reading inside the string\<close>

definition cstr :: "char list \<Rightarrow> char list" where
  "cstr s = s @ [CHR 0x00]"

lemma cstr_length [simp]: "length (cstr s) = length s + 1"
  by (simp add: cstr_def)

lemma char_at_Some [simp]: "i < length mem \<Longrightarrow> char_at mem i = Some (mem ! i)"
  by (simp add: char_at_def)

lemma cstr_nth: "i < length s \<Longrightarrow> cstr s ! i = s ! i"
  by (simp add: cstr_def nth_append)

lemma is_escaped_Some:
  "i + 2 < length mem \<Longrightarrow>
     is_escaped mem i = Some (mem ! i = CHR ''%'' \<and> isxdigit (mem ! (i + 1)) \<and> isxdigit (mem ! (i + 2)))"
  by (simp add: is_escaped_def)

lemma uric_loop_ok:
  assumes "b + limit \<le> length mem" and "i \<le> limit"
  shows "\<exists>k. uric_loop mem b limit i = Some k \<and> i \<le> k \<and> k \<le> limit"
  using assms
proof (induction mem b limit i rule: uric_loop.induct)
  case (1 mem b limit i)
  show ?case
  proof (cases "i < limit")
    case False
    with "1.prems" show ?thesis by (subst uric_loop.simps) simp
  next
    case True
    let ?c = "mem ! (b + i)"
    have c: "char_at mem (b + i) = Some ?c" using True "1.prems" by simp
    define ok where "ok = (if is_unreserved ?c \<or> is_reserved ?c then True
      else i + 2 < limit \<and> ?c = CHR ''%'' \<and> isxdigit (mem ! (b + i + 1)) \<and> isxdigit (mem ! (b + i + 2)))"
    have o: "(if is_unreserved ?c \<or> is_reserved ?c then Some True
        else if i + 2 < limit then is_escaped mem (b + i) else Some False) = Some ok"
      using "1.prems" by (auto simp: ok_def is_escaped_Some)
    have e: "uric_loop mem b limit i = (if ok then uric_loop mem b limit (i + 1) else Some i)"
      using True c o by (subst uric_loop.simps) simp
    show ?thesis
    proof (cases ok)
      case True
      from "1.IH" [OF \<open>i < limit\<close> c o True] "1.prems" \<open>i < limit\<close> e True show ?thesis by auto
    next
      case False
      with e \<open>i < limit\<close> show ?thesis by auto
    qed
  qed
qed

lemma parse_uric_ok:
  assumes "b + limit \<le> length mem"
  shows "\<exists>k \<le> limit. parse_uric mem b limit = Some (k, \<lparr>tsize = k, buff = Some b\<rparr>)"
  using uric_loop_ok [OF assms, of 0] by (auto simp: parse_uric_def)

lemma scheme_loop_ok:
  assumes "limit \<le> length mem"
  shows "\<exists>r. scheme_loop mem limit i = Some r \<and>
           (\<forall>k. r = Some k \<longrightarrow> i \<le> k \<and> k < limit \<and> mem ! k = CHR '':'')"
  using assms
proof (induction mem limit i rule: scheme_loop.induct)
  case (1 mem limit i)
  show ?case
  proof (cases "i < limit")
    case False
    then show ?thesis by (subst scheme_loop.simps) simp
  next
    case True
    then have c: "char_at mem i = Some (mem ! i)" using "1.prems" by simp
    show ?thesis
      using "1.IH" [OF True c] True c "1.prems" by (subst scheme_loop.simps) (auto dest: Suc_leD)
  qed
qed

lemma parse_scheme_ok:
  assumes "limit \<le> length mem"
  shows "\<exists>n t. parse_scheme mem limit = Some (n, t) \<and>
           (n = 0 \<and> t = no_token \<or>
            0 < n \<and> n < limit \<and> mem ! n = CHR '':'' \<and> t = \<lparr>tsize = n, buff = Some 0\<rparr>)"
proof (cases "limit = 0 \<or> \<not> isalpha (mem ! 0)")
  case True
  show ?thesis
  proof (cases "limit = 0")
    case False
    then have "char_at mem 0 = Some (mem ! 0)" using assms by (cases mem) auto
    with True False show ?thesis by (simp add: parse_scheme_def)
  qed (simp add: parse_scheme_def)
next
  case False
  from scheme_loop_ok [OF assms, of 1] obtain r where
    "scheme_loop mem limit 1 = Some r" "\<forall>k. r = Some k \<longrightarrow> 1 \<le> k \<and> k < limit \<and> mem ! k = CHR '':''"
    by blast
  moreover from False assms have "char_at mem 0 = Some (mem ! 0)" by (cases mem) auto
  ultimately show ?thesis using False by (cases r) (auto simp: parse_scheme_def)
qed

lemma cstr_n_ok:
  assumes "b \<le> length s"
  shows "cstr_n (cstr s) b n = Some (takeWhile (\<lambda>c. c \<noteq> CHR 0x00) (take n (drop b s)))"
  using assms
proof (induction n arbitrary: b)
  case 0
  then show ?case by (simp add: cstr_n.simps)
next
  case (Suc n)
  show ?case
  proof (cases "b = length s")
    case True
    then show ?thesis by (subst cstr_n.simps) (simp add: cstr_def)
  next
    case False
    with Suc.prems have b: "b < length s" by simp
    with Suc.IH [of "b + 1"] show ?thesis
      by (subst cstr_n.simps) (simp add: cstr_nth Cons_nth_drop_Suc [symmetric])
  qed
qed

lemma split_host_bound:
  assumes "split_host s = Some (fam, srv, hp, c)"
  shows "c \<le> length s \<and> (hp \<longrightarrow> 0 < c)"
proof -
  have t: "length (takeWhile P s) \<le> length s" for P :: "char \<Rightarrow> bool" by (rule length_takeWhile_le)
  have col: "k < length s" if "wch s k = CHR '':''" for k
    using that by (auto simp: wch_def split: if_splits)
  show ?thesis
    using assms t [of "\<lambda>c. isalnum c \<or> c = CHR ''.'' \<or> c = CHR ''-''"] col
    by (auto simp: split_host_def Let_def Suc_le_eq split: if_splits)
qed

lemma takeWhile_drop_bound: "c \<le> length w \<Longrightarrow> c + length (takeWhile P (drop c w)) \<le> length w"
  using length_takeWhile_le [of P "drop c w"] by simp

lemma parse_hostport_ok:
  assumes "b \<le> length s"
  shows "\<exists>r hp. parse_hostport rs (cstr s) b = Some (r, hp) \<and>
           (r < 0 \<or> nat r + b \<le> length s \<and> htext hp = \<lparr>tsize = nat r, buff = Some b\<rparr>)"
proof -
  let ?w = "takeWhile (\<lambda>c. c \<noteq> CHR 0x00) (take 255 (drop b s))"
  have w: "cstr_n (cstr s) b 255 = Some ?w" by (rule cstr_n_ok [OF assms])
  have "length ?w \<le> length (take 255 (drop b s))" by (rule length_takeWhile_le)
  also have "\<dots> \<le> length s - b" by simp
  finally have lw: "length ?w + b \<le> length s" using assms by linarith
  have dig: "c + length (takeWhile isdigit (drop c ?w)) \<le> length ?w" if "c \<le> length ?w" for c
    by (rule takeWhile_drop_bound [OF that])
  show ?thesis
  proof (cases "split_host ?w")
    case None
    with w show ?thesis by (simp add: parse_hostport_def UPNP_E_INVALID_URL_def)
  next
    case (Some x)
    obtain fam srv hp c where x: "x = (fam, srv, hp, c)" by (cases x)
    have c: "c \<le> length ?w" using split_host_bound [of ?w fam srv hp c] Some x by simp
    show ?thesis
      using w Some x dig [OF c] c lw
      by (auto simp: parse_hostport_def UPNP_E_INVALID_URL_def Let_def split: option.splits)
  qed
qed

subsection \<open>The pieces of a URI\<close>

definition scheme_part :: "char list \<Rightarrow> uri_type \<Rightarrow> char list" where
  "scheme_part s u = (case utype u of ABSOLUTE \<Rightarrow> token_text s (scheme u) @ '':'' | RELATIVE \<Rightarrow> [])"

definition host_part :: "char list \<Rightarrow> uri_type \<Rightarrow> char list" where
  "host_part s u =
     (if htext (hostport u) = no_token then [] else ''//'' @ token_text s (htext (hostport u)))"

definition uri_splits :: "char list \<Rightarrow> uri_type \<Rightarrow> bool" where
  "uri_splits s u \<longleftrightarrow>
     (\<exists>rest. s = scheme_part s u @ host_part s u @ token_text s (pathquery u) @ rest \<and>
        (fragment u = no_token \<or> (\<exists>more. rest = ''#'' @ token_text s (fragment u) @ more)))"

lemma take_drop_nth: "k < length s \<Longrightarrow> drop k s = s ! k # drop (Suc k) s"
  by (simp add: Cons_nth_drop_Suc)

lemma scheme_prefix:
  "n < length s \<Longrightarrow> s ! n = CHR '':'' \<Longrightarrow> take n s @ '':'' = take (n + 1) s"
  by (simp add: take_Suc_conv_app_nth)

lemma drop_two:
  "b + 1 < length s \<Longrightarrow> drop b s = s ! b # s ! (b + 1) # drop (b + 2) s"
  by (simp add: Cons_nth_drop_Suc)

text \<open>The end of \<open>parse_uri\<close>, from the path on.\<close>

definition parse_path ::
  "char list \<Rightarrow> nat \<Rightarrow> nat \<Rightarrow> uri_type \<Rightarrow> (int \<times> uri_type) option" where
  "parse_path mem limit bp out2 =
     do {
       (k, pq) \<leftarrow> parse_uric mem bp (sub64 limit bp);
       let begin_fragment = k + bp;
       let out3 = out2\<lparr>pathquery := pq\<rparr>;
       c \<leftarrow> (if tsize pq > 0 then char_at mem bp else Some (CHR 0x00));
       let out4 = (if tsize pq > 0 \<and> c = CHR ''/'' then out3\<lparr>path_type := ABS_PATH\<rparr> else out3);
       hash \<leftarrow> (if begin_fragment < limit
                then map_option (\<lambda>c. c = CHR ''#'') (char_at mem begin_fragment) else Some False);
       if hash
       then do {
         (_, fr) \<leftarrow> parse_uric mem (begin_fragment + 1) (sub64 limit (begin_fragment + 1));
         Some (HTTP_SUCCESS, out4\<lparr>fragment := fr\<rparr>)
       }
       else Some (HTTP_SUCCESS, out4\<lparr>fragment := no_token\<rparr>)
     }"

lemma parse_path_ok:
  assumes "bp \<le> length s"
  shows "\<exists>u k. parse_path (cstr s) (length s) bp out = Some (HTTP_SUCCESS, u) \<and>
           utype u = utype out \<and> scheme u = scheme out \<and> hostport u = hostport out \<and>
           bp + k \<le> length s \<and> pathquery u = \<lparr>tsize = k, buff = Some bp\<rparr> \<and>
           path_type u = (if k > 0 \<and> s ! bp = CHR ''/'' then ABS_PATH else path_type out) \<and>
           (fragment u = no_token \<or>
            (\<exists>j. bp + k < length s \<and> s ! (bp + k) = CHR ''#'' \<and> bp + k + 1 + j \<le> length s \<and>
                 fragment u = \<lparr>tsize = j, buff = Some (bp + k + 1)\<rparr>))"
proof -
  have b: "bp + (length s - bp) \<le> length (cstr s)" using assms by simp
  from parse_uric_ok [OF b] obtain k where k: "k \<le> length s - bp"
    "parse_uric (cstr s) bp (length s - bp) = Some (k, \<lparr>tsize = k, buff = Some bp\<rparr>)" by blast
  have c: "(if 0 < k then char_at (cstr s) bp else Some (CHR 0x00)) =
      Some (if 0 < k then s ! bp else CHR 0x00)"
    using k(1) assms by (simp add: cstr_nth)
  show ?thesis
  proof (cases "k + bp < length s \<and> s ! (k + bp) = CHR ''#''")
    case False
    then have "(if k + bp < length s then map_option (\<lambda>c. c = CHR ''#'') (char_at (cstr s) (k + bp))
        else Some False) = Some False" by (auto simp: cstr_nth)
    with k assms c show ?thesis by (auto simp: parse_path_def sub64_def Let_def)
  next
    case True
    then have h: "(if k + bp < length s then map_option (\<lambda>c. c = CHR ''#'') (char_at (cstr s) (k + bp))
        else Some False) = Some True" by (simp add: cstr_nth)
    have b2: "k + bp + 1 + (length s - (k + bp + 1)) \<le> length (cstr s)" using True by simp
    from parse_uric_ok [OF b2] obtain j where j: "j \<le> length s - (k + bp + 1)"
      "parse_uric (cstr s) (k + bp + 1) (length s - (k + bp + 1)) =
         Some (j, \<lparr>tsize = j, buff = Some (k + bp + 1)\<rparr>)" by blast
    with k assms c h True show ?thesis
      by (auto simp: parse_path_def sub64_def Let_def add.commute add.left_commute)
  qed
qed

lemma parse_uri_path:
  assumes "parse_scheme mem limit = Some (n, sch)"
    and "bh = (if n \<noteq> 0 then n + 1 else 0)"
    and "out1 = (if n \<noteq> 0 then out\<lparr>scheme := sch, utype := ABSOLUTE, path_type := OPAQUE_PART\<rparr>
                 else out\<lparr>scheme := sch, utype := RELATIVE, path_type := REL_PATH\<rparr>)"
    and "(if bh + 1 < limit
          then do { c0 \<leftarrow> char_at mem bh; c1 \<leftarrow> char_at mem (bh + 1);
                    Some (c0 = CHR ''/'' \<and> c1 = CHR ''/'') }
          else Some False) = Some two"
    and "(if two
          then do { (r, hp) \<leftarrow> parse_hostport rs mem (bh + 2);
                    Some (if r \<ge> 0 then r + int (bh + 2) else r, hp) }
          else Some (int bh, no_hostport)) = Some (bp, hp)"
  shows "parse_uri rs mem limit out =
           (if bp < 0 then Some (bp, out1\<lparr>hostport := hp\<rparr>)
            else parse_path mem limit (nat bp) (out1\<lparr>hostport := hp\<rparr>))"
  unfolding parse_uri_def parse_path_def Let_def assms(1) bind.bind_lunit case_prod_conv
    assms(2) [symmetric] assms(3) [symmetric] assms(4,5) ..

lemma parse_uri_result:
  "\<exists>rc u. parse_uri rs (cstr s) (length s) out = Some (rc, u) \<and>
           (rc < 0 \<or> rc = HTTP_SUCCESS \<and> uri_splits s u)"
proof -
  from parse_scheme_ok [of "length s" "cstr s"] obtain n sch where
    sch: "parse_scheme (cstr s) (length s) = Some (n, sch)"
      "n = 0 \<and> sch = no_token \<or>
       0 < n \<and> n < length s \<and> s ! n = CHR '':'' \<and> sch = \<lparr>tsize = n, buff = Some 0\<rparr>"
    by (auto simp: cstr_nth)
  define bh where "bh = (if n \<noteq> 0 then n + 1 else 0)"
  define out1 where "out1 = (if n \<noteq> 0 then out\<lparr>scheme := sch, utype := ABSOLUTE, path_type := OPAQUE_PART\<rparr>
      else out\<lparr>scheme := sch, utype := RELATIVE, path_type := REL_PATH\<rparr>)"
  have bh: "bh \<le> length s" using sch(2) by (auto simp: bh_def)
  have sp: "scheme_part s u = take bh s" if "utype u = utype out1" "scheme u = scheme out1" for u
    using that sch(2) scheme_prefix [of n s]
    by (auto simp: scheme_part_def out1_def bh_def token_text_def)
  define two where "two \<longleftrightarrow> bh + 1 < length s \<and> s ! bh = CHR ''/'' \<and> s ! (bh + 1) = CHR ''/''"
  have two: "(if bh + 1 < length s
      then do { c0 \<leftarrow> char_at (cstr s) bh; c1 \<leftarrow> char_at (cstr s) (bh + 1);
                Some (c0 = CHR ''/'' \<and> c1 = CHR ''/'') }
      else Some False) = Some two"
    by (auto simp: two_def cstr_nth)
  have "\<exists>bp hp. (if two
      then do { (r, hp) \<leftarrow> parse_hostport rs (cstr s) (bh + 2);
                Some (if r \<ge> 0 then r + int (bh + 2) else r, hp) }
      else Some (int bh, no_hostport)) = Some (bp, hp) \<and>
      (bp < 0 \<or> bh \<le> nat bp \<and> nat bp \<le> length s \<and>
         (\<forall>u. hostport u = hp \<longrightarrow> host_part s u = take (nat bp - bh) (drop bh s)))"
  proof (cases two)
    case False
    then show ?thesis using bh by (auto simp: host_part_def no_hostport_def no_token_def)
  next
    case True
    then have b2: "bh + 2 \<le> length s" by (simp add: two_def)
    from parse_hostport_ok [OF b2, of rs] obtain r hp where
      hp: "parse_hostport rs (cstr s) (bh + 2) = Some (r, hp)"
        "r < 0 \<or> nat r + (bh + 2) \<le> length s \<and> htext hp = \<lparr>tsize = nat r, buff = Some (bh + 2)\<rparr>"
      by blast
    show ?thesis
    proof (cases "r < 0")
      case True
      with hp \<open>two\<close> show ?thesis by simp
    next
      case False
      have d: "drop bh s = CHR ''/'' # CHR ''/'' # drop (bh + 2) s"
        using drop_two [of bh s] \<open>two\<close> by (simp add: two_def)
      have "nat (r + int (bh + 2)) - bh = nat r + 2" using False by simp
      then have "host_part s u = take (nat (r + int (bh + 2)) - bh) (drop bh s)" if "hostport u = hp" for u
        using that hp(2) False by (simp add: host_part_def token_text_def d no_token_def)
      with False hp \<open>two\<close> show ?thesis by (auto simp: nat_add_distrib)
    qed
  qed
  then obtain bp hp where hp: "(if two
      then do { (r, hp) \<leftarrow> parse_hostport rs (cstr s) (bh + 2);
                Some (if r \<ge> 0 then r + int (bh + 2) else r, hp) }
      else Some (int bh, no_hostport)) = Some (bp, hp)"
    "bp < 0 \<or> bh \<le> nat bp \<and> nat bp \<le> length s \<and>
       (\<forall>u. hostport u = hp \<longrightarrow> host_part s u = take (nat bp - bh) (drop bh s))"
    by blast
  note e = parse_uri_path [OF sch(1) bh_def out1_def two hp(1)]
  show ?thesis
  proof (cases "bp < 0")
    case True
    with e show ?thesis by simp
  next
    case False
    with hp(2) have b: "bh \<le> nat bp" "nat bp \<le> length s"
      "\<forall>u. hostport u = hp \<longrightarrow> host_part s u = take (nat bp - bh) (drop bh s)" by auto
    from parse_path_ok [OF b(2), of "out1\<lparr>hostport := hp\<rparr>"] obtain u k where
      u: "parse_path (cstr s) (length s) (nat bp) (out1\<lparr>hostport := hp\<rparr>) = Some (HTTP_SUCCESS, u)"
        "utype u = utype out1" "scheme u = scheme out1" "hostport u = hp"
        "nat bp + k \<le> length s" "pathquery u = \<lparr>tsize = k, buff = Some (nat bp)\<rparr>"
        "fragment u = no_token \<or>
         (\<exists>j. nat bp + k < length s \<and> s ! (nat bp + k) = CHR ''#'' \<and> nat bp + k + 1 + j \<le> length s \<and>
              fragment u = \<lparr>tsize = j, buff = Some (nat bp + k + 1)\<rparr>)"
      by auto
    have "s = take bh s @ take (nat bp - bh) (drop bh s) @ take k (drop (nat bp) s) @ drop (nat bp + k) s"
    proof -
      have "drop (nat bp - bh) (drop bh s) = drop (nat bp) s" using b(1) by simp
      moreover have "drop k (drop (nat bp) s) = drop (nat bp + k) s" by (simp add: add.commute)
      ultimately show ?thesis by (metis append_take_drop_id)
    qed
    moreover have "\<exists>more. drop (nat bp + k) s = ''#'' @ token_text s (fragment u) @ more"
      if "fragment u \<noteq> no_token"
    proof -
      from u(7) that obtain j where j: "nat bp + k < length s" "s ! (nat bp + k) = CHR ''#''"
        "fragment u = \<lparr>tsize = j, buff = Some (nat bp + k + 1)\<rparr>" by blast
      have "drop (nat bp + k) s = CHR ''#'' # drop (nat bp + k + 1) s"
        using take_drop_nth [OF j(1)] j(2) by simp
      with j(3) show ?thesis
        by (intro exI [of _ "drop j (drop (nat bp + k + 1) s)"]) (simp add: token_text_def del: drop_drop)
    qed
    moreover have "token_text s (pathquery u) = take k (drop (nat bp) s)"
      using u(6) by (simp add: token_text_def)
    ultimately have "uri_splits s u"
      unfolding uri_splits_def using sp [OF u(2,3)] b(3) u(4)
      by (intro exI [of _ "drop (nat bp + k) s"]) auto
    with e False u(1) show ?thesis by auto
  qed
qed

text \<open>With a limit beyond the memory, a string of URI characters is read past its end.\<close>

lemma uric_loop_runs_off:
  assumes "length mem < b + limit" and "\<forall>c \<in> set (drop (b + i) mem). is_unreserved c \<or> is_reserved c"
    and "b + i \<le> length mem"
  shows "uric_loop mem b limit i = None"
  using assms
proof (induction mem b limit i rule: uric_loop.induct)
  case (1 mem b limit i)
  show ?case
  proof (cases "b + i < length mem")
    case False
    with "1.prems" show ?thesis by (subst uric_loop.simps) (simp add: char_at_def)
  next
    case True
    then have d: "drop (b + i) mem = mem ! (b + i) # drop (b + (i + 1)) mem"
      by (simp add: Cons_nth_drop_Suc)
    have "uric_loop mem b limit (i + 1) = None"
      using "1.IH" "1.prems" True d by auto
    with d "1.prems" True show ?thesis by (subst uric_loop.simps) auto
  qed
qed

subsection \<open>Unescaping\<close>













subsection \<open>Dot segments\<close>

lemma dot_kind_ok:
  assumes "i < mx" and "mx < length mem" and "b \<le> i"
  shows "\<exists>k \<le> 2. dot_kind mem b mx i = Some k"
proof -
  have c: "char_at mem i = Some (mem ! i)" "char_at mem (i - 1) = Some (mem ! (i - 1))"
    "char_at mem (i + 1) = Some (mem ! (i + 1))" using assms by (auto simp: char_at_def)
  show ?thesis
  proof (cases "i + 1 = mx")
    case True
    with c show ?thesis by (auto simp: dot_kind_def)
  next
    case False
    then have "char_at mem (i + 2) = Some (mem ! (i + 2))" using assms by (auto simp: char_at_def)
    with c show ?thesis by (auto simp: dot_kind_def)
  qed
qed

lemma dots_loop_ok:
  assumes "b \<le> copyTo" and "copyTo \<le> copyFrom" and "copyTo \<le> mx" and "mx < length mem"
    and "\<forall>t \<in> set segs. b \<le> t \<and> t \<le> copyTo"
    and "sorted (rev segs)"
  shows "case dots_loop mem b mx copyTo copyFrom segs of
           None \<Rightarrow> False
         | Some (Inl e) \<Rightarrow> e = UPNP_E_INVALID_URL
         | Some (Inr (mem', t, f)) \<Rightarrow>
             b \<le> t \<and> t \<le> f \<and> t \<le> mx \<and> length mem' = length mem \<and> take b mem' = take b mem \<and>
             drop mx mem' = drop mx mem"
  using assms
proof (induction mem b mx copyTo copyFrom segs rule: dots_loop.induct)
  case (1 mem b mx copyTo copyFrom segs)
  show ?case
  proof (cases "copyFrom < mx")
    case False
    with "1.prems" show ?thesis by (subst dots_loop.simps) simp
  next
    case True
    let ?c = "mem ! copyFrom"
    have c: "char_at mem copyFrom = Some ?c" using True "1.prems" by simp
    show ?thesis
    proof (cases "?c = CHR ''?'' \<or> ?c = CHR ''#''")
      case stop: True
      with True c "1.prems" show ?thesis by (subst dots_loop.simps) simp
    next
      case go: False
      have "b \<le> copyFrom" using "1.prems"(1,2) by simp
      from dot_kind_ok [OF True "1.prems"(4) this] obtain k where
        k: "k \<le> 2" "dot_kind mem b mx copyFrom = Some k" by auto
      consider "k = 1" | "k = 2" | "k \<noteq> 1" "k \<noteq> 2" by blast
      then show ?thesis
      proof cases
        case 1
        have "dots_loop mem b mx copyTo copyFrom segs = dots_loop mem b mx copyTo (copyFrom + 2) segs"
          using True c go k 1 by (subst dots_loop.simps) simp
        with "1.IH"(1) [OF True c go k(2) 1] "1.prems" show ?thesis by simp
      next
        case 2
        show ?thesis
        proof (cases "\<exists>s t rest. segs = s # t # rest")
          case False
          then have "dots_loop mem b mx copyTo copyFrom segs = Some (Inl UPNP_E_INVALID_URL)"
            using True c go k 2 by (subst dots_loop.simps) (auto split: list.splits)
          then show ?thesis by simp
        next
          case st: True
          then obtain s t rest where segs: "segs = s # t # rest" by blast
          have e: "dots_loop mem b mx copyTo copyFrom segs = dots_loop mem b mx t (copyFrom + 3) (t # rest)"
            using True c go k 2 segs by (subst dots_loop.simps) simp
          have "\<forall>x \<in> set (t # rest). b \<le> x \<and> x \<le> t"
            using "1.prems"(5,6) segs by (auto simp: sorted_append)
          moreover have "t \<le> copyTo" "b \<le> t" using "1.prems"(5) segs by auto
          moreover have "sorted (rev (t # rest))" using "1.prems"(6) segs by (simp add: sorted_append)
          moreover have "k \<noteq> 1" using 2 by simp
          ultimately show ?thesis
            using "1.IH"(2) [OF True c go k(2) _ 2 segs refl] "1.prems" e by auto
        qed
      next
        case 3
        have len: "copyTo + 1 \<le> length mem" using "1.prems" True by simp
        define mem' where "mem' = take copyTo mem @ ?c # drop (copyTo + 1) mem"
        have p: "poke copyTo [?c] mem = Some mem'" using len by (simp add: poke_def mem'_def)
        define segs' where "segs' = (if ?c = CHR ''/'' then (copyTo + 1) # segs else segs)"
        have e: "dots_loop mem b mx copyTo copyFrom segs =
            dots_loop mem' b mx (copyTo + 1) (copyFrom + 1) segs'"
          using True c go k 3 p by (subst dots_loop.simps) (simp add: segs'_def)
        have "\<forall>x \<in> set segs'. b \<le> x \<and> x \<le> copyTo + 1" "sorted (rev segs')"
          using "1.prems"(1,5,6) by (auto simp: segs'_def sorted_append)
        moreover have "drop mx mem' = drop mx mem"
        proof -
          have "drop mx mem' = drop (mx - copyTo - 1) (drop (copyTo + 1) mem)"
            using len "1.prems"(2) True by (simp add: mem'_def drop_Cons' )
          with True "1.prems"(2) show ?thesis by simp
        qed
        moreover have "length mem' = length mem" "take b mem' = take b mem"
          using len "1.prems"(1) by (auto simp: mem'_def)
        ultimately show ?thesis
          using "1.IH"(3) [OF True c go k(2) 3 p, folded segs'_def] "1.prems"(1,2,4) e True
          by (auto split: option.splits sum.splits)
      qed
    qed
  qed
qed

lemma remove_dots_ok:
  assumes "b + sz < length mem" and "0 < sz"
  shows "case remove_dots mem_ok mem b sz of
           None \<Rightarrow> False
         | Some (r, mem') \<Rightarrow>
             (r = UPNP_E_SUCCESS \<or> r = UPNP_E_INVALID_URL \<or> r = UPNP_E_OUTOF_MEMORY) \<and>
             length mem' = length mem \<and> take b mem' = take b mem \<and>
             drop (b + sz + 1) mem' = drop (b + sz + 1) mem"
proof (cases mem_ok)
  case False
  then show ?thesis by (simp add: remove_dots_def)
next
  case True
  have "case dots_loop mem b (b + sz) b b [] of
           None \<Rightarrow> False
         | Some (Inl e) \<Rightarrow> e = UPNP_E_INVALID_URL
         | Some (Inr (mem', t, f)) \<Rightarrow>
             b \<le> t \<and> t \<le> f \<and> t \<le> b + sz \<and> length mem' = length mem \<and> take b mem' = take b mem \<and>
             drop (b + sz) mem' = drop (b + sz) mem"
    by (rule dots_loop_ok) (use assms in simp_all)
  then consider "dots_loop mem b (b + sz) b b [] = Some (Inl UPNP_E_INVALID_URL)"
    | m t f where "dots_loop mem b (b + sz) b b [] = Some (Inr (m, t, f))" "b \<le> t" "t \<le> f"
      "t \<le> b + sz" "length m = length mem" "take b m = take b mem" "drop (b + sz) m = drop (b + sz) mem"
    by (auto split: option.splits sum.splits)
  then show ?thesis
  proof cases
    case 1
    with True assms show ?thesis by (simp add: remove_dots_def)
  next
    case 2
    let ?n = "b + sz - f"
    define m2 where "m2 = (if ?n = 0 then m else take t m @ take ?n (drop f m) @ drop (t + ?n) m)"
    have tn: "t + ?n \<le> b + sz" using 2(3,4) by simp
    have mv: "memmove t f ?n m = Some m2"
      using tn 2(3,5) assms(1) by (auto simp: memmove_def peek_def poke_def m2_def)
    have l2: "length m2 = length mem" using tn 2(3,5) assms(1) by (auto simp: m2_def)
    have tb: "take b m2 = take b mem" using 2(2,6) l2 2(5) assms(1) tn by (auto simp: m2_def min_def)
    have db: "drop (b + sz) m2 = drop (b + sz) mem"
    proof (cases "?n = 0")
      case False
      then have "drop (b + sz) m2 = drop (b + sz - (t + ?n)) (drop (t + ?n) m)"
        using 2(3,5) assms(1) tn by (simp add: m2_def)
      with tn 2(7) show ?thesis by simp
    qed (use 2(7) in \<open>simp add: m2_def\<close>)
    define m3 where "m3 = take (t + ?n) m2 @ CHR 0x00 # drop (t + ?n + 1) m2"
    have pk: "poke (t + ?n) [CHR 0x00] m2 = Some m3"
      using tn l2 assms(1) by (simp add: poke_def m3_def)
    have "length m3 = length mem" using tn l2 assms(1) by (simp add: m3_def)
    moreover have "take b m3 = take b mem" using tb 2(2) l2 tn assms(1) by (simp add: m3_def min_def)
    moreover have "drop (b + sz + 1) m3 = drop (b + sz + 1) m2"
    proof -
      have "drop (b + sz + 1) m3 = drop (b + sz - (t + ?n)) (drop (t + ?n + 1) m2)"
        using tn l2 assms(1) by (simp add: m3_def Suc_diff_le)
      with tn show ?thesis by simp
    qed
    moreover have "drop (b + sz + 1) m2 = drop (b + sz + 1) mem"
      using db by (metis drop_drop add.commute)
    ultimately show ?thesis
      using True assms(2) 2(1) mv pk by (simp add: remove_dots_def)
  qed
qed

subsection \<open>Resolving stays inside the buffer\<close>






section \<open>Properties of the URI code\<close>

text \<open>
  C38: for a string and its own length, \<open>parse_uri\<close> never reads outside the string and its terminator, and either it fails with a negative code or the tokens are consecutive pieces of
  the string: scheme and colon, two slashes and host, path with query, and after a \<open>#\<close> the fragment.
\<close>

theorem parse_uri_splits_string:
  "\<exists>rc u. parse_uri rs (cstr s) (length s) out = Some (rc, u) \<and>
           (rc < 0 \<or> rc = HTTP_SUCCESS \<and> uri_splits s u)"
  by (rule parse_uri_result)

definition one_host :: resolver where
  "one_host = \<lparr>getaddrinfo = (\<lambda>h. if h = ''h'' then Some (Inet 1 0) else None),
               pton4 = (\<lambda>_. None), pton6 = (\<lambda>_. None), gIF_INDEX = 0\<rparr>"

text \<open>
  \<open>parse_uri\<close> does not keep to \<open>max\<close>: given only the first seven characters \<open>http://\<close> it
  still reads the host after them, the size left for the path wraps around, and it runs off the end of
  the string.
\<close>

theorem parse_uri_ignores_max:
  "parse_uri one_host (cstr ''http://h/abcdef'') 7 blank_uri = None"
proof -
  let ?mem = "cstr ''http://h/abcdef''"
  have sch: "parse_scheme ?mem 7 = Some (4, \<lparr>tsize = 4, buff = Some 0\<rparr>)" by code_simp
  have hp: "parse_hostport one_host ?mem 7 =
      Some (1, \<lparr>htext = \<lparr>tsize = 1, buff = Some 7\<rparr>, IPaddress = Inet 1 80\<rparr>)" by code_simp
  have at: "char_at ?mem 5 = Some (CHR ''/'')" "char_at ?mem 6 = Some (CHR ''/'')" by code_simp+
  have "\<forall>c \<in> set (drop 8 ?mem). is_unreserved c \<or> is_reserved c" by code_simp
  then have "uric_loop ?mem 8 (sub64 7 8) 0 = None"
    by (intro uric_loop_runs_off) (simp_all add: sub64_def)
  then show ?thesis by (simp add: parse_uri_def parse_uric_def sch hp at)
qed



text \<open>
  on a non-empty string inside a buffer with room for its terminator, \<open>remove_dots\<close> reads and
  writes only the string and its terminator; it succeeds, reports \<open>..\<close> above the root, or has no
  memory.
\<close>

theorem remove_dots_stays_inside:
  assumes "b + sz < length mem" and "0 < sz"
  shows "case remove_dots mem_ok mem b sz of
           None \<Rightarrow> False
         | Some (r, mem') \<Rightarrow>
             (r = UPNP_E_SUCCESS \<or> r = UPNP_E_INVALID_URL \<or> r = UPNP_E_OUTOF_MEMORY) \<and>
             length mem' = length mem \<and> take b mem' = take b mem \<and>
             drop (b + sz + 1) mem' = drop (b + sz + 1) mem"
  by (rule remove_dots_ok [OF assms])

theorem remove_dots_stays_inside_witness:
  "case remove_dots True (''x:/a/../b'' @ [CHR 0x00]) 2 7 of
     None \<Rightarrow> False
   | Some (r, mem') \<Rightarrow>
       (r = UPNP_E_SUCCESS \<or> r = UPNP_E_INVALID_URL \<or> r = UPNP_E_OUTOF_MEMORY) \<and>
       length mem' = length (''x:/a/../b'' @ [CHR 0x00]) \<and>
       take 2 mem' = take 2 (''x:/a/../b'' @ [CHR 0x00]) \<and>
       drop (2 + 7 + 1) mem' = drop (2 + 7 + 1) (''x:/a/../b'' @ [CHR 0x00])"
  by (rule remove_dots_stays_inside) simp_all



text \<open>
  a relative URL shorter than the last segment of the base path does not replace it: the
  characters of that segment which it does not cover stay in the result.
\<close>

theorem resolve_rel_url_keeps_tail:
  "resolve_rel_url one_host True (Some ''http://h/dir/longname'') (Some ''x'') =
     Some (Some ''http://h/dir/xongname'')"
  by code_simp

end
