(* ===== verification/HttpScanner.thy ===== *)
theory HttpScanner
  imports Uri
begin

text \<open>
  The scanner of \<open>upnp/src/genlib/net/http/httpparser.c\<close>: splitting a message into tokens and
  matching it against a format. A scanner holds the message read so far, a cursor and the flag
  that no more data will come; a \<open>memptr\<close> into the message is an offset and a length. The
  functions are only called with the cursor inside the message or at its end (\<open>scanner_ok\<close>, which
  every one of them keeps).
\<close>

subsection \<open>Data\<close>

datatype parse_status =
  PARSE_SUCCESS | PARSE_INCOMPLETE | PARSE_INCOMPLETE_ENTITY | PARSE_FAILURE
| PARSE_OK | PARSE_NO_MATCH | PARSE_CONTINUE_1

datatype token_type = TT_IDENTIFIER | TT_WHITESPACE | TT_CRLF | TT_CTRL | TT_SEPARATOR | TT_QUOTEDSTRING

record memptr =
  mstart :: nat
  msize :: nat

record scanner =
  stext :: "char list"
  cursor :: nat
  entire_msg_loaded :: bool

definition mp_text :: "char list \<Rightarrow> memptr \<Rightarrow> char list" where
  "mp_text t m = take (msize m) (drop (mstart m) t)"

definition scanner_init :: "char list \<Rightarrow> scanner" where
  "scanner_init t = \<lparr>stext = t, cursor = 0, entire_msg_loaded = False\<rparr>"

subsection \<open>Character classes\<close>

text \<open>\<open>char\<close> is signed: \<open>c_int\<close> is a character as an \<open>int\<close>.\<close>

definition c_int :: "char \<Rightarrow> int" where
  "c_int c = (if code c < 128 then int (code c) else int (code c) - 256)"

definition TOKCHAR_CR :: char where "TOKCHAR_CR = CHR 0x0D"
definition TOKCHAR_LF :: char where "TOKCHAR_LF = CHR 0x0A"
definition TAB :: char where "TAB = CHR 0x09"

definition SEPARATORS :: string where
  "SEPARATORS = '' '' @ [TAB] @ ''()<>@,;:'' @ [CHR 0x5C, CHR 0x22] @ ''/[]?={}''"

definition is_separator_char :: "char \<Rightarrow> bool" where
  "is_separator_char c \<longleftrightarrow> strchr SEPARATORS c"

definition is_identifier_char :: "char \<Rightarrow> bool" where
  "is_identifier_char c \<longleftrightarrow> c_int c \<ge> 32 \<and> c_int c \<le> 126 \<and> \<not> is_separator_char c"

definition is_control_char :: "char \<Rightarrow> bool" where
  "is_control_char c \<longleftrightarrow> (c_int c \<ge> 0 \<and> c_int c \<le> 31) \<or> c_int c = 127"

definition is_qdtext_char :: "char \<Rightarrow> bool" where
  "is_qdtext_char c \<longleftrightarrow>
     (c_int c \<ge> 32 \<and> c_int c \<noteq> 127) \<or> c_int c < 0 \<or> c = TOKCHAR_CR \<or> c = TOKCHAR_LF \<or> c = TAB"

definition is_blank :: "char \<Rightarrow> bool" where
  "is_blank c \<longleftrightarrow> c = CHR '' '' \<or> c = TAB"

subsection \<open>Tokens\<close>

text \<open>The rest of a quoted string, behind \<open>k\<close> characters of it.\<close>

fun quoted_end :: "char list \<Rightarrow> nat \<Rightarrow> parse_status + nat" where
  "quoted_end [] k = Inl PARSE_INCOMPLETE"
| "quoted_end (c # cs) k =
     (if c = CHR 0x22 then Inr (k + 1)
      else if c = CHR 0x5C
      then (case cs of [] \<Rightarrow> Inl PARSE_INCOMPLETE | _ # ds \<Rightarrow> quoted_end ds (k + 2))
      else if is_qdtext_char c then quoted_end cs (k + 1)
      else Inl PARSE_FAILURE)"

text \<open>A token that extends as far as the characters are of its class.\<close>

definition run_token ::
  "bool \<Rightarrow> (char \<Rightarrow> bool) \<Rightarrow> char list \<Rightarrow> token_type \<Rightarrow> parse_status + (nat \<times> token_type)" where
  "run_token loaded P cs ty =
     (let n = length (takeWhile P cs)
      in if \<not> loaded \<and> n = length cs then Inl PARSE_INCOMPLETE else Inr (1 + n, ty))"

text \<open>\<open>token_at\<close> is \<open>scanner_get_token\<close> on the text behind the cursor: the length and type.\<close>

fun token_at :: "bool \<Rightarrow> char list \<Rightarrow> parse_status + (nat \<times> token_type)" where
  "token_at loaded [] = Inl PARSE_INCOMPLETE"
| "token_at loaded (c # cs) =
     (if is_identifier_char c then run_token loaded is_identifier_char cs TT_IDENTIFIER
      else if is_blank c then run_token loaded is_blank cs TT_WHITESPACE
      else if c = TOKCHAR_CR
      then (case cs of
              [] \<Rightarrow> Inl PARSE_INCOMPLETE
            | d # _ \<Rightarrow> if d \<noteq> TOKCHAR_LF then Inr (1, TT_CTRL) else Inr (2, TT_CRLF))
      else if c = TOKCHAR_LF then Inr (1, TT_CRLF)
      else if c = CHR 0x22 then map_sum id (\<lambda>n. (n, TT_QUOTEDSTRING)) (quoted_end cs 1)
      else if is_separator_char c then Inr (1, TT_SEPARATOR)
      else if is_control_char c then Inr (1, TT_CTRL)
      else Inl PARSE_FAILURE)"

definition scanner_get_token :: "scanner \<Rightarrow> parse_status + (memptr \<times> token_type \<times> scanner)" where
  "scanner_get_token sc =
     map_sum id
       (\<lambda>(n, ty). (\<lparr>mstart = cursor sc, msize = n\<rparr>, ty, sc\<lparr>cursor := cursor sc + n\<rparr>))
       (token_at (entire_msg_loaded sc) (drop (cursor sc) (stext sc)))"

lemma quoted_end_bound: "quoted_end cs k = Inr n \<Longrightarrow> k < n \<and> n \<le> k + length cs"
  by (induction cs k rule: quoted_end.induct) (force split: if_splits list.splits)+

lemma token_at_bound: "token_at loaded cs = Inr (n, ty) \<Longrightarrow> 0 < n \<and> n \<le> length cs"
proof (induction loaded cs rule: token_at.induct)
  case (2 loaded c cs)
  have r: "0 < n \<and> n \<le> Suc (length cs)" if "run_token loaded P cs t = Inr (n, ty)" for P t
    using that length_takeWhile_le [of P cs] by (auto simp: run_token_def Let_def split: if_splits)
  have q: "0 < n \<and> n \<le> Suc (length cs)"
    if "map_sum id (\<lambda>n. (n, TT_QUOTEDSTRING)) (quoted_end cs 1) = Inr (n, ty)"
    using that by (cases "quoted_end cs 1") (auto dest: quoted_end_bound)
  have "cs \<noteq> [] \<Longrightarrow> 2 \<le> Suc (length cs)" by (cases cs) auto
  with 2 r q show ?case
    by (simp split: if_split_asm list.split_asm)
qed simp

definition scanner_ok :: "scanner \<Rightarrow> bool" where
  "scanner_ok sc \<longleftrightarrow> cursor sc \<le> length (stext sc)"

lemma get_token_progress:
  assumes "scanner_get_token sc = Inr (t, ty, sc')"
  shows "stext sc' = stext sc" "entire_msg_loaded sc' = entire_msg_loaded sc"
    "cursor sc < cursor sc'" "cursor sc' \<le> length (stext sc)"
    "mstart t = cursor sc" "msize t = cursor sc' - cursor sc" "sc' = sc\<lparr>cursor := cursor sc'\<rparr>"
proof -
  from assms obtain n where n: "token_at (entire_msg_loaded sc) (drop (cursor sc) (stext sc)) = Inr (n, ty)"
    "t = \<lparr>mstart = cursor sc, msize = n\<rparr>" "sc' = sc\<lparr>cursor := cursor sc + n\<rparr>"
    by (auto simp: scanner_get_token_def map_sum_def split: sum.splits)
  have b: "0 < n" "n \<le> length (stext sc) - cursor sc" using token_at_bound [OF n(1)] by auto
  show "stext sc' = stext sc" "entire_msg_loaded sc' = entire_msg_loaded sc"
    "cursor sc < cursor sc'" "cursor sc' \<le> length (stext sc)"
    "mstart t = cursor sc" "msize t = cursor sc' - cursor sc" "sc' = sc\<lparr>cursor := cursor sc'\<rparr>"
    using n(2,3) b by auto
qed

definition token_left :: "scanner \<Rightarrow> nat" where
  "token_left sc = length (stext sc) - cursor sc"

lemma token_left_less:
  assumes "scanner_get_token sc = Inr (t, ty, sc')"
  shows "token_left sc' < token_left sc"
  using get_token_progress [OF assms] by (simp add: token_left_def)

subsection \<open>Matching\<close>

definition pushback :: "memptr \<Rightarrow> scanner \<Rightarrow> scanner" where
  "pushback t sc = sc\<lparr>cursor := cursor sc - msize t\<rparr>"

function skip_blank_lines :: "scanner \<Rightarrow> parse_status \<times> scanner" where
  "skip_blank_lines sc =
     (case scanner_get_token sc of
        Inl status \<Rightarrow> (status, sc)
      | Inr (t, ty, sc') \<Rightarrow>
          if ty = TT_WHITESPACE \<or> ty = TT_CRLF then skip_blank_lines sc'
          else (PARSE_OK, pushback t sc'))"
  by pat_completeness auto
termination
  by (relation "measure token_left") (auto intro: token_left_less)

declare skip_blank_lines.simps [simp del]

text \<open>The token behind an optional line end, as \<open>skip_lws\<close> looks for it.\<close>

definition after_crlf :: "scanner \<Rightarrow> parse_status + (token_type \<times> scanner)" where
  "after_crlf sc =
     (case scanner_get_token sc of
        Inl status \<Rightarrow> Inl status
      | Inr (_, ty, sc1) \<Rightarrow>
          if ty = TT_CRLF
          then map_sum id (\<lambda>(_, ty2, sc2). (ty2, sc2)) (scanner_get_token sc1)
          else Inr (ty, sc1))"

lemma after_crlf_progress:
  assumes "after_crlf sc = Inr (ty, sc')"
  shows "stext sc' = stext sc" "entire_msg_loaded sc' = entire_msg_loaded sc"
    "cursor sc < cursor sc'" "cursor sc' \<le> length (stext sc)"
proof -
  from assms obtain t1 ty1 sc1 where 1: "scanner_get_token sc = Inr (t1, ty1, sc1)"
    "(if ty1 = TT_CRLF then map_sum id (\<lambda>(_, ty2, sc2). (ty2, sc2)) (scanner_get_token sc1)
      else Inr (ty1, sc1)) = Inr (ty, sc')"
    by (auto simp: after_crlf_def split: sum.split_asm)
  note p = get_token_progress [OF 1(1)]
  have "stext sc' = stext sc \<and> entire_msg_loaded sc' = entire_msg_loaded sc \<and>
    cursor sc < cursor sc' \<and> cursor sc' \<le> length (stext sc)"
  proof (cases "ty1 = TT_CRLF")
    case False
    with 1(2) p show ?thesis by simp
  next
    case True
    with 1(2) obtain t2 where 2: "scanner_get_token sc1 = Inr (t2, ty, sc')"
      by (cases "scanner_get_token sc1") auto
    from get_token_progress [OF 2] p show ?thesis by simp
  qed
  then show "stext sc' = stext sc" "entire_msg_loaded sc' = entire_msg_loaded sc"
    "cursor sc < cursor sc'" "cursor sc' \<le> length (stext sc)" by simp_all
qed

function skip_lws :: "scanner \<Rightarrow> parse_status \<times> scanner" where
  "skip_lws sc =
     (case after_crlf sc of
        Inl status \<Rightarrow>
          (if status = PARSE_INCOMPLETE \<and> entire_msg_loaded sc then PARSE_OK else status, sc)
      | Inr (ty, sc') \<Rightarrow> if ty = TT_WHITESPACE then skip_lws sc' else (PARSE_OK, sc))"
  by pat_completeness auto
termination
proof (relation "measure token_left")
  fix sc x ty sc'
  assume "after_crlf sc = Inr x" "(ty, sc') = x" "ty = TT_WHITESPACE"
  with after_crlf_progress [of sc ty sc'] show "(sc', sc) \<in> measure token_left"
    by (simp add: token_left_def)
qed simp

declare skip_lws.simps [simp del]

function non_ws_loop :: "scanner \<Rightarrow> nat \<Rightarrow> parse_status \<times> nat \<times> scanner" where
  "non_ws_loop sc len =
     (case scanner_get_token sc of
        Inl status \<Rightarrow> (status, len, sc)
      | Inr (t, ty, sc') \<Rightarrow>
          if ty \<noteq> TT_WHITESPACE \<and> ty \<noteq> TT_CRLF then non_ws_loop sc' (len + msize t)
          else (PARSE_OK, len, pushback t sc'))"
  by pat_completeness auto
termination
  by (relation "measure (\<lambda>(sc, len). token_left sc)") (auto intro: token_left_less)

declare non_ws_loop.simps [simp del]

definition match_non_ws_string :: "scanner \<Rightarrow> parse_status \<times> memptr \<times> scanner" where
  "match_non_ws_string sc =
     (case non_ws_loop sc 0 of
        (status, len, sc') \<Rightarrow>
          let str = \<lparr>mstart = cursor sc, msize = len\<rparr>
          in if status = PARSE_OK \<or> (status = PARSE_INCOMPLETE \<and> entire_msg_loaded sc)
             then (if len = 0 then PARSE_NO_MATCH else PARSE_OK, str, sc')
             else (status, str, sc))"

function raw_loop :: "scanner \<Rightarrow> nat \<Rightarrow> nat option \<Rightarrow> parse_status \<times> nat \<times> scanner" where
  "raw_loop sc len crlf =
     (case scanner_get_token sc of
        Inl status \<Rightarrow> (status, len, sc)
      | Inr (t, ty, sc') \<Rightarrow>
          (case crlf of
             None \<Rightarrow>
               raw_loop sc' (len + msize t)
                 (if ty = TT_CRLF then Some (cursor sc' - msize t) else None)
           | Some pos_at_crlf \<Rightarrow>
               if ty = TT_WHITESPACE then raw_loop sc' (len + msize t) None
               else (PARSE_OK, len, sc'\<lparr>cursor := pos_at_crlf\<rparr>)))"
  by pat_completeness auto
termination
  by (relation "measure (\<lambda>(sc, len, crlf). token_left sc)") (auto intro: token_left_less)

declare raw_loop.simps [simp del]

definition is_trimmed :: "char \<Rightarrow> bool" where
  "is_trimmed c \<longleftrightarrow> is_blank c \<or> c = TOKCHAR_CR \<or> c = TOKCHAR_LF"

text \<open>\<open>pos_at_crlf\<close> with \<open>saw_crlf\<close> is an option; the \<open>while\<close> at the end trims the value.\<close>

definition match_raw_value :: "scanner \<Rightarrow> parse_status \<times> memptr \<times> scanner" where
  "match_raw_value sc =
     (case raw_loop sc 0 None of
        (status, len, sc') \<Rightarrow>
          if status = PARSE_OK
          then (status,
                \<lparr>mstart = cursor sc,
                 msize = length (dropWhile is_trimmed (rev (take len (drop (cursor sc) (stext sc)))))\<rparr>,
                sc')
          else (status, \<lparr>mstart = cursor sc, msize = len\<rparr>, sc))"

text \<open>
  \<open>strtol\<close> on a string: the value, the number of characters read and whether the value was out of
  range. A \<open>long\<close> has 64 bits.
\<close>

definition is_base_digit :: "nat \<Rightarrow> char \<Rightarrow> bool" where
  "is_base_digit base c \<longleftrightarrow> (if base = 16 then isxdigit c else isdigit c)"

definition hex_prefix :: "char list \<Rightarrow> bool" where
  "hex_prefix s \<longleftrightarrow>
     (case s of
        a # b # c # _ \<Rightarrow> a = CHR ''0'' \<and> (b = CHR ''x'' \<or> b = CHR ''X'') \<and> isxdigit c
      | _ \<Rightarrow> False)"

definition sign_length :: "char list \<Rightarrow> nat" where
  "sign_length s = (if s \<noteq> [] \<and> hd s \<in> {CHR ''-'', CHR ''+''} then 1 else 0)"

definition strtol :: "nat \<Rightarrow> char list \<Rightarrow> int \<times> nat \<times> bool" where
  "strtol base s =
     (let s1 = dropWhile isspace s;
          neg = (s1 \<noteq> [] \<and> hd s1 = CHR ''-'');
          s2 = drop (sign_length s1) s1;
          pre = (if base = 16 \<and> hex_prefix s2 then 2 else 0);
          ds = takeWhile (is_base_digit base) (drop pre s2);
          n = length s - length s1 + sign_length s1 + pre + length ds;
          v = int (digits_val base ds)
      in if ds = [] then (0, 0, False)
         else if neg then (max LONG_MIN (- v), n, - v < LONG_MIN)
         else (min LONG_MAX v, n, v > LONG_MAX))"

text \<open>\<open>(int)num\<close>.\<close>

definition int_of_long :: "int \<Rightarrow> int" where
  "int_of_long n = (n + 2 ^ 31) mod 2 ^ 32 - 2 ^ 31"

text \<open>What \<open>match_int\<close> and \<open>raw_to_int\<close> accept: a number that is the whole string and in range.\<close>

definition whole_number :: "nat \<Rightarrow> char list \<Rightarrow> nat \<Rightarrow> int option" where
  "whole_number base s len =
     (case strtol base s of
        (num, n, erange) \<Rightarrow>
          if num < 0 \<or> n \<noteq> len \<or> ((num = LONG_MIN \<or> num = LONG_MAX) \<and> erange) then None
          else Some num)"

definition match_int :: "nat \<Rightarrow> scanner \<Rightarrow> parse_status \<times> int \<times> scanner" where
  "match_int base sc =
     (case scanner_get_token sc of
        Inl status \<Rightarrow> (status, 0, sc)
      | Inr (t, ty, sc') \<Rightarrow>
          if ty = TT_IDENTIFIER
          then (case whole_number base (drop (mstart t) (stext sc)) (msize t) of
                  None \<Rightarrow> (PARSE_NO_MATCH, 0, sc)
                | Some num \<Rightarrow> (PARSE_OK, int_of_long num, sc'))
          else (PARSE_NO_MATCH, 0, sc))"

function until_crlf_loop :: "scanner \<Rightarrow> parse_status \<times> scanner" where
  "until_crlf_loop sc =
     (case scanner_get_token sc of
        Inl status \<Rightarrow> (status, sc)
      | Inr (t, ty, sc') \<Rightarrow>
          if ty \<noteq> TT_CRLF then until_crlf_loop sc' else (PARSE_OK, pushback t sc'))"
  by pat_completeness auto
termination
  by (relation "measure token_left") (auto intro: token_left_less)

declare until_crlf_loop.simps [simp del]

definition read_until_crlf :: "scanner \<Rightarrow> parse_status \<times> memptr \<times> scanner" where
  "read_until_crlf sc =
     (case until_crlf_loop sc of
        (status, sc') \<Rightarrow> (status, \<lparr>mstart = cursor sc, msize = cursor sc' - cursor sc\<rparr>, sc'))"

definition match_char :: "char \<Rightarrow> bool \<Rightarrow> scanner \<Rightarrow> parse_status \<times> scanner" where
  "match_char c case_sensitive sc =
     (if cursor sc \<ge> length (stext sc) then (PARSE_INCOMPLETE, sc)
      else
        let scan_char = stext sc ! cursor sc;
            same = (if case_sensitive then c = scan_char else tolower c = tolower scan_char)
        in (if same then PARSE_OK else PARSE_NO_MATCH, sc\<lparr>cursor := cursor sc + 1\<rparr>))"

end
