(* ===== verification/HttpMatch.thy ===== *)
theory HttpMatch
  imports HttpScanner
begin

text \<open>
  The format interpreter \<open>vfmatch\<close> of \<open>httpparser.c\<close>: each directive of a format matches a token,
  a value or a number at the cursor, and a match that fails puts the cursor back.
\<close>

subsection \<open>The interpreter\<close>

text \<open>
  What the variable arguments receive, in their order. They are read by the callers only after
  \<open>PARSE_OK\<close>.
\<close>

datatype match_out = Out_str memptr | Out_int int | Out_uri uri_type

definition expect_token :: "token_type \<Rightarrow> scanner \<Rightarrow> parse_status \<times> match_out list \<times> scanner" where
  "expect_token wanted sc =
     (case scanner_get_token sc of
        Inl status \<Rightarrow> (status, [], sc)
      | Inr (t, ty, sc') \<Rightarrow> (if ty = wanted then PARSE_OK else PARSE_NO_MATCH, [Out_str t], sc'))"

definition optional_ws :: "scanner \<Rightarrow> parse_status \<times> scanner" where
  "optional_ws sc =
     (case scanner_get_token sc of
        Inl status \<Rightarrow> (status, sc)
      | Inr (t, ty, sc') \<Rightarrow> (PARSE_OK, if ty \<noteq> TT_WHITESPACE then pushback t sc' else sc'))"

definition out_str :: "parse_status \<times> memptr \<times> scanner \<Rightarrow> parse_status \<times> match_out list \<times> scanner" where
  "out_str r = (case r of (status, t, sc) \<Rightarrow> (status, [Out_str t], sc))"

definition no_out :: "parse_status \<times> scanner \<Rightarrow> parse_status \<times> match_out list \<times> scanner" where
  "no_out r = (case r of (status, sc) \<Rightarrow> (status, [], sc))"

definition match_uri ::
  "resolver \<Rightarrow> uri_type \<Rightarrow> scanner \<Rightarrow> (parse_status \<times> match_out list \<times> scanner) option" where
  "match_uri rs u0 sc =
     (case match_non_ws_string sc of
        (status, str, sc') \<Rightarrow>
          if status \<noteq> PARSE_OK then Some (status, [], sc')
          else do {
            (stat, u) \<leftarrow> parse_uri rs (drop (mstart str) (stext sc) @ [CHR 0x00]) (msize str) u0;
            Some (if stat = HTTP_SUCCESS then PARSE_OK else PARSE_NO_MATCH, [Out_uri u], sc')
          })"

text \<open>The character behind a \<open>%\<close>; an unknown one is only rejected by an \<open>assert\<close>, which is off.\<close>

definition vf_percent ::
  "resolver \<Rightarrow> char \<Rightarrow> bool \<Rightarrow> scanner \<Rightarrow> (bool \<times> parse_status \<times> match_out list \<times> scanner) option" where
  "vf_percent rs c case_sensitive sc =
     (if c = CHR ''R'' then Some (case_sensitive, out_str (match_raw_value sc))
      else if c = CHR ''s'' then Some (case_sensitive, expect_token TT_IDENTIFIER sc)
      else if c = CHR ''c''
      then Some (case_sensitive,
                 case expect_token TT_CRLF sc of (status, _, sc') \<Rightarrow> (status, [], sc'))
      else if c = CHR ''d'' \<or> c = CHR ''x''
      then Some (case_sensitive,
                 case match_int (if c = CHR ''d'' then 10 else 16) sc of
                   (status, i, sc') \<Rightarrow> (status, [Out_int i], sc'))
      else if c = CHR ''S'' then Some (case_sensitive, out_str (match_non_ws_string sc))
      else if c = CHR ''U'' then map_option (\<lambda>r. (case_sensitive, r)) (match_uri rs blank_uri sc)
      else if c = CHR ''L'' then Some (case_sensitive, out_str (read_until_crlf sc))
      else if c = CHR '' '' \<or> c = CHR ''%''
      then Some (case_sensitive, no_out (match_char c case_sensitive sc))
      else if c = CHR ''n'' then Some (True, PARSE_OK, [], sc)
      else if c = CHR ''i'' then Some (False, PARSE_OK, [], sc)
      else if c = CHR ''q'' then Some (case_sensitive, expect_token TT_QUOTEDSTRING sc)
      else if c = CHR ''w'' then Some (case_sensitive, no_out (optional_ws sc))
      else if c = CHR ''P'' then Some (case_sensitive, PARSE_OK, [Out_int (int_of_long (int (cursor sc)))], sc)
      else if c = CHR ''0''
      then Some (case_sensitive,
                 if cursor sc = length (stext sc) then PARSE_OK else PARSE_NO_MATCH, [], sc)
      else Some (case_sensitive, PARSE_OK, [], sc))"

definition vf_literal :: "char \<Rightarrow> bool \<Rightarrow> scanner \<Rightarrow> parse_status \<times> scanner" where
  "vf_literal c case_sensitive sc =
     (if c = CHR '' '' then skip_lws sc
      else if c = TAB
      then (case expect_token TT_WHITESPACE sc of (status, _, sc') \<Rightarrow> (status, sc'))
      else match_char c case_sensitive sc)"

text \<open>A \<open>%\<close> at the end of the format makes the code read behind it.\<close>

fun vf_loop ::
  "resolver \<Rightarrow> string \<Rightarrow> bool \<Rightarrow> scanner \<Rightarrow> match_out list \<Rightarrow>
   (parse_status \<times> match_out list \<times> scanner) option" where
  "vf_loop rs [] cs sc outs = Some (PARSE_OK, outs, sc)"
| "vf_loop rs (c # fmt) cs sc outs =
     (if c = CHR ''%''
      then (case fmt of
              [] \<Rightarrow> None
            | d # fmt' \<Rightarrow>
                (case vf_percent rs d cs sc of
                   None \<Rightarrow> None
                 | Some (cs', status, os, sc') \<Rightarrow>
                     if status = PARSE_OK then vf_loop rs fmt' cs' sc' (outs @ os)
                     else Some (status, outs, sc')))
      else (case vf_literal c cs sc of
              (status, sc') \<Rightarrow>
                if status = PARSE_OK then vf_loop rs fmt cs sc' outs
                else Some (status, outs, sc')))"

definition vfmatch ::
  "resolver \<Rightarrow> scanner \<Rightarrow> string \<Rightarrow> (parse_status \<times> match_out list \<times> scanner) option" where
  "vfmatch rs sc fmt =
     map_option
       (\<lambda>(status, outs, sc'). (status, outs, if status \<noteq> PARSE_OK then sc'\<lparr>cursor := cursor sc\<rparr> else sc'))
       (vf_loop rs fmt True sc [])"

text \<open>
  \<open>matchstr\<close> works on a string with its NUL (it writes the NUL and restores what was there);
  \<open>str\<close> is the string without it.
\<close>

definition matchstr :: "resolver \<Rightarrow> char list \<Rightarrow> string \<Rightarrow> (parse_status \<times> match_out list) option" where
  "matchstr rs str fmt =
     map_option (\<lambda>(status, outs, _). (status, outs))
       (vfmatch rs \<lparr>stext = str, cursor = 0, entire_msg_loaded = True\<rparr> fmt)"

subsection \<open>Moving forward\<close>

definition advances :: "scanner \<Rightarrow> scanner \<Rightarrow> bool" where
  "advances sc sc' \<longleftrightarrow>
     stext sc' = stext sc \<and> entire_msg_loaded sc' = entire_msg_loaded sc \<and>
     cursor sc \<le> cursor sc' \<and> cursor sc' \<le> length (stext sc)"

lemma advances_refl [simp]: "advances sc sc \<longleftrightarrow> scanner_ok sc"
  by (auto simp: advances_def scanner_ok_def)

lemma advances_trans: "advances a b \<Longrightarrow> advances b c \<Longrightarrow> advances a c"
  by (auto simp: advances_def)

lemma advances_ok: "advances a b \<Longrightarrow> scanner_ok b"
  by (auto simp: advances_def scanner_ok_def)

lemma get_token_advances: "scanner_get_token sc = Inr (t, ty, sc') \<Longrightarrow> advances sc sc'"
  using get_token_progress [of sc t ty sc'] by (simp add: advances_def)

lemma pushback_token: "scanner_get_token sc = Inr (t, ty, sc') \<Longrightarrow> pushback t sc' = sc"
  using get_token_progress [of sc t ty sc'] by (cases sc, cases sc') (simp add: pushback_def)

text \<open>Every loop of the scanner goes on behind a token it has read.\<close>

lemma scan_induct [case_names step]:
  assumes "\<And>sc. (\<And>sc'. advances sc sc' \<Longrightarrow> cursor sc < cursor sc' \<Longrightarrow> P sc') \<Longrightarrow> P sc"
  shows "P sc"
proof (induction sc rule: measure_induct_rule [where f = token_left])
  case (less sc)
  have "token_left sc' < token_left sc" if "advances sc sc'" "cursor sc < cursor sc'" for sc'
  proof -
    have e1: "stext sc' = stext sc" using that(1) unfolding advances_def by blast
    have e2: "cursor sc < length (stext sc)" using that unfolding advances_def by linarith
    show ?thesis
      unfolding token_left_def e1 by (rule diff_less_mono2 [OF that(2) e2])
  qed
  with less show ?case by (blast intro: assms [of sc])
qed

lemma token_cases [case_names none token]:
  assumes "\<And>st. scanner_get_token sc = Inl st \<Longrightarrow> P"
    and "\<And>t ty sc'. scanner_get_token sc = Inr (t, ty, sc') \<Longrightarrow> advances sc sc' \<Longrightarrow>
           cursor sc < cursor sc' \<Longrightarrow> scanner_ok sc' \<Longrightarrow> mstart t = cursor sc \<Longrightarrow>
           msize t = cursor sc' - cursor sc \<Longrightarrow> pushback t sc' = sc \<Longrightarrow> P"
  shows P
proof (cases "scanner_get_token sc")
  case (Inl st)
  then show ?thesis by (rule assms(1))
next
  case (Inr x)
  obtain t ty sc' where x: "x = (t, ty, sc')" by (cases x)
  note g = Inr [unfolded x]
  show ?thesis
    by (rule assms(2) [OF g get_token_advances [OF g] get_token_progress(3) [OF g]
          advances_ok [OF get_token_advances [OF g]] get_token_progress(5,6) [OF g]
          pushback_token [OF g]])
qed

lemma skip_blank_lines_advances:
  "scanner_ok sc \<Longrightarrow> skip_blank_lines sc = (st, sc') \<Longrightarrow> advances sc sc'"
proof (induction sc arbitrary: sc' rule: scan_induct)
  case (step sc)
  show ?case
    by (rule token_cases [of sc])
      (use step in \<open>auto simp: skip_blank_lines.simps [of sc] split: if_splits intro: advances_trans\<close>)
qed

lemma skip_lws_advances: "scanner_ok sc \<Longrightarrow> skip_lws sc = (st, sc') \<Longrightarrow> advances sc sc'"
proof (induction sc arbitrary: sc' rule: scan_induct)
  case (step sc)
  show ?case
  proof (cases "after_crlf sc")
    case (Inl s)
    with step.prems show ?thesis by (simp add: skip_lws.simps [of sc])
  next
    case (Inr x)
    obtain ty sc1 where x: "x = (ty, sc1)" by (cases x)
    have a: "advances sc sc1" "cursor sc < cursor sc1"
      using after_crlf_progress [OF Inr [unfolded x]] by (simp_all add: advances_def)
    from step.IH [OF a advances_ok [OF a(1)]] step.prems Inr x a(1) show ?thesis
      by (auto simp: skip_lws.simps [of sc] split: if_splits intro: advances_trans)
  qed
qed

lemma non_ws_loop_advances:
  "scanner_ok sc \<Longrightarrow> non_ws_loop sc len = (st, len', sc') \<Longrightarrow>
     advances sc sc' \<and> cursor sc + len' = cursor sc' + len"
proof (induction sc arbitrary: len sc' rule: scan_induct)
  case (step sc)
  show ?case
  proof (rule token_cases [of sc])
    fix s assume "scanner_get_token sc = Inl s"
    with step.prems show ?thesis by (simp add: non_ws_loop.simps [of sc])
  next
    fix t ty sc1
    assume g: "scanner_get_token sc = Inr (t, ty, sc1)" "advances sc sc1" "cursor sc < cursor sc1"
      "scanner_ok sc1" "msize t = cursor sc1 - cursor sc" "pushback t sc1 = sc"
    from step.IH [OF g(2,3,4), of "len + msize t" sc'] step.prems g show ?thesis
      by (auto simp: non_ws_loop.simps [of sc] split: if_splits intro: advances_trans)
  qed
qed

lemma until_crlf_advances:
  "scanner_ok sc \<Longrightarrow> until_crlf_loop sc = (st, sc') \<Longrightarrow> advances sc sc'"
proof (induction sc arbitrary: sc' rule: scan_induct)
  case (step sc)
  show ?case
    by (rule token_cases [of sc])
      (use step in \<open>auto simp: until_crlf_loop.simps [of sc] split: if_splits intro: advances_trans\<close>)
qed

text \<open>The saved position of a line end stays behind the cursor.\<close>

lemma raw_loop_advances:
  "scanner_ok sc \<Longrightarrow> raw_loop sc len crlf = (st, len', sc') \<Longrightarrow>
     (\<And>q. crlf = Some q \<Longrightarrow> p \<le> q \<and> q \<le> cursor sc) \<Longrightarrow> p \<le> cursor sc \<Longrightarrow>
     stext sc' = stext sc \<and> entire_msg_loaded sc' = entire_msg_loaded sc \<and>
     p \<le> cursor sc' \<and> cursor sc' \<le> length (stext sc) \<and> cursor sc + len' \<le> length (stext sc) + len"
proof (induction sc arbitrary: len crlf sc' rule: scan_induct)
  case (step sc)
  show ?case
  proof (rule token_cases [of sc])
    fix s assume "scanner_get_token sc = Inl s"
    with step.prems show ?thesis by (auto simp: raw_loop.simps [of sc] scanner_ok_def)
  next
    fix t ty sc1
    assume g: "scanner_get_token sc = Inr (t, ty, sc1)" "advances sc sc1" "cursor sc < cursor sc1"
      "scanner_ok sc1" "msize t = cursor sc1 - cursor sc" "pushback t sc1 = sc"
    show ?thesis
    proof (cases crlf)
      case None
      from step.IH [OF g(2,3,4), of "len + msize t" "if ty = TT_CRLF then Some (cursor sc1 - msize t) else None" sc']
        step.prems(2,4) g None show ?thesis
        by (auto simp: raw_loop.simps [of sc] advances_def split: if_splits)
    next
      case (Some q)
      show ?thesis
      proof (cases "ty = TT_WHITESPACE")
        case True
        with step.IH [OF g(2,3,4), of "len + msize t" None sc'] step.prems(2,4) g Some show ?thesis
          by (auto simp: raw_loop.simps [of sc] advances_def)
      next
        case False
        with step.prems g Some show ?thesis
          by (auto simp: raw_loop.simps [of sc] advances_def scanner_ok_def)
      qed
    qed
  qed
qed

text \<open>Where an output of a match lies.\<close>

fun out_inside :: "char list \<Rightarrow> match_out \<Rightarrow> bool" where
  "out_inside t (Out_str m) = (mstart m + msize m \<le> length t)"
| "out_inside t _ = True"

definition match_ok :: "scanner \<Rightarrow> parse_status \<times> match_out list \<times> scanner \<Rightarrow> bool" where
  "match_ok sc r = (case r of (st, outs, sc') \<Rightarrow>
     advances sc sc' \<and> (st = PARSE_OK \<longrightarrow> (\<forall>o' \<in> set outs. out_inside (stext sc) o')))"

lemma match_non_ws_ok: "scanner_ok sc \<Longrightarrow> match_ok sc (out_str (match_non_ws_string sc))"
proof -
  assume ok: "scanner_ok sc"
  obtain st len sc' where e: "non_ws_loop sc 0 = (st, len, sc')" by (cases "non_ws_loop sc 0")
  from non_ws_loop_advances [OF ok e] have a: "advances sc sc'" "cursor sc + len \<le> length (stext sc)"
    by (auto simp: advances_def)
  with e ok show ?thesis
    by (auto simp: match_non_ws_string_def out_str_def match_ok_def Let_def)
qed

lemma match_raw_value_ok: "scanner_ok sc \<Longrightarrow> match_ok sc (out_str (match_raw_value sc))"
proof -
  assume ok: "scanner_ok sc"
  obtain st len sc' where e: "raw_loop sc 0 None = (st, len, sc')" by (cases "raw_loop sc 0 None")
  from raw_loop_advances [OF ok e, of "cursor sc"] have a: "advances sc sc'" "cursor sc + len \<le> length (stext sc)"
    by (auto simp: advances_def)
  have "length (dropWhile is_trimmed (rev (take len (drop (cursor sc) (stext sc))))) \<le> len"
    using length_dropWhile_le [of is_trimmed "rev (take len (drop (cursor sc) (stext sc)))"] by simp
  with e a ok show ?thesis by (auto simp: match_raw_value_def out_str_def match_ok_def)
qed

lemma read_until_crlf_ok: "scanner_ok sc \<Longrightarrow> match_ok sc (out_str (read_until_crlf sc))"
proof -
  assume ok: "scanner_ok sc"
  obtain st sc' where e: "until_crlf_loop sc = (st, sc')" by (cases "until_crlf_loop sc")
  from until_crlf_advances [OF ok e] e show ?thesis
    by (simp add: read_until_crlf_def out_str_def match_ok_def advances_def)
qed

lemma expect_token_ok: "scanner_ok sc \<Longrightarrow> match_ok sc (expect_token ty sc)"
  by (rule token_cases [of sc]) (auto simp: expect_token_def match_ok_def advances_def scanner_ok_def)

lemma match_int_advances: "scanner_ok sc \<Longrightarrow> match_int base sc = (st, i, sc') \<Longrightarrow> advances sc sc'"
  by (rule token_cases [of sc]) (auto simp: match_int_def split: if_splits option.splits)

lemma match_char_advances: "scanner_ok sc \<Longrightarrow> match_char c cs sc = (st, sc') \<Longrightarrow> advances sc sc'"
  by (auto simp: match_char_def Let_def advances_def scanner_ok_def split: if_splits)

lemma optional_ws_advances: "scanner_ok sc \<Longrightarrow> optional_ws sc = (st, sc') \<Longrightarrow> advances sc sc'"
  by (rule token_cases [of sc]) (auto simp: optional_ws_def split: if_splits)

lemma no_out_ok: "(\<And>st sc'. f sc = (st, sc') \<Longrightarrow> advances sc sc') \<Longrightarrow> match_ok sc (no_out (f sc))"
  by (auto simp: no_out_def match_ok_def split: prod.splits)

lemma match_uri_ok: "scanner_ok sc \<Longrightarrow> match_uri rs u0 sc = Some r \<Longrightarrow> match_ok sc r"
  using match_non_ws_ok [of sc]
  by (auto simp: match_uri_def out_str_def match_ok_def split: prod.splits if_splits bind_splits)

lemma vf_percent_ok:
  assumes "scanner_ok sc" and "vf_percent rs c cs sc = Some (cs', r)"
  shows "match_ok sc r"
proof -
  have cr: "match_ok sc (case expect_token TT_CRLF sc of (status, _, sc') \<Rightarrow> (status, [], sc'))"
    using expect_token_ok [OF assms(1), of TT_CRLF] by (auto simp: match_ok_def split: prod.splits)
  have int: "match_ok sc (case match_int b sc of (status, i, sc') \<Rightarrow> (status, [Out_int i], sc'))" for b
    using match_int_advances [OF assms(1)] by (auto simp: match_ok_def split: prod.splits)
  have ch: "match_ok sc (no_out (match_char c cs sc))"
    by (rule no_out_ok) (rule match_char_advances [OF assms(1)])
  have ws: "match_ok sc (no_out (optional_ws sc))"
    by (rule no_out_ok) (rule optional_ws_advances [OF assms(1)])
  have nil: "match_ok sc (PARSE_OK, [], sc)" "match_ok sc (st, [Out_int i], sc)" "match_ok sc (st, [], sc)" for st i
    using assms(1) by (auto simp: match_ok_def)
  define good where "good x \<longleftrightarrow> (\<forall>cs' r. x = Some (cs' :: bool, r) \<longrightarrow> match_ok sc r)" for x
  have if_: "(P \<Longrightarrow> good x) \<Longrightarrow> (\<not> P \<Longrightarrow> good y) \<Longrightarrow> good (if P then x else y)" for P x y by simp
  have some: "match_ok sc r \<Longrightarrow> good (Some (cs', r))" for cs' r
    by (cases r) (auto simp: good_def)
  have uri: "good (map_option (\<lambda>r. (cs', r)) (match_uri rs blank_uri sc))" for cs'
    using match_uri_ok [OF assms(1)] by (auto simp: good_def)
  have "good (vf_percent rs c cs sc)"
    unfolding vf_percent_def
    by (intro if_ some uri match_raw_value_ok [OF assms(1)] expect_token_ok [OF assms(1)] cr int
        match_non_ws_ok [OF assms(1)] read_until_crlf_ok [OF assms(1)] ch ws nil)
  with assms(2) show ?thesis by (cases r) (auto simp: good_def)
qed

lemma vf_literal_advances: "scanner_ok sc \<Longrightarrow> vf_literal c cs sc = (st, sc') \<Longrightarrow> advances sc sc'"
  using expect_token_ok [of sc TT_WHITESPACE]
  by (auto simp: vf_literal_def match_ok_def intro: skip_lws_advances match_char_advances
      split: if_splits prod.splits)

lemma vf_loop_ok:
  "scanner_ok sc \<Longrightarrow> (\<forall>o' \<in> set outs. out_inside (stext sc) o') \<Longrightarrow>
     vf_loop rs fmt cs sc outs = Some r \<Longrightarrow> match_ok sc r"
proof (induction rs fmt cs sc outs rule: vf_loop.induct)
  case (1 rs cs sc outs)
  then show ?case by (auto simp: match_ok_def)
next
  case (2 rs c fmt cs sc outs)
  show ?case
  proof (cases "c = CHR ''%''")
    case True
    with "2.prems" obtain d fmt' where f: "fmt = d # fmt'" by (cases fmt) auto
    with True "2.prems" obtain cs' st os sc' where p: "vf_percent rs d cs sc = Some (cs', st, os, sc')"
      by (auto split: option.splits)
    note ok = vf_percent_ok [OF "2.prems"(1) p]
    have a: "advances sc sc'" using ok by (simp add: match_ok_def)
    show ?thesis
    proof (cases "st = PARSE_OK")
      case False
      with True f p "2.prems" a show ?thesis by (auto simp: match_ok_def)
    next
      case t: True
      have "\<forall>o' \<in> set (outs @ os). out_inside (stext sc') o'"
        using ok t "2.prems"(2) by (auto simp: match_ok_def advances_def)
      with "2.IH"(1) [OF True f p refl refl refl t advances_ok [OF a]] "2.prems"(3) True f p t
      have "match_ok sc' r" by simp
      with a show ?thesis by (auto simp: match_ok_def advances_def split: prod.splits)
    qed
  next
    case False
    obtain st sc' where p: "vf_literal c cs sc = (st, sc')" by (cases "vf_literal c cs sc")
    note a = vf_literal_advances [OF "2.prems"(1) p]
    show ?thesis
    proof (cases "st = PARSE_OK")
      case f: False
      with False p "2.prems" a show ?thesis by (auto simp: match_ok_def)
    next
      case t: True
      have "match_ok sc' r"
        using "2.IH"(2) [OF False p [symmetric] t advances_ok [OF a]] "2.prems"(2,3) False p t a
        by (simp add: advances_def)
      with a show ?thesis by (auto simp: match_ok_def advances_def split: prod.splits)
    qed
  qed
qed

lemma vfmatch_ok: "scanner_ok sc \<Longrightarrow> vfmatch rs sc fmt = Some r \<Longrightarrow> match_ok sc r"
proof -
  assume ok: "scanner_ok sc" and e: "vfmatch rs sc fmt = Some r"
  then obtain st outs sc' where l: "vf_loop rs fmt True sc [] = Some (st, outs, sc')"
    by (auto simp: vfmatch_def)
  have "match_ok sc (st, outs, sc')" by (rule vf_loop_ok [OF ok _ l]) simp
  with e l ok show ?thesis
    by (auto simp: vfmatch_def match_ok_def advances_def scanner_ok_def split: if_splits)
qed

end
