(* ===== verification/HttpStable.thy ===== *)
theory HttpStable
  imports HttpMatch
begin

text \<open>
  What makes the scanner fit for a parser that is fed piecewise: a decision other than
  \<open>PARSE_INCOMPLETE\<close> does not change when more data arrives behind the message, for every token,
  every operation of the scanner and every format of the parser.
\<close>

subsection \<open>More data\<close>

definition fed :: "char list \<Rightarrow> scanner \<Rightarrow> scanner" where
  "fed d sc = sc\<lparr>stext := stext sc @ d\<rparr>"

text \<open>A scanner of a message that is still being read.\<close>

definition streaming :: "scanner \<Rightarrow> bool" where
  "streaming sc \<longleftrightarrow> cursor sc \<le> length (stext sc) \<and> \<not> entire_msg_loaded sc"

lemma more_simps [simp]:
  "stext (fed d sc) = stext sc @ d" "cursor (fed d sc) = cursor sc"
  "entire_msg_loaded (fed d sc) = entire_msg_loaded sc"
  "fed d (sc\<lparr>cursor := k\<rparr>) = (fed d sc)\<lparr>cursor := k\<rparr>"
  "pushback t (fed d sc) = fed d (pushback t sc)"
  by (simp_all add: fed_def pushback_def)

lemma streaming_advances: "streaming sc \<Longrightarrow> advances sc sc' \<Longrightarrow> streaming sc'"
  by (simp add: streaming_def advances_def)

lemma streaming_ok: "streaming sc \<Longrightarrow> scanner_ok sc"
  by (simp add: streaming_def scanner_ok_def)

subsection \<open>Tokens\<close>

lemma quoted_end_more:
  "quoted_end cs k \<noteq> Inl PARSE_INCOMPLETE \<Longrightarrow> quoted_end (cs @ d) k = quoted_end cs k"
proof (induction cs k rule: quoted_end.induct [case_names nil char])
  case (char c cs k)
  then show ?case by (cases cs) (simp_all split: if_split_asm)
qed simp

lemma run_token_more:
  "run_token False P cs ty \<noteq> Inl PARSE_INCOMPLETE \<Longrightarrow>
     run_token False P (cs @ d) ty = run_token False P cs ty"
proof -
  assume a: "run_token False P cs ty \<noteq> Inl PARSE_INCOMPLETE"
  then have "length (takeWhile P cs) \<noteq> length cs" by (auto simp: run_token_def Let_def)
  then obtain x where x: "x \<in> set cs" "\<not> P x"
    by (metis takeWhile_eq_all_conv)
  then have "takeWhile P (cs @ d) = takeWhile P cs" by (rule takeWhile_append1)
  moreover have "length (takeWhile P cs) \<noteq> length (cs @ d)"
    using length_takeWhile_le [of P cs] \<open>length (takeWhile P cs) \<noteq> length cs\<close> by simp
  ultimately show ?thesis
    using \<open>length (takeWhile P cs) \<noteq> length cs\<close> by (simp add: run_token_def Let_def)
qed

lemma token_at_more:
  "token_at False cs \<noteq> Inl PARSE_INCOMPLETE \<Longrightarrow> token_at False (cs @ d) = token_at False cs"
proof (cases cs)
  case (Cons c ds)
  assume a: "token_at False cs \<noteq> Inl PARSE_INCOMPLETE"
  have q: "map_sum id (\<lambda>n. (n, TT_QUOTEDSTRING)) (quoted_end (ds @ d) 1) =
      map_sum id (\<lambda>n. (n, TT_QUOTEDSTRING)) (quoted_end ds 1)"
    if "map_sum id (\<lambda>n. (n, TT_QUOTEDSTRING)) (quoted_end ds 1) \<noteq> Inl PARSE_INCOMPLETE"
    using that by (subst quoted_end_more) auto
  show ?thesis
    using a Cons run_token_more [of is_identifier_char ds TT_IDENTIFIER d]
      run_token_more [of is_blank ds TT_WHITESPACE d] q
    by (cases ds) (auto split: if_splits)
qed simp

lemma get_token_more:
  assumes "streaming sc" and "scanner_get_token sc \<noteq> Inl PARSE_INCOMPLETE"
  shows "scanner_get_token (fed d sc) =
           map_sum id (\<lambda>(t, ty, sc'). (t, ty, fed d sc')) (scanner_get_token sc)"
proof -
  have "token_at False (drop (cursor sc) (stext sc)) \<noteq> Inl PARSE_INCOMPLETE"
    using assms by (auto simp: scanner_get_token_def streaming_def)
  from token_at_more [OF this, of d] assms(1) show ?thesis
    by (simp add: scanner_get_token_def streaming_def sum.map_comp comp_def)
      (cases "token_at False (drop (cursor sc) (stext sc))"; auto)
qed

text \<open>The three outcomes of reading a token, each with what more data makes of it.\<close>

lemma stream_token_cases [case_names incomplete failed token]:
  assumes "streaming sc"
    and "scanner_get_token sc = Inl PARSE_INCOMPLETE \<Longrightarrow> P"
    and "\<And>st. st \<noteq> PARSE_INCOMPLETE \<Longrightarrow> scanner_get_token sc = Inl st \<Longrightarrow>
           scanner_get_token (fed d sc) = Inl st \<Longrightarrow> P"
    and "\<And>t ty sc'. scanner_get_token sc = Inr (t, ty, sc') \<Longrightarrow>
           scanner_get_token (fed d sc) = Inr (t, ty, fed d sc') \<Longrightarrow>
           advances sc sc' \<Longrightarrow> cursor sc < cursor sc' \<Longrightarrow> streaming sc' \<Longrightarrow>
           mstart t = cursor sc \<Longrightarrow> msize t = cursor sc' - cursor sc \<Longrightarrow> pushback t sc' = sc \<Longrightarrow> P"
  shows P
proof (cases "scanner_get_token sc = Inl PARSE_INCOMPLETE")
  case True
  then show ?thesis by (rule assms(2))
next
  case False
  note m = get_token_more [OF assms(1) False, of d]
  show ?thesis
  proof (rule token_cases [of sc])
    fix st assume g: "scanner_get_token sc = Inl st"
    with False m show ?thesis by (intro assms(3) [of st]) auto
  next
    fix t ty sc'
    assume g: "scanner_get_token sc = Inr (t, ty, sc')" "advances sc sc'" "cursor sc < cursor sc'"
      "mstart t = cursor sc" "msize t = cursor sc' - cursor sc" "pushback t sc' = sc"
    show ?thesis
      by (rule assms(4) [OF g(1) _ g(2,3) streaming_advances [OF assms(1) g(2)] g(4-6)])
        (use m g in simp)
  qed
qed

subsection \<open>Operations\<close>

lemma skip_blank_lines_more:
  "streaming sc \<Longrightarrow> fst (skip_blank_lines sc) \<noteq> PARSE_INCOMPLETE \<Longrightarrow>
     skip_blank_lines (fed d sc) = map_prod id (fed d) (skip_blank_lines sc)"
proof (induction sc rule: scan_induct)
  case (step sc)
  note u = skip_blank_lines.simps [of sc] skip_blank_lines.simps [of "fed d sc"]
  show ?case
    by (rule stream_token_cases [OF step.prems(1), of _ d])
      (use step in \<open>auto simp: u split: option.split_asm option.split if_split_asm\<close>)
qed

lemma after_crlf_more:
  assumes "streaming sc" and "after_crlf sc \<noteq> Inl PARSE_INCOMPLETE"
  shows "after_crlf (fed d sc) = map_sum id (\<lambda>(ty, sc'). (ty, fed d sc')) (after_crlf sc)"
proof (rule stream_token_cases [OF assms(1), of _ d])
  fix t ty sc1
  assume g: "scanner_get_token sc = Inr (t, ty, sc1)"
    "scanner_get_token (fed d sc) = Inr (t, ty, fed d sc1)" "streaming sc1"
  show ?thesis
    by (rule stream_token_cases [OF g(3), of _ d]) (use g assms in \<open>auto simp: after_crlf_def\<close>)
qed (use assms in \<open>auto simp: after_crlf_def\<close>)

lemma skip_lws_more:
  "streaming sc \<Longrightarrow> fst (skip_lws sc) \<noteq> PARSE_INCOMPLETE \<Longrightarrow>
     skip_lws (fed d sc) = map_prod id (fed d) (skip_lws sc)"
proof (induction sc rule: scan_induct)
  case (step sc)
  note u = skip_lws.simps [of sc] skip_lws.simps [of "fed d sc"]
  have loaded: "\<not> entire_msg_loaded sc" using step.prems(1) by (simp add: streaming_def)
  have inc: "after_crlf sc \<noteq> Inl PARSE_INCOMPLETE"
    using step.prems(2) loaded by (auto simp: u)
  note m = after_crlf_more [OF step.prems(1) inc, of d]
  show ?case
  proof (cases "after_crlf sc")
    case (Inl s)
    with m loaded show ?thesis by (simp add: u)
  next
    case (Inr x)
    obtain ty sc1 where x: "x = (ty, sc1)" by (cases x)
    have a: "advances sc sc1" "cursor sc < cursor sc1"
      using after_crlf_progress [OF Inr [unfolded x]] by (simp_all add: advances_def)
    from step.IH [OF a streaming_advances [OF step.prems(1) a(1)]] step.prems(2) Inr x m
    show ?thesis by (simp add: u split: if_split_asm)
  qed
qed

lemma non_ws_loop_more:
  "streaming sc \<Longrightarrow> fst (non_ws_loop sc len) \<noteq> PARSE_INCOMPLETE \<Longrightarrow>
     non_ws_loop (fed d sc) len = map_prod id (map_prod id (fed d)) (non_ws_loop sc len)"
proof (induction sc arbitrary: len rule: scan_induct)
  case (step sc)
  note u = non_ws_loop.simps [of sc] non_ws_loop.simps [of "fed d sc"]
  show ?case
    by (rule stream_token_cases [OF step.prems(1), of _ d])
      (use step in \<open>auto simp: u split: option.split_asm option.split if_split_asm\<close>)
qed

lemma until_crlf_more:
  "streaming sc \<Longrightarrow> fst (until_crlf_loop sc) \<noteq> PARSE_INCOMPLETE \<Longrightarrow>
     until_crlf_loop (fed d sc) = map_prod id (fed d) (until_crlf_loop sc)"
proof (induction sc rule: scan_induct)
  case (step sc)
  note u = until_crlf_loop.simps [of sc] until_crlf_loop.simps [of "fed d sc"]
  show ?case
    by (rule stream_token_cases [OF step.prems(1), of _ d])
      (use step in \<open>auto simp: u split: option.split_asm option.split if_split_asm\<close>)
qed

lemma raw_loop_more:
  "streaming sc \<Longrightarrow> fst (raw_loop sc len crlf) \<noteq> PARSE_INCOMPLETE \<Longrightarrow>
     raw_loop (fed d sc) len crlf = map_prod id (map_prod id (fed d)) (raw_loop sc len crlf)"
proof (induction sc arbitrary: len crlf rule: scan_induct)
  case (step sc)
  note u = raw_loop.simps [of sc] raw_loop.simps [of "fed d sc"]
  show ?case
    by (rule stream_token_cases [OF step.prems(1), of _ d])
      (use step in \<open>auto simp: u split: option.split_asm option.split if_split_asm\<close>)
qed

subsection \<open>Numbers\<close>

text \<open>\<open>strtol\<close> does not look past the first character that can not be part of an identifier.\<close>

lemma isspace_not_id: "is_identifier_char c \<Longrightarrow> \<not> isspace c"
  by (auto simp: is_identifier_char_def isspace_def c_int_def code_def is_separator_char_def
      SEPARATORS_def strchr_def)

lemma base_digit_id: "is_base_digit base c \<Longrightarrow> is_identifier_char c"
proof -
  assume a: "is_base_digit base c"
  have "code c < 127 \<and> 33 \<le> code c \<and> isxdigit c \<and> c \<noteq> CHR 0x00"
    using a by (auto simp: is_base_digit_def isxdigit_def isdigit_def code_def split: if_splits)
  moreover have "c \<notin> set SEPARATORS" if "isxdigit c"
    using that by (auto simp: SEPARATORS_def TAB_def isxdigit_def isdigit_def code_def)
  ultimately show ?thesis
    by (auto simp: is_identifier_char_def c_int_def is_separator_char_def strchr_def)
qed

lemma hex_prefix_local:
  assumes "\<forall>c \<in> set w. is_identifier_char c" and "\<not> is_identifier_char e"
  shows "hex_prefix (w @ e # r) = hex_prefix w"
proof -
  have "is_identifier_char CHR ''x''" "is_identifier_char CHR ''X''" by code_simp+
  moreover have "\<not> isxdigit e" using base_digit_id [of 16 e] assms(2) by (auto simp: is_base_digit_def)
  moreover have "isxdigit CHR ''0''" by code_simp
  ultimately have e: "\<not> isxdigit e" "e \<noteq> CHR ''x''" "e \<noteq> CHR ''X''" "e \<noteq> CHR ''0''"
    using assms(2) by auto
  show ?thesis
  proof (cases w)
    case Nil
    with e show ?thesis by (auto simp: hex_prefix_def split: list.split)
  next
    case (Cons a v)
    with e show ?thesis
      by (cases v; cases "tl v") (auto simp: hex_prefix_def split: list.split)
  qed
qed

lemma hex_prefix_length: "hex_prefix s \<Longrightarrow> 2 \<le> length s"
  by (auto simp: hex_prefix_def split: list.splits)

lemma strtol_local:
  assumes "w \<noteq> []" and w: "\<forall>c \<in> set w. is_identifier_char c" and e: "\<not> is_identifier_char e"
  shows "strtol base (w @ e # r) = strtol base w"
proof -
  have sp: "dropWhile isspace (w @ x) = w @ x" for x
    using assms(1) w isspace_not_id [of "hd w"] by (cases w) auto
  have sl: "sign_length (w @ x) = sign_length w" "sign_length w \<le> length w" for x
    using assms(1) by (auto simp: sign_length_def Suc_le_eq)
  define s2 where "s2 = drop (sign_length w) w"
  have s2: "drop (sign_length w) (w @ x) = s2 @ x" for x using sl by (simp add: s2_def)
  have id2: "\<forall>c \<in> set s2. is_identifier_char c" using w by (auto simp: s2_def dest: in_set_dropD)
  define pre where "pre = (if base = 16 \<and> hex_prefix s2 then 2 else 0 :: nat)"
  have pre: "(if base = 16 \<and> hex_prefix (s2 @ e # r) then 2 else 0) = pre"
    by (simp add: pre_def hex_prefix_local [OF id2 e])
  have "pre \<le> length s2" using hex_prefix_length [of s2] by (auto simp: pre_def)
  moreover have "\<not> is_base_digit base e" using e base_digit_id [of base e] by blast
  ultimately have ds: "takeWhile (is_base_digit base) (drop pre (s2 @ e # r)) =
      takeWhile (is_base_digit base) (drop pre s2)"
    by (simp add: takeWhile_tail)
  have hd: "w @ x \<noteq> [] \<and> hd (w @ x) = CHR ''-'' \<longleftrightarrow> w \<noteq> [] \<and> hd w = CHR ''-''" for x
    using assms(1) by simp
  show ?thesis
    unfolding strtol_def Let_def sp sp [of "[]", simplified] sl(1) s2 s2 [of "[]", simplified] hd pre ds pre_def [symmetric]
    by simp
qed

lemma whole_number_local:
  assumes "w \<noteq> []" and "\<forall>c \<in> set w. is_identifier_char c" and "\<not> is_identifier_char e"
  shows "whole_number base (w @ e # r) n = whole_number base w n"
  by (simp add: whole_number_def strtol_local [OF assms])

text \<open>An identifier that is complete is followed by another character.\<close>

lemma complete_identifier:
  assumes "streaming sc" and "scanner_get_token sc = Inr (t, TT_IDENTIFIER, sc')"
  obtains w e r where "drop (cursor sc) (stext sc) = w @ e # r" "w \<noteq> []" "length w = msize t"
    "\<forall>c \<in> set w. is_identifier_char c" "\<not> is_identifier_char e"
proof -
  let ?s = "drop (cursor sc) (stext sc)"
  have l: "\<not> entire_msg_loaded sc" using assms(1) by (simp add: streaming_def)
  from assms(2) l obtain n where t: "token_at False ?s = Inr (n, TT_IDENTIFIER)" "msize t = n"
    by (auto simp: scanner_get_token_def map_sum_def split: sum.splits)
  then obtain c cs where s: "?s = c # cs" "is_identifier_char c"
    "run_token False is_identifier_char cs TT_IDENTIFIER = Inr (n, TT_IDENTIFIER)"
    by (cases ?s) (auto simp: run_token_def Let_def map_sum_def
        split: if_split_asm list.split_asm sum.split_asm)
  define w where "w = takeWhile is_identifier_char cs"
  have "length w \<noteq> length cs" "n = 1 + length w"
    using s(3) by (auto simp: run_token_def Let_def w_def split: if_splits)
  then obtain e r where d: "dropWhile is_identifier_char cs = e # r"
    by (cases "dropWhile is_identifier_char cs")
      (auto simp: w_def dropWhile_eq_Nil_conv takeWhile_eq_all_conv [THEN iffD2])
  then have e: "\<not> is_identifier_char e" by (metis dropWhile_eq_Cons_conv)
  have "?s = (c # w) @ e # r"
    using s(1) d takeWhile_dropWhile_id [of is_identifier_char cs] by (simp add: w_def)
  moreover have "\<forall>x \<in> set (c # w). is_identifier_char x"
    using s(2) by (auto simp: w_def dest: set_takeWhileD)
  ultimately show ?thesis
    using that [of "c # w" e r] e t(2) \<open>n = 1 + length w\<close> by simp
qed

subsection \<open>Matching\<close>

definition more_out :: "char list \<Rightarrow> 'a \<times> 'b \<times> scanner \<Rightarrow> 'a \<times> 'b \<times> scanner" where
  "more_out d r = map_prod id (map_prod id (fed d)) r"

lemma more_out_simp [simp]: "more_out d (st, x, sc) = (st, x, fed d sc)"
  by (simp add: more_out_def)

lemma streaming_loaded: "streaming sc \<Longrightarrow> \<not> entire_msg_loaded sc"
  by (simp add: streaming_def)

lemma match_int_more:
  assumes "streaming sc" and "fst (match_int base sc) \<noteq> PARSE_INCOMPLETE"
  shows "match_int base (fed d sc) = more_out d (match_int base sc)"
proof (rule stream_token_cases [OF assms(1), of _ d])
  fix t ty sc'
  assume g: "scanner_get_token sc = Inr (t, ty, sc')"
    "scanner_get_token (fed d sc) = Inr (t, ty, fed d sc')" "mstart t = cursor sc"
  show ?thesis
  proof (cases "ty = TT_IDENTIFIER")
    case False
    with g show ?thesis by (simp add: match_int_def)
  next
    case True
    obtain w e r where w: "drop (cursor sc) (stext sc) = w @ e # r" "w \<noteq> []"
      "\<forall>c \<in> set w. is_identifier_char c" "\<not> is_identifier_char e"
      by (rule complete_identifier [OF assms(1) g(1) [unfolded True]]) blast
    have "drop (cursor sc) (stext sc @ d) = w @ e # (r @ d)"
      using assms(1) w(1) by (simp add: streaming_def)
    then have "whole_number base (drop (mstart t) (stext (fed d sc))) (msize t) =
        whole_number base (drop (mstart t) (stext sc)) (msize t)"
      by (simp add: g(3) w(1) whole_number_local [OF w(2-4)])
    with g True show ?thesis by (auto simp: match_int_def split: option.splits)
  qed
qed (use assms in \<open>auto simp: match_int_def\<close>)

lemma expect_token_more:
  assumes "streaming sc" and "fst (expect_token ty sc) \<noteq> PARSE_INCOMPLETE"
  shows "expect_token ty (fed d sc) = more_out d (expect_token ty sc)"
  by (rule stream_token_cases [OF assms(1), of _ d]) (use assms in \<open>auto simp: expect_token_def\<close>)

lemma optional_ws_more:
  assumes "streaming sc" and "fst (optional_ws sc) \<noteq> PARSE_INCOMPLETE"
  shows "optional_ws (fed d sc) = map_prod id (fed d) (optional_ws sc)"
  by (rule stream_token_cases [OF assms(1), of _ d]) (use assms in \<open>auto simp: optional_ws_def\<close>)

lemma match_char_more:
  "fst (match_char c cs sc) \<noteq> PARSE_INCOMPLETE \<Longrightarrow>
     match_char c cs (fed d sc) = map_prod id (fed d) (match_char c cs sc)"
  by (auto simp: match_char_def Let_def nth_append split: if_splits)

lemma match_non_ws_more:
  assumes "streaming sc" and "fst (match_non_ws_string sc) \<noteq> PARSE_INCOMPLETE"
  shows "match_non_ws_string (fed d sc) = more_out d (match_non_ws_string sc)"
proof -
  have "fst (non_ws_loop sc 0) \<noteq> PARSE_INCOMPLETE"
    using assms streaming_loaded [OF assms(1)]
    by (auto simp: match_non_ws_string_def Let_def split: prod.splits)
  from non_ws_loop_more [OF assms(1) this, of d] show ?thesis
    by (auto simp: match_non_ws_string_def Let_def map_prod_def split: prod.splits)
qed

lemma read_until_crlf_more:
  assumes "streaming sc" and "fst (read_until_crlf sc) \<noteq> PARSE_INCOMPLETE"
  shows "read_until_crlf (fed d sc) = more_out d (read_until_crlf sc)"
proof -
  have "fst (until_crlf_loop sc) \<noteq> PARSE_INCOMPLETE"
    using assms by (auto simp: read_until_crlf_def split: prod.splits)
  from until_crlf_more [OF assms(1) this, of d] show ?thesis
    by (auto simp: read_until_crlf_def map_prod_def split: prod.splits)
qed

lemma match_raw_value_more:
  assumes "streaming sc" and "fst (match_raw_value sc) \<noteq> PARSE_INCOMPLETE"
  shows "match_raw_value (fed d sc) = more_out d (match_raw_value sc)"
proof -
  obtain st len sc' where e: "raw_loop sc 0 None = (st, len, sc')" by (cases "raw_loop sc 0 None")
  have "st \<noteq> PARSE_INCOMPLETE" using assms e by (auto simp: match_raw_value_def split: if_splits)
  with raw_loop_more [OF assms(1), of 0 None d] e have
    m: "raw_loop (fed d sc) 0 None = (st, len, fed d sc')" by simp
  have "cursor sc + len \<le> length (stext sc)"
    using raw_loop_advances [OF streaming_ok [OF assms(1)] e, of "cursor sc"] by simp
  with assms(1) have k: "take len (drop (cursor sc) (stext sc @ d)) = take len (drop (cursor sc) (stext sc))"
    by (simp add: streaming_def)
  show ?thesis
    by (simp add: match_raw_value_def e m k del: take_append drop_append)
qed

subsection \<open>Formats\<close>

text \<open>
  The formats for which this holds: \<open>%U\<close> hands the rest of the message to \<open>parse_uri\<close>, and \<open>%0\<close>
  asks for its end. The parser uses neither on an incomplete message.
\<close>

fun stream_fmt :: "string \<Rightarrow> bool" where
  "stream_fmt [] = True"
| "stream_fmt (c # fmt) =
     (if c = CHR ''%''
      then (case fmt of [] \<Rightarrow> False | d # fmt' \<Rightarrow> d \<notin> {CHR ''U'', CHR ''0''} \<and> stream_fmt fmt')
      else stream_fmt fmt)"

lemma vf_percent_total:
  "c \<noteq> CHR ''U'' \<Longrightarrow> \<exists>cs' st os sc'. vf_percent rs c cs sc = Some (cs', st, os, sc')"
proof -
  assume "c \<noteq> CHR ''U''"
  then have "vf_percent rs c cs sc \<noteq> None" by (simp add: vf_percent_def del: not_None_eq)
  then show ?thesis by (metis not_None_eq prod_cases4)
qed

lemma vf_loop_total: "stream_fmt fmt \<Longrightarrow> \<exists>st outs sc'. vf_loop rs fmt cs sc os = Some (st, outs, sc')"
proof (induction rs fmt cs sc os rule: vf_loop.induct [case_names nil char])
  case (char rs c fmt cs sc os)
  show ?case
  proof (cases "c = CHR ''%''")
    case True
    with char.prems obtain d fmt' where f: "fmt = d # fmt'" "d \<noteq> CHR ''U''" "stream_fmt fmt'"
      by (cases fmt) auto
    obtain cs' st os' sc' where p: "vf_percent rs d cs sc = Some (cs', st, os', sc')"
      using vf_percent_total [OF f(2)] by metis
    from char.IH(1) [OF True f(1) p refl refl refl _ f(3)] True f(1) p show ?thesis by auto
  next
    case False
    with char.IH(2) [OF False] char.prems show ?thesis by (auto split: prod.splits)
  qed
qed simp

lemma vf_percent_more:
  assumes st: "streaming sc" and c: "c \<notin> {CHR ''U'', CHR ''0''}"
    and v: "vf_percent rs c cs sc = Some (cs', st, os, sc')" and "st \<noteq> PARSE_INCOMPLETE"
  shows "vf_percent rs c cs (fed d sc) = Some (cs', st, os, fed d sc')"
proof -
  define same where "same x y \<longleftrightarrow>
    (\<forall>cs' st os sc'. x = Some (cs' :: bool, st, os :: match_out list, sc') \<longrightarrow> st \<noteq> PARSE_INCOMPLETE \<longrightarrow>
       y = Some (cs', st, os, fed d sc'))" for x y
  have if_: "(P \<Longrightarrow> same x x') \<Longrightarrow> (\<not> P \<Longrightarrow> same y y') \<Longrightarrow>
      same (if P then x else y) (if P then x' else y')" for P x x' y y' by simp
  have some: "(fst r \<noteq> PARSE_INCOMPLETE \<Longrightarrow> r' = more_out d r) \<Longrightarrow> same (Some (cs', r)) (Some (cs', r'))"
    for r r' cs' by (cases r) (auto simp: same_def)
  have str: "fst (out_str r) \<noteq> PARSE_INCOMPLETE \<Longrightarrow>
      (fst r \<noteq> PARSE_INCOMPLETE \<Longrightarrow> r' = more_out d r) \<Longrightarrow> out_str r' = more_out d (out_str r)" for r r'
    by (cases r) (auto simp: out_str_def)
  have no: "fst (no_out r) \<noteq> PARSE_INCOMPLETE \<Longrightarrow>
      (fst r \<noteq> PARSE_INCOMPLETE \<Longrightarrow> r' = map_prod id (fed d) r) \<Longrightarrow> no_out r' = more_out d (no_out r)" for r r'
    by (cases r) (auto simp: no_out_def)
  have cr: "(case expect_token TT_CRLF (fed d sc) of (status, _, sc') \<Rightarrow> (status, [], sc')) =
      more_out d (case expect_token TT_CRLF sc of (status, _, sc') \<Rightarrow> (status, [] :: match_out list, sc'))"
    if "fst (case expect_token TT_CRLF sc of (status, _, sc') \<Rightarrow> (status, [] :: match_out list, sc')) \<noteq> PARSE_INCOMPLETE"
    using that expect_token_more [OF st, of TT_CRLF d] by (cases "expect_token TT_CRLF sc") auto
  have int: "(case match_int b (fed d sc) of (status, i, sc') \<Rightarrow> (status, [Out_int i], sc')) =
      more_out d (case match_int b sc of (status, i, sc') \<Rightarrow> (status, [Out_int i], sc'))"
    if "fst (case match_int b sc of (status, i, sc') \<Rightarrow> (status, [Out_int i], sc')) \<noteq> PARSE_INCOMPLETE" for b
    using that match_int_more [OF st, of b d] by (cases "match_int b sc") auto
  have "same (vf_percent rs c cs sc) (vf_percent rs c cs (fed d sc))"
    unfolding vf_percent_def
    by (intro if_ some str no cr int match_raw_value_more [OF st] expect_token_more [OF st]
        match_non_ws_more [OF st] read_until_crlf_more [OF st] match_char_more optional_ws_more [OF st])
      (use c in \<open>auto simp: same_def\<close>)
  with v assms(4) show ?thesis by (auto simp: same_def)
qed


lemma vf_literal_more:
  assumes "streaming sc" and "fst (vf_literal c cs sc) \<noteq> PARSE_INCOMPLETE"
  shows "vf_literal c cs (fed d sc) = map_prod id (fed d) (vf_literal c cs sc)"
  using assms skip_lws_more [OF assms(1), of d] expect_token_more [OF assms(1), of TT_WHITESPACE d]
    match_char_more [of c cs sc d]
  by (cases "expect_token TT_WHITESPACE sc") (simp add: vf_literal_def split: if_splits)

lemma vf_loop_more:
  "streaming sc \<Longrightarrow> stream_fmt fmt \<Longrightarrow> vf_loop rs fmt cs sc os = Some (st, outs, sc') \<Longrightarrow>
     st \<noteq> PARSE_INCOMPLETE \<Longrightarrow> vf_loop rs fmt cs (fed d sc) os = Some (st, outs, fed d sc')"
proof (induction rs fmt cs sc os rule: vf_loop.induct [case_names nil char])
  case (char rs c fmt cs sc os)
  show ?case
  proof (cases "c = CHR ''%''")
    case True
    with char.prems obtain e fmt' where f: "fmt = e # fmt'" "e \<notin> {CHR ''U'', CHR ''0''}" "stream_fmt fmt'"
      by (cases fmt) auto
    obtain cs1 st1 os1 sc1 where p: "vf_percent rs e cs sc = Some (cs1, st1, os1, sc1)"
      using vf_percent_total [of e rs cs sc] f(2) by auto
    have a: "advances sc sc1"
      using vf_percent_ok [OF streaming_ok [OF char.prems(1)] p] by (simp add: match_ok_def)
    note m = vf_percent_more [OF char.prems(1) f(2) p, of d]
    show ?thesis
    proof (cases "st1 = PARSE_OK")
      case t: True
      with m True f p char.prems(3,4)
        char.IH(1) [OF True f(1) p refl refl refl t streaming_advances [OF char.prems(1) a] f(3)]
      show ?thesis by simp
    next
      case False
      with m True f p char.prems(3,4) show ?thesis by auto
    qed
  next
    case False
    obtain st1 sc1 where p: "vf_literal c cs sc = (st1, sc1)" by (cases "vf_literal c cs sc")
    note a = vf_literal_advances [OF streaming_ok [OF char.prems(1)] p]
    note m = vf_literal_more [OF char.prems(1), of c cs d, unfolded p]
    show ?thesis
    proof (cases "st1 = PARSE_OK")
      case t: True
      with m False p char.prems(2,3,4)
        char.IH(2) [OF False p [symmetric] t streaming_advances [OF char.prems(1) a]]
      show ?thesis by simp
    next
      case f: False
      with m False p char.prems(3,4) show ?thesis by auto
    qed
  qed
qed simp

lemma vfmatch_more:
  assumes "streaming sc" and "stream_fmt fmt" and "vfmatch rs sc fmt = Some (st, outs, sc')"
    and "st \<noteq> PARSE_INCOMPLETE"
  shows "vfmatch rs (fed d sc) fmt = Some (st, outs, fed d sc')"
proof -
  obtain st1 os1 sc1 where l: "vf_loop rs fmt True sc [] = Some (st1, os1, sc1)"
    using vf_loop_total [OF assms(2)] by blast
  with assms(3,4) have "st1 \<noteq> PARSE_INCOMPLETE" by (auto simp: vfmatch_def)
  from vf_loop_more [OF assms(1,2) l this, of d] l assms(3) show ?thesis
    by (auto simp: vfmatch_def)
qed

lemma vfmatch_total:
  "stream_fmt fmt \<Longrightarrow> \<exists>st outs sc'. vfmatch rs sc fmt = Some (st, outs, sc')"
  using vf_loop_total [of fmt rs True sc "[]"] by (auto simp: vfmatch_def)

text \<open>After \<open>PARSE_INCOMPLETE\<close> (or no match) the cursor is where it was.\<close>

lemma vfmatch_restores:
  assumes "scanner_ok sc" and "vfmatch rs sc fmt = Some (st, outs, sc')" and "st \<noteq> PARSE_OK"
  shows "sc' = sc"
proof -
  have "advances sc sc'" "cursor sc' = cursor sc"
    using vfmatch_ok [OF assms(1,2)] assms(2,3) by (auto simp: match_ok_def vfmatch_def)
  then show ?thesis by (cases sc, cases sc') (simp add: advances_def)
qed

subsection \<open>Properties\<close>

definition no_names :: resolver where
  "no_names = \<lparr>getaddrinfo = (\<lambda>_. None), pton4 = (\<lambda>_. None), pton6 = (\<lambda>_. None), gIF_INDEX = 0\<rparr>"

definition get_line :: scanner where
  "get_line = \<lparr>stext = ''GET /a '', cursor = 0, entire_msg_loaded = False\<rparr>"

lemma get_line_streaming: "streaming get_line"
  by (simp add: get_line_def streaming_def)

lemma get_line_match:
  "vfmatch no_names get_line ''%s '' = Some (PARSE_OK, [Out_str \<lparr>mstart = 0, msize = 3\<rparr>], get_line\<lparr>cursor := 4\<rparr>)"
  by code_simp

text \<open>C23: Matching a message against a format returns, for every message and every format of the
  parser, in the message: the cursor only moves forward and not behind the end, what the variables
  receive lies inside the message, and without a match the cursor is where it was.\<close>
theorem vfmatch_stays_inside:
  assumes "scanner_ok sc" and "stream_fmt fmt"
  shows "\<exists>st outs sc'. vfmatch rs sc fmt = Some (st, outs, sc') \<and> advances sc sc' \<and>
           (if st = PARSE_OK then \<forall>o' \<in> set outs. out_inside (stext sc) o' else sc' = sc)"
proof -
  from vfmatch_total [OF assms(2)] obtain st outs sc' where e: "vfmatch rs sc fmt = Some (st, outs, sc')"
    by blast
  with vfmatch_ok [OF assms(1) e] vfmatch_restores [OF assms(1) e] show ?thesis
    by (auto simp: match_ok_def)
qed

theorem vfmatch_stays_inside_witness:
  "\<exists>st outs sc'. vfmatch no_names get_line ''%s '' = Some (st, outs, sc') \<and> advances get_line sc'"
  using vfmatch_stays_inside [where sc = get_line and fmt = "''%s ''" and rs = no_names]
    streaming_ok [OF get_line_streaming] by auto

text \<open>C24: A decision of the format matcher other than \<open>PARSE_INCOMPLETE\<close> does not depend on how
  much of the message has arrived: with more data behind it status, outputs and cursor are the same.
  (A number included, although \<open>strtol\<close> reads on behind the token.)\<close>
theorem vfmatch_ignores_later_data:
  assumes "streaming sc" and "stream_fmt fmt" and "vfmatch rs sc fmt = Some (st, outs, sc')"
    and "st \<noteq> PARSE_INCOMPLETE"
  shows "vfmatch rs (sc\<lparr>stext := stext sc @ d\<rparr>) fmt = Some (st, outs, sc'\<lparr>stext := stext sc @ d\<rparr>)"
  using vfmatch_more [OF assms, of d] vfmatch_ok [OF streaming_ok [OF assms(1)] assms(3)]
  by (simp add: fed_def match_ok_def advances_def)

theorem vfmatch_ignores_later_data_witness:
  "vfmatch no_names (get_line\<lparr>stext := ''GET /a '' @ ''HTTP''\<rparr>) ''%s '' =
     Some (PARSE_OK, [Out_str \<lparr>mstart = 0, msize = 3\<rparr>],
           get_line\<lparr>cursor := 4, stext := ''GET /a '' @ ''HTTP''\<rparr>)"
  using vfmatch_ignores_later_data [OF get_line_streaming _ get_line_match, where d = "''HTTP''"]
  by (simp add: get_line_def)

end
