(* ===== verification/StrIntMap.thy ===== *)
theory StrIntMap
  imports MemBuffer
begin

text \<open>
  \<open>upnp/src/genlib/util/strintmap.c\<close>: binary search of a table of names. The search finds
  exactly the names of a table whose names increase in the order of the comparison; the table of
  HTTP header names is one, the table of HTTP methods is not quite (its last entry repeats
  \<open>POST\<close>), but every method is still found.
\<close>

type_synonym str_int_entry = "string \<times> int"

definition entry_cmp :: "bool \<Rightarrow> char list \<Rightarrow> char list \<Rightarrow> int" where
  "entry_cmp case_sensitive name s =
     (if case_sensitive then memptr_cmp name s else memptr_cmp_nocase name s)"

function search_loop :: "char list \<Rightarrow> str_int_entry list \<Rightarrow> bool \<Rightarrow> int \<Rightarrow> int \<Rightarrow> int" where
  "search_loop name table cs top' bot' =
     (if top' \<le> bot'
      then (let mid = (top' + bot') div 2;
                cmp = entry_cmp cs name (fst (table ! nat mid))
            in if cmp > 0 then search_loop name table cs (mid + 1) bot'
               else if cmp < 0 then search_loop name table cs top' (mid - 1)
               else mid)
      else -1)"
  by pat_completeness auto
termination
  by (relation "measure (\<lambda>(name, table, cs, top', bot'). nat (bot' - top' + 1))") auto

declare search_loop.simps [simp del]

definition map_str_to_int :: "char list \<Rightarrow> str_int_entry list \<Rightarrow> bool \<Rightarrow> int" where
  "map_str_to_int name table case_sensitive =
     search_loop name table case_sensitive 0 (int (length table) - 1)"

fun find_id :: "int \<Rightarrow> int \<Rightarrow> str_int_entry list \<Rightarrow> int" where
  "find_id i k [] = -1"
| "find_id i k (e # es) = (if snd e = i then k else find_id i (k + 1) es)"

definition map_int_to_str :: "int \<Rightarrow> str_int_entry list \<Rightarrow> int" where
  "map_int_to_str i table = find_id i 0 table"

subsection \<open>The comparison\<close>

definition fold_case :: "bool \<Rightarrow> char list \<Rightarrow> char list" where
  "fold_case cs s = (if cs then s else map tolower s)"

lemma entry_cmp_sign:
  assumes "no_nul a" and "no_nul b"
  shows "sgn (entry_cmp cs a b) = cmp_sign (fold_case cs a) (fold_case cs b)"
  using strncmp_sign [of a b] strncmp_sign [of "map tolower a" "map tolower b"] assms
  by (simp add: entry_cmp_def memptr_cmp_def memptr_cmp_nocase_def strncasecmp_def fold_case_def)

lemma entry_cmp_cases:
  assumes "no_nul a" and "no_nul b"
  shows "entry_cmp cs a b = 0 \<longleftrightarrow> fold_case cs a = fold_case cs b"
    and "entry_cmp cs a b < 0 \<longleftrightarrow> lex_less (fold_case cs a) (fold_case cs b)"
    and "entry_cmp cs a b > 0 \<longleftrightarrow> lex_less (fold_case cs b) (fold_case cs a)"
  using entry_cmp_sign [OF assms, of cs] lex_less_linear [of "fold_case cs a" "fold_case cs b"]
    lex_less_asym
  by (auto simp: cmp_sign_def sgn_if split: if_splits)

subsection \<open>Correctness of the search\<close>

definition key :: "bool \<Rightarrow> str_int_entry list \<Rightarrow> nat \<Rightarrow> char list" where
  "key cs table i = fold_case cs (fst (table ! i))"

definition table_sorted :: "bool \<Rightarrow> str_int_entry list \<Rightarrow> bool" where
  "table_sorted cs table \<longleftrightarrow> sorted_wrt lex_less (map (\<lambda>e. fold_case cs (fst e)) table)"

definition table_ok :: "str_int_entry list \<Rightarrow> bool" where
  "table_ok table \<longleftrightarrow> (\<forall>e \<in> set table. no_nul (fst e))"

lemma table_sortedD:
  "table_sorted cs table \<Longrightarrow> i < j \<Longrightarrow> j < length table \<Longrightarrow> lex_less (key cs table i) (key cs table j)"
  by (auto simp: table_sorted_def sorted_wrt_iff_nth_less key_def)

text \<open>Whatever the order of the table, an index returned is one of the range and matches.\<close>

lemma search_sound:
  assumes "no_nul name" and "table_ok table" and "0 \<le> top'" and "bot' < int (length table)"
    and "search_loop name table cs top' bot' = i" and "i \<noteq> -1"
  shows "top' \<le> i \<and> i \<le> bot' \<and> key cs table (nat i) = fold_case cs name"
  using assms
proof (induction name table cs top' bot' rule: search_loop.induct)
  case (1 name table cs top' bot')
  define mid where "mid = (top' + bot') div 2"
  show ?case
  proof (cases "top' \<le> bot'")
    case False
    with "1.prems" show ?thesis by (simp add: search_loop.simps)
  next
    case True
    then have m: "top' \<le> mid" "mid \<le> bot'" by (auto simp: mid_def)
    then have "no_nul (fst (table ! nat mid))"
      using "1.prems"(2-4) by (auto simp: table_ok_def)
    note c = entry_cmp_cases [OF "1.prems"(1) this, of cs]
    have e: "search_loop name table cs top' bot' =
        (if entry_cmp cs name (fst (table ! nat mid)) > 0 then search_loop name table cs (mid + 1) bot'
         else if entry_cmp cs name (fst (table ! nat mid)) < 0 then search_loop name table cs top' (mid - 1)
         else mid)"
      using True by (subst search_loop.simps) (simp add: mid_def Let_def)
    consider "entry_cmp cs name (fst (table ! nat mid)) > 0"
      | "entry_cmp cs name (fst (table ! nat mid)) < 0"
      | "entry_cmp cs name (fst (table ! nat mid)) = 0" by linarith
    then show ?thesis
    proof cases
      case 1
      with "1.IH"(1) [OF True mid_def refl 1] "1.prems" e m show ?thesis by auto
    next
      case 2
      then have "\<not> entry_cmp cs name (fst (table ! nat mid)) > 0" by simp
      from "1.IH"(2) [OF True mid_def refl this 2] "1.prems" e m 2 show ?thesis by auto
    next
      case 3
      with e "1.prems"(5) c m show ?thesis by (auto simp: key_def)
    qed
  qed
qed

lemma search_complete:
  assumes "no_nul name" and "table_ok table" and "table_sorted cs table"
    and "0 \<le> top'" and "bot' < int (length table)"
    and "top' \<le> int k" and "int k \<le> bot'" and "key cs table k = fold_case cs name"
  shows "search_loop name table cs top' bot' = int k"
  using assms
proof (induction name table cs top' bot' rule: search_loop.induct)
  case (1 name table cs top' bot')
  define mid where "mid = (top' + bot') div 2"
  have True: "top' \<le> bot'" using "1.prems"(6,7) by simp
  then have m: "top' \<le> mid" "mid \<le> bot'" by (auto simp: mid_def)
  then have "no_nul (fst (table ! nat mid))"
    using "1.prems"(2,4,5) by (auto simp: table_ok_def)
  note c = entry_cmp_cases [OF "1.prems"(1) this, of cs, folded key_def]
  have e: "search_loop name table cs top' bot' =
      (if entry_cmp cs name (fst (table ! nat mid)) > 0 then search_loop name table cs (mid + 1) bot'
       else if entry_cmp cs name (fst (table ! nat mid)) < 0 then search_loop name table cs top' (mid - 1)
       else mid)"
    using True by (subst search_loop.simps) (simp add: mid_def Let_def)
  consider "nat mid < k" | "k < nat mid" | "nat mid = k" by linarith
  then show ?case
  proof cases
    case 1
    have "lex_less (key cs table (nat mid)) (key cs table k)"
      by (rule table_sortedD [OF "1.prems"(3) 1]) (use "1.prems"(5,7) in simp)
    then have g: "entry_cmp cs name (fst (table ! nat mid)) > 0"
      using c(3) "1.prems"(8) by simp
    have "mid + 1 \<le> int k" using 1 by simp
    with "1.IH"(1) [OF True mid_def refl g] "1.prems" m e g show ?thesis by simp
  next
    case 2
    have "lex_less (key cs table k) (key cs table (nat mid))"
      by (rule table_sortedD [OF "1.prems"(3) 2]) (use 2 m "1.prems"(4,5) in linarith)
    then have l: "entry_cmp cs name (fst (table ! nat mid)) < 0"
      using c(2) "1.prems"(8) by simp
    then have nl: "\<not> entry_cmp cs name (fst (table ! nat mid)) > 0" by simp
    have "int k \<le> mid - 1" using 2 by simp
    with "1.IH"(2) [OF True mid_def refl nl l] "1.prems" m e l show ?thesis by simp
  next
    case 3
    then have "entry_cmp cs name (fst (table ! nat mid)) = 0"
      using c(1) "1.prems"(8) by simp
    with e 3 m "1.prems"(4) show ?thesis by simp
  qed
qed

lemma map_str_to_int_complete:
  assumes "no_nul name" and "table_ok table" and "table_sorted cs table" and "k < length table"
    and "key cs table k = fold_case cs name"
  shows "map_str_to_int name table cs = int k"
  using search_complete [OF assms(1-3), of 0 "int (length table) - 1" k] assms(4,5)
  by (simp add: map_str_to_int_def)

lemma map_str_to_int_sound:
  assumes "no_nul name" and "table_ok table" and "map_str_to_int name table cs \<noteq> -1"
  shows "\<exists>k < length table. map_str_to_int name table cs = int k \<and> key cs table k = fold_case cs name"
  using search_sound [OF assms(1,2), of 0 "int (length table) - 1" cs "map_str_to_int name table cs"] assms(3)
  by (intro exI [of _ "nat (map_str_to_int name table cs)"]) (auto simp: map_str_to_int_def)

lemma find_id_sound:
  "find_id i k es = j \<Longrightarrow> (j = -1 \<and> i \<notin> snd ` set es) \<or>
     (\<exists>n < length es. j = k + int n \<and> snd (es ! n) = i \<and> i \<notin> snd ` set (take n es))" if "k \<ge> 0"
  using that
proof (induction i k es arbitrary: j rule: find_id.induct)
  case (1 i k)
  then show ?case by simp
next
  case (2 i k e es)
  show ?case
  proof (cases "snd e = i")
    case True
    with 2 show ?thesis by (intro disjI2 exI [of _ 0]) simp
  next
    case False
    with "2.IH" [of j] "2.prems" consider "j = -1" "i \<notin> snd ` set es"
      | n where "n < length es" "j = k + 1 + int n" "snd (es ! n) = i" "i \<notin> snd ` set (take n es)"
      by auto
    then show ?thesis
    proof cases
      case 1
      with False show ?thesis by auto
    next
      case 2
      with False show ?thesis by (intro disjI2 exI [of _ "Suc n"]) auto
    qed
  qed
qed

subsection \<open>The tables of \<open>httpparser.c\<close>\<close>

text \<open>Header ids and, in the order of the enumeration, method ids (\<open>httpparser.h\<close>).\<close>

definition HDR_UNKNOWN :: int where "HDR_UNKNOWN = -1"
definition HDR_CACHE_CONTROL :: int where "HDR_CACHE_CONTROL = 1"
definition HDR_CALLBACK :: int where "HDR_CALLBACK = 2"
definition HDR_CONTENT_LENGTH :: int where "HDR_CONTENT_LENGTH = 3"
definition HDR_CONTENT_TYPE :: int where "HDR_CONTENT_TYPE = 4"
definition HDR_DATE :: int where "HDR_DATE = 5"
definition HDR_EXT :: int where "HDR_EXT = 6"
definition HDR_HOST :: int where "HDR_HOST = 7"
definition HDR_LOCATION :: int where "HDR_LOCATION = 11"
definition HDR_MAN :: int where "HDR_MAN = 12"
definition HDR_MX :: int where "HDR_MX = 13"
definition HDR_NT :: int where "HDR_NT = 14"
definition HDR_NTS :: int where "HDR_NTS = 15"
definition HDR_SERVER :: int where "HDR_SERVER = 16"
definition HDR_SEQ :: int where "HDR_SEQ = 17"
definition HDR_SID :: int where "HDR_SID = 18"
definition HDR_SOAPACTION :: int where "HDR_SOAPACTION = 19"
definition HDR_ST :: int where "HDR_ST = 20"
definition HDR_TIMEOUT :: int where "HDR_TIMEOUT = 21"
definition HDR_TRANSFER_ENCODING :: int where "HDR_TRANSFER_ENCODING = 22"
definition HDR_USN :: int where "HDR_USN = 23"
definition HDR_USER_AGENT :: int where "HDR_USER_AGENT = 24"
definition HDR_ACCEPT :: int where "HDR_ACCEPT = 25"
definition HDR_ACCEPT_ENCODING :: int where "HDR_ACCEPT_ENCODING = 26"
definition HDR_ACCEPT_CHARSET :: int where "HDR_ACCEPT_CHARSET = 27"
definition HDR_ACCEPT_LANGUAGE :: int where "HDR_ACCEPT_LANGUAGE = 28"
definition HDR_ACCEPT_RANGE :: int where "HDR_ACCEPT_RANGE = 29"
definition HDR_CONTENT_ENCODING :: int where "HDR_CONTENT_ENCODING = 30"
definition HDR_CONTENT_LANGUAGE :: int where "HDR_CONTENT_LANGUAGE = 31"
definition HDR_CONTENT_LOCATION :: int where "HDR_CONTENT_LOCATION = 32"
definition HDR_CONTENT_RANGE :: int where "HDR_CONTENT_RANGE = 33"
definition HDR_IF_RANGE :: int where "HDR_IF_RANGE = 34"
definition HDR_RANGE :: int where "HDR_RANGE = 35"
definition HDR_TE :: int where "HDR_TE = 36"

definition HTTPMETHOD_POST :: int where "HTTPMETHOD_POST = 0"
definition HTTPMETHOD_MPOST :: int where "HTTPMETHOD_MPOST = 1"
definition HTTPMETHOD_SUBSCRIBE :: int where "HTTPMETHOD_SUBSCRIBE = 2"
definition HTTPMETHOD_UNSUBSCRIBE :: int where "HTTPMETHOD_UNSUBSCRIBE = 3"
definition HTTPMETHOD_NOTIFY :: int where "HTTPMETHOD_NOTIFY = 4"
definition HTTPMETHOD_GET :: int where "HTTPMETHOD_GET = 5"
definition HTTPMETHOD_HEAD :: int where "HTTPMETHOD_HEAD = 6"
definition HTTPMETHOD_MSEARCH :: int where "HTTPMETHOD_MSEARCH = 7"
definition HTTPMETHOD_UNKNOWN :: int where "HTTPMETHOD_UNKNOWN = 8"
definition SOAPMETHOD_POST :: int where "SOAPMETHOD_POST = 9"
definition HTTPMETHOD_SIMPLEGET :: int where "HTTPMETHOD_SIMPLEGET = 10"

definition Http_Method_Table :: "str_int_entry list" where
  "Http_Method_Table =
     [(''GET'', HTTPMETHOD_GET),
      (''HEAD'', HTTPMETHOD_HEAD),
      (''M-POST'', HTTPMETHOD_MPOST),
      (''M-SEARCH'', HTTPMETHOD_MSEARCH),
      (''NOTIFY'', HTTPMETHOD_NOTIFY),
      (''POST'', HTTPMETHOD_POST),
      (''SUBSCRIBE'', HTTPMETHOD_SUBSCRIBE),
      (''UNSUBSCRIBE'', HTTPMETHOD_UNSUBSCRIBE),
      (''POST'', SOAPMETHOD_POST)]"

definition Http_Header_Names :: "str_int_entry list" where
  "Http_Header_Names =
     [(''ACCEPT'', HDR_ACCEPT),
      (''ACCEPT-CHARSET'', HDR_ACCEPT_CHARSET),
      (''ACCEPT-ENCODING'', HDR_ACCEPT_ENCODING),
      (''ACCEPT-LANGUAGE'', HDR_ACCEPT_LANGUAGE),
      (''ACCEPT-RANGES'', HDR_ACCEPT_RANGE),
      (''CACHE-CONTROL'', HDR_CACHE_CONTROL),
      (''CALLBACK'', HDR_CALLBACK),
      (''CONTENT-ENCODING'', HDR_CONTENT_ENCODING),
      (''CONTENT-LANGUAGE'', HDR_CONTENT_LANGUAGE),
      (''CONTENT-LENGTH'', HDR_CONTENT_LENGTH),
      (''CONTENT-LOCATION'', HDR_CONTENT_LOCATION),
      (''CONTENT-RANGE'', HDR_CONTENT_RANGE),
      (''CONTENT-TYPE'', HDR_CONTENT_TYPE),
      (''DATE'', HDR_DATE),
      (''EXT'', HDR_EXT),
      (''HOST'', HDR_HOST),
      (''IF-RANGE'', HDR_IF_RANGE),
      (''LOCATION'', HDR_LOCATION),
      (''MAN'', HDR_MAN),
      (''MX'', HDR_MX),
      (''NT'', HDR_NT),
      (''NTS'', HDR_NTS),
      (''RANGE'', HDR_RANGE),
      (''SEQ'', HDR_SEQ),
      (''SERVER'', HDR_SERVER),
      (''SID'', HDR_SID),
      (''SOAPACTION'', HDR_SOAPACTION),
      (''ST'', HDR_ST),
      (''TE'', HDR_TE),
      (''TIMEOUT'', HDR_TIMEOUT),
      (''TRANSFER-ENCODING'', HDR_TRANSFER_ENCODING),
      (''USER-AGENT'', HDR_USER_AGENT),
      (''USN'', HDR_USN)]"

lemma header_table: "table_ok Http_Header_Names" "table_sorted False Http_Header_Names"
  by (code_simp)+

lemma method_table: "table_ok Http_Method_Table" "table_sorted True (take 8 Http_Method_Table)"
  by (code_simp)+

lemma method_found: "list_all (\<lambda>e. map_str_to_int (fst e) Http_Method_Table True \<noteq> -1) Http_Method_Table"
  by code_simp

subsection \<open>Properties\<close>

text \<open>A header name is found exactly if the table of header names holds it up to case, and the
  index returned is that of its entry: the table really is sorted the way the binary search
  needs.\<close>
theorem header_lookup:
  assumes "no_nul name"
  shows "(map_str_to_int name Http_Header_Names False = int k \<and> k < 33) \<longleftrightarrow>
         (k < 33 \<and> map tolower (fst (Http_Header_Names ! k)) = map tolower name)"
proof -
  have len: "length Http_Header_Names = 33" by (simp add: Http_Header_Names_def)
  show ?thesis
    using map_str_to_int_complete [OF assms header_table, of k]
      map_str_to_int_sound [OF assms header_table(1), of False]
    by (auto simp: len key_def fold_case_def)
qed

theorem header_lookup_witness:
  "map_str_to_int ''Content-Length'' Http_Header_Names False = 9"
proof -
  have "map tolower (fst (Http_Header_Names ! 9)) = map tolower ''Content-Length''" by code_simp
  with header_lookup [of "''Content-Length''" 9] show ?thesis by simp
qed

text \<open>A method name is found exactly if it is one of the methods, in upper case: the lookup
  returns an entry with that name although the table is not sorted (its last entry repeats
  \<open>POST\<close>), and every other name is refused.\<close>
theorem method_lookup:
  assumes "no_nul name"
  shows "case map_str_to_int name Http_Method_Table True of
           i \<Rightarrow> (i \<noteq> -1 \<longleftrightarrow> name \<in> set (map fst Http_Method_Table)) \<and>
                (i \<noteq> -1 \<longrightarrow> 0 \<le> i \<and> i < 9 \<and> fst (Http_Method_Table ! nat i) = name)"
proof -
  have len: "length Http_Method_Table = 9" by (simp add: Http_Method_Table_def)
  have "map_str_to_int name Http_Method_Table True \<noteq> -1" if "name \<in> set (map fst Http_Method_Table)"
    using that method_found by (auto simp: list_all_iff)
  moreover have "0 \<le> i \<and> i < 9 \<and> fst (Http_Method_Table ! nat i) = name"
    if "i = map_str_to_int name Http_Method_Table True" "i \<noteq> -1" for i
    using map_str_to_int_sound [OF assms method_table(1), of True] that
    by (auto simp: len key_def fold_case_def)
  moreover from this have "name \<in> set (map fst Http_Method_Table)"
    if "map_str_to_int name Http_Method_Table True \<noteq> -1"
    using that len nth_mem [of "nat (map_str_to_int name Http_Method_Table True)" "map fst Http_Method_Table"]
    by fastforce
  ultimately show ?thesis by auto
qed

theorem method_lookup_witness: "map_str_to_int ''NOTIFY'' Http_Method_Table True \<noteq> -1"
  using method_lookup [of "''NOTIFY''"] by (simp add: Http_Method_Table_def)

end
