(* ===== verification/HttpParser.thy ===== *)
theory HttpParser
  imports HttpMatch StrIntMap LinkedList
begin

text \<open>
  The incremental parser of \<open>httpparser.c\<close>: an \<open>http_parser_t\<close> is fed with the bytes that arrive
  (\<open>parser_append\<close>) and goes through request or response line, headers and entity. Pointers into
  the message are offsets; the scanner of a parser is its cursor together with the contents of the
  message buffer. Undefined behaviour of the code, a loop that does not end included, is the result
  \<open>None\<close>.
\<close>

subsection \<open>Data\<close>

datatype parser_pos = POS_REQUEST_LINE | POS_RESPONSE_LINE | POS_HEADERS | POS_ENTITY | POS_COMPLETE

datatype ent_pos =
  ENTREAD_DETERMINE_READ_METHOD | ENTREAD_USING_CLEN | ENTREAD_USING_CHUNKED
| ENTREAD_UNTIL_CLOSE | ENTREAD_CHUNKY_BODY | ENTREAD_CHUNKY_HEADERS

text \<open>The field \<open>name\<close> of a header always points to the contents of \<open>name_buf\<close>.\<close>

record http_header =
  name_buf :: membuffer
  name_id :: int
  hvalue :: membuffer

record http_message =
  initialized :: int
  hmethod :: int
  huri :: uri_type
  request_method :: int
  status_code :: int
  status_msg :: membuffer
  amount_discarded :: size_t
  is_request :: bool
  major_version :: int
  minor_version :: int
  headers :: "http_header LinkedList"
  ent_buf :: "nat option"
  ent_length :: size_t
  msgbuf :: membuffer
  urlbuf :: "char list option"

record http_parser =
  hmsg :: http_message
  http_error_code :: int
  valid_ssdp_notify_hack :: bool
  position :: parser_pos
  ent_position :: ent_pos
  content_length :: "32 word"
  chunk_size :: size_t
  entity_start_position :: size_t
  scan_pos :: nat

definition HTTP_BAD_REQUEST :: int where "HTTP_BAD_REQUEST = 400"
definition HTTP_LENGTH_REQUIRED :: int where "HTTP_LENGTH_REQUIRED = 411"
definition HTTP_INTERNAL_SERVER_ERROR :: int where "HTTP_INTERNAL_SERVER_ERROR = 500"
definition HTTP_NOT_IMPLEMENTED :: int where "HTTP_NOT_IMPLEMENTED = 501"
definition HTTP_HTTP_VERSION_NOT_SUPPORTED :: int where "HTTP_HTTP_VERSION_NOT_SUPPORTED = 505"

text \<open>\<open>sizeof(http_header_t)\<close>.\<close>

definition HEADER_SIZE :: nat where "HEADER_SIZE = 88"

definition text_of :: "http_parser \<Rightarrow> char list" where
  "text_of p = contents (msgbuf (hmsg p))"

definition parser_scanner :: "http_parser \<Rightarrow> scanner" where
  "parser_scanner p = \<lparr>stext = text_of p, cursor = scan_pos p, entire_msg_loaded = False\<rparr>"

definition set_cursor :: "scanner \<Rightarrow> http_parser \<Rightarrow> http_parser" where
  "set_cursor sc p = p\<lparr>scan_pos := cursor sc\<rparr>"

definition upd_msg :: "(http_message \<Rightarrow> http_message) \<Rightarrow> http_parser \<Rightarrow> http_parser" where
  "upd_msg f p = p\<lparr>hmsg := f (hmsg p)\<rparr>"

definition fail_with :: "int \<Rightarrow> http_parser \<Rightarrow> parse_status \<times> http_parser" where
  "fail_with err p = (PARSE_FAILURE, p\<lparr>http_error_code := err\<rparr>)"

definition blank_mb :: membuffer where
  "blank_mb = \<lparr>buf = None, mlength = 0, capacity = 0, size_inc = MEMBUF_DEF_SIZE_INC\<rparr>"

subsection \<open>Messages\<close>

definition httpmsg_compare :: "http_header option \<Rightarrow> http_header option \<Rightarrow> bool" where
  "httpmsg_compare a b =
     (case (a, b) of (Some h1, Some h2) \<Rightarrow> name_id h1 = name_id h2 | _ \<Rightarrow> False)"

definition httpmsg_init :: "http_message \<Rightarrow> http_message" where
  "httpmsg_init m =
     m\<lparr>initialized := 1, ent_buf := None, ent_length := 0,
       headers := snd (ListInit (headers m) (Some httpmsg_compare) True),
       msgbuf := membuffer_init (msgbuf m), status_msg := membuffer_init (status_msg m)\<rparr>"

definition httpmsg_destroy :: "http_message \<Rightarrow> http_message option" where
  "httpmsg_destroy m =
     (if initialized m = 1
      then do {
        (_, l) \<leftarrow> ListDestroy (headers m) True;
        Some (m\<lparr>headers := l, msgbuf := membuffer_destroy (msgbuf m),
                status_msg := membuffer_destroy (status_msg m), urlbuf := None, initialized := 0\<rparr>)
      }
      else Some m)"

partial_function (option) find_str_loop ::
  "http_header LinkedList \<Rightarrow> char list \<Rightarrow> addr \<Rightarrow> addr option" where
  "find_str_loop l header_name nd =
     (if nd = Null then Some Null
      else do {
        h \<leftarrow> item (node l nd);
        if memptr_cmp_nocase (contents (name_buf h)) header_name = 0 then Some nd
        else find_str_loop l header_name (ListNext l nd)
      })"

text \<open>Both search functions return the node of the header, \<open>Null\<close> if there is none.\<close>

definition httpmsg_find_hdr_str :: "http_message \<Rightarrow> char list \<Rightarrow> addr option" where
  "httpmsg_find_hdr_str m header_name = find_str_loop (headers m) header_name (ListHead (headers m))"

definition httpmsg_find_hdr :: "http_message \<Rightarrow> int \<Rightarrow> addr option" where
  "httpmsg_find_hdr m header_name_id =
     ListFind (headers m) Null
       (Some \<lparr>name_buf = blank_mb, name_id = header_name_id, hvalue = blank_mb\<rparr>)"

definition set_item :: "addr \<Rightarrow> 'a \<Rightarrow> 'a LinkedList \<Rightarrow> 'a LinkedList" where
  "set_item nd x l = l\<lparr>node := (node l)(nd := (node l nd)\<lparr>item := Some x\<rparr>)\<rparr>"

definition put_header :: "addr \<Rightarrow> http_header \<Rightarrow> http_parser \<Rightarrow> http_parser" where
  "put_header nd h = upd_msg (\<lambda>m. m\<lparr>headers := set_item nd h (headers m)\<rparr>)"

subsection \<open>Raw values\<close>

definition raw_to_int :: "char list \<Rightarrow> nat \<Rightarrow> nat \<Rightarrow> int" where
  "raw_to_int mem len base =
     (if len = 0 then -1
      else (case whole_number base mem len of None \<Rightarrow> -1 | Some num \<Rightarrow> int_of_long num))"

fun strstr :: "char list \<Rightarrow> char list \<Rightarrow> nat \<Rightarrow> int" where
  "strstr [] sub i = (if sub = [] then int i else -1)"
| "strstr (c # s) sub i = (if take (length sub) (c # s) = sub then int i else strstr s sub (i + 1))"

text \<open>The loop lowers all characters up to the NUL, not only \<open>length\<close> of them.\<close>

definition raw_find_str :: "char list \<Rightarrow> nat \<Rightarrow> char list \<Rightarrow> (int \<times> char list) option" where
  "raw_find_str mem len sub =
     (if len < length mem \<and> CHR 0x00 \<in> set mem
      then
        (let c = mem ! len;
             low = map tolower (c_string mem) @ drop (length (c_string mem)) mem;
             i = strstr (c_string (low[len := CHR 0x00])) sub 0
         in Some (i, low[len := c]))
      else None)"

definition method_to_str :: "int \<Rightarrow> string option" where
  "method_to_str m =
     (let index = map_int_to_str m Http_Method_Table
      in if index = -1 then None else Some (fst (Http_Method_Table ! nat index)))"

subsection \<open>Initialisation\<close>

text \<open>\<open>memset\<close> to zero; \<open>l0\<close> is the storage of the header list.\<close>

definition zero_uri :: uri_type where
  "zero_uri = \<lparr>utype = ABSOLUTE, scheme = no_token, path_type = ABS_PATH, pathquery = no_token,
               fragment = no_token, hostport = no_hostport\<rparr>"

definition zero_message :: "http_header LinkedList \<Rightarrow> http_message" where
  "zero_message l0 =
     \<lparr>initialized = 0, hmethod = 0, huri = zero_uri, request_method = 0, status_code = 0,
      status_msg = \<lparr>buf = None, mlength = 0, capacity = 0, size_inc = 0\<rparr>, amount_discarded = 0,
      is_request = False, major_version = 0, minor_version = 0, headers = l0, ent_buf = None,
      ent_length = 0, msgbuf = \<lparr>buf = None, mlength = 0, capacity = 0, size_inc = 0\<rparr>, urlbuf = None\<rparr>"

definition parser_init :: "http_header LinkedList \<Rightarrow> http_parser" where
  "parser_init l0 =
     \<lparr>hmsg = httpmsg_init (zero_message l0), http_error_code = HTTP_BAD_REQUEST,
      valid_ssdp_notify_hack = False, position = POS_REQUEST_LINE,
      ent_position = ENTREAD_DETERMINE_READ_METHOD, content_length = 0, chunk_size = 0,
      entity_start_position = 0, scan_pos = 0\<rparr>"

definition parser_request_init :: "http_header LinkedList \<Rightarrow> http_parser" where
  "parser_request_init l0 =
     (upd_msg (\<lambda>m. m\<lparr>is_request := True\<rparr>) (parser_init l0))\<lparr>position := POS_REQUEST_LINE\<rparr>"

definition parser_response_init :: "http_header LinkedList \<Rightarrow> int \<Rightarrow> http_parser" where
  "parser_response_init l0 reqmethod =
     (upd_msg (\<lambda>m. m\<lparr>is_request := False, request_method := reqmethod, amount_discarded := 0\<rparr>)
        (parser_init l0))\<lparr>position := POS_RESPONSE_LINE\<rparr>"

subsection \<open>Request and response line\<close>

text \<open>One \<open>%d\<close> of \<open>sscanf\<close>: the number and what follows.\<close>

definition scan_int :: "char list \<Rightarrow> (int \<times> char list) option" where
  "scan_int s = (case strtol 10 s of (v, n, _) \<Rightarrow> if n = 0 then None else Some (int_of_long v, drop n s))"

text \<open>The numbers that \<open>%d . %d\<close> and \<open>%d . %d %d\<close> read.\<close>

definition scan_version :: "char list \<Rightarrow> int list \<times> char list" where
  "scan_version s =
     (case scan_int s of
        None \<Rightarrow> ([], s)
      | Some (a, s1) \<Rightarrow>
          (case dropWhile isspace s1 of
             [] \<Rightarrow> ([a], [])
           | c # s2 \<Rightarrow>
               if c \<noteq> CHR ''.'' then ([a], c # s2)
               else (case scan_int s2 of None \<Rightarrow> ([a], s2) | Some (b, s3) \<Rightarrow> ([a, b], s3))))"

definition scan_status :: "char list \<Rightarrow> int list" where
  "scan_status s =
     (case scan_version s of
        (vs, s1) \<Rightarrow>
          if length vs < 2 then vs
          else (case scan_int s1 of None \<Rightarrow> vs | Some (c, _) \<Rightarrow> vs @ [c]))"

text \<open>The numbers that were read are stored even if there are too few of them.\<close>

definition store_numbers :: "int list \<Rightarrow> http_message \<Rightarrow> http_message" where
  "store_numbers vs m =
     (case vs of
        [] \<Rightarrow> m
      | [a] \<Rightarrow> m\<lparr>major_version := a\<rparr>
      | [a, b] \<Rightarrow> m\<lparr>major_version := a, minor_version := b\<rparr>
      | a # b # c # _ \<Rightarrow> m\<lparr>major_version := a, minor_version := b, status_code := c\<rparr>)"

text \<open>
  Storing the URL: the result is \<open>None\<close> inside for a failure, whose error code is already set.
\<close>

definition store_url ::
  "resolver \<Rightarrow> allocator \<Rightarrow> memptr \<Rightarrow> http_parser \<Rightarrow> (bool \<times> http_parser) option" where
  "store_url rs al url p =
     do {
       copy \<leftarrow> str_alloc al (drop (mstart url) (text_of p)) (of_nat (msize url));
       case copy of
         None \<Rightarrow> Some (False, upd_msg (\<lambda>m. m\<lparr>urlbuf := None\<rparr>) (p\<lparr>http_error_code := HTTP_INTERNAL_SERVER_ERROR\<rparr>))
       | Some s \<Rightarrow>
           do {
             (rc, u) \<leftarrow> parse_uri rs s (msize url) (huri (hmsg p));
             Some (rc = HTTP_SUCCESS, upd_msg (\<lambda>m. m\<lparr>urlbuf := Some s, huri := u\<rparr>) p)
           }
     }"

definition SIMPLE_GET_FMT :: string where "SIMPLE_GET_FMT = ''%s'' @ [TAB] @ ''%S%w%c''"
definition REQUEST_FMT :: string where
  "REQUEST_FMT = ''%s'' @ [TAB] @ ''%S'' @ [TAB] @ ''%ihttp%w/%w%L%c''"
definition RESPONSE_FMT :: string where "RESPONSE_FMT = ''%ihttp%w/%w%L%c''"
definition HEADER_FMT :: string where "HEADER_FMT = '' : %R%c''"

definition lookup_method :: "char list \<Rightarrow> int option" where
  "lookup_method name =
     (let index = map_str_to_int name Http_Method_Table True
      in if index < 0 then None else Some (snd (Http_Method_Table ! nat index)))"

definition simple_get ::
  "resolver \<Rightarrow> allocator \<Rightarrow> memptr \<Rightarrow> memptr \<Rightarrow> http_parser \<Rightarrow> (parse_status \<times> http_parser) option" where
  "simple_get rs al method_str url_str p =
     (case lookup_method (mp_text (text_of p) method_str) of
        None \<Rightarrow> Some (fail_with HTTP_NOT_IMPLEMENTED p)
      | Some m \<Rightarrow>
          if m \<noteq> HTTPMETHOD_GET then Some (fail_with HTTP_BAD_REQUEST p)
          else do {
            (ok, p1) \<leftarrow> store_url rs al url_str (upd_msg (\<lambda>h. h\<lparr>hmethod := HTTPMETHOD_SIMPLEGET\<rparr>) p);
            Some (if ok then (PARSE_SUCCESS, p1\<lparr>position := POS_COMPLETE\<rparr>) else (PARSE_FAILURE, p1))
          })"

definition request_version ::
  "resolver \<Rightarrow> allocator \<Rightarrow> memptr \<Rightarrow> memptr \<Rightarrow> memptr \<Rightarrow> http_parser \<Rightarrow>
   (parse_status \<times> http_parser) option" where
  "request_version rs al method_str url_str version_str p =
     do {
       (ok, p1) \<leftarrow> store_url rs al url_str p;
       if \<not> ok then Some (PARSE_FAILURE, p1)
       else
         (case lookup_method (mp_text (text_of p) method_str) of
            None \<Rightarrow> Some (fail_with HTTP_NOT_IMPLEMENTED p1)
          | Some m \<Rightarrow>
              (let vs = fst (scan_version (mp_text (text_of p) version_str));
                   p2 = upd_msg (store_numbers vs) p1
               in if length vs \<noteq> 2 \<or> major_version (hmsg p2) < 0 \<or>
                     (major_version (hmsg p2) = 1 \<and> minor_version (hmsg p2) < 1 \<and> m = HTTPMETHOD_MSEARCH)
                  then Some (fail_with HTTP_HTTP_VERSION_NOT_SUPPORTED p2)
                  else Some (PARSE_OK, upd_msg (\<lambda>h. h\<lparr>hmethod := m\<rparr>) p2\<lparr>position := POS_HEADERS\<rparr>)))
     }"

definition parser_parse_requestline ::
  "resolver \<Rightarrow> allocator \<Rightarrow> http_parser \<Rightarrow> (parse_status \<times> http_parser) option" where
  "parser_parse_requestline rs al p =
     (case skip_blank_lines (parser_scanner p) of
        (status, sc) \<Rightarrow>
          if status \<noteq> PARSE_OK then Some (status, set_cursor sc p)
          else do {
            (status1, outs1, sc1) \<leftarrow> vfmatch rs sc SIMPLE_GET_FMT;
            if status1 = PARSE_OK
            then (case outs1 of
                    [Out_str method_str, Out_str url_str] \<Rightarrow>
                      simple_get rs al method_str url_str (set_cursor sc1 p)
                  | _ \<Rightarrow> None)
            else do {
              (status2, outs2, sc2) \<leftarrow> vfmatch rs sc1 REQUEST_FMT;
              if status2 \<noteq> PARSE_OK then Some (status2, set_cursor sc2 p)
              else (case outs2 of
                      [Out_str method_str, Out_str url_str, Out_str version_str] \<Rightarrow>
                        request_version rs al method_str url_str version_str (set_cursor sc2 p)
                    | _ \<Rightarrow> None)
            }
          })"

text \<open>Behind the next number; a search for a digit that finds none runs out of the buffer.\<close>

definition skip_int :: "char list \<Rightarrow> char list option" where
  "skip_int s =
     (let s1 = dropWhile (\<lambda>c. \<not> isdigit c) s
      in if s1 = [] then None else Some (dropWhile isdigit s1))"

definition response_status ::
  "allocator \<Rightarrow> memptr \<Rightarrow> http_parser \<Rightarrow> (parse_status \<times> http_parser) option" where
  "response_status al line p =
     (let vs = scan_status (mp_text (text_of p) line);
          p1 = upd_msg (store_numbers vs) p;
          rest = drop (mstart line) (text_of p)
      in if length vs \<noteq> 3 \<or> major_version (hmsg p1) < 0 \<or> minor_version (hmsg p1) < 0 \<or>
            status_code (hmsg p1) < 0
         then Some (PARSE_FAILURE, p1)
         else do {
           s1 \<leftarrow> skip_int rest;
           s2 \<leftarrow> skip_int s1;
           s3 \<leftarrow> skip_int s2;
           if \<not> (s3 \<noteq> [] \<and> is_blank (hd s3)) then Some (PARSE_FAILURE, p1)
           else do {
             let s = dropWhile is_blank s3;
             let n = of_nat (msize line) - of_nat (length rest - length s);
             (rc, mb) \<leftarrow> membuffer_assign al (status_msg (hmsg p1)) (Some s) n;
             let p2 = upd_msg (\<lambda>m. m\<lparr>status_msg := mb\<rparr>) p1;
             Some (if rc \<noteq> 0 then fail_with HTTP_INTERNAL_SERVER_ERROR p2
                   else (PARSE_OK, p2\<lparr>position := POS_HEADERS\<rparr>))
           }
         })"

definition parser_parse_responseline ::
  "resolver \<Rightarrow> allocator \<Rightarrow> http_parser \<Rightarrow> (parse_status \<times> http_parser) option" where
  "parser_parse_responseline rs al p =
     (case skip_blank_lines (parser_scanner p) of
        (status, sc) \<Rightarrow>
          if status \<noteq> PARSE_OK then Some (status, set_cursor sc p)
          else do {
            (status1, outs, sc1) \<leftarrow> vfmatch rs sc RESPONSE_FMT;
            if status1 \<noteq> PARSE_OK then Some (status1, set_cursor sc1 p)
            else (case outs of
                    [Out_str line] \<Rightarrow> response_status al line (set_cursor sc1 p)
                  | _ \<Rightarrow> None)
          })"

subsection \<open>Headers\<close>

definition new_header ::
  "allocator \<Rightarrow> char list \<Rightarrow> int \<Rightarrow> char list \<Rightarrow> http_parser \<Rightarrow> (bool \<times> http_parser) option" where
  "new_header al name hid v p =
     (let failed = p\<lparr>http_error_code := HTTP_INTERNAL_SERVER_ERROR\<rparr>;
          v1 = (if v = [] then [CHR 0x00] else v)
      in if \<not> can_alloc al HEADER_SIZE then Some (False, failed)
         else do {
           (rc1, nb) \<leftarrow> membuffer_assign al blank_mb (Some name) (of_nat (length name));
           if rc1 \<noteq> 0 then Some (False, failed)
           else do {
             (rc2, vb) \<leftarrow> membuffer_assign al blank_mb (Some v1) (of_nat (length v1));
             if rc2 \<noteq> 0 then Some (False, failed)
             else
               (case ListAddTail (headers (hmsg p)) (Some \<lparr>name_buf = nb, name_id = hid, hvalue = vb\<rparr>) of
                  (nd, l) \<Rightarrow>
                    Some (nd \<noteq> Null,
                          upd_msg (\<lambda>m. m\<lparr>headers := l\<rparr>) (if nd = Null then failed else p)))
           }
         })"

definition append_header ::
  "allocator \<Rightarrow> addr \<Rightarrow> char list \<Rightarrow> http_parser \<Rightarrow> (bool \<times> http_parser) option" where
  "append_header al nd v p =
     do {
       h \<leftarrow> item (node (headers (hmsg p)) nd);
       (ret, vb1) \<leftarrow> membuffer_append_str al (hvalue h) ('', '' @ [CHR 0x00]);
       (ret2, vb2) \<leftarrow> membuffer_append al vb1 (Some v) (of_nat (length v));
       let p1 = put_header nd (h\<lparr>hvalue := vb2\<rparr>) p;
       Some (if ret = UPNP_E_OUTOF_MEMORY \<or> ret2 = UPNP_E_OUTOF_MEMORY
             then (False, p1\<lparr>http_error_code := HTTP_INTERNAL_SERVER_ERROR\<rparr>) else (True, p1))
     }"

text \<open>What \<open>parser_parse_headers\<close> does with one header; the result tells whether to go on.\<close>

definition add_header ::
  "allocator \<Rightarrow> char list \<Rightarrow> char list \<Rightarrow> http_parser \<Rightarrow> (bool \<times> http_parser) option" where
  "add_header al name v p =
     (let index = map_str_to_int name Http_Header_Names False;
          hid = (if index \<noteq> -1 then snd (Http_Header_Names ! nat index) else HDR_UNKNOWN);
          p1 = (if index \<noteq> -1 \<and> hid = HDR_SOAPACTION
                then upd_msg (\<lambda>m. m\<lparr>hmethod := SOAPMETHOD_POST\<rparr>) p else p)
      in do {
        orig \<leftarrow> (if index \<noteq> -1 then httpmsg_find_hdr (hmsg p1) hid
                 else httpmsg_find_hdr_str (hmsg p1) name);
        if orig = Null then new_header al name hid v p1
        else if v \<noteq> [] then append_header al orig v p1
        else Some (True, p1)
      })"

partial_function (option) parser_parse_headers ::
  "resolver \<Rightarrow> allocator \<Rightarrow> http_parser \<Rightarrow> (parse_status \<times> http_parser) option" where
  "parser_parse_headers rs al p =
     (case scanner_get_token (parser_scanner p) of
        Inl status \<Rightarrow> Some (status, p)
      | Inr (token, tok_type, sc) \<Rightarrow>
          if tok_type = TT_CRLF
          then Some (if is_request (hmsg p) \<and> hmethod (hmsg p) = HTTPMETHOD_POST
                     then (PARSE_SUCCESS, set_cursor sc p\<lparr>position := POS_COMPLETE\<rparr>)
                     else (PARSE_OK, set_cursor sc p\<lparr>position := POS_ENTITY\<rparr>))
          else if tok_type \<noteq> TT_IDENTIFIER then Some (PARSE_FAILURE, set_cursor sc p)
          else do {
            (status, outs, sc1) \<leftarrow> vfmatch rs sc HEADER_FMT;
            if status \<noteq> PARSE_OK then Some (status, p)
            else
              (case outs of
                 [Out_str hdr_value] \<Rightarrow>
                   do {
                     (ok, p1) \<leftarrow> add_header al (mp_text (text_of p) token)
                                   (mp_text (text_of p) hdr_value) (set_cursor sc1 p);
                     if ok then parser_parse_headers rs al p1 else Some (PARSE_FAILURE, p1)
                   }
               | _ \<Rightarrow> None)
          })"

subsection \<open>Entity\<close>

definition parser_parse_entity_using_clen :: "http_parser \<Rightarrow> (parse_status \<times> http_parser) option" where
  "parser_parse_entity_using_clen p =
     (let m = hmsg p;
          len = mlength (msgbuf m) - entity_start_position p + amount_discarded m;
          clen = ucast (content_length p) :: size_t;
          p1 = upd_msg (\<lambda>m. m\<lparr>ent_length := len\<rparr>) p
      in if len < clen then Some (PARSE_INCOMPLETE, p1)
         else do {
           mb \<leftarrow> (if len > clen
                   then do {
                     mem \<leftarrow> buf (msgbuf m);
                     mem' \<leftarrow> poke (unat (entity_start_position p + clen - amount_discarded m)) [CHR 0x00] mem;
                     Some ((msgbuf m)\<lparr>buf := Some mem'\<rparr>)
                   }
                   else Some (msgbuf m));
           Some (PARSE_SUCCESS,
                 (upd_msg (\<lambda>m. m\<lparr>msgbuf := mb, ent_length := clen,
                                 ent_buf := Some (unat (entity_start_position p))\<rparr>) p1)
                   \<lparr>position := POS_COMPLETE\<rparr>)
         })"

text \<open>Cutting out of the message what lies between \<open>save_pos\<close> and the cursor.\<close>

definition cut :: "allocator \<Rightarrow> nat \<Rightarrow> http_parser \<Rightarrow> http_parser option" where
  "cut al save_pos p =
     do {
       mb \<leftarrow> membuffer_delete al (msgbuf (hmsg p)) (of_nat save_pos) (of_nat (scan_pos p - save_pos));
       Some (upd_msg (\<lambda>m. m\<lparr>msgbuf := mb\<rparr>) (p\<lparr>scan_pos := save_pos\<rparr>))
     }"

definition parser_parse_chunky_body ::
  "resolver \<Rightarrow> allocator \<Rightarrow> http_parser \<Rightarrow> (parse_status \<times> http_parser) option" where
  "parser_parse_chunky_body rs al p =
     (if mlength (msgbuf (hmsg p)) - of_nat (scan_pos p) \<ge> chunk_size p
      then do {
        let save_pos = scan_pos p + unat (chunk_size p);
        (status, _, sc) \<leftarrow> vfmatch rs (parser_scanner (p\<lparr>scan_pos := save_pos\<rparr>)) ''%c'';
        if status \<noteq> PARSE_OK then Some (status, p)
        else do {
          p1 \<leftarrow> cut al save_pos (set_cursor sc p);
          Some (PARSE_CONTINUE_1,
                (upd_msg (\<lambda>m. m\<lparr>ent_length := ent_length m + chunk_size p\<rparr>) p1)
                  \<lparr>ent_position := ENTREAD_USING_CHUNKED\<rparr>)
        }
      }
      else Some (PARSE_INCOMPLETE, p))"

definition parser_parse_chunky_headers ::
  "resolver \<Rightarrow> allocator \<Rightarrow> http_parser \<Rightarrow> (parse_status \<times> http_parser) option" where
  "parser_parse_chunky_headers rs al p =
     do {
       (status, p1) \<leftarrow> parser_parse_headers rs al p;
       if status = PARSE_OK
       then do {
         p2 \<leftarrow> cut al (scan_pos p) (p1\<lparr>position := POS_COMPLETE\<rparr>);
         Some (PARSE_SUCCESS,
               upd_msg (\<lambda>m. m\<lparr>ent_buf := Some (unat (entity_start_position p2))\<rparr>) p2)
       }
       else Some (status, p1)
     }"

text \<open>
  \<open>&parser->chunk_size\<close>, a \<open>size_t *\<close>, is passed for the \<open>int *\<close> of \<open>%x\<close>: the lower 32 bits
  are written, the upper ones stay zero.
\<close>

definition parser_parse_chunky_entity ::
  "resolver \<Rightarrow> allocator \<Rightarrow> http_parser \<Rightarrow> (parse_status \<times> http_parser) option" where
  "parser_parse_chunky_entity rs al p =
     do {
       (status, outs, sc) \<leftarrow> vfmatch rs (parser_scanner p) ''%x%L%c'';
       if status \<noteq> PARSE_OK then Some (status, p)
       else
         (case outs of
            [Out_int n, Out_str dummy] \<Rightarrow>
              do {
                p1 \<leftarrow> cut al (scan_pos p) (set_cursor sc p);
                let p2 = p1\<lparr>chunk_size := ucast (word_of_int n :: 32 word)\<rparr>;
                Some (PARSE_CONTINUE_1,
                      if chunk_size p2 = 0
                      then (upd_msg (\<lambda>m. m\<lparr>ent_length := of_nat (scan_pos p2) - entity_start_position p2
                                                        + amount_discarded m\<rparr>) p2)
                             \<lparr>ent_position := ENTREAD_CHUNKY_HEADERS\<rparr>
                      else p2\<lparr>ent_position := ENTREAD_CHUNKY_BODY\<rparr>)
              }
          | _ \<Rightarrow> None)
     }"

definition parser_parse_entity_until_close :: "http_parser \<Rightarrow> parse_status \<times> http_parser" where
  "parser_parse_entity_until_close p =
     (let len = mlength (msgbuf (hmsg p))
      in (PARSE_INCOMPLETE_ENTITY,
          (upd_msg (\<lambda>m. m\<lparr>ent_length := len - entity_start_position p + amount_discarded m,
                          ent_buf := Some (unat (entity_start_position p))\<rparr>) p)
            \<lparr>scan_pos := unat len\<rparr>))"

text \<open>Whether the message has no body, and the raw value of a header as memory and length.\<close>

definition no_body :: "http_message \<Rightarrow> bool" where
  "no_body m \<longleftrightarrow>
     (if is_request m
      then hmethod m \<in> {HTTPMETHOD_HEAD, HTTPMETHOD_GET, HTTPMETHOD_SUBSCRIBE, HTTPMETHOD_UNSUBSCRIBE,
                        HTTPMETHOD_MSEARCH}
      else status_code m = 204 \<or> status_code m = 304 \<or> (status_code m \<ge> 100 \<and> status_code m \<le> 199) \<or>
           request_method m \<in> {HTTPMETHOD_HEAD, HTTPMETHOD_MSEARCH, HTTPMETHOD_SUBSCRIBE,
                               HTTPMETHOD_UNSUBSCRIBE, HTTPMETHOD_NOTIFY})"

text \<open>
  Looking for \<open>chunked\<close> in the transfer encoding, which lowers the value in place.
\<close>

definition is_chunked :: "http_parser \<Rightarrow> (bool \<times> http_parser) option" where
  "is_chunked p =
     do {
       nd \<leftarrow> httpmsg_find_hdr (hmsg p) HDR_TRANSFER_ENCODING;
       if nd = Null then Some (False, p)
       else do {
         h \<leftarrow> item (node (headers (hmsg p)) nd);
         mem \<leftarrow> buf (hvalue h);
         (i, mem') \<leftarrow> raw_find_str mem (unat (mlength (hvalue h))) ''chunked'';
         Some (i \<ge> 0, put_header nd (h\<lparr>hvalue := (hvalue h)\<lparr>buf := Some mem'\<rparr>\<rparr>) p)
       }
     }"

definition clen_header :: "http_parser \<Rightarrow> (int option) option" where
  "clen_header p =
     do {
       nd \<leftarrow> httpmsg_find_hdr (hmsg p) HDR_CONTENT_LENGTH;
       if nd = Null then Some None
       else do {
         h \<leftarrow> item (node (headers (hmsg p)) nd);
         mem \<leftarrow> buf (hvalue h);
         Some (Some (raw_to_int mem (unat (mlength (hvalue h))) 10))
       }
     }"

definition parser_get_entity_read_method :: "http_parser \<Rightarrow> (parse_status \<times> http_parser) option" where
  "parser_get_entity_read_method p0 =
     (let p = (upd_msg (\<lambda>m. m\<lparr>ent_buf := Some (scan_pos p0), ent_length := 0\<rparr>) p0)
                \<lparr>entity_start_position := of_nat (scan_pos p0)\<rparr>
      in if no_body (hmsg p) then Some (PARSE_SUCCESS, p\<lparr>position := POS_COMPLETE\<rparr>)
         else do {
           (chunked, p1) \<leftarrow> is_chunked p;
           if chunked then Some (PARSE_CONTINUE_1, p1\<lparr>ent_position := ENTREAD_USING_CHUNKED\<rparr>)
           else do {
             clen \<leftarrow> clen_header p1;
             Some (case clen of
                     Some n \<Rightarrow>
                       (PARSE_CONTINUE_1,
                        p1\<lparr>content_length := word_of_int n, ent_position := ENTREAD_USING_CLEN\<rparr>)
                   | None \<Rightarrow>
                       if is_request (hmsg p1)
                       then fail_with HTTP_LENGTH_REQUIRED
                              (if hmethod (hmsg p1) = HTTPMETHOD_NOTIFY
                               then p1\<lparr>valid_ssdp_notify_hack := True\<rparr> else p1)
                       else (PARSE_CONTINUE_1, p1\<lparr>ent_position := ENTREAD_UNTIL_CLOSE\<rparr>))
           }
         })"

definition entity_step ::
  "resolver \<Rightarrow> allocator \<Rightarrow> http_parser \<Rightarrow> (parse_status \<times> http_parser) option" where
  "entity_step rs al p =
     (case ent_position p of
        ENTREAD_USING_CLEN \<Rightarrow> parser_parse_entity_using_clen p
      | ENTREAD_USING_CHUNKED \<Rightarrow> parser_parse_chunky_entity rs al p
      | ENTREAD_CHUNKY_BODY \<Rightarrow> parser_parse_chunky_body rs al p
      | ENTREAD_CHUNKY_HEADERS \<Rightarrow> parser_parse_chunky_headers rs al p
      | ENTREAD_UNTIL_CLOSE \<Rightarrow> Some (parser_parse_entity_until_close p)
      | ENTREAD_DETERMINE_READ_METHOD \<Rightarrow> parser_get_entity_read_method p)"

partial_function (option) parser_parse_entity ::
  "resolver \<Rightarrow> allocator \<Rightarrow> http_parser \<Rightarrow> (parse_status \<times> http_parser) option" where
  "parser_parse_entity rs al p =
     do {
       (status, p1) \<leftarrow> entity_step rs al p;
       if status = PARSE_CONTINUE_1 then parser_parse_entity rs al p1 else Some (status, p1)
     }"

subsection \<open>The parser\<close>

definition parse_step ::
  "resolver \<Rightarrow> allocator \<Rightarrow> http_parser \<Rightarrow> (parse_status \<times> http_parser) option" where
  "parse_step rs al p =
     (case position p of
        POS_ENTITY \<Rightarrow> parser_parse_entity rs al p
      | POS_HEADERS \<Rightarrow> parser_parse_headers rs al p
      | POS_REQUEST_LINE \<Rightarrow> parser_parse_requestline rs al p
      | POS_RESPONSE_LINE \<Rightarrow> parser_parse_responseline rs al p
      | POS_COMPLETE \<Rightarrow> Some (PARSE_FAILURE, p))"

partial_function (option) parser_parse ::
  "resolver \<Rightarrow> allocator \<Rightarrow> http_parser \<Rightarrow> (parse_status \<times> http_parser) option" where
  "parser_parse rs al p =
     do {
       (status, p1) \<leftarrow> parse_step rs al p;
       if status = PARSE_OK then parser_parse rs al p1 else Some (status, p1)
     }"

definition parser_append ::
  "resolver \<Rightarrow> allocator \<Rightarrow> char list \<Rightarrow> http_parser \<Rightarrow> (parse_status \<times> http_parser) option" where
  "parser_append rs al bytes p =
     do {
       (rc, mb) \<leftarrow> membuffer_append al (msgbuf (hmsg p)) (Some bytes) (of_nat (length bytes));
       let p1 = upd_msg (\<lambda>m. m\<lparr>msgbuf := mb\<rparr>) p;
       if rc \<noteq> 0 then Some (fail_with HTTP_INTERNAL_SERVER_ERROR p1) else parser_parse rs al p1
     }"

declare find_str_loop.simps [code] parser_parse_headers.simps [code] parser_parse_entity.simps [code]
  parser_parse.simps [code]

end
