(* ===== verification/HttpInvariant.thy ===== *)
theory HttpInvariant
  imports HttpResume UriProperties
begin

text \<open>
  The invariant of the parser of \<open>httpparser.c\<close> between two calls (\<open>parser_ok\<close>), for allocations that
  may fail at any time; that adding a header keeps it, and the statuses the scanner can report.
\<close>

subsection \<open>Buffers of a realistic size\<close>

text \<open>
  No block is larger than \<open>2 ^ 62\<close> bytes, which is beyond the address space of every 64-bit
  machine; then no size computed by the parser overflows.
\<close>

definition LIMIT :: nat where "LIMIT = 2 ^ 62"

definition bounded_alloc :: "allocator \<Rightarrow> bool" where
  "bounded_alloc al \<longleftrightarrow> (\<forall>n. can_alloc al n \<longrightarrow> n \<le> LIMIT)"

definition small :: "membuffer \<Rightarrow> bool" where
  "small m \<longleftrightarrow> size_inc m = MEMBUF_DEF_SIZE_INC \<and> (\<forall>mem. buf m = Some mem \<longrightarrow> length mem \<le> LIMIT)"

definition fit :: "membuffer \<Rightarrow> bool" where
  "fit m \<longleftrightarrow> mb_ok m \<and> small m"

lemma fit_capacity: "fit m \<Longrightarrow> unat (capacity m) \<le> LIMIT"
  by (auto simp: fit_def small_def mb_ok_def split: option.splits)

lemma fit_length: "fit m \<Longrightarrow> length (contents m) \<le> LIMIT"
  using fit_capacity [of m] contents_length [of m]
  by (auto simp: fit_def mb_ok_def word_le_nat_alt split: option.splits)

lemma fit_room: "fit m \<Longrightarrow> n \<le> LIMIT \<Longrightarrow> room m n"
  using fit_capacity [of m] by (simp add: room_def fit_def small_def MEMBUF_DEF_SIZE_INC_def LIMIT_def)

lemma realloc_small: "bounded_alloc al \<Longrightarrow> realloc al p n = Some mem \<Longrightarrow> length mem \<le> LIMIT"
  using realloc_length [of al p n mem] by (auto simp: bounded_alloc_def realloc_def Let_def split: if_splits)

lemma set_size_small:
  "bounded_alloc al \<Longrightarrow> small m \<Longrightarrow> membuffer_set_size al m n = (rc, m') \<Longrightarrow> small m'"
  by (auto simp: membuffer_set_size_def small_def Let_def dest: realloc_small
      split: if_split_asm option.split_asm)

lemma poke_length: "poke i bs m = Some m' \<Longrightarrow> length m' = length m"
  by (auto simp: poke_def split: if_splits)

lemma memmove_length: "memmove d s n m = Some m' \<Longrightarrow> length m' = length m"
  by (auto simp: memmove_def dest: poke_length split: if_splits Option.bind_split_asm)

lemma small_buf: "small m \<Longrightarrow> buf m = Some mem \<Longrightarrow> length mem' = length mem \<Longrightarrow> small (m\<lparr>buf := Some mem'\<rparr>)"
  by (simp add: small_def)

lemma small_length [simp]: "small (m\<lparr>mlength := n\<rparr>) = small m" "small (m\<lparr>buf := b, mlength := n\<rparr>) = small (m\<lparr>buf := b\<rparr>)"
  by (simp_all add: small_def)

lemma insert_small:
  assumes "bounded_alloc al" and "small m" and "membuffer_insert al m src n ix = Some (rc, m')"
  shows "small m'"
proof (cases "src = None \<or> n = 0 \<or> ix > mlength m")
  case True
  with assms show ?thesis by (cases src) (auto simp: membuffer_insert_def split: if_splits)
next
  case False
  then obtain bytes where src: "src = Some bytes" by (cases src) auto
  obtain rc1 m1 where e: "membuffer_set_size al m (mlength m + n) = (rc1, m1)" by fastforce
  note s = set_size_small [OF assms(1,2) e]
  show ?thesis
    using assms(3) False src e s
    by (auto simp: membuffer_insert_def dest!: poke_length memmove_length intro: small_buf
        split: if_splits Option.bind_split_asm)
qed

lemma assign_small:
  assumes "bounded_alloc al" and "small m" and "membuffer_assign al m (Some bytes) n = Some (rc, m')"
  shows "small m'"
proof -
  obtain rc1 m1 where e: "membuffer_set_size al m n = (rc1, m1)" by fastforce
  note s = set_size_small [OF assms(1,2) e]
  show ?thesis
    using assms(3) e s
    by (auto simp: membuffer_assign_def dest!: poke_length intro: small_buf
        split: if_splits Option.bind_split_asm)
qed

lemma delete_small:
  assumes "bounded_alloc al" and "small m" and "membuffer_delete al m ix n = Some m'"
  shows "small m'"
proof (cases "mlength m = 0")
  case True
  with assms show ?thesis by (simp add: membuffer_delete_def)
next
  case False
  have s0: "small m2" if "buf m = Some mem" "memmove a b c mem = Some mem1"
    "membuffer_set_size al (m\<lparr>buf := Some mem1\<rparr>) k = (r, m2)" for mem a b c mem1 k r m2
    using set_size_small [OF assms(1) small_buf [OF assms(2) that(1) memmove_length [OF that(2)]] that(3)] .
  show ?thesis
    using assms(3) False
    by (auto simp: membuffer_delete_def Let_def dest!: poke_length intro: small_buf [OF s0] s0
        split: if_split_asm Option.bind_split_asm prod.split_asm)
qed

text \<open>Deleting in the middle, when the shrinking may fail.\<close>

lemma delete_safe:
  assumes ok: "mb_ok m" and ix: "unat index + unat n \<le> length (contents m)"
  shows "\<exists>m'. membuffer_delete al m index n = Some m' \<and> mb_ok m' \<and>
           unat index \<le> length (contents m') \<and> length (contents m') \<le> length (contents m)"
proof (cases "mlength m = 0")
  case True
  with ok ix show ?thesis by (simp add: membuffer_delete_def)
next
  case False
  let ?l = "unat (mlength m)"
  have len: "length (contents m) = ?l" by (rule contents_length [OF ok])
  from ok False obtain mem where mem: "buf m = Some mem" "length mem = unat (capacity m) + 1"
    "mlength m \<le> capacity m" by (auto simp: mb_ok_def split: option.splits)
  have lc: "?l < length mem" using mem(2,3) by (simp add: word_le_nat_alt)
  have add: "unat (index + n) = unat index + unat n"
    using unat_add_small [of index n] ix len unat_bound [of "mlength m"] by simp
  have np: "\<not> index + n > mlength m" using add ix len by (simp add: word_less_nat_alt)
  have cl: "unat (mlength m - (index + n)) = ?l - (unat index + unat n)"
    using np add by (simp add: unat_sub)
  have nl: "unat (mlength m - n) = ?l - unat n"
    using ix len by (simp add: unat_sub word_le_nat_alt)
  have "memmove (unat index) (unat (index + n)) (unat (mlength m - (index + n))) mem \<noteq> None"
    using ix len lc by (simp add: memmove_def peek_def poke_def cl add del: not_None_eq) arith
  then obtain mem1 where mv: "memmove (unat index) (unat (index + n)) (unat (mlength m - (index + n))) mem = Some mem1"
    by blast
  have ok1: "mb_ok (m\<lparr>buf := Some mem1\<rparr>)" using ok mem(1) memmove_length [OF mv] by (simp add: mb_ok_def)
  obtain rc m2 where e: "membuffer_set_size al (m\<lparr>buf := Some mem1\<rparr>) (mlength m - n) = (rc, m2)" by fastforce
  have s: "rc = 0 \<and> (\<exists>mem2. buf m2 = Some mem2 \<and> length mem2 = unat (capacity m2) + 1 \<and> mlength m - n \<le> capacity m2)
      \<or> rc \<noteq> 0 \<and> m2 = m\<lparr>buf := Some mem1\<rparr>"
  proof (cases "unat n = 0")
    case True
    then have "n = 0" by (simp add: unat_eq_zero)
    then show ?thesis using e mem(2,3) memmove_length [OF mv] by (auto simp: membuffer_set_size_def)
  next
    case False
    then have "mlength m - n < mlength (m\<lparr>buf := Some mem1\<rparr>)" using nl ix len by (simp add: word_less_nat_alt)
    from set_size_shrink [OF ok1 this e] show ?thesis by (auto simp: UPNP_E_OUTOF_MEMORY_def)
  qed
  then show ?thesis
  proof (elim disjE conjE exE)
    fix mem2 assume m2: "rc = 0" "buf m2 = Some mem2" "length mem2 = unat (capacity m2) + 1"
      "mlength m - n \<le> capacity m2"
    then obtain mem3 where p: "poke (unat (mlength m - n)) [CHR 0x00] mem2 = Some mem3"
      by (simp add: poke_def word_le_nat_alt)
    let ?r = "m2\<lparr>buf := Some mem3, mlength := mlength m - n\<rparr>"
    have "mb_ok ?r" using m2(3,4) poke_length [OF p] by (simp add: mb_ok_def)
    moreover have "membuffer_delete al m index n = Some ?r"
      using False mem(1) np mv e m2(1,2) p by (simp add: membuffer_delete_def Let_def)
    ultimately show ?thesis using contents_length [of ?r] len nl ix by simp
  next
    assume "rc \<noteq> 0" "m2 = m\<lparr>buf := Some mem1\<rparr>"
    moreover from this have "membuffer_delete al m index n = Some m2"
      using False mem(1) np mv e by (simp add: membuffer_delete_def Let_def)
    ultimately show ?thesis using ok1 contents_length [OF ok1] len ix by simp
  qed
qed

subsection \<open>The invariant\<close>

definition header_ok :: "http_header \<Rightarrow> bool" where
  "header_ok h \<longleftrightarrow> fit (name_buf h) \<and> fit (hvalue h) \<and> buf (hvalue h) \<noteq> None \<and> terminated (hvalue h)"

definition headers_ok :: "http_header LinkedList \<Rightarrow> bool" where
  "headers_ok l \<longleftrightarrow>
     List_ok l \<and> cmp_func l = Some httpmsg_compare \<and>
     (\<forall>(a, x) \<in> set (entries l). \<exists>h. x = Some h \<and> header_ok h)"

text \<open>
  \<open>parser_ok\<close> says what holds between two calls of the parser: the buffers are well formed, the
  cursor is in the message, the headers are a well-formed list of headers, and once the entity has
  been entered it starts before the cursor; an open chunk is not empty.
\<close>

definition parser_ok :: "http_parser \<Rightarrow> bool" where
  "parser_ok p \<longleftrightarrow>
     fit (msgbuf (hmsg p)) \<and> fit (status_msg (hmsg p)) \<and> scan_pos p \<le> length (text_of p) \<and>
     headers_ok (headers (hmsg p)) \<and> amount_discarded (hmsg p) = 0 \<and>
     (ent_position p \<noteq> ENTREAD_DETERMINE_READ_METHOD \<longrightarrow> unat (entity_start_position p) \<le> scan_pos p) \<and>
     (ent_position p = ENTREAD_CHUNKY_BODY \<longrightarrow> chunk_size p \<noteq> 0)"

text \<open>What the reading of the lines and headers leaves alone.\<close>

definition same_entity :: "http_parser \<Rightarrow> http_parser \<Rightarrow> bool" where
  "same_entity p p' \<longleftrightarrow>
     msgbuf (hmsg p') = msgbuf (hmsg p) \<and> amount_discarded (hmsg p') = amount_discarded (hmsg p) \<and>
     ent_position p' = ent_position p \<and> entity_start_position p' = entity_start_position p \<and>
     chunk_size p' = chunk_size p"

lemma same_entity_refl [simp]: "same_entity p p"
  by (simp add: same_entity_def)

lemma same_entity_trans: "same_entity p q \<Longrightarrow> same_entity q r \<Longrightarrow> same_entity p r"
  by (simp add: same_entity_def)

lemma same_entity_text: "same_entity p p' \<Longrightarrow> text_of p' = text_of p"
  by (simp add: same_entity_def text_of_def)

lemma parser_ok_same:
  assumes "parser_ok p" and "same_entity p p'" and "scan_pos p \<le> scan_pos p'"
    and "scan_pos p' \<le> length (text_of p)" and "fit (status_msg (hmsg p'))" and "headers_ok (headers (hmsg p'))"
  shows "parser_ok p'"
  using assms same_entity_text [OF assms(2)] by (auto simp: parser_ok_def same_entity_def)

lemma parser_ok_scanner: "parser_ok p \<Longrightarrow> scanner_ok (parser_scanner p)"
  by (simp add: parser_ok_def scanner_ok_def)

lemma text_limit: "parser_ok p \<Longrightarrow> length (text_of p) \<le> LIMIT"
  by (simp add: parser_ok_def text_of_def fit_length)

subsection \<open>The header list\<close>

lemma set_item_links [simp]:
  "next (node (set_item a x l) b) = next (node l b)" "prev (node (set_item a x l) b) = prev (node l b)"
  "lsize (set_item a x l) = lsize l" "freeNodeList (set_item a x l) = freeNodeList l"
  "cmp_func (set_item a x l) = cmp_func l"
  "item (node (set_item a x l) b) = (if b = a then Some x else item (node l b))"
  by (simp_all add: set_item_def)

lemma set_item_entries:
  assumes "List_ok l"
  shows "List_ok (set_item (Blk a) x l)"
    and "entries (set_item (Blk a) x l) = map (\<lambda>(b, y). (b, if b = a then Some x else y)) (entries l)"
proof -
  from assms obtain ns where d: "dll l ns" by (rule List_okE)
  have "linked (node (set_item (Blk a) x l)) (full ns) = linked (node l) (full ns)"
    by (rule linked_cong) simp_all
  with d have d': "dll (set_item (Blk a) x l) ns" by (simp add: dll_def)
  then show "List_ok (set_item (Blk a) x l)" by (rule dll_ok)
  show "entries (set_item (Blk a) x l) = map (\<lambda>(b, y). (b, if b = a then Some x else y)) (entries l)"
    by (simp add: dll_entries [OF d] dll_entries [OF d'])
qed

lemma headers_ok_set:
  assumes "headers_ok l" and "header_ok h"
  shows "headers_ok (set_item (Blk a) h l)"
  using assms set_item_entries [of l a h] by (force simp: headers_ok_def)

definition found :: "http_header LinkedList \<Rightarrow> addr \<Rightarrow> bool" where
  "found l nd \<longleftrightarrow> nd = Null \<or> (\<exists>a h. nd = Blk a \<and> item (node l nd) = Some h \<and> header_ok h)"

lemma found_first:
  assumes "headers_ok l" and "set es \<subseteq> set (entries l)"
  shows "found l (first_addr es)"
proof (cases es)
  case Nil
  then show ?thesis by (simp add: found_def)
next
  case (Cons e es')
  obtain a x where e: "e = (a, x)" by (cases e)
  with Cons assms have "(a, x) \<in> set (entries l)" by auto
  with assms(1) obtain h where "x = Some h" "header_ok h" by (auto simp: headers_ok_def)
  moreover have "item (node l (Blk a)) = x"
    using item_entries [OF _ \<open>(a, x) \<in> set (entries l)\<close>] assms(1) by (simp add: headers_ok_def)
  ultimately show ?thesis using Cons e by (simp add: found_def)
qed

lemma find_hdr_safe:
  assumes "headers_ok (headers m)"
  shows "\<exists>nd. httpmsg_find_hdr m k = Some nd \<and> found (headers m) nd"
proof -
  have ok: "List_ok (headers m)" using assms by (simp add: headers_ok_def)
  show ?thesis
    unfolding httpmsg_find_hdr_def ListFind_entries [OF ok]
    using found_first [OF assms] by (auto intro: dest: set_dropWhileD)
qed

lemma find_str_loop_safe:
  assumes "headers_ok l" and "entries l = es @ fs"
  shows "\<exists>nd. find_str_loop l s (first_addr fs) = Some nd \<and> found l nd"
  using assms
proof (induction fs arbitrary: es)
  case Nil
  then show ?case by (simp add: find_str_loop.simps found_def)
next
  case (Cons f fs)
  obtain a x where f: "f = (a, x)" by (cases f)
  have fd: "found l (first_addr (f # fs))" using found_first [OF Cons.prems(1), of "f # fs"] Cons.prems(2) by auto
  then obtain h where h: "item (node l (Blk a)) = Some h" by (auto simp: found_def f)
  have "ListNext l (Blk a) = first_addr fs"
    using ListNext_entries [of l es a x fs] Cons.prems f by (simp add: headers_ok_def)
  moreover obtain nd where "find_str_loop l s (first_addr fs) = Some nd" "found l nd"
    using Cons.IH [of "es @ [f]"] Cons.prems by auto
  ultimately show ?case using h fd f by (auto simp: find_str_loop.simps [of l s "Blk a"])
qed

lemma find_hdr_str_safe:
  assumes "headers_ok (headers m)"
  shows "\<exists>nd. httpmsg_find_hdr_str m s = Some nd \<and> found (headers m) nd"
  using find_str_loop_safe [OF assms, of "[]" "entries (headers m)" s] ListHead_entries [of "headers m"] assms
  by (simp add: httpmsg_find_hdr_str_def headers_ok_def)

subsection \<open>Adding headers\<close>

lemma blank_fit: "fit blank_mb"
  by (simp add: fit_def mb_ok_def small_def blank_mb_def)

lemma assign_safe:
  assumes "bounded_alloc al" and "fit m" and "length bytes \<le> LIMIT"
  shows "\<exists>rc m'. membuffer_assign al m (Some bytes) (of_nat (length bytes)) = Some (rc, m') \<and> fit m' \<and>
           (rc = 0 \<longrightarrow> contents m' = bytes \<and> (bytes \<noteq> [] \<longrightarrow> terminated m'))"
proof -
  have ok: "mb_ok m" and rm: "room m (length bytes)"
    using assms fit_room [of m "length bytes"] by (simp_all add: fit_def)
  from membuffer_assign_result [OF ok rm, where al = al] obtain rc m' where
    e: "membuffer_assign al m (Some bytes) (of_nat (length bytes)) = Some (rc, m')" and
    r: "mb_ok m'" "rc = 0 \<longrightarrow> contents m' = bytes \<and> (bytes \<noteq> [] \<longrightarrow> terminated m')"
    by (auto split: option.splits if_splits)
  moreover have "small m'" using assign_small [OF assms(1) _ e] assms(2) by (simp add: fit_def)
  ultimately show ?thesis by (auto simp: fit_def)
qed

lemma contents_some: "contents m \<noteq> [] \<Longrightarrow> buf m \<noteq> None"
  by (auto simp: contents_def split: option.splits)

lemma append_safe:
  assumes "bounded_alloc al" and "fit m" and "length bytes \<le> LIMIT"
  shows "\<exists>rc m'. membuffer_append al m (Some bytes) (of_nat (length bytes)) = Some (rc, m') \<and> fit m' \<and>
           (buf m \<noteq> None \<longrightarrow> buf m' \<noteq> None) \<and> (terminated m \<longrightarrow> terminated m') \<and>
           contents m' = contents m @ (if rc = 0 then bytes else [])"
proof -
  have ok: "mb_ok m" and rm: "room m (length bytes)"
    using assms fit_room [of m "length bytes"] by (simp_all add: fit_def)
  note res = membuffer_insert_result [OF ok rm, where al = al and index = "mlength m",
      unfolded contents_length [OF ok]]
  then obtain rc m' where
    e: "membuffer_insert al m (Some bytes) (of_nat (length bytes)) (mlength m) = Some (rc, m')"
    by (cases "membuffer_insert al m (Some bytes) (of_nat (length bytes)) (mlength m)") auto
  have r: "mb_ok m'" "(if bytes = [] then rc = 0 \<and> m' = m
      else if rc = 0 then contents m' = contents m @ bytes \<and> terminated m' else m' = m)"
    using res e contents_length [OF ok] by (simp_all split: if_split_asm)
  moreover have "small m'" using insert_small [OF assms(1) _ e] assms(2) by (simp add: fit_def)
  moreover have "(buf m \<noteq> None \<longrightarrow> buf m' \<noteq> None) \<and> (terminated m \<longrightarrow> terminated m') \<and>
      contents m' = contents m @ (if rc = 0 then bytes else [])"
  proof (cases "bytes \<noteq> [] \<and> rc = 0")
    case True
    with r(2) have "contents m' = contents m @ bytes" "terminated m'" by simp_all
    with True contents_some [of m'] show ?thesis by simp
  next
    case False
    with r(2) have "m' = m \<and> (bytes = [] \<or> rc \<noteq> 0)" by (simp split: if_splits)
    then show ?thesis by auto
  qed
  ultimately show ?thesis unfolding membuffer_append_def fit_def using e by blast
qed

lemma append_str_as_append:
  assumes "no_nul s"
  shows "membuffer_append_str al m (s @ [CHR 0x00]) = membuffer_append al m (Some s) (of_nat (length s))"
proof -
  have "takeWhile (\<lambda>c. c \<noteq> CHR 0x00) (s @ [CHR 0x00]) = s"
    using assms by (subst takeWhile_append2) (auto simp: no_nul_def)
  then have l: "strlen (s @ [CHR 0x00]) = of_nat (length s)" by (simp add: strlen_def)
  have "unat (of_nat (length s) :: size_t) \<le> length s"
    by (simp add: unsigned_of_nat take_bit_nat_less_eq_self)
  then have pk: "peek 0 (unat (of_nat (length s) :: size_t)) (s @ [CHR 0x00]) =
      peek 0 (unat (of_nat (length s) :: size_t)) s"
    by (simp add: peek_def)
  show ?thesis
    unfolding membuffer_append_str_def membuffer_append_def membuffer_insert_def option.case l pk ..
qed

lemma new_header_safe:
  assumes al: "bounded_alloc al" and p: "parser_ok p" and "length name \<le> LIMIT" "name \<noteq> []" "length v \<le> LIMIT"
  shows "\<exists>ok p'. new_header al name hid v p = Some (ok, p') \<and> same_entity p p' \<and> scan_pos p' = scan_pos p \<and>
           status_msg (hmsg p') = status_msg (hmsg p) \<and> headers_ok (headers (hmsg p'))"
proof -
  define v1 where "v1 = (if v = [] then [CHR 0x00] else v)"
  have v1: "v1 \<noteq> []" "length v1 \<le> LIMIT" using assms(5) by (auto simp: v1_def LIMIT_def)
  obtain rc1 nb where nb: "membuffer_assign al blank_mb (Some name) (of_nat (length name)) = Some (rc1, nb)" "fit nb"
    using assign_safe [OF al blank_fit assms(3)] by blast
  obtain rc2 vb where vb: "membuffer_assign al blank_mb (Some v1) (of_nat (length v1)) = Some (rc2, vb)" "fit vb"
    "rc2 = 0 \<longrightarrow> contents vb = v1 \<and> terminated vb"
    using assign_safe [OF al blank_fit v1(2)] v1(1) by blast
  let ?h = "\<lparr>name_buf = nb, name_id = hid, hvalue = vb\<rparr>"
  obtain nd l where l: "ListAddTail (headers (hmsg p)) (Some ?h) = (nd, l)"
    by (cases "ListAddTail (headers (hmsg p)) (Some ?h)")
  have hs: "headers_ok (headers (hmsg p))" using p by (simp add: parser_ok_def)
  have "headers_ok l" if "rc2 = 0"
  proof -
    have "header_ok ?h" using nb vb that v1(1) contents_some [of vb] by (simp add: header_ok_def)
    moreover have "cmp_func l = cmp_func (headers (hmsg p))"
      using cmp_func_ops(3) [of "headers (hmsg p)" "Some ?h"] l by simp
    ultimately show ?thesis
      using ListAddBefore_entries [of "headers (hmsg p)" "entries (headers (hmsg p))" "[]" "Some ?h" nd l] l hs
      by (auto simp: headers_ok_def ListAddTail_def)
  qed
  with nb(1) vb(1) l hs show ?thesis
    by (auto simp: new_header_def Let_def v1_def [symmetric] same_entity_def upd_msg_def)
qed

lemma append_header_safe:
  assumes al: "bounded_alloc al" and p: "parser_ok p" and nd: "found (headers (hmsg p)) nd" "nd \<noteq> Null"
    and "length v \<le> LIMIT"
  shows "\<exists>ok p'. append_header al nd v p = Some (ok, p') \<and> same_entity p p' \<and> scan_pos p' = scan_pos p \<and>
           status_msg (hmsg p') = status_msg (hmsg p) \<and> headers_ok (headers (hmsg p'))"
proof -
  obtain a h where h: "nd = Blk a" "item (node (headers (hmsg p)) nd) = Some h" "header_ok h"
    using nd by (auto simp: found_def)
  have hv: "fit (hvalue h)" using h(3) by (simp add: header_ok_def)
  have two: "length '', '' \<le> LIMIT" by (simp add: LIMIT_def)
  obtain r1 vb1 where 1: "membuffer_append al (hvalue h) (Some '', '') (of_nat (length '', '')) = Some (r1, vb1)"
    "fit vb1" "buf (hvalue h) \<noteq> None \<longrightarrow> buf vb1 \<noteq> None" "terminated (hvalue h) \<longrightarrow> terminated vb1"
    using append_safe [OF al hv two] by blast
  obtain r2 vb2 where 2: "membuffer_append al vb1 (Some v) (of_nat (length v)) = Some (r2, vb2)"
    "fit vb2" "buf vb1 \<noteq> None \<longrightarrow> buf vb2 \<noteq> None" "terminated vb1 \<longrightarrow> terminated vb2"
    using append_safe [OF al 1(2) assms(5)] by blast
  have "header_ok (h\<lparr>hvalue := vb2\<rparr>)" using h(3) 1 2 by (simp add: header_ok_def)
  moreover have "headers_ok (headers (hmsg p))" using p by (simp add: parser_ok_def)
  ultimately have "headers_ok (set_item nd (h\<lparr>hvalue := vb2\<rparr>) (headers (hmsg p)))"
    using headers_ok_set h(1) by blast
  with h(2) 1(1) 2(1) append_str_as_append [of "'', ''" al "hvalue h"] show ?thesis
    by (auto simp: append_header_def Let_def put_header_def upd_msg_def same_entity_def)
qed

lemma add_header_safe:
  assumes al: "bounded_alloc al" and p: "parser_ok p" and "length name \<le> LIMIT" "name \<noteq> []" "length v \<le> LIMIT"
  shows "\<exists>ok p'. add_header al name v p = Some (ok, p') \<and> same_entity p p' \<and> scan_pos p' = scan_pos p \<and>
           status_msg (hmsg p') = status_msg (hmsg p) \<and> headers_ok (headers (hmsg p'))"
proof -
  define idx where "idx = map_str_to_int name Http_Header_Names False"
  define hid where "hid = (if idx \<noteq> -1 then snd (Http_Header_Names ! nat idx) else HDR_UNKNOWN)"
  define p1 where "p1 = (if idx \<noteq> -1 \<and> hid = HDR_SOAPACTION
      then upd_msg (\<lambda>m. m\<lparr>hmethod := SOAPMETHOD_POST\<rparr>) p else p)"
  have p1: "same_entity p p1" "scan_pos p1 = scan_pos p" "headers (hmsg p1) = headers (hmsg p)"
    "status_msg (hmsg p1) = status_msg (hmsg p)"
    by (simp_all add: p1_def same_entity_def upd_msg_def)
  have ok1: "parser_ok p1"
    by (rule parser_ok_same [OF p p1(1)]) (use p p1 in \<open>auto simp: parser_ok_def\<close>)
  obtain nd where nd: "(if idx \<noteq> -1 then httpmsg_find_hdr (hmsg p1) hid
      else httpmsg_find_hdr_str (hmsg p1) name) = Some nd" "found (headers (hmsg p1)) nd"
    using find_hdr_safe [of "hmsg p1" hid] find_hdr_str_safe [of "hmsg p1" name] ok1
    by (cases "idx = -1") (auto simp: parser_ok_def)
  have e: "add_header al name v p =
      (if nd = Null then new_header al name hid v p1
       else if v \<noteq> [] then append_header al nd v p1 else Some (True, p1))"
    unfolding add_header_def Let_def idx_def [symmetric] hid_def [symmetric] p1_def [symmetric] nd(1) by simp
  have hs: "headers_ok (headers (hmsg p1))" using ok1 by (simp add: parser_ok_def)
  consider "nd = Null" | "nd \<noteq> Null" "v \<noteq> []" | "nd \<noteq> Null" "v = []" by blast
  then show ?thesis
  proof cases
    case 1
    with new_header_safe [OF al ok1 assms(3-5), of hid] e p1 show ?thesis
      by (auto intro: same_entity_trans)
  next
    case 2
    with append_header_safe [OF al ok1 nd(2) _ assms(5)] e p1 show ?thesis
      by (auto intro: same_entity_trans)
  next
    case 3
    with e p1 hs show ?thesis by auto
  qed
qed

subsection \<open>Statuses\<close>

text \<open>What the scanner and the matcher can report.\<close>

definition scan_result :: "parse_status \<Rightarrow> bool" where
  "scan_result st \<longleftrightarrow> st \<in> {PARSE_OK, PARSE_INCOMPLETE, PARSE_FAILURE, PARSE_NO_MATCH}"

lemma scan_result_simps [simp]:
  "scan_result PARSE_OK" "scan_result PARSE_INCOMPLETE" "scan_result PARSE_FAILURE" "scan_result PARSE_NO_MATCH"
  "scanner_get_token sc = Inl st \<Longrightarrow> scan_result st"
  using get_token_status [of sc st] by (auto simp: scan_result_def)

lemma skip_blank_lines_result: "scanner_ok sc \<Longrightarrow> scan_result (fst (skip_blank_lines sc))"
proof (induction sc rule: scan_induct)
  case (step sc)
  show ?case by (rule token_cases [of sc]) (use step in \<open>auto simp: skip_blank_lines.simps [of sc]\<close>)
qed

lemma after_crlf_result: "after_crlf sc = Inl st \<Longrightarrow> scan_result st"
  by (auto simp: after_crlf_def map_sum_def split: sum.split_asm if_split_asm prod.split_asm)

lemma skip_lws_result: "scanner_ok sc \<Longrightarrow> scan_result (fst (skip_lws sc))"
proof (induction sc rule: scan_induct)
  case (step sc)
  show ?case
  proof (cases "after_crlf sc")
    case (Inl s)
    with after_crlf_result [OF Inl] show ?thesis by (simp add: skip_lws.simps [of sc])
  next
    case (Inr x)
    obtain ty sc1 where x: "x = (ty, sc1)" by (cases x)
    have a: "advances sc sc1" "cursor sc < cursor sc1"
      using after_crlf_progress [OF Inr [unfolded x]] by (simp_all add: advances_def)
    from step.IH [OF a advances_ok [OF a(1)]] Inr x show ?thesis by (simp add: skip_lws.simps [of sc])
  qed
qed

lemma non_ws_loop_result: "scanner_ok sc \<Longrightarrow> scan_result (fst (non_ws_loop sc len))"
proof (induction sc arbitrary: len rule: scan_induct)
  case (step sc)
  show ?case by (rule token_cases [of sc]) (use step in \<open>auto simp: non_ws_loop.simps [of sc]\<close>)
qed

lemma raw_loop_result: "scanner_ok sc \<Longrightarrow> scan_result (fst (raw_loop sc len crlf))"
proof (induction sc arbitrary: len crlf rule: scan_induct)
  case (step sc)
  show ?case
    by (rule token_cases [of sc]) (use step in \<open>auto simp: raw_loop.simps [of sc] split: option.split\<close>)
qed

lemma until_crlf_result: "scanner_ok sc \<Longrightarrow> scan_result (fst (until_crlf_loop sc))"
proof (induction sc rule: scan_induct)
  case (step sc)
  show ?case by (rule token_cases [of sc]) (use step in \<open>auto simp: until_crlf_loop.simps [of sc]\<close>)
qed

lemma expect_token_result: "scan_result (fst (expect_token ty sc))"
  by (auto simp: expect_token_def split: sum.split)

lemma vf_percent_result:
  assumes ok: "scanner_ok sc" and "vf_percent rs c cs sc = Some (cs', st, os, sc')"
  shows "scan_result st"
proof -
  define good where "good x \<longleftrightarrow> (\<forall>cs' r. x = Some (cs' :: bool, r :: parse_status \<times> match_out list \<times> scanner) \<longrightarrow> scan_result (fst r))" for x
  have if_: "(P \<Longrightarrow> good x) \<Longrightarrow> (\<not> P \<Longrightarrow> good y) \<Longrightarrow> good (if P then x else y)" for P x y by simp
  have some: "scan_result (fst r) \<Longrightarrow> good (Some (cs', r))" for cs' r by (cases r) (simp add: good_def)
  have 1: "scan_result (fst (out_str (match_raw_value sc)))"
    using raw_loop_result [OF ok, of 0 None]
    by (auto simp: out_str_def match_raw_value_def split: prod.splits)
  have nw: "scan_result (fst (match_non_ws_string sc))"
    using non_ws_loop_result [OF ok, of 0] by (auto simp: match_non_ws_string_def Let_def split: prod.splits)
  then have 2: "scan_result (fst (out_str (match_non_ws_string sc)))" by (auto simp: out_str_def split: prod.splits)
  have 3: "scan_result (fst (out_str (read_until_crlf sc)))"
    using until_crlf_result [OF ok] by (auto simp: out_str_def read_until_crlf_def split: prod.splits)
  have 4: "scan_result (fst (no_out (match_char c cs sc)))"
    by (auto simp: no_out_def match_char_def Let_def split: prod.splits)
  have 5: "scan_result (fst (no_out (optional_ws sc)))"
    by (auto simp: no_out_def optional_ws_def split: prod.splits sum.splits)
  have 6: "scan_result (fst (case expect_token TT_CRLF sc of (status, _, sc') \<Rightarrow> (status, [] :: match_out list, sc')))"
    using expect_token_result [of TT_CRLF sc] by (auto split: prod.splits)
  have 7: "scan_result (fst (case match_int b sc of (status, i, sc') \<Rightarrow> (status, [Out_int i], sc')))" for b
    by (auto simp: match_int_def split: prod.splits sum.splits option.splits)
  have uri: "good (map_option (\<lambda>r. (cs', r)) (match_uri rs blank_uri sc))" for cs'
    using nw by (auto simp: good_def match_uri_def split: prod.splits Option.bind_split_asm if_splits)
  have "good (vf_percent rs c cs sc)"
    unfolding vf_percent_def by (intro if_ some 1 2 3 4 5 6 7 uri expect_token_result) simp_all
  with assms(2) show ?thesis by (auto simp: good_def)
qed

lemma vf_literal_result: "scanner_ok sc \<Longrightarrow> scan_result (fst (vf_literal c cs sc))"
  using skip_lws_result [of sc] expect_token_result [of TT_WHITESPACE sc]
  by (auto simp: vf_literal_def match_char_def Let_def split: prod.splits)

lemma vf_loop_result:
  "scanner_ok sc \<Longrightarrow> vf_loop rs fmt cs sc os = Some (st, outs, sc') \<Longrightarrow> scan_result st"
proof (induction rs fmt cs sc os rule: vf_loop.induct [case_names nil char])
  case (char rs c fmt cs sc os)
  show ?case
  proof (cases "c = CHR ''%''")
    case True
    with char.prems obtain d fmt' where f: "fmt = d # fmt'" by (cases fmt) auto
    with True char.prems obtain cs1 st1 os1 sc1 where p: "vf_percent rs d cs sc = Some (cs1, st1, os1, sc1)"
      by (auto split: option.splits)
    have a: "advances sc sc1" using vf_percent_ok [OF char.prems(1) p] by (simp add: match_ok_def)
    from char.IH(1) [OF True f p refl refl refl _ advances_ok [OF a]] vf_percent_result [OF char.prems(1) p]
      char.prems(2) True f p
    show ?thesis by (auto split: if_split_asm)
  next
    case False
    obtain st1 sc1 where p: "vf_literal c cs sc = (st1, sc1)" by (cases "vf_literal c cs sc")
    note a = vf_literal_advances [OF char.prems(1) p]
    from char.IH(2) [OF False p [symmetric] _ advances_ok [OF a]] vf_literal_result [OF char.prems(1), of c cs]
      char.prems(2) False p
    show ?thesis by (auto split: if_split_asm)
  qed
qed simp

lemma vfmatch_result: "scanner_ok sc \<Longrightarrow> vfmatch rs sc fmt = Some (st, outs, sc') \<Longrightarrow> scan_result st"
  by (auto simp: vfmatch_def dest: vf_loop_result)

end
