(* ===== verification/HttpSafety.thy ===== *)
theory HttpSafety
  imports HttpInvariant
begin

text \<open>
  The parser of \<open>httpparser.c\<close> is memory safe and ends on every input: every operation keeps the
  invariant, and under it none of them leaves its buffers, follows a NULL pointer or loops.
\<close>

subsection \<open>Lines and headers\<close>

text \<open>What a call of the line and header parsers promises about its result \<open>r\<close>.\<close>

definition line_result :: "http_parser \<Rightarrow> (parse_status \<times> http_parser) option \<Rightarrow> bool" where
  "line_result p r \<longleftrightarrow>
     (\<exists>st p'. r = Some (st, p') \<and> parser_ok p' \<and> same_entity p p' \<and> scan_pos p \<le> scan_pos p' \<and>
        st \<in> {PARSE_OK, PARSE_SUCCESS, PARSE_INCOMPLETE, PARSE_FAILURE, PARSE_NO_MATCH} \<and>
        (st = PARSE_SUCCESS \<longrightarrow> position p' = POS_COMPLETE))"

lemma line_resultI:
  assumes "parser_ok p" and "same_entity p p'" and "scan_pos p \<le> scan_pos p'"
    and "scan_pos p' \<le> length (text_of p)" and "fit (status_msg (hmsg p'))" and "headers_ok (headers (hmsg p'))"
    and "scan_result st \<or> st = PARSE_SUCCESS \<and> position p' = POS_COMPLETE"
  shows "line_result p (Some (st, p'))"
  using parser_ok_same [OF assms(1-6)] assms(2,3,7) by (auto simp: line_result_def scan_result_def)

lemma line_result_trans:
  "line_result p1 r \<Longrightarrow> same_entity p p1 \<Longrightarrow> scan_pos p \<le> scan_pos p1 \<Longrightarrow> line_result p r"
  by (force simp: line_result_def intro: same_entity_trans)

lemma cursor_moved:
  assumes "parser_ok p" and "advances (parser_scanner p) sc"
  shows "parser_ok (set_cursor sc p)" and "same_entity p (set_cursor sc p)"
    and "scan_pos p \<le> scan_pos (set_cursor sc p)" and "scan_result st \<Longrightarrow> line_result p (Some (st, set_cursor sc p))"
    and "parser_scanner (set_cursor sc p) = sc"
proof -
  show s: "same_entity p (set_cursor sc p)" by (simp add: same_entity_def set_cursor_def)
  show l: "scan_pos p \<le> scan_pos (set_cursor sc p)" using assms(2) by (simp add: advances_def)
  show ok: "parser_ok (set_cursor sc p)"
    by (rule parser_ok_same [OF assms(1) s l])
      (use assms in \<open>auto simp: advances_def parser_ok_def set_cursor_def\<close>)
  show "line_result p (Some (st, set_cursor sc p))" if "scan_result st"
    using ok s l that by (auto simp: line_result_def scan_result_def)
  show "parser_scanner (set_cursor sc p) = sc"
    using assms(2) by (cases sc) (simp add: parser_scanner_def advances_def)
qed

lemma position_kept [simp]:
  "parser_ok (p\<lparr>position := x\<rparr>) = parser_ok p" "same_entity p (q\<lparr>position := x\<rparr>) = same_entity p q"
  "parser_ok (p\<lparr>http_error_code := e\<rparr>) = parser_ok p" "same_entity p (q\<lparr>http_error_code := e\<rparr>) = same_entity p q"
  by (simp_all add: parser_ok_def same_entity_def)

lemma mp_text_length: "length (mp_text t m) \<le> length t"
  by (simp add: mp_text_def)

lemma parser_parse_headers_safe:
  assumes al: "bounded_alloc al" and "parser_ok p"
  shows "line_result p (parser_parse_headers rs al p)"
  using assms(2)
proof (induction p rule: measure_induct_rule [where f = unread])
  case (less p)
  note ok = less.prems
  note s = parser_ok_scanner [OF ok]
  show ?case
  proof (rule token_cases [of "parser_scanner p"])
    fix st assume "scanner_get_token (parser_scanner p) = Inl st"
    with ok show ?thesis
      by (subst parser_parse_headers.simps) (auto simp: line_result_def scan_result_def dest: get_token_status)
  next
    fix t ty sc
    assume t: "scanner_get_token (parser_scanner p) = Inr (t, ty, sc)" "advances (parser_scanner p) sc"
      "cursor (parser_scanner p) < cursor sc" "scanner_ok sc" "mstart t = cursor (parser_scanner p)"
      "msize t = cursor sc - cursor (parser_scanner p)"
    note moved = cursor_moved [OF ok t(2)]
    show ?thesis
    proof (cases "ty = TT_IDENTIFIER")
      case False
      with t(1) moved(1-3) show ?thesis
        by (subst parser_parse_headers.simps) (auto simp: line_result_def)
    next
      case True
      obtain st outs sc1 where v: "vfmatch rs sc HEADER_FMT = Some (st, outs, sc1)"
        using vfmatch_total [OF header_fmt(1)] by blast
      note m = vfmatch_ok [OF t(4) v]
      show ?thesis
      proof (cases "st = PARSE_OK")
        case False
        with t(1) True v ok vfmatch_result [OF t(4) v] show ?thesis
          by (subst parser_parse_headers.simps) (auto simp: line_result_def scan_result_def)
      next
        case st: True
        obtain hv where outs: "outs = [Out_str hv]"
          using v st by (auto simp: vfmatch_def HEADER_FMT_def vf_percent_def vf_literal_def out_str_def
              split: prod.split_asm if_split_asm)
        have a: "advances (parser_scanner p) sc1" using advances_trans [OF t(2)] m by (simp add: match_ok_def)
        note moved1 = cursor_moved [OF ok a]
        have len: "length (mp_text (text_of p) m) \<le> LIMIT" for m
          using mp_text_length [of "text_of p" m] text_limit [OF ok] by simp
        have "mp_text (text_of p) t \<noteq> []" using t by (auto simp: mp_text_def advances_def)
        with add_header_safe [OF al moved1(1) len _ len, of t hv] obtain ok2 p1 where
          h: "add_header al (mp_text (text_of p) t) (mp_text (text_of p) hv) (set_cursor sc1 p) = Some (ok2, p1)"
            "same_entity (set_cursor sc1 p) p1" "scan_pos p1 = cursor sc1"
            "status_msg (hmsg p1) = status_msg (hmsg (set_cursor sc1 p))" "headers_ok (headers (hmsg p1))"
          by auto
        have e: "parser_parse_headers rs al p =
            (if ok2 then parser_parse_headers rs al p1 else Some (PARSE_FAILURE, p1))"
          using t(1) True v st outs h(1) by (subst parser_parse_headers.simps) simp
        have p1: "same_entity p p1" by (rule same_entity_trans [OF moved1(2) h(2)])
        have pos: "scan_pos p < scan_pos p1" "scan_pos p1 \<le> length (text_of p)"
          using h(3) a t(3) m by (simp_all add: advances_def match_ok_def)
        have fs: "fit (status_msg (hmsg p1))" using ok h(4) by (simp add: parser_ok_def set_cursor_def)
        have ok1: "parser_ok p1"
          by (rule parser_ok_same [OF ok p1 _ pos(2) fs h(5)]) (use pos in simp)
        have "unread p1 < unread p" using pos same_entity_text [OF p1] by (simp add: unread_def)
        from line_result_trans [OF less.IH [OF this ok1] p1] pos(1) e p1 ok1 show ?thesis
          by (cases ok2) (auto simp: line_result_def)
      qed
    qed
  qed
qed

subsection \<open>Request line\<close>

lemma str_alloc_ok:
  assumes "n \<le> length s" and "n \<le> LIMIT"
  shows "str_alloc al s (of_nat n) = Some (if can_alloc al (n + 1) then Some (cstr (take n s)) else None)"
proof -
  have n: "unat (of_nat n :: size_t) = n" using assms(2) by (simp add: unat_of_small LIMIT_def)
  have "unat (of_nat n + 1 :: size_t) = n + 1"
    using unat_add_small [of "of_nat n" 1] n assms(2) by (simp add: LIMIT_def)
  then show ?thesis
    using n assms(1) by (auto simp: str_alloc_def realloc_def peek_def poke_def cstr_def)
qed

lemma store_url_safe:
  assumes ok: "parser_ok p" and url: "mstart url + msize url \<le> length (text_of p)"
  shows "\<exists>b p'. store_url rs al url p = Some (b, p') \<and> parser_ok p' \<and> same_entity p p' \<and> scan_pos p' = scan_pos p"
proof -
  let ?w = "take (msize url) (drop (mstart url) (text_of p))"
  have w: "length ?w = msize url" using url by simp
  have a: "str_alloc al (drop (mstart url) (text_of p)) (of_nat (msize url)) =
      Some (if can_alloc al (msize url + 1) then Some (cstr ?w) else None)"
    using str_alloc_ok [of "msize url" "drop (mstart url) (text_of p)" al] url text_limit [OF ok] by simp
  obtain rc u where u: "parse_uri rs (cstr ?w) (msize url) (huri (hmsg p)) = Some (rc, u)"
    using parse_uri_result [of rs ?w "huri (hmsg p)"] w by auto
  show ?thesis
    using a u ok
    by (auto simp: store_url_def parser_ok_def same_entity_def upd_msg_def text_of_def)
qed

lemma store_numbers_same [simp]:
  "status_msg (store_numbers vs m) = status_msg m" "headers (store_numbers vs m) = headers m"
  "amount_discarded (store_numbers vs m) = amount_discarded m"
  by (simp_all add: store_numbers_def split: list.split)

text \<open>Storing fields that are not part of the invariant.\<close>

definition neutral :: "(http_message \<Rightarrow> http_message) \<Rightarrow> bool" where
  "neutral f \<longleftrightarrow> (\<forall>m. msgbuf (f m) = msgbuf m \<and> status_msg (f m) = status_msg m \<and> headers (f m) = headers m \<and>
                      amount_discarded (f m) = amount_discarded m)"

lemma neutral_upd:
  "neutral f \<Longrightarrow> parser_ok (upd_msg f p) = parser_ok p" "neutral f \<Longrightarrow> same_entity p (upd_msg f q) = same_entity p q"
  "scan_pos (upd_msg f p) = scan_pos p" "neutral f \<Longrightarrow> text_of (upd_msg f p) = text_of p"
  by (simp_all add: neutral_def upd_msg_def parser_ok_def same_entity_def text_of_def)

lemma neutral_fields [simp]:
  "neutral (\<lambda>m. m\<lparr>hmethod := k\<rparr>)" "neutral (store_numbers vs)"
  by (simp_all add: neutral_def)

lemma simple_get_safe:
  assumes ok: "parser_ok p" and "mstart url + msize url \<le> length (text_of p)"
  shows "line_result p (simple_get rs al m url p)"
proof -
  obtain b p1 where s: "store_url rs al url (upd_msg (\<lambda>h. h\<lparr>hmethod := HTTPMETHOD_SIMPLEGET\<rparr>) p) = Some (b, p1)"
    "parser_ok p1" "same_entity p p1" "scan_pos p1 = scan_pos p"
    using store_url_safe [of "upd_msg (\<lambda>h. h\<lparr>hmethod := HTTPMETHOD_SIMPLEGET\<rparr>) p" url rs al] assms
      same_entity_trans [of p "upd_msg (\<lambda>h. h\<lparr>hmethod := HTTPMETHOD_SIMPLEGET\<rparr>) p"]
    by (auto simp: neutral_upd)
  with ok show ?thesis
    by (auto simp: simple_get_def line_result_def fail_with_def split: option.split)
qed

lemma request_version_safe:
  assumes ok: "parser_ok p" and "mstart url + msize url \<le> length (text_of p)"
  shows "line_result p (request_version rs al m url v p)"
proof -
  obtain b p1 where s: "store_url rs al url p = Some (b, p1)" "parser_ok p1" "same_entity p p1"
    "scan_pos p1 = scan_pos p"
    using store_url_safe [OF assms, of rs al] by auto
  then show ?thesis
    by (auto simp: request_version_def Let_def line_result_def fail_with_def neutral_upd split: option.split)
qed

lemma request_outs:
  assumes "vfmatch rs sc REQUEST_FMT = Some (PARSE_OK, outs, sc')"
  shows "\<exists>a b c. outs = [Out_str a, Out_str b, Out_str c]"
proof -
  obtain st0 os0 s0 where pre: "vf_loop rs URL_PREFIX True sc [] = Some (st0, os0, s0)"
    using vf_loop_total [OF formats(4)] by blast
  note cut = formats(2) vf_loop_append [OF formats(3)]
  have l: "vf_loop rs ([TAB] @ ''%ihttp%w/%w%L%c'') True s0 os0 = Some (PARSE_OK, outs, sc')" "st0 = PARSE_OK"
    using assms pre by (auto simp: vfmatch_def cut split: if_split_asm)
  have "\<exists>a b. os0 = [Out_str a, Out_str b]"
    using pre l(2)
    by (auto simp: URL_PREFIX_def TAB_def vf_percent_def vf_literal_def expect_token_def
        out_str_def dest!: get_token_status split: prod.split_asm if_split_asm sum.split_asm)
  moreover have "\<exists>c. outs = os0 @ [Out_str c]"
    using l(1)
    by (auto simp: TAB_def vf_percent_def vf_literal_def out_str_def no_out_def
        split: prod.split_asm if_split_asm)
  ultimately show ?thesis by auto
qed

lemma parser_parse_requestline_safe:
  assumes ok: "parser_ok p"
  shows "line_result p (parser_parse_requestline rs al p)"
proof -
  note s = parser_ok_scanner [OF ok]
  obtain st0 sc where b: "skip_blank_lines (parser_scanner p) = (st0, sc)"
    by (cases "skip_blank_lines (parser_scanner p)")
  have a: "advances (parser_scanner p) sc" by (rule skip_blank_lines_advances [OF s b])
  have r0: "scan_result st0" using skip_blank_lines_result [OF s] b by simp
  note sc = advances_ok [OF a]
  have tx: "stext sc = text_of p" using a by (simp add: advances_def)
  show ?thesis
  proof (cases "st0 = PARSE_OK")
    case False
    with b cursor_moved(4) [OF ok a r0] show ?thesis by (simp add: parser_parse_requestline_def)
  next
    case True
    obtain st1 o1 sc1 where m1: "vfmatch rs sc SIMPLE_GET_FMT = Some (st1, o1, sc1)"
      using vfmatch_total [OF header_fmt(2)] by blast
    note k1 = vfmatch_ok [OF sc m1]
    have a1: "advances (parser_scanner p) sc1" using advances_trans [OF a] k1 by (simp add: match_ok_def)
    show ?thesis
    proof (cases "st1 = PARSE_OK")
      case ok1: True
      obtain x y where o1: "o1 = [Out_str x, Out_str y]" using simple_get_outs m1 ok1 by blast
      have "mstart y + msize y \<le> length (text_of (set_cursor sc1 p))"
        using k1 ok1 o1 tx by (auto simp: match_ok_def)
      note simple_get_safe [OF cursor_moved(1) [OF ok a1] this, of rs al x]
      from line_result_trans [OF this cursor_moved(2,3) [OF ok a1]] show ?thesis
        using b True m1 ok1 o1 by (simp add: parser_parse_requestline_def)
    next
      case False
      have sc1: "scanner_ok sc1" by (rule advances_ok [OF a1])
      obtain st2 o2 sc2 where m2: "vfmatch rs sc1 REQUEST_FMT = Some (st2, o2, sc2)"
        using vfmatch_total [OF header_fmt(3)] by blast
      note k2 = vfmatch_ok [OF sc1 m2]
      have a2: "advances (parser_scanner p) sc2" using advances_trans [OF a1] k2 by (simp add: match_ok_def)
      show ?thesis
      proof (cases "st2 = PARSE_OK")
        case n: False
        from cursor_moved(4) [OF ok a2 vfmatch_result [OF sc1 m2]] b True m1 False m2 n
        show ?thesis by (simp add: parser_parse_requestline_def)
      next
        case ok2: True
        obtain x y z where o2: "o2 = [Out_str x, Out_str y, Out_str z]" using request_outs m2 ok2 by blast
        have "mstart y + msize y \<le> length (text_of (set_cursor sc2 p))"
          using k2 ok2 o2 a1 by (auto simp: match_ok_def advances_def)
        note request_version_safe [OF cursor_moved(1) [OF ok a2] this, of rs al x z]
        from line_result_trans [OF this cursor_moved(2,3) [OF ok a2]] show ?thesis
          using b True m1 False m2 ok2 o2 by (simp add: parser_parse_requestline_def)
      qed
    qed
  qed
qed

subsection \<open>Response line\<close>

text \<open>
  The version and status are read twice: with \<open>sscanf\<close> on the line, and by skipping digits on
  the message. The second walk stays on the line because the first one succeeded there.
\<close>

definition stops :: "char list \<Rightarrow> bool" where
  "stops x \<longleftrightarrow> x = [] \<or> \<not> isdigit (hd x)"

lemma skip_int_prefix: "\<forall>c \<in> set w. \<not> isdigit c \<Longrightarrow> skip_int (w @ s) = skip_int s"
  by (simp add: skip_int_def dropWhile_append2)

lemma skip_int_digits:
  assumes "takeWhile isdigit s \<noteq> []" and "stops x"
  shows "skip_int (s @ x) = Some (dropWhile isdigit s @ x)"
proof -
  obtain c cs where c: "s = c # cs" "isdigit c"
    using assms(1) by (cases s) (auto split: if_splits)
  have "dropWhile isdigit (s @ x) = dropWhile isdigit s @ x"
  proof (cases "\<forall>c \<in> set s. isdigit c")
    case True
    then have "dropWhile isdigit s = []" by (simp add: dropWhile_eq_Nil_conv)
    moreover have "dropWhile isdigit x = x" using assms(2) by (cases x) (auto simp: stops_def)
    ultimately show ?thesis using True by (simp add: dropWhile_append2)
  next
    case False
    then obtain y where "y \<in> set s" "\<not> isdigit y" by blast
    then show ?thesis by (rule dropWhile_append1)
  qed
  with c show ?thesis by (simp add: skip_int_def)
qed

lemma scan_int_split:
  assumes "scan_int s = Some (v, r)"
  obtains w t where "s = w @ t" "\<forall>c \<in> set w. \<not> isdigit c" "takeWhile isdigit t \<noteq> []" "r = dropWhile isdigit t"
proof -
  define s1 where "s1 = dropWhile isspace s"
  define t where "t = drop (sign_length s1) s1"
  define w where "w = takeWhile isspace s @ take (sign_length s1) s1"
  have st: "s = w @ t" by (simp add: w_def t_def s1_def)
  have b: "is_base_digit 10 = isdigit" by (simp add: is_base_digit_def fun_eq_iff)
  have sl: "sign_length s1 \<le> length s1" by (auto simp: sign_length_def Suc_le_eq)
  have len: "length s - length s1 + sign_length s1 = length w"
  proof -
    have "length s = length (takeWhile isspace s) + length s1"
      unfolding s1_def by (metis length_append takeWhile_dropWhile_id)
    then show ?thesis using sl by (simp add: w_def)
  qed
  obtain n v' e where sn: "strtol 10 s = (v', n, e)" "n \<noteq> 0" "r = drop n s"
    using assms by (auto simp: scan_int_def split: prod.splits if_splits)
  have ds: "takeWhile isdigit t \<noteq> [] \<and> n = length w + length (takeWhile isdigit t)"
    using sn(1,2) len unfolding strtol_def Let_def s1_def [symmetric] t_def [symmetric] b
    by (auto simp: t_def [symmetric] split: if_split_asm)
  have "r = dropWhile isdigit t"
    using sn(3) ds st by (simp add: dropWhile_eq_drop)
  moreover have "\<forall>c \<in> set w. \<not> isdigit c"
  proof
    fix c assume "c \<in> set w"
    then have "isspace c \<or> c \<in> {CHR ''-'', CHR ''+''}"
      by (auto simp: w_def sign_length_def take_Suc dest: set_takeWhileD split: if_splits)
    then show "\<not> isdigit c" by (auto simp: isspace_def isdigit_def code_def)
  qed
  ultimately show ?thesis using that [OF st] ds by blast
qed

lemma scan_int_skip:
  assumes "scan_int s = Some (v, r)" and "stops x"
  shows "skip_int (s @ x) = Some (r @ x)"
proof -
  obtain w t where "s = w @ t" "\<forall>c \<in> set w. \<not> isdigit c" "takeWhile isdigit t \<noteq> []" "r = dropWhile isdigit t"
    by (rule scan_int_split [OF assms(1)])
  then show ?thesis using skip_int_prefix [of w "t @ x"] skip_int_digits [of t x] assms(2) by simp
qed

lemma scan_int_suffix: "scan_int s = Some (v, r) \<Longrightarrow> \<exists>u. s = u @ r"
  by (erule scan_int_split) (metis append.assoc takeWhile_dropWhile_id)

lemma scan_status_skip:
  assumes "length (scan_status s) = 3" and "stops x"
  shows "\<exists>s1 s2 r u. skip_int (s @ x) = Some (s1 @ x) \<and> skip_int (s1 @ x) = Some (s2 @ x) \<and>
           skip_int (s2 @ x) = Some (r @ x) \<and> s = u @ r"
proof -
  obtain vs s3 where v: "scan_version s = (vs, s3)" by (cases "scan_version s")
  have l2: "length vs \<ge> 2" using assms(1) v by (auto simp: scan_status_def split: if_splits)
  then obtain a s1 s2 b where i: "scan_int s = Some (a, s1)" "dropWhile isspace s1 = CHR ''.'' # s2"
    "scan_int s2 = Some (b, s3)"
    using v by (auto simp: scan_version_def split: option.splits prod.splits list.splits if_splits)
  have "length vs = 2" using v i by (auto simp: scan_version_def)
  then obtain c r where r: "scan_int s3 = Some (c, r)"
    using assms(1) v l2 by (auto simp: scan_status_def split: option.splits)
  have s1: "s1 = (takeWhile isspace s1 @ ''.'') @ s2"
    using takeWhile_dropWhile_id [of isspace s1] i(2) by simp
  have "\<not> isdigit c" if "isspace c \<or> c = CHR ''.''" for c
    using that by (auto simp: isspace_def isdigit_def code_def)
  then have "\<forall>c \<in> set (takeWhile isspace s1 @ ''.''). \<not> isdigit c" by (auto dest: set_takeWhileD)
  then have "skip_int (s1 @ x) = skip_int (s2 @ x)"
    using skip_int_prefix [of "takeWhile isspace s1 @ ''.''" "s2 @ x"]
    by (subst s1) (simp only: append_assoc)
  moreover obtain u1 u2 u3 where "s = u1 @ s1" "s2 = u2 @ s3" "s3 = u3 @ r"
    using scan_int_suffix i(1,3) r by metis
  then have "\<exists>u. s = u @ r" using s1 by (metis append.assoc)
  ultimately show ?thesis
    using scan_int_skip [OF i(1) assms(2)] scan_int_skip [OF i(3) assms(2)] scan_int_skip [OF r assms(2)]
    by auto
qed

text \<open>A match of a whole format, cut behind its first part.\<close>

lemma vf_loop_cut:
  "stream_fmt f \<Longrightarrow> vf_loop rs (f @ g) cs sc os = Some (PARSE_OK, outs, sc') \<Longrightarrow>
     \<exists>cs1 sc1 os1. vf_loop rs f cs sc os = Some (PARSE_OK, os1, sc1) \<and>
       vf_loop rs g cs1 sc1 os1 = Some (PARSE_OK, outs, sc')"
proof (induction rs f cs sc os rule: vf_loop.induct [case_names nil char])
  case (char rs c fmt cs sc os)
  show ?case
  proof (cases "c = CHR ''%''")
    case True
    with char.prems(1) obtain d fmt' where f: "fmt = d # fmt'" "stream_fmt fmt'" by (cases fmt) auto
    with True char.prems(2) obtain cs1 os1 sc1 where
      p: "vf_percent rs d cs sc = Some (cs1, PARSE_OK, os1, sc1)"
      "vf_loop rs (fmt' @ g) cs1 sc1 (os @ os1) = Some (PARSE_OK, outs, sc')"
      by (auto split: option.split_asm if_split_asm)
    from char.IH(1) [OF True f(1) p(1) refl refl refl refl f(2) p(2)] True f p(1) show ?thesis by simp
  next
    case False
    with char.prems(2) obtain sc1 where p: "vf_literal c cs sc = (PARSE_OK, sc1)"
      "vf_loop rs (fmt @ g) cs sc1 os = Some (PARSE_OK, outs, sc')"
      by (auto split: prod.split_asm if_split_asm)
    from char.IH(2) [OF False p(1) [symmetric] refl _ p(2)] char.prems(1) False p(1) show ?thesis by auto
  qed
qed auto

lemma token_CRLF_char:
  assumes "scanner_get_token sc = Inr (t, TT_CRLF, sc')"
  shows "cursor sc < length (stext sc) \<and> stext sc ! cursor sc \<in> {TOKCHAR_CR, TOKCHAR_LF}"
proof -
  have l: "cursor sc < length (stext sc)" using get_token_progress(3,4) [OF assms] by linarith
  then have s: "drop (cursor sc) (stext sc) = stext sc ! cursor sc # drop (Suc (cursor sc)) (stext sc)"
    by (rule Cons_nth_drop_Suc [symmetric])
  obtain n where "token_at (entire_msg_loaded sc) (drop (cursor sc) (stext sc)) = Inr (n, TT_CRLF)"
    using assms by (auto simp: scanner_get_token_def map_sum_def split: sum.split_asm)
  with s token_at_first [of "entire_msg_loaded sc" "stext sc ! cursor sc"] l show ?thesis by auto
qed

lemma response_outs:
  assumes ok: "scanner_ok sc" and m: "vfmatch rs sc RESPONSE_FMT = Some (PARSE_OK, outs, sc')"
  shows "\<exists>line. outs = [Out_str line] \<and> mstart line + msize line < length (stext sc) \<and>
           stext sc ! (mstart line + msize line) \<in> {TOKCHAR_CR, TOKCHAR_LF}"
proof -
  let ?f = "''%ihttp%w/%w''"
  have f: "RESPONSE_FMT = ?f @ ''%L%c''" "stream_fmt ?f" by (simp add: RESPONSE_FMT_def) code_simp
  have "vf_loop rs (?f @ ''%L%c'') True sc [] = Some (PARSE_OK, outs, sc')"
    using m by (auto simp: vfmatch_def f(1) split: if_split_asm)
  from vf_loop_cut [OF f(2) this] obtain cs1 s1 os1 where
    1: "vf_loop rs ?f True sc [] = Some (PARSE_OK, os1, s1)"
      "vf_loop rs ''%L%c'' cs1 s1 os1 = Some (PARSE_OK, outs, sc')" by blast
  have os1: "os1 = []"
    using 1(1) by (auto simp: vf_percent_def vf_literal_def no_out_def TAB_def split: prod.split_asm if_split_asm)
  have a: "advances sc s1" using vf_loop_ok [OF ok _ 1(1)] by (simp add: match_ok_def)
  obtain s2 where u: "until_crlf_loop s1 = (PARSE_OK, s2)"
    "outs = [Out_str \<lparr>mstart = cursor s1, msize = cursor s2 - cursor s1\<rparr>]"
    "fst (expect_token TT_CRLF s2) = PARSE_OK"
    using 1(2) os1 by (auto simp: vf_percent_def out_str_def read_until_crlf_def split: prod.split_asm if_split_asm)
  have a2: "advances s1 s2" by (rule until_crlf_advances [OF advances_ok [OF a] u(1)])
  obtain t sc2 where "scanner_get_token s2 = Inr (t, TT_CRLF, sc2)"
    using u(3) get_token_status [of s2] by (auto simp: expect_token_def split: sum.split_asm if_split_asm)
  from token_CRLF_char [OF this] a a2 u(2) show ?thesis by (auto simp: advances_def)
qed

lemma assign_part:
  "length s \<le> LIMIT \<Longrightarrow> n \<le> length s \<Longrightarrow>
     membuffer_assign al m (Some s) (of_nat n) = membuffer_assign al m (Some (take n s)) (of_nat (length (take n s)))"
proof -
  assume l: "length s \<le> LIMIT" "n \<le> length s"
  then have "unat (of_nat n :: size_t) = n" by (simp add: unat_of_small LIMIT_def)
  then have p: "peek 0 (unat (of_nat n :: size_t)) s = peek 0 (unat (of_nat n :: size_t)) (take n s)"
    using l by (simp add: peek_def)
  have t: "length (take n s) = n" using l by simp
  show ?thesis unfolding membuffer_assign_def option.case t p ..
qed

lemma response_status_safe:
  assumes al: "bounded_alloc al" and ok: "parser_ok p" and ln: "mstart line + msize line < length (text_of p)"
    and e: "text_of p ! (mstart line + msize line) \<in> {TOKCHAR_CR, TOKCHAR_LF}"
  shows "line_result p (response_status al line p)"
proof -
  let ?w = "mp_text (text_of p) line"
  define x where "x = drop (mstart line + msize line) (text_of p)"
  have rest: "drop (mstart line) (text_of p) = ?w @ x"
    by (simp add: mp_text_def x_def add.commute flip: drop_drop)
  have hx: "x \<noteq> [] \<and> hd x \<in> {TOKCHAR_CR, TOKCHAR_LF}" using ln e by (simp add: x_def hd_drop_conv_nth)
  have "\<not> isdigit TOKCHAR_CR" "\<not> isdigit TOKCHAR_LF" "\<not> is_blank TOKCHAR_CR" "\<not> is_blank TOKCHAR_LF"
    by code_simp+
  then have st: "stops x" and nb: "dropWhile is_blank x = x" using hx by (auto simp: stops_def dropWhile_eq_self_iff)
  define p1 where "p1 = upd_msg (store_numbers (scan_status ?w)) p"
  have ok1: "parser_ok p1" "same_entity p p1" "scan_pos p1 = scan_pos p"
    using ok by (simp_all add: p1_def neutral_upd)
  have fm: "fit (status_msg (hmsg p1))" using ok1(1) by (simp add: parser_ok_def)
  show ?thesis
  proof (cases "length (scan_status ?w) = 3")
    case False
    with ok1 show ?thesis
      by (simp add: response_status_def Let_def p1_def [symmetric] line_result_def)
  next
    case True
    from scan_status_skip [OF True st] obtain s1 s2 r u where
      sk: "skip_int (?w @ x) = Some (s1 @ x)" "skip_int (s1 @ x) = Some (s2 @ x)"
        "skip_int (s2 @ x) = Some (r @ x)" "?w = u @ r" by blast
    define q where "q = dropWhile is_blank r"
    have q: "dropWhile is_blank (r @ x) = q @ x"
    proof (cases "\<forall>c \<in> set r. is_blank c")
      case True
      then show ?thesis using nb by (simp add: q_def dropWhile_append2)
    next
      case False
      then show ?thesis by (auto simp: q_def dropWhile_append1)
    qed
    have lw: "length ?w = msize line" using ln by (simp add: mp_text_def)
    have qr: "length q \<le> length r" by (simp add: q_def length_dropWhile_le)
    have rl: "length r \<le> length ?w" using sk(4) by simp
    have "length (?w @ x) - length (q @ x) = msize line - length q"
      using lw by simp
    then have n: "(of_nat (msize line) :: size_t) - of_nat (length (?w @ x) - length (q @ x)) = of_nat (length q)"
      using qr rl lw by (simp add: of_nat_diff)
    have lim: "length (q @ x) \<le> LIMIT"
      using text_limit [OF ok] qr rl lw ln by (simp add: x_def)
    obtain rc mb where a: "membuffer_assign al (status_msg (hmsg p1)) (Some (q @ x)) (of_nat (length q)) = Some (rc, mb)"
      "fit mb"
      using assign_safe [OF al fm, of q] assign_part [OF lim, of "length q" al "status_msg (hmsg p1)"] lim
      by auto
    have "parser_ok (upd_msg (\<lambda>m. m\<lparr>status_msg := mb\<rparr>) p1)"
      "same_entity p (upd_msg (\<lambda>m. m\<lparr>status_msg := mb\<rparr>) p1)"
      "scan_pos (upd_msg (\<lambda>m. m\<lparr>status_msg := mb\<rparr>) p1) = scan_pos p"
      using ok1 a(2) by (simp_all add: parser_ok_def same_entity_def upd_msg_def text_of_def)
    with ok1 show ?thesis
      unfolding response_status_def Let_def p1_def [symmetric] rest sk(1-3) bind.bind_lunit q n a(1)
      by (simp add: line_result_def fail_with_def)
  qed
qed

lemma parser_parse_responseline_safe:
  assumes al: "bounded_alloc al" and ok: "parser_ok p"
  shows "line_result p (parser_parse_responseline rs al p)"
proof -
  note s = parser_ok_scanner [OF ok]
  obtain st0 sc where b: "skip_blank_lines (parser_scanner p) = (st0, sc)"
    by (cases "skip_blank_lines (parser_scanner p)")
  have a: "advances (parser_scanner p) sc" by (rule skip_blank_lines_advances [OF s b])
  have r0: "scan_result st0" using skip_blank_lines_result [OF s] b by simp
  note sc = advances_ok [OF a]
  obtain st1 o1 sc1 where m1: "vfmatch rs sc RESPONSE_FMT = Some (st1, o1, sc1)"
    using vfmatch_total [OF header_fmt(4)] by blast
  have a1: "advances (parser_scanner p) sc1"
    using advances_trans [OF a] vfmatch_ok [OF sc m1] by (simp add: match_ok_def)
  show ?thesis
  proof (cases "st0 = PARSE_OK \<and> st1 = PARSE_OK")
    case False
    with b m1 cursor_moved(4) [OF ok a r0] cursor_moved(4) [OF ok a1 vfmatch_result [OF sc m1]] show ?thesis
      by (auto simp: parser_parse_responseline_def)
  next
    case True
    with response_outs [OF sc] m1 obtain line where o1: "o1 = [Out_str line]"
      "mstart line + msize line < length (stext sc)"
      "stext sc ! (mstart line + msize line) \<in> {TOKCHAR_CR, TOKCHAR_LF}" by blast
    have "stext sc = text_of (set_cursor sc1 p)" using a by (simp add: advances_def)
    from response_status_safe [OF al cursor_moved(1) [OF ok a1] o1(2,3) [unfolded this]]
    have "line_result (set_cursor sc1 p) (response_status al line (set_cursor sc1 p))" .
    from line_result_trans [OF this cursor_moved(2,3) [OF ok a1]] True b m1 o1(1) show ?thesis
      by (simp add: parser_parse_responseline_def)
  qed
qed

subsection \<open>Entity\<close>

text \<open>
  A step that asks to go on has either brought the end of the message closer or chosen how to read.
\<close>

fun rank :: "ent_pos \<Rightarrow> nat" where
  "rank ENTREAD_DETERMINE_READ_METHOD = 2"
| "rank ENTREAD_USING_CHUNKED = 1"
| "rank _ = 0"

definition entity_result :: "http_parser \<Rightarrow> (parse_status \<times> http_parser) option \<Rightarrow> bool" where
  "entity_result p r \<longleftrightarrow>
     (\<exists>st p'. r = Some (st, p') \<and> parser_ok p' \<and> st \<noteq> PARSE_OK \<and>
        (st = PARSE_SUCCESS \<longrightarrow> position p' = POS_COMPLETE) \<and>
        (st = PARSE_INCOMPLETE_ENTITY \<longrightarrow> ent_position p' = ENTREAD_UNTIL_CLOSE) \<and>
        (st = PARSE_INCOMPLETE_ENTITY \<longrightarrow> position p' = position p) \<and>
        (st = PARSE_CONTINUE_1 \<longrightarrow>
           unread p' < unread p \<or> unread p' = unread p \<and> rank (ent_position p') < rank (ent_position p)))"

lemma text_mlength: "parser_ok p \<Longrightarrow> length (text_of p) = unat (mlength (msgbuf (hmsg p)))"
  by (simp add: parser_ok_def fit_def text_of_def contents_length)

lemma unat_pos: "parser_ok p \<Longrightarrow> k \<le> length (text_of p) \<Longrightarrow> unat (of_nat k :: size_t) = k"
  using text_limit [of p] by (simp add: unat_of_small LIMIT_def)

text \<open>Replacing the message by another one of at most the same length.\<close>

lemma parser_ok_msgbuf:
  assumes "parser_ok p" and "fit mb" and "k \<le> length (contents mb)"
    and "unat (entity_start_position p) \<le> k \<or> ent_position p = ENTREAD_DETERMINE_READ_METHOD"
  shows "parser_ok (upd_msg (\<lambda>m. m\<lparr>msgbuf := mb\<rparr>) (p\<lparr>scan_pos := k\<rparr>))"
  using assms by (auto simp: parser_ok_def upd_msg_def text_of_def)

lemma cut_safe:
  assumes al: "bounded_alloc al" and ok: "parser_ok p" and k: "k \<le> scan_pos p"
    and e: "unat (entity_start_position p) \<le> k \<or> ent_position p = ENTREAD_DETERMINE_READ_METHOD"
  shows "\<exists>mb. cut al k p = Some (upd_msg (\<lambda>m. m\<lparr>msgbuf := mb\<rparr>) (p\<lparr>scan_pos := k\<rparr>)) \<and>
           parser_ok (upd_msg (\<lambda>m. m\<lparr>msgbuf := mb\<rparr>) (p\<lparr>scan_pos := k\<rparr>)) \<and>
           k \<le> length (contents mb) \<and> length (contents mb) \<le> length (text_of p)"
proof -
  have l: "scan_pos p \<le> length (text_of p)" and f: "fit (msgbuf (hmsg p))"
    using ok by (simp_all add: parser_ok_def)
  have u: "unat (of_nat k :: size_t) = k" "unat (of_nat (scan_pos p - k) :: size_t) = scan_pos p - k"
    using unat_pos [OF ok, of k] unat_pos [OF ok, of "scan_pos p - k"] k l by simp_all
  have "unat (of_nat k :: size_t) + unat (of_nat (scan_pos p - k) :: size_t) \<le> length (contents (msgbuf (hmsg p)))"
    using u k l by (simp add: text_of_def)
  from delete_safe [OF _ this, of al] f obtain mb where
    mb: "membuffer_delete al (msgbuf (hmsg p)) (of_nat k) (of_nat (scan_pos p - k)) = Some mb" "mb_ok mb"
      "k \<le> length (contents mb)" "length (contents mb) \<le> length (contents (msgbuf (hmsg p)))"
    using u by (auto simp: fit_def)
  have "fit mb" using mb(2) delete_small [OF al _ mb(1)] f by (simp add: fit_def)
  from parser_ok_msgbuf [OF ok this mb(3) e] mb show ?thesis by (auto simp: cut_def text_of_def)
qed

lemma clen_safe:
  assumes ok: "parser_ok p" and e: "ent_position p = ENTREAD_USING_CLEN"
  shows "entity_result p (parser_parse_entity_using_clen p)"
proof -
  let ?m = "hmsg p" and ?es = "entity_start_position p"
  define len where "len = mlength (msgbuf ?m) - ?es"
  define clen where "clen = (ucast (content_length p) :: size_t)"
  have am: "amount_discarded ?m = 0" and es: "unat ?es \<le> scan_pos p" "scan_pos p \<le> length (text_of p)"
    using ok e by (simp_all add: parser_ok_def)
  have ul: "unat len = unat (mlength (msgbuf ?m)) - unat ?es"
    using es text_mlength [OF ok] by (simp add: len_def unat_sub word_le_nat_alt)
  have keep: "parser_ok (upd_msg (\<lambda>m. f (m\<lparr>msgbuf := mb\<rparr>)) p)"
    if "fit mb" "length (contents mb) = length (text_of p)" "neutral f" for mb f
    using ok that by (auto simp: parser_ok_def upd_msg_def text_of_def neutral_def)
  have f: "fit (msgbuf ?m)" using ok by (simp add: parser_ok_def)
  show ?thesis
  proof (cases "len < clen")
    case True
    with am ok show ?thesis
      by (simp add: parser_parse_entity_using_clen_def Let_def len_def clen_def entity_result_def
          neutral_upd neutral_def)
  next
    case False
    obtain mb where mb: "(if len > clen
        then do { mem \<leftarrow> buf (msgbuf ?m); mem' \<leftarrow> poke (unat (?es + clen - amount_discarded ?m)) [CHR 0x00] mem;
                  Some ((msgbuf ?m)\<lparr>buf := Some mem'\<rparr>) }
        else Some (msgbuf ?m)) = Some mb" "fit mb" "length (contents mb) = length (text_of p)"
    proof (cases "len > clen")
      case True
      then have lt: "unat clen < unat (mlength (msgbuf ?m)) - unat ?es" using ul by (simp add: word_less_nat_alt)
      then have "mlength (msgbuf ?m) \<noteq> 0" by auto
      then obtain mem where mem: "buf (msgbuf ?m) = Some mem" "length mem = unat (capacity (msgbuf ?m)) + 1"
        "mlength (msgbuf ?m) \<le> capacity (msgbuf ?m)"
        using f by (auto simp: fit_def mb_ok_def split: option.splits)
      have "unat (?es + clen) = unat ?es + unat clen"
        using unat_add_small [of ?es clen] lt unat_bound [of "mlength (msgbuf ?m)"] by simp
      then have "unat (?es + clen) < length mem" using lt mem(2,3) by (simp add: word_le_nat_alt)
      then obtain mem' where p: "poke (unat (?es + clen)) [CHR 0x00] mem = Some mem'" by (simp add: poke_def)
      have "fit ((msgbuf ?m)\<lparr>buf := Some mem'\<rparr>)"
        using f mem poke_length [OF p] by (auto simp: fit_def mb_ok_def small_def)
      moreover from this have "length (contents ((msgbuf ?m)\<lparr>buf := Some mem'\<rparr>)) = length (text_of p)"
        using contents_length text_mlength [OF ok] by (simp add: fit_def)
      ultimately show ?thesis using that True mem(1) p am by simp
    next
      case False
      with that f show ?thesis by (simp add: text_of_def)
    qed
    have e1: "parser_parse_entity_using_clen p = Some (PARSE_SUCCESS,
        (upd_msg (\<lambda>m. m\<lparr>msgbuf := mb, ent_length := clen, ent_buf := Some (unat ?es)\<rparr>)
          (upd_msg (\<lambda>m. m\<lparr>ent_length := len\<rparr>) p))\<lparr>position := POS_COMPLETE\<rparr>)"
      using False am mb(1)
      unfolding parser_parse_entity_using_clen_def Let_def len_def [symmetric] clen_def [symmetric]
      by (simp add: len_def)
    have "parser_ok (upd_msg (\<lambda>m. (m\<lparr>msgbuf := mb\<rparr>)\<lparr>ent_length := clen, ent_buf := Some (unat ?es)\<rparr>) p)"
      by (rule keep [OF mb(2,3)]) (simp add: neutral_def)
    with e1 show ?thesis by (simp add: entity_result_def upd_msg_def)
  qed
qed

lemma unread_upd:
  "unread (upd_msg (\<lambda>m. m\<lparr>msgbuf := mb\<rparr>) (p\<lparr>scan_pos := k\<rparr>)) = length (contents mb) - k"
  by (simp add: unread_def upd_msg_def text_of_def)

lemma position_upd_msg [simp]: "position (upd_msg f p) = position p" "ent_position (upd_msg f p) = ent_position p"
  by (simp_all add: upd_msg_def)

lemma chunk_line_outs:
  assumes "vfmatch rs sc ''%x%L%c'' = Some (PARSE_OK, outs, sc')"
  shows "\<exists>n d. outs = [Out_int n, Out_str d]"
  using assms
  by (auto simp: vfmatch_def vf_percent_def out_str_def split: prod.split_asm if_split_asm)

text \<open>The fields a step of the entity sets besides the message.\<close>

lemma parser_ok_entity [simp]:
  "neutral f \<Longrightarrow> parser_ok (upd_msg f q\<lparr>ent_position := y\<rparr>) = parser_ok (q\<lparr>ent_position := y\<rparr>)"
  by (simp add: neutral_def upd_msg_def parser_ok_def text_of_def)

lemma unread_simps [simp]:
  "unread (p\<lparr>ent_position := y\<rparr>) = unread p" "unread (p\<lparr>chunk_size := z\<rparr>) = unread p"
  "unread (p\<lparr>position := x\<rparr>) = unread p" "neutral f \<Longrightarrow> unread (upd_msg f p) = unread p"
  by (simp_all add: unread_def text_of_def upd_msg_def neutral_def)

lemma neutral_ent [simp]:
  "neutral (\<lambda>m. m\<lparr>ent_length := F m\<rparr>)" "neutral (\<lambda>m. m\<lparr>ent_buf := b\<rparr>)"
  "neutral (\<lambda>m. m\<lparr>ent_length := F m, ent_buf := b\<rparr>)" "neutral (\<lambda>m. m\<lparr>ent_buf := b, ent_length := F m\<rparr>)"
  by (simp_all add: neutral_def)

lemma chunky_entity_safe:
  assumes al: "bounded_alloc al" and ok: "parser_ok p" and e: "ent_position p = ENTREAD_USING_CHUNKED"
  shows "entity_result p (parser_parse_chunky_entity rs al p)"
proof -
  note s = parser_ok_scanner [OF ok]
  obtain st outs sc where v: "vfmatch rs (parser_scanner p) ''%x%L%c'' = Some (st, outs, sc)"
    using vfmatch_total [OF header_fmt(6)] by blast
  show ?thesis
  proof (cases "st = PARSE_OK")
    case False
    with v ok vfmatch_result [OF s v] show ?thesis
      by (auto simp: parser_parse_chunky_entity_def entity_result_def scan_result_def)
  next
    case True
    obtain n d where outs: "outs = [Out_int n, Out_str d]" using chunk_line_outs v True by blast
    have a: "advances (parser_scanner p) sc" using vfmatch_ok [OF s v] by (simp add: match_ok_def)
    note m = cursor_moved [OF ok a]
    have es: "unat (entity_start_position p) \<le> scan_pos p" using ok e by (simp add: parser_ok_def)
    from cut_safe [OF al m(1), of "scan_pos p"] es a obtain mb where
      c: "cut al (scan_pos p) (set_cursor sc p) =
            Some (upd_msg (\<lambda>m. m\<lparr>msgbuf := mb\<rparr>) ((set_cursor sc p)\<lparr>scan_pos := scan_pos p\<rparr>))"
         "parser_ok (upd_msg (\<lambda>m. m\<lparr>msgbuf := mb\<rparr>) ((set_cursor sc p)\<lparr>scan_pos := scan_pos p\<rparr>))"
         "length (contents mb) \<le> length (text_of p)"
      by (auto simp: advances_def set_cursor_def)
    define q where "q = upd_msg (\<lambda>m. m\<lparr>msgbuf := mb\<rparr>) ((set_cursor sc p)\<lparr>scan_pos := scan_pos p\<rparr>)"
    define z where "z = (ucast (word_of_int n :: 32 word) :: size_t)"
    have "unread q = length (contents mb) - scan_pos p" by (simp add: q_def unread_upd)
    with c(3) have q: "unread q \<le> unread p" "ent_position q = ENTREAD_USING_CHUNKED"
      using e by (simp_all add: unread_def [of p] q_def upd_msg_def set_cursor_def)
    have h: "parser_ok (q\<lparr>chunk_size := z, ent_position := y\<rparr>)"
      if "y = ENTREAD_CHUNKY_HEADERS \<or> y = ENTREAD_CHUNKY_BODY \<and> z \<noteq> 0" for y
      using c(2) q(2) that by (auto simp: parser_ok_def q_def [symmetric] text_of_def)
    have r: "parser_parse_chunky_entity rs al p = Some (PARSE_CONTINUE_1,
        if z = 0
        then (upd_msg (\<lambda>m. m\<lparr>ent_length := of_nat (scan_pos q) - entity_start_position q + amount_discarded m\<rparr>)
               (q\<lparr>chunk_size := z\<rparr>))\<lparr>ent_position := ENTREAD_CHUNKY_HEADERS\<rparr>
        else q\<lparr>chunk_size := z, ent_position := ENTREAD_CHUNKY_BODY\<rparr>)"
      using v True outs c(1) by (simp add: parser_parse_chunky_entity_def Let_def q_def z_def)
    show ?thesis
      using q h [of ENTREAD_CHUNKY_HEADERS] h [of ENTREAD_CHUNKY_BODY] e
      unfolding r by (auto simp: entity_result_def)
  qed
qed

lemma chunky_body_safe:
  assumes al: "bounded_alloc al" and ok: "parser_ok p" and e: "ent_position p = ENTREAD_CHUNKY_BODY"
  shows "entity_result p (parser_parse_chunky_body rs al p)"
proof (cases "mlength (msgbuf (hmsg p)) - of_nat (scan_pos p) \<ge> chunk_size p")
  case False
  with ok show ?thesis by (simp add: parser_parse_chunky_body_def entity_result_def)
next
  case enough: True
  let ?k = "scan_pos p + unat (chunk_size p)"
  have l: "scan_pos p \<le> length (text_of p)" "unat (entity_start_position p) \<le> scan_pos p" "chunk_size p \<noteq> 0"
    using ok e by (simp_all add: parser_ok_def)
  have "unat (mlength (msgbuf (hmsg p)) - of_nat (scan_pos p)) = length (text_of p) - scan_pos p"
    using text_mlength [OF ok] unat_pos [OF ok l(1)] l(1) by (simp add: unat_sub word_le_nat_alt)
  with enough l have k: "?k \<le> length (text_of p)" by (simp add: word_le_nat_alt)
  have pos: "0 < unat (chunk_size p)" using l(3) by (simp add: unat_gt_0)
  let ?p = "p\<lparr>scan_pos := ?k\<rparr>"
  have okk: "parser_ok ?p" using ok k by (auto simp: parser_ok_def)
  note s = parser_ok_scanner [OF okk]
  obtain st outs sc where v: "vfmatch rs (parser_scanner ?p) ''%c'' = Some (st, outs, sc)"
    using vfmatch_total [OF header_fmt(5)] by blast
  show ?thesis
  proof (cases "st = PARSE_OK")
    case False
    with v ok enough vfmatch_result [OF s v] show ?thesis
      by (auto simp: parser_parse_chunky_body_def Let_def entity_result_def scan_result_def)
  next
    case True
    have a: "advances (parser_scanner ?p) sc" using vfmatch_ok [OF s v] by (simp add: match_ok_def)
    have sp: "set_cursor sc p = set_cursor sc ?p" by (simp add: set_cursor_def)
    from cut_safe [OF al cursor_moved(1) [OF okk a], of ?k] l a obtain mb where
      c: "cut al ?k (set_cursor sc p) =
            Some (upd_msg (\<lambda>m. m\<lparr>msgbuf := mb\<rparr>) ((set_cursor sc p)\<lparr>scan_pos := ?k\<rparr>))"
         "parser_ok (upd_msg (\<lambda>m. m\<lparr>msgbuf := mb\<rparr>) ((set_cursor sc p)\<lparr>scan_pos := ?k\<rparr>))"
         "length (contents mb) \<le> length (text_of p)"
      unfolding sp by (auto simp: advances_def set_cursor_def)
    define q where "q = upd_msg (\<lambda>m. m\<lparr>msgbuf := mb\<rparr>) ((set_cursor sc p)\<lparr>scan_pos := ?k\<rparr>)"
    have "unread q = length (contents mb) - ?k" by (simp add: q_def unread_upd)
    then have "unread q < unread p" using c(3) pos k by (simp add: unread_def [of p])
    moreover have "ent_position q = ENTREAD_CHUNKY_BODY" using e by (simp add: q_def upd_msg_def set_cursor_def)
    then have "parser_ok (q\<lparr>ent_position := ENTREAD_USING_CHUNKED\<rparr>)"
      using c(2) by (auto simp: parser_ok_def q_def [symmetric] text_of_def)
    ultimately show ?thesis
      using enough v True c(1)
      by (simp add: parser_parse_chunky_body_def Let_def entity_result_def q_def [symmetric])
  qed
qed

lemma chunky_headers_safe:
  assumes al: "bounded_alloc al" and ok: "parser_ok p" and e: "ent_position p = ENTREAD_CHUNKY_HEADERS"
  shows "entity_result p (parser_parse_chunky_headers rs al p)"
proof -
  from parser_parse_headers_safe [OF al ok, of rs] obtain st p1 where
    h: "parser_parse_headers rs al p = Some (st, p1)" "parser_ok p1" "same_entity p p1" "scan_pos p \<le> scan_pos p1"
      "st \<in> {PARSE_OK, PARSE_SUCCESS, PARSE_INCOMPLETE, PARSE_FAILURE, PARSE_NO_MATCH}"
      "st = PARSE_SUCCESS \<longrightarrow> position p1 = POS_COMPLETE"
    by (auto simp: line_result_def)
  have es: "unat (entity_start_position p1) \<le> scan_pos p"
    using ok e h(3) by (simp add: parser_ok_def same_entity_def)
  from cut_safe [OF al, of "p1\<lparr>position := POS_COMPLETE\<rparr>" "scan_pos p"] h es show ?thesis
    by (auto simp: parser_parse_chunky_headers_def entity_result_def neutral_upd)
qed

lemma until_close_safe:
  assumes ok: "parser_ok p" and e: "ent_position p = ENTREAD_UNTIL_CLOSE"
  shows "entity_result p (Some (parser_parse_entity_until_close p))"
proof -
  have "parser_ok (p\<lparr>scan_pos := unat (mlength (msgbuf (hmsg p)))\<rparr>)"
    using ok text_mlength [OF ok] by (auto simp: parser_ok_def)
  then show ?thesis
    using e by (simp add: parser_parse_entity_until_close_def Let_def entity_result_def neutral_upd parser_ok_def upd_msg_def text_of_def)
qed

lemma raw_find_str_safe:
  assumes "header_ok h" and "buf (hvalue h) = Some mem"
  shows "\<exists>i mem'. raw_find_str mem (unat (mlength (hvalue h))) sub = Some (i, mem') \<and>
           header_ok (h\<lparr>hvalue := (hvalue h)\<lparr>buf := Some mem'\<rparr>\<rparr>)"
proof -
  let ?n = "unat (mlength (hvalue h))"
  have m: "length mem = unat (capacity (hvalue h)) + 1" "mlength (hvalue h) \<le> capacity (hvalue h)"
    "mem ! ?n = CHR 0x00" "size_inc (hvalue h) = MEMBUF_DEF_SIZE_INC" "length mem \<le> LIMIT"
    using assms by (auto simp: header_ok_def fit_def mb_ok_def small_def terminated_def split: option.splits)
  then have n: "?n < length mem" by (simp add: word_le_nat_alt)
  then have nul: "CHR 0x00 \<in> set mem" using m(3) by (metis nth_mem)
  have "length (map tolower (c_string mem) @ drop (length (c_string mem)) mem) = length mem"
    using length_takeWhile_le [of "\<lambda>c. c \<noteq> CHR 0x00" mem] by (simp add: c_string_def)
  with m n nul assms show ?thesis
    by (auto simp: raw_find_str_def Let_def header_ok_def fit_def mb_ok_def small_def terminated_def)
qed

lemma is_chunked_safe:
  assumes "headers_ok (headers (hmsg p))"
  shows "\<exists>b p'. is_chunked p = Some (b, p') \<and> same_entity p p' \<and> scan_pos p' = scan_pos p \<and>
           status_msg (hmsg p') = status_msg (hmsg p) \<and> headers_ok (headers (hmsg p'))"
proof -
  obtain nd where nd: "httpmsg_find_hdr (hmsg p) HDR_TRANSFER_ENCODING = Some nd" "found (headers (hmsg p)) nd"
    using find_hdr_safe [OF assms] by blast
  show ?thesis
  proof (cases "nd = Null")
    case True
    with nd assms show ?thesis by (auto simp: is_chunked_def)
  next
    case False
    with nd(2) obtain a h mem where h: "nd = Blk a" "item (node (headers (hmsg p)) nd) = Some h" "header_ok h"
      "buf (hvalue h) = Some mem" by (auto simp: found_def header_ok_def)
    obtain i mem' where r: "raw_find_str mem (unat (mlength (hvalue h))) ''chunked'' = Some (i, mem')"
      "header_ok (h\<lparr>hvalue := (hvalue h)\<lparr>buf := Some mem'\<rparr>\<rparr>)"
      using raw_find_str_safe [OF h(3,4)] by blast
    from headers_ok_set [OF assms r(2), of a] nd(1) False h r(1) show ?thesis
      by (simp add: is_chunked_def put_header_def upd_msg_def same_entity_def)
  qed
qed

lemma clen_header_safe: "headers_ok (headers (hmsg p)) \<Longrightarrow> \<exists>r. clen_header p = Some r"
proof -
  assume ok: "headers_ok (headers (hmsg p))"
  obtain nd where nd: "httpmsg_find_hdr (hmsg p) HDR_CONTENT_LENGTH = Some nd" "found (headers (hmsg p)) nd"
    using find_hdr_safe [OF ok] by blast
  then show ?thesis by (cases "nd = Null") (auto simp: clen_header_def found_def header_ok_def)
qed

lemma read_method_safe:
  assumes ok: "parser_ok p0" and e: "ent_position p0 = ENTREAD_DETERMINE_READ_METHOD"
  shows "entity_result p0 (parser_get_entity_read_method p0)"
proof -
  define p where "p = (upd_msg (\<lambda>m. m\<lparr>ent_buf := Some (scan_pos p0), ent_length := 0\<rparr>) p0)
      \<lparr>entity_start_position := of_nat (scan_pos p0)\<rparr>"
  have f: "ent_position p = ENTREAD_DETERMINE_READ_METHOD" "scan_pos p = scan_pos p0" "text_of p = text_of p0"
    "unat (entity_start_position p) = scan_pos p" "msgbuf (hmsg p) = msgbuf (hmsg p0)"
    "status_msg (hmsg p) = status_msg (hmsg p0)" "amount_discarded (hmsg p) = amount_discarded (hmsg p0)"
    "headers (hmsg p) = headers (hmsg p0)"
    using e unat_pos [OF ok, of "scan_pos p0"] ok
    by (simp_all add: p_def upd_msg_def text_of_def parser_ok_def)
  have ok1: "parser_ok p" using ok f by (simp add: parser_ok_def)
  then have hs: "headers_ok (headers (hmsg p))" by (simp add: parser_ok_def)
  obtain b p1 where c: "is_chunked p = Some (b, p1)" "same_entity p p1" "scan_pos p1 = scan_pos p"
    "status_msg (hmsg p1) = status_msg (hmsg p)" "headers_ok (headers (hmsg p1))"
    using is_chunked_safe [OF hs] by blast
  obtain n where n: "clen_header p1 = Some n" using clen_header_safe [OF c(5)] by blast
  have ok2: "parser_ok p1"
    by (rule parser_ok_same [OF ok1 c(2)]) (use ok1 c in \<open>auto simp: parser_ok_def\<close>)
  have u: "unread p1 = unread p0"
    using same_entity_text [OF c(2)] c(3) f by (simp add: unread_def)
  have es: "unat (entity_start_position p1) \<le> scan_pos p1" using c(2,3) f(4) by (simp add: same_entity_def)
  have y: "parser_ok (p1\<lparr>ent_position := y\<rparr>)" "parser_ok (p1\<lparr>content_length := k, ent_position := y\<rparr>)"
    if "y \<noteq> ENTREAD_CHUNKY_BODY" for y k
    using ok2 es that by (auto simp: parser_ok_def text_of_def)
  have v: "parser_ok (p1\<lparr>valid_ssdp_notify_hack := z\<rparr>)" for z
    using ok2 by (simp add: parser_ok_def text_of_def)
  have w: "unread (p1\<lparr>content_length := k, ent_position := y\<rparr>) = unread p1" for k y
    by (simp add: unread_def text_of_def)
  show ?thesis
    unfolding parser_get_entity_read_method_def Let_def p_def [symmetric]
    using ok1 ok2 c(1) n y v w u e
    by (auto simp: entity_result_def fail_with_def split: option.split)
qed

lemma entity_step_safe:
  assumes "bounded_alloc al" and "parser_ok p"
  shows "entity_result p (entity_step rs al p)"
  using clen_safe [OF assms(2)] chunky_entity_safe [OF assms] chunky_body_safe [OF assms]
    chunky_headers_safe [OF assms] until_close_safe [OF assms(2)] read_method_safe [OF assms(2)]
  by (simp add: entity_step_def split: ent_pos.split)

text \<open>What the final states of a message are.\<close>

definition closing :: "parse_status \<Rightarrow> http_parser \<Rightarrow> bool" where
  "closing st p \<longleftrightarrow>
     (st = PARSE_SUCCESS \<longrightarrow> position p = POS_COMPLETE) \<and>
     (st = PARSE_INCOMPLETE_ENTITY \<longrightarrow> position p = POS_ENTITY \<and> ent_position p = ENTREAD_UNTIL_CLOSE) \<and>
     st \<noteq> PARSE_CONTINUE_1"

lemma cut_position: "cut al k p = Some p' \<Longrightarrow> position p' = position p"
  by (auto simp: cut_def split: Option.bind_split_asm)

lemma step_position:
  assumes al: "bounded_alloc al" and ok: "parser_ok p" and r: "entity_step rs al p = Some (PARSE_CONTINUE_1, p1)"
  shows "position p1 = position p"
proof (cases "ent_position p")
  case ENTREAD_CHUNKY_HEADERS
  then show ?thesis
    using r parser_parse_headers_safe [OF al ok, of rs]
    by (auto simp: entity_step_def parser_parse_chunky_headers_def line_result_def split: Option.bind_split_asm if_split_asm)
next
  case ENTREAD_DETERMINE_READ_METHOD
  have h: "is_chunked q = Some (b, q') \<Longrightarrow> position q' = position q" for q b q'
    by (auto simp: is_chunked_def put_header_def split: Option.bind_split_asm if_split_asm prod.split_asm)
  show ?thesis
    using r ENTREAD_DETERMINE_READ_METHOD
    by (auto simp: entity_step_def parser_get_entity_read_method_def Let_def fail_with_def dest!: h
        split: Option.bind_split_asm if_split_asm option.split_asm prod.split_asm)
qed (use r in \<open>auto simp: entity_step_def parser_parse_entity_using_clen_def parser_parse_chunky_entity_def
    parser_parse_chunky_body_def parser_parse_entity_until_close_def Let_def set_cursor_def dest!: cut_position
    split: Option.bind_split_asm if_split_asm prod.split_asm list.split_asm match_out.split_asm\<close>)

lemma parser_parse_entity_safe:
  assumes al: "bounded_alloc al" and "parser_ok p" and "position p = POS_ENTITY"
  shows "\<exists>st p'. parser_parse_entity rs al p = Some (st, p') \<and> parser_ok p' \<and> st \<noteq> PARSE_OK \<and> closing st p'"
  using assms(2,3)
proof (induction p rule: wf_induct [OF wf_measures [of "[unread, \<lambda>p. rank (ent_position p)]"]])
  case (1 p)
  from entity_step_safe [OF al "1.prems"(1), of rs] "1.prems"(2) obtain st p1 where
    s: "entity_step rs al p = Some (st, p1)" "parser_ok p1" "st \<noteq> PARSE_OK"
      "st = PARSE_CONTINUE_1 \<longrightarrow>
         unread p1 < unread p \<or> unread p1 = unread p \<and> rank (ent_position p1) < rank (ent_position p)"
      "st \<noteq> PARSE_CONTINUE_1 \<Longrightarrow> closing st p1"
    by (auto simp: entity_result_def closing_def)
  note u = parser_parse_entity.simps [of rs al p]
  show ?case
  proof (cases "st = PARSE_CONTINUE_1")
    case True
    with s(4) have "(p1, p) \<in> measures [unread, \<lambda>p. rank (ent_position p)]" by auto
    moreover have "position p1 = POS_ENTITY"
      using step_position [OF al "1.prems"(1)] s(1) True "1.prems"(2) by simp
    ultimately obtain st2 p2 where "parser_parse_entity rs al p1 = Some (st2, p2)" "parser_ok p2"
      "st2 \<noteq> PARSE_OK" "closing st2 p2" using "1.IH" s(2) by blast
    with True s(1) show ?thesis by (simp add: u)
  next
    case False
    with s show ?thesis by (simp add: u)
  qed
qed

subsection \<open>The parser\<close>

lemma headers_position:
  assumes "parser_parse_headers rs al p = Some r" and "fst r = PARSE_OK"
  shows "position (snd r) = POS_ENTITY"
proof -
  have "fst r = PARSE_OK \<longrightarrow> position (snd r) = POS_ENTITY"
  proof (rule parser_parse_headers.raw_induct [OF _ assms(1)], goal_cases)
    case (1 f rs al p r)
    from "1"(2) show ?case
      by (auto dest: get_token_status "1"(1)
          split: sum.split_asm if_split_asm Option.bind_split_asm list.split_asm match_out.split_asm prod.split_asm)
  qed
  with assms(2) show ?thesis by blast
qed

lemma requestline_position:
  "parser_parse_requestline rs al p = Some (PARSE_OK, p') \<Longrightarrow> position p' = POS_HEADERS"
  by (auto simp: parser_parse_requestline_def simple_get_def request_version_def Let_def fail_with_def
      split: prod.split_asm if_split_asm Option.bind_split_asm list.split_asm match_out.split_asm option.split_asm)

lemma responseline_position:
  "parser_parse_responseline rs al p = Some (PARSE_OK, p') \<Longrightarrow> position p' = POS_HEADERS"
  by (auto simp: parser_parse_responseline_def response_status_def Let_def fail_with_def
      split: prod.split_asm if_split_asm Option.bind_split_asm list.split_asm match_out.split_asm)

text \<open>How far a parser has come.\<close>

fun stage :: "parser_pos \<Rightarrow> nat" where
  "stage POS_REQUEST_LINE = 2"
| "stage POS_RESPONSE_LINE = 2"
| "stage POS_HEADERS = 1"
| "stage _ = 0"

lemma parse_step_safe:
  assumes al: "bounded_alloc al" and ok: "parser_ok p"
  shows "\<exists>st p'. parse_step rs al p = Some (st, p') \<and> parser_ok p' \<and> closing st p' \<and>
           (st = PARSE_OK \<longrightarrow> stage (position p') < stage (position p))"
proof (cases "position p")
  case POS_REQUEST_LINE
  with parser_parse_requestline_safe [OF ok, of rs al] requestline_position [of rs al p] show ?thesis
    by (auto simp: parse_step_def line_result_def closing_def)
next
  case POS_RESPONSE_LINE
  with parser_parse_responseline_safe [OF al ok, of rs] responseline_position [of rs al p] show ?thesis
    by (auto simp: parse_step_def line_result_def closing_def)
next
  case POS_HEADERS
  with parser_parse_headers_safe [OF al ok, of rs] headers_position [of rs al p] show ?thesis
    by (auto simp: parse_step_def line_result_def closing_def)
next
  case POS_ENTITY
  with parser_parse_entity_safe [OF al ok, of rs] show ?thesis by (auto simp: parse_step_def)
next
  case POS_COMPLETE
  with ok show ?thesis by (simp add: parse_step_def closing_def)
qed

lemma parser_parse_safe:
  assumes al: "bounded_alloc al" and "parser_ok p"
  shows "\<exists>st p'. parser_parse rs al p = Some (st, p') \<and> parser_ok p' \<and> closing st p'"
  using assms(2)
proof (induction p rule: measure_induct_rule [where f = "\<lambda>p. stage (position p)"])
  case (less p)
  from parse_step_safe [OF al less.prems, of rs] obtain st p1 where
    s: "parse_step rs al p = Some (st, p1)" "parser_ok p1" "closing st p1"
      "st = PARSE_OK \<longrightarrow> stage (position p1) < stage (position p)" by blast
  show ?case
  proof (cases "st = PARSE_OK")
    case True
    with less.IH [of p1] s show ?thesis by (simp add: parser_parse.simps [of rs al p])
  next
    case False
    with s show ?thesis by (simp add: parser_parse.simps [of rs al p])
  qed
qed

lemma parser_append_ok:
  assumes al: "bounded_alloc al" and ok: "parser_ok p" and "length bytes \<le> LIMIT"
  shows "\<exists>st p'. parser_append rs al bytes p = Some (st, p') \<and> parser_ok p' \<and> closing st p'"
proof -
  have f: "fit (msgbuf (hmsg p))" using ok by (simp add: parser_ok_def)
  obtain rc mb where a: "membuffer_append al (msgbuf (hmsg p)) (Some bytes) (of_nat (length bytes)) = Some (rc, mb)"
    "fit mb" "contents mb = text_of p @ (if rc = 0 then bytes else [])"
    using append_safe [OF al f assms(3)] by (auto simp: text_of_def)
  define p1 where "p1 = upd_msg (\<lambda>m. m\<lparr>msgbuf := mb\<rparr>) p"
  have "parser_ok p1" using ok a(2,3) by (simp add: p1_def parser_ok_def upd_msg_def text_of_def)
  with parser_parse_safe [OF al this, of rs] a(1) show ?thesis
    by (auto simp: parser_append_def p1_def [symmetric] fail_with_def closing_def)
qed

lemma parser_init_ok:
  assumes "heap_ok (fl_heap (freeNodeList l0))" and "live (fl_heap (freeNodeList l0)) = {}"
  shows "parser_ok (parser_request_init l0)" and "parser_ok (parser_response_init l0 m)"
proof -
  obtain r l where l: "ListInit l0 (Some httpmsg_compare) True = (r, l)"
    by (cases "ListInit l0 (Some httpmsg_compare) True")
  from ListInit_ok [OF assms l] have "headers_ok l" by (simp add: headers_ok_def)
  moreover have "fit (membuffer_init m)" for m
    by (simp add: fit_def mb_ok_def small_def membuffer_init_def membuffer_initialize_def)
  ultimately have "parser_ok (parser_init l0)"
    by (simp add: parser_ok_def parser_init_def httpmsg_init_def zero_message_def l)
  then show "parser_ok (parser_request_init l0)" "parser_ok (parser_response_init l0 m)"
    by (simp_all add: parser_request_init_def parser_response_init_def parser_ok_def upd_msg_def text_of_def)
qed

subsection \<open>Properties\<close>

text \<open>Feeding a parser with the blocks that arrive, as \<open>http_RecvMessage\<close> does, whatever it answers.\<close>

fun feed :: "resolver \<Rightarrow> allocator \<Rightarrow> char list list \<Rightarrow> http_parser \<Rightarrow> http_parser option" where
  "feed rs al [] p = Some p"
| "feed rs al (bytes # blocks) p =
     do {
       (_, p1) \<leftarrow> parser_append rs al bytes p;
       feed rs al blocks p1
     }"

lemma feed_ok:
  "bounded_alloc al \<Longrightarrow> parser_ok p \<Longrightarrow> \<forall>b \<in> set blocks. length b \<le> LIMIT \<Longrightarrow>
     \<exists>p'. feed rs al blocks p = Some p' \<and> parser_ok p'"
proof (induction blocks arbitrary: p)
  case (Cons b blocks)
  then obtain st p1 where "parser_append rs al b p = Some (st, p1)" "parser_ok p1"
    using parser_append_ok [of al p b rs] by auto
  with Cons show ?case by simp
qed simp

definition limited_alloc :: allocator where
  "limited_alloc = \<lparr>can_alloc = (\<lambda>n. n \<le> LIMIT), fresh = CHR ''?''\<rparr>"

text \<open>C1: Whatever the network sends, in whatever blocks, and wherever an allocation fails: the
  parser of requests and of responses never accesses memory outside of its buffers, follows no NULL
  pointer, returns from every call, and keeps its invariant (well-formed buffers and header list,
  cursor inside the message, entity before the cursor). The only assumption is that no block of
  memory is larger than \<open>2 ^ 62\<close> bytes.\<close>
theorem parser_memory_safe:
  assumes "bounded_alloc al" and "heap_ok (fl_heap (freeNodeList l0))" and "live (fl_heap (freeNodeList l0)) = {}"
    and "\<forall>b \<in> set blocks. length b \<le> LIMIT"
  shows "(\<exists>p. feed rs al blocks (parser_request_init l0) = Some p \<and> parser_ok p) \<and>
         (\<exists>p. feed rs al blocks (parser_response_init l0 m) = Some p \<and> parser_ok p)"
  using feed_ok [OF assms(1) parser_init_ok(1) [OF assms(2,3)] assms(4)]
    feed_ok [OF assms(1) parser_init_ok(2) [OF assms(2,3)] assms(4)] by blast

theorem parser_memory_safe_witness:
  "\<exists>p. feed no_names limited_alloc [''GET '', ''/ HTTP'', [CHR 0xFF], CRLF] (parser_request_init (new_list (\<lambda>n. n < 2))) = Some p
     \<and> parser_ok p"
proof -
  have "bounded_alloc limited_alloc" by (simp add: bounded_alloc_def limited_alloc_def)
  moreover have "heap_ok (fl_heap (freeNodeList (new_list (\<lambda>n. n < 2))))"
    "live (fl_heap (freeNodeList (new_list (\<lambda>n. n < 2)))) = {}"
    by (simp_all add: new_list_def heap_ok_def)
  moreover have "\<forall>b \<in> set [''GET '', ''/ HTTP'', [CHR 0xFF], CRLF]. length b \<le> LIMIT"
    by (simp add: LIMIT_def CRLF_def)
  ultimately show ?thesis
    using parser_memory_safe [where al = limited_alloc and rs = no_names and m = 0
        and blocks = "[''GET '', ''/ HTTP'', [CHR 0xFF], CRLF]" and ?l0.0 = "new_list (\<lambda>n. n < 2)"] by blast
qed

end
