(* ===== verification/HttpEntity.thy ===== *)
theory HttpEntity
  imports HttpSafety
begin

text \<open>
  The entity of a message: delimited by a length it is exactly the announced bytes, and of a chunked
  one exactly the data of the chunks is left in the message buffer.
\<close>

subsection \<open>The entity by its length\<close>

definition body :: "http_parser \<Rightarrow> char list" where
  "body p = drop (unat (entity_start_position p)) (text_of p)"

text \<open>What \<open>entity.buf\<close> and \<open>entity.length\<close> describe.\<close>

definition entity_of :: "http_parser \<Rightarrow> char list option" where
  "entity_of p = map_option (\<lambda>b. take (unat (ent_length (hmsg p))) (drop b (text_of p))) (ent_buf (hmsg p))"

lemma contents_poke:
  assumes "buf m = Some mem" and "poke i [c] mem = Some mem'" and "i < unat (mlength m)"
  shows "contents (m\<lparr>buf := Some mem'\<rparr>) = (contents m)[i := c]"
proof -
  have i: "i < length mem" and m: "mem' = mem[i := c]"
    using assms(2) by (auto simp: poke_def upd_conv_take_nth_drop split: if_splits)
  show ?thesis using assms(1) by (simp add: contents_def m take_update_swap)
qed

lemma using_clen_result:
  assumes ok: "parser_ok p" and e: "ent_position p = ENTREAD_USING_CLEN"
  shows "\<exists>p'. parser_parse_entity_using_clen p =
           Some (if length (body p) < unat (content_length p) then PARSE_INCOMPLETE else PARSE_SUCCESS, p') \<and>
           (if length (body p) < unat (content_length p)
            then text_of p' = text_of p \<and> scan_pos p' = scan_pos p
            else position p' = POS_COMPLETE \<and> entity_of p' = Some (take (unat (content_length p)) (body p)))"
proof -
  let ?m = "hmsg p" and ?es = "entity_start_position p" and ?n = "unat (content_length p)"
  define len where "len = mlength (msgbuf ?m) - ?es"
  define clen where "clen = (ucast (content_length p) :: size_t)"
  have am: "amount_discarded ?m = 0" and es: "unat ?es \<le> length (text_of p)"
    using ok e by (simp_all add: parser_ok_def)
  have ul: "unat len = length (body p)"
    using es text_mlength [OF ok] by (simp add: len_def unat_sub word_le_nat_alt body_def)
  have uc: "unat clen = ?n" by (simp add: clen_def unsigned_ucast_eq take_bit_nat_eq_self
      order.strict_trans [OF unsigned_less])
  have lt: "len < clen \<longleftrightarrow> length (body p) < ?n" by (simp add: word_less_nat_alt ul uc)
  show ?thesis
  proof (cases "len < clen")
    case True
    with am lt show ?thesis
      by (simp add: parser_parse_entity_using_clen_def Let_def len_def clen_def text_of_def upd_msg_def)
  next
    case False
    obtain mb where mb: "(if len > clen
        then do { mem \<leftarrow> buf (msgbuf ?m); mem' \<leftarrow> poke (unat (?es + clen - amount_discarded ?m)) [CHR 0x00] mem;
                  Some ((msgbuf ?m)\<lparr>buf := Some mem'\<rparr>) }
        else Some (msgbuf ?m)) = Some mb" "take (unat ?es + ?n) (contents mb) = take (unat ?es + ?n) (text_of p)"
    proof (cases "len > clen")
      case True
      then have l: "?n < length (body p)" by (simp add: word_less_nat_alt ul uc)
      then have i: "unat ?es + ?n < unat (mlength (msgbuf ?m))"
        using text_mlength [OF ok] by (simp add: body_def)
      then have "mlength (msgbuf ?m) \<noteq> 0" by auto
      then obtain mem where mem: "buf (msgbuf ?m) = Some mem" "length mem = unat (capacity (msgbuf ?m)) + 1"
        "mlength (msgbuf ?m) \<le> capacity (msgbuf ?m)"
        using ok by (auto simp: parser_ok_def fit_def mb_ok_def split: option.splits)
      have a: "unat (?es + clen) = unat ?es + ?n"
        using unat_add_small [of ?es clen] i unat_bound [of "mlength (msgbuf ?m)"] uc by simp
      then obtain mem' where p: "poke (unat (?es + clen)) [CHR 0x00] mem = Some mem'"
        using i mem(2,3) by (simp add: poke_def word_le_nat_alt)
      show ?thesis
        using that [of "(msgbuf ?m)\<lparr>buf := Some mem'\<rparr>"] True mem(1) p am
          contents_poke [OF mem(1) p] i by (simp add: a text_of_def)
    next
      case False
      with that show ?thesis by (simp add: text_of_def)
    qed
    have "parser_parse_entity_using_clen p = Some (PARSE_SUCCESS,
        (upd_msg (\<lambda>m. m\<lparr>msgbuf := mb, ent_length := clen, ent_buf := Some (unat ?es)\<rparr>)
          (upd_msg (\<lambda>m. m\<lparr>ent_length := len\<rparr>) p))\<lparr>position := POS_COMPLETE\<rparr>)"
      using False am mb(1)
      unfolding parser_parse_entity_using_clen_def Let_def len_def [symmetric] clen_def [symmetric]
      by (simp add: len_def)
    moreover have "take ?n (drop (unat ?es) (contents mb)) = take ?n (body p)"
      using arg_cong [OF mb(2), of "drop (unat ?es)"] by (simp add: drop_take body_def)
    ultimately show ?thesis
      using lt False by (simp add: entity_of_def upd_msg_def text_of_def uc)
  qed
qed

subsection \<open>Scanning a chunk header\<close>

definition plain_char :: "char \<Rightarrow> bool" where
  "plain_char c \<longleftrightarrow> 32 \<le> c_int c \<and> c_int c \<le> 126 \<and> c \<noteq> CHR 0x22"

lemma char_facts [simp]:
  "\<not> is_identifier_char TOKCHAR_CR" "\<not> is_identifier_char TOKCHAR_LF" "\<not> is_blank TOKCHAR_CR"
  "\<not> is_blank TOKCHAR_LF" "TOKCHAR_LF \<noteq> TOKCHAR_CR" "TOKCHAR_CR \<noteq> TOKCHAR_LF" "TOKCHAR_LF \<noteq> CHR 0x22"
  "TOKCHAR_CR \<noteq> CHR 0x22" "\<not> plain_char TOKCHAR_CR" "\<not> plain_char TOKCHAR_LF"
  by code_simp+

lemma token_CRLF: "token_at False (TOKCHAR_CR # TOKCHAR_LF # r) = Inr (2, TT_CRLF)"
  by simp

lemma run_inside:
  "\<not> P e \<Longrightarrow> run_token False P (w @ e # r) ty = Inr (1 + length (takeWhile P w), ty)"
  using length_takeWhile_le [of P w] by (simp add: run_token_def Let_def takeWhile_tail)

text \<open>Every token of a text of plain characters that is followed by a line end lies in it.\<close>

lemma plain_token:
  assumes "w \<noteq> []" and "\<forall>c \<in> set w. plain_char c"
  shows "\<exists>n ty. token_at False (w @ TOKCHAR_CR # r) = Inr (n, ty) \<and> ty \<noteq> TT_CRLF \<and> 0 < n \<and> n \<le> length w"
proof -
  obtain c cs where w: "w = c # cs" using assms(1) by (cases w) auto
  have pc: "plain_char c" using assms(2) w by simp
  then have ne: "c \<noteq> TOKCHAR_CR" "c \<noteq> TOKCHAR_LF" "c \<noteq> CHR 0x22"
    using char_facts(9,10) by (metis, metis, auto simp: plain_char_def)
  have sep: "is_separator_char c" if "\<not> is_identifier_char c"
    using that pc by (simp add: is_identifier_char_def plain_char_def)
  have le: "length (takeWhile P cs) \<le> length cs" for P by (rule length_takeWhile_le)
  show ?thesis
    using ne sep le [of is_identifier_char] le [of is_blank]
    by (cases "is_identifier_char c"; cases "is_blank c")
      (simp_all add: w run_inside)
qed

lemma until_crlf_plain:
  assumes "drop (cursor sc) (stext sc) = w @ TOKCHAR_CR # TOKCHAR_LF # r" and "\<forall>c \<in> set w. plain_char c"
    and "\<not> entire_msg_loaded sc"
  shows "until_crlf_loop sc = (PARSE_OK, sc\<lparr>cursor := cursor sc + length w\<rparr>)"
  using assms
proof (induction "length w" arbitrary: w sc rule: less_induct)
  case less
  note u = until_crlf_loop.simps [of sc]
  show ?case
  proof (cases "w = []")
    case True
    with less.prems show ?thesis
      by (subst u) (simp add: scanner_get_token_def pushback_def token_CRLF del: token_at.simps)
  next
    case False
    obtain n ty where t: "token_at False (w @ TOKCHAR_CR # TOKCHAR_LF # r) = Inr (n, ty)" "ty \<noteq> TT_CRLF" "0 < n"
      "n \<le> length w"
      using plain_token [OF False less.prems(2)] by blast
    let ?sc = "sc\<lparr>cursor := cursor sc + n\<rparr>"
    have "drop (cursor ?sc) (stext ?sc) = drop n (drop (cursor sc) (stext sc))" by (simp add: add.commute)
    then have d: "drop (cursor ?sc) (stext ?sc) = drop n w @ TOKCHAR_CR # TOKCHAR_LF # r"
      using less.prems(1) t(4) by simp
    have "until_crlf_loop ?sc = (PARSE_OK, ?sc\<lparr>cursor := cursor ?sc + length (drop n w)\<rparr>)"
      by (rule less.hyps [OF _ d])
        (use t False less.prems in \<open>auto dest: in_set_dropD\<close>)
    with t less.prems(1,3) show ?thesis
      by (subst u) (simp add: scanner_get_token_def)
  qed
qed

lemma xdigit_facts:
  assumes "isxdigit c"
  shows "is_identifier_char c" "\<not> isspace c" "c \<noteq> CHR ''-''" "c \<noteq> CHR ''+''" "c \<noteq> CHR ''x''" "c \<noteq> CHR ''X''"
proof -
  show id: "is_identifier_char c" using base_digit_id [of 16 c] assms by (simp add: is_base_digit_def)
  then show "\<not> isspace c" by (rule isspace_not_id)
  have "\<not> isxdigit CHR ''-''" "\<not> isxdigit CHR ''+''" "\<not> isxdigit CHR ''x''" "\<not> isxdigit CHR ''X''"
    by code_simp+
  with assms show "c \<noteq> CHR ''-''" "c \<noteq> CHR ''+''" "c \<noteq> CHR ''x''" "c \<noteq> CHR ''X''" by auto
qed

lemma strtol_hex:
  assumes "h \<noteq> []" and "\<forall>c \<in> set h. isxdigit c" and "int (digits_val 16 h) \<le> LONG_MAX"
  shows "strtol 16 h = (int (digits_val 16 h), length h, False)"
proof -
  have sp: "dropWhile isspace h = h" using assms(1,2) xdigit_facts(2) by (cases h) auto
  have sl: "sign_length h = 0" and ng: "\<not> (h \<noteq> [] \<and> hd h = CHR ''-'')"
    using assms(1,2) xdigit_facts(3,4) by (cases h; auto simp: sign_length_def)+
  have hp: "\<not> hex_prefix h"
    using assms(2) xdigit_facts(5,6) by (auto simp: hex_prefix_def split: list.split)
  have tw: "takeWhile (is_base_digit 16) h = h" using assms(2) by (simp add: is_base_digit_def)
  have "hd h \<noteq> CHR ''-''" using ng assms(1) by simp
  then show ?thesis
    using assms(1,3) by (simp add: strtol_def Let_def sp sl hp tw)
qed

lemma match_hex:
  assumes d: "drop (cursor sc) (stext sc) = h @ e # r" and h: "h \<noteq> []" "\<forall>c \<in> set h. isxdigit c"
    and v: "int (digits_val 16 h) \<le> LONG_MAX" and e: "\<not> is_identifier_char e" and l: "\<not> entire_msg_loaded sc"
  shows "match_int 16 sc =
           (PARSE_OK, int_of_long (int (digits_val 16 h)), sc\<lparr>cursor := cursor sc + length h\<rparr>)"
proof -
  have id: "\<forall>c \<in> set h. is_identifier_char c" using h(2) xdigit_facts(1) by blast
  obtain c cs where c: "h = c # cs" using h(1) by (cases h) auto
  have tw: "takeWhile is_identifier_char cs = cs" using id c by (simp add: takeWhile_eq_all_conv)
  have t: "token_at False (h @ e # r) = Inr (length h, TT_IDENTIFIER)"
    using id c e by (simp add: run_inside tw)
  have w: "whole_number 16 (h @ e # r) (length h) = Some (int (digits_val 16 h))"
    unfolding whole_number_local [OF h(1) id e] using h v by (simp add: whole_number_def strtol_hex)
  show ?thesis
    using d l t w by (simp add: match_int_def scanner_get_token_def)
qed

lemma expect_CRLF:
  assumes "drop (cursor sc) (stext sc) = TOKCHAR_CR # TOKCHAR_LF # r" and "\<not> entire_msg_loaded sc"
  shows "\<exists>t. expect_token TT_CRLF sc = (PARSE_OK, [Out_str t], sc\<lparr>cursor := cursor sc + 2\<rparr>)"
    and "\<exists>t. scanner_get_token sc = Inr (t, TT_CRLF, sc\<lparr>cursor := cursor sc + 2\<rparr>)"
  using assms by (simp_all add: expect_token_def scanner_get_token_def token_CRLF del: token_at.simps)

definition ext_ok :: "char list \<Rightarrow> bool" where
  "ext_ok x \<longleftrightarrow> (x = [] \<or> \<not> is_identifier_char (hd x)) \<and> (\<forall>c \<in> set x. plain_char c)"

lemma chunk_line_match:
  assumes d: "drop (cursor sc) (stext sc) = h @ x @ TOKCHAR_CR # TOKCHAR_LF # r" and h: "h \<noteq> []" "\<forall>c \<in> set h. isxdigit c"
    and v: "int (digits_val 16 h) \<le> LONG_MAX" and x: "ext_ok x" and l: "\<not> entire_msg_loaded sc"
  shows "\<exists>t. vfmatch rs sc ''%x%L%c'' =
           Some (PARSE_OK, [Out_int (int_of_long (int (digits_val 16 h))), Out_str t],
                 sc\<lparr>cursor := cursor sc + (length h + length x + 2)\<rparr>)"
proof -
  obtain e r' where e: "x @ TOKCHAR_CR # TOKCHAR_LF # r = e # r'" "\<not> is_identifier_char e"
    using x by (cases x) (auto simp: ext_ok_def)
  note m = match_hex [OF d [unfolded e(1)] h v e(2) l]
  let ?s1 = "sc\<lparr>cursor := cursor sc + length h\<rparr>"
  have d1: "drop (cursor ?s1) (stext ?s1) = x @ TOKCHAR_CR # TOKCHAR_LF # r"
    using arg_cong [OF d, of "drop (length h)"] by (simp add: add.commute)
  have u: "until_crlf_loop ?s1 = (PARSE_OK, ?s1\<lparr>cursor := cursor ?s1 + length x\<rparr>)"
    by (rule until_crlf_plain [OF d1]) (use x l in \<open>auto simp: ext_ok_def\<close>)
  let ?s2 = "sc\<lparr>cursor := cursor sc + length h + length x\<rparr>"
  have "drop (cursor ?s2) (stext ?s2) = TOKCHAR_CR # TOKCHAR_LF # r"
    using arg_cong [OF d1, of "drop (length x)"] by (simp add: add.commute add.left_commute)
  then obtain t where "expect_token TT_CRLF ?s2 = (PARSE_OK, [Out_str t], ?s2\<lparr>cursor := cursor ?s2 + 2\<rparr>)"
    using expect_CRLF(1) [of ?s2 r] l by auto
  with m u show ?thesis
    by (simp add: vfmatch_def vf_percent_def out_str_def read_until_crlf_def add.assoc)
qed

lemma size_of_int:
  "(word_of_int (int_of_long (int v)) :: 32 word) = of_nat v"
proof -
  have "int_of_long (int v) = int v - 4294967296 * ((int v + 2147483648) div 4294967296)"
    using minus_mult_div_eq_mod [of "int v + 2147483648" 4294967296] by (simp add: int_of_long_def)
  then have "(word_of_int (int_of_long (int v)) :: 32 word) =
      of_nat v - 4294967296 * word_of_int ((int v + 2147483648) div 4294967296)" by simp
  moreover have z: "(4294967296 :: 32 word) = 0" using word_exp_length_eq_0 [where 'a = 32] by simp
  ultimately show ?thesis by (simp only: z mult_zero_left diff_zero)
qed

subsection \<open>Chunks\<close>

text \<open>
  A chunk as the protocol writes it: its size in hexadecimal, an extension, the data.
\<close>

record chunk =
  csize :: "char list"
  cext :: "char list"
  cdata :: "char list"

definition chunk_ok :: "chunk \<Rightarrow> bool" where
  "chunk_ok c \<longleftrightarrow>
     csize c \<noteq> [] \<and> (\<forall>x \<in> set (csize c). isxdigit x) \<and> digits_val 16 (csize c) = length (cdata c) \<and>
     length (cdata c) < 2 ^ 32 \<and> ext_ok (cext c)"

definition chunk_text :: "chunk \<Rightarrow> char list" where
  "chunk_text c = csize c @ cext c @ CRLF @ cdata c @ CRLF"

lemma cut_result:
  assumes al: "\<forall>n. can_alloc al n" and ok: "mb_ok (msgbuf (hmsg p))" and t: "text_of p = a @ b @ c"
    and p: "scan_pos p = length a + length b" "k = length a"
  shows "\<exists>mb. cut al k p = Some (upd_msg (\<lambda>m. m\<lparr>msgbuf := mb\<rparr>) (p\<lparr>scan_pos := k\<rparr>)) \<and> mb_ok mb \<and>
           contents mb = a @ c"
proof -
  have l: "length (text_of p) < 2 ^ 64"
    using contents_length [OF ok] unat_bound by (simp add: text_of_def)
  have u: "unat (of_nat k :: size_t) = length a" "unat (of_nat (scan_pos p - k) :: size_t) = length b"
    using l t p by (simp_all add: unat_of_small)
  have "unat (of_nat k :: size_t) \<le> length (contents (msgbuf (hmsg p)))"
    "unat (of_nat k :: size_t) + unat (of_nat (scan_pos p - k) :: size_t) < 2 ^ 64"
    using u t l by (simp_all add: text_of_def)
  from membuffer_delete_result [OF ok this al] obtain mb where
    "membuffer_delete al (msgbuf (hmsg p)) (of_nat k) (of_nat (scan_pos p - k)) = Some mb" "mb_ok mb"
    "contents mb = a @ c"
    using u t by (auto simp: text_of_def split: option.splits)
  then show ?thesis by (auto simp: cut_def)
qed

text \<open>The state between two chunks: \<open>a\<close> is what precedes the next one, \<open>b\<close> what follows.\<close>

definition at_chunk :: "http_parser \<Rightarrow> char list \<Rightarrow> char list \<Rightarrow> bool" where
  "at_chunk p a b \<longleftrightarrow>
     mb_ok (msgbuf (hmsg p)) \<and> text_of p = a @ b \<and> scan_pos p = length a"

text \<open>What stays while chunks are read.\<close>

definition same_frame :: "http_parser \<Rightarrow> http_parser \<Rightarrow> bool" where
  "same_frame p p' \<longleftrightarrow>
     entity_start_position p' = entity_start_position p \<and> is_request (hmsg p') = is_request (hmsg p) \<and>
     hmethod (hmsg p') = hmethod (hmsg p) \<and> amount_discarded (hmsg p') = amount_discarded (hmsg p)"

lemma same_frame_trans: "same_frame p q \<Longrightarrow> same_frame q r \<Longrightarrow> same_frame p r"
  by (simp add: same_frame_def)

lemma chunky_entity_result:
  assumes al: "\<forall>n. can_alloc al n" and at: "at_chunk p a (h @ x @ CRLF @ r)" and h: "h \<noteq> []" "\<forall>c \<in> set h. isxdigit c"
    and v: "int (digits_val 16 h) \<le> LONG_MAX" and x: "ext_ok x"
  shows "\<exists>p'. parser_parse_chunky_entity rs al p = Some (PARSE_CONTINUE_1, p') \<and> at_chunk p' a r \<and> same_frame p p' \<and>
           chunk_size p' = ucast (of_nat (digits_val 16 h) :: 32 word) \<and>
           (if chunk_size p' = 0
            then ent_position p' = ENTREAD_CHUNKY_HEADERS \<and>
                 ent_length (hmsg p') = of_nat (length a) - entity_start_position p + amount_discarded (hmsg p)
            else ent_position p' = ENTREAD_CHUNKY_BODY)"
proof -
  let ?sc = "parser_scanner p"
  have ok: "mb_ok (msgbuf (hmsg p))" and t: "text_of p = a @ h @ x @ CRLF @ r" and s: "scan_pos p = length a"
    using at by (simp_all add: at_chunk_def)
  have d: "drop (cursor ?sc) (stext ?sc) = h @ x @ TOKCHAR_CR # TOKCHAR_LF # r"
    using t s by (simp add: CRLF_def)
  define sc2 where "sc2 = ?sc\<lparr>cursor := cursor ?sc + (length h + length x + 2)\<rparr>"
  obtain tk where m: "vfmatch rs ?sc ''%x%L%c'' =
      Some (PARSE_OK, [Out_int (int_of_long (int (digits_val 16 h))), Out_str tk], sc2)"
    using chunk_line_match [OF d h v x, of rs] by (auto simp: sc2_def)
  define q where "q = set_cursor sc2 p"
  have q: "scan_pos q = length a + length (h @ x @ CRLF)" "text_of q = a @ (h @ x @ CRLF) @ r"
    "mb_ok (msgbuf (hmsg q))"
    using s t ok by (simp_all add: q_def sc2_def CRLF_def)
  obtain mb where c: "cut al (scan_pos p) q = Some (upd_msg (\<lambda>m. m\<lparr>msgbuf := mb\<rparr>) (q\<lparr>scan_pos := scan_pos p\<rparr>))"
    "mb_ok mb" "contents mb = a @ r"
    using cut_result [OF al q(3,2,1) s] by blast
  define w where "w = (ucast (of_nat (digits_val 16 h) :: 32 word) :: size_t)"
  define q1 where "q1 = (upd_msg (\<lambda>m. m\<lparr>msgbuf := mb\<rparr>) (q\<lparr>scan_pos := scan_pos p\<rparr>))\<lparr>chunk_size := w\<rparr>"
  have r: "parser_parse_chunky_entity rs al p = Some (PARSE_CONTINUE_1,
      if w = 0
      then (upd_msg (\<lambda>m. m\<lparr>ent_length := of_nat (scan_pos q1) - entity_start_position q1 + amount_discarded m\<rparr>) q1)
             \<lparr>ent_position := ENTREAD_CHUNKY_HEADERS\<rparr>
      else q1\<lparr>ent_position := ENTREAD_CHUNKY_BODY\<rparr>)"
    using m c(1) by (simp add: parser_parse_chunky_entity_def Let_def q_def [symmetric] size_of_int w_def q1_def)
  have "at_chunk q1 a r" "same_frame p q1" "chunk_size q1 = w" "scan_pos q1 = length a"
    "entity_start_position q1 = entity_start_position p" "amount_discarded (hmsg q1) = amount_discarded (hmsg p)"
    using c(2,3) s by (simp_all add: q1_def q_def at_chunk_def same_frame_def upd_msg_def text_of_def set_cursor_def)
  then show ?thesis
    unfolding r w_def [symmetric]
    by (cases "w = 0") (simp_all add: at_chunk_def same_frame_def upd_msg_def text_of_def)
qed

lemma line_end_match:
  assumes "drop (cursor sc) (stext sc) = CRLF @ r" and "\<not> entire_msg_loaded sc"
  shows "vfmatch rs sc ''%c'' = Some (PARSE_OK, [], sc\<lparr>cursor := cursor sc + 2\<rparr>)"
  using expect_CRLF(1) [of sc r] assms by (auto simp: vfmatch_def vf_percent_def CRLF_def)

lemma chunky_body_result:
  assumes al: "\<forall>n. can_alloc al n" and at: "at_chunk p a (b @ CRLF @ r)"
    and z: "unat (chunk_size p) = length b"
  shows "\<exists>p'. parser_parse_chunky_body rs al p = Some (PARSE_CONTINUE_1, p') \<and> at_chunk p' (a @ b) r \<and>
           same_frame p p' \<and> ent_position p' = ENTREAD_USING_CHUNKED"
proof -
  have ok: "mb_ok (msgbuf (hmsg p))" and t: "text_of p = a @ b @ CRLF @ r" and s: "scan_pos p = length a"
    using at by (simp_all add: at_chunk_def)
  have lt: "length (text_of p) = unat (mlength (msgbuf (hmsg p)))"
    using contents_length [OF ok] by (simp add: text_of_def)
  have "unat (of_nat (scan_pos p) :: size_t) = length a"
    using lt t s unat_bound [of "mlength (msgbuf (hmsg p))"] by (simp add: unat_of_small)
  then have "unat (mlength (msgbuf (hmsg p)) - of_nat (scan_pos p)) = length (b @ CRLF @ r)"
    using lt t by (simp add: unat_sub word_le_nat_alt)
  then have enough: "mlength (msgbuf (hmsg p)) - of_nat (scan_pos p) \<ge> chunk_size p"
    using z by (simp add: word_le_nat_alt)
  let ?k = "scan_pos p + unat (chunk_size p)"
  let ?sc = "parser_scanner (p\<lparr>scan_pos := ?k\<rparr>)"
  have k: "?k = length (a @ b)" using s z by simp
  define sc2 where "sc2 = ?sc\<lparr>cursor := cursor ?sc + 2\<rparr>"
  have m: "vfmatch rs ?sc ''%c'' = Some (PARSE_OK, [], sc2)"
    unfolding sc2_def by (rule line_end_match [of _ r]) (use t s z in simp_all)
  define q where "q = set_cursor sc2 p"
  have q: "scan_pos q = length (a @ b) + length CRLF" "text_of q = (a @ b) @ CRLF @ r"
    "mb_ok (msgbuf (hmsg q))"
    using s z t ok by (simp_all add: q_def sc2_def CRLF_def)
  obtain mb where c: "cut al ?k q = Some (upd_msg (\<lambda>m. m\<lparr>msgbuf := mb\<rparr>) (q\<lparr>scan_pos := ?k\<rparr>))"
    "mb_ok mb" "contents mb = (a @ b) @ r"
    using cut_result [OF al q(3,2,1) k] by blast
  have r: "parser_parse_chunky_body rs al p = Some (PARSE_CONTINUE_1,
      (upd_msg (\<lambda>m. m\<lparr>ent_length := ent_length m + chunk_size p\<rparr>)
        (upd_msg (\<lambda>m. m\<lparr>msgbuf := mb\<rparr>) (q\<lparr>scan_pos := ?k\<rparr>)))\<lparr>ent_position := ENTREAD_USING_CHUNKED\<rparr>)"
    using enough m c(1) by (simp add: parser_parse_chunky_body_def Let_def q_def [symmetric])
  show ?thesis
    unfolding r using c(2,3) s z
    by (simp add: at_chunk_def same_frame_def upd_msg_def text_of_def q_def set_cursor_def)
qed


lemma chunks_read:
  assumes al: "\<forall>n. can_alloc al n" and cs: "\<forall>c \<in> set cs. chunk_ok c \<and> cdata c \<noteq> []"
    and at: "at_chunk p a (concat (map chunk_text cs) @ r)" and e: "ent_position p = ENTREAD_USING_CHUNKED"
  shows "\<exists>p'. parser_parse_entity rs al p = parser_parse_entity rs al p' \<and> same_frame p p' \<and>
           at_chunk p' (a @ concat (map cdata cs)) r \<and> ent_position p' = ENTREAD_USING_CHUNKED"
  using cs at e
proof (induction cs arbitrary: p a)
  case (Cons c cs)
  let ?rest = "concat (map chunk_text cs) @ r"
  have ck: "chunk_ok c" "cdata c \<noteq> []" using Cons.prems(1) by auto
  then have c: "csize c \<noteq> []" "\<forall>x \<in> set (csize c). isxdigit x" "digits_val 16 (csize c) = length (cdata c)"
    "length (cdata c) < 2 ^ 32" "ext_ok (cext c)" by (simp_all add: chunk_ok_def)
  have v: "int (digits_val 16 (csize c)) \<le> LONG_MAX" using c(3,4) by (simp add: LONG_MAX_def)
  have "at_chunk p a (csize c @ cext c @ CRLF @ (cdata c @ CRLF @ ?rest))"
    using Cons.prems(2) by (simp add: chunk_text_def [of c])
  from chunky_entity_result [OF al this c(1,2) v c(5), of rs] obtain p1 where
    1: "parser_parse_chunky_entity rs al p = Some (PARSE_CONTINUE_1, p1)" "at_chunk p1 a (cdata c @ CRLF @ ?rest)"
      "same_frame p p1" "chunk_size p1 = ucast (of_nat (length (cdata c)) :: 32 word)"
      "chunk_size p1 \<noteq> 0 \<longrightarrow> ent_position p1 = ENTREAD_CHUNKY_BODY"
    by (auto simp: c(3) split: if_split_asm)
  have z: "unat (chunk_size p1) = length (cdata c)"
    using 1(4) c(4) by (simp add: unsigned_ucast_eq unsigned_of_nat take_bit_nat_eq_self)
  then have b: "ent_position p1 = ENTREAD_CHUNKY_BODY" using 1(5) ck(2) by auto
  from chunky_body_result [OF al 1(2) z, of rs] obtain p2 where
    2: "parser_parse_chunky_body rs al p1 = Some (PARSE_CONTINUE_1, p2)" "at_chunk p2 (a @ cdata c) ?rest"
      "same_frame p1 p2" "ent_position p2 = ENTREAD_USING_CHUNKED" by blast
  have f: "same_frame p p2" by (rule same_frame_trans [OF 1(3) 2(3)])
  from Cons.IH [OF _ 2(2,4)] Cons.prems(1) obtain p' where
    3: "parser_parse_entity rs al p2 = parser_parse_entity rs al p'" "same_frame p2 p'"
      "at_chunk p' ((a @ cdata c) @ concat (map cdata cs)) r" "ent_position p' = ENTREAD_USING_CHUNKED" by auto
  have "parser_parse_entity rs al p = parser_parse_entity rs al p'"
    using 1(1) 2(1) 3(1) b Cons.prems(3)
    by (simp add: parser_parse_entity.simps [of rs al p] parser_parse_entity.simps [of rs al p1] entity_step_def)
  with 3(2-4) same_frame_trans [OF f] show ?case by auto
qed (auto simp: same_frame_def)


text \<open>Without the last chunk the parser waits for more.\<close>

lemma chunks_unfinished:
  assumes al: "\<forall>n. can_alloc al n" and cs: "\<forall>c \<in> set cs. chunk_ok c \<and> cdata c \<noteq> []"
    and at: "at_chunk p a (concat (map chunk_text cs))" and e: "ent_position p = ENTREAD_USING_CHUNKED"
  shows "\<exists>p'. parser_parse_entity rs al p = Some (PARSE_INCOMPLETE, p')"
proof -
  let ?a = "a @ concat (map cdata cs)"
  from chunks_read [OF al cs _ e, of a "[]" rs] at obtain q where
    q: "parser_parse_entity rs al p = parser_parse_entity rs al q" "same_frame p q" "at_chunk q ?a []"
      "ent_position q = ENTREAD_USING_CHUNKED" by auto
  have "drop (cursor (parser_scanner q)) (stext (parser_scanner q)) = []" using q(3) by (simp add: at_chunk_def)
  then have "parser_parse_chunky_entity rs al q = Some (PARSE_INCOMPLETE, q)"
    by (simp add: parser_parse_chunky_entity_def vfmatch_def vf_percent_def match_int_def scanner_get_token_def Let_def)
  then show ?thesis using q(1,4) by (simp add: parser_parse_entity.simps [of rs al q] entity_step_def)
qed

subsection \<open>Properties\<close>

text \<open>A response whose text is \<open>t\<close>, in the given state of reading its entity.\<close>

definition reading_entity :: "char list \<Rightarrow> ent_pos \<Rightarrow> http_parser" where
  "reading_entity t y =
     with_buf (holding t) (parser_response_init (new_list (\<lambda>_. True)) HTTPMETHOD_GET)\<lparr>ent_position := y\<rparr>"

lemma reading_entity_ok:
  assumes "length t < LIMIT" and "y \<noteq> ENTREAD_CHUNKY_BODY"
  shows "parser_ok (reading_entity t y)" and "at_chunk (reading_entity t y) [] t"
    and "text_of (reading_entity t y) = t" and "ent_position (reading_entity t y) = y"
    and "entity_start_position (reading_entity t y) = 0"
    and "is_request (hmsg (reading_entity t y)) = False" and "amount_discarded (hmsg (reading_entity t y)) = 0"
proof -
  let ?p0 = "parser_response_init (new_list (\<lambda>_. True)) HTTPMETHOD_GET"
  have l: "length t < 2 ^ 64" using assms(1) by (simp add: LIMIT_def)
  have ok: "parser_ok ?p0"
    by (rule parser_init_ok) (simp_all add: new_list_def heap_ok_def)
  have z: "scan_pos ?p0 = 0" "entity_start_position ?p0 = 0"
    by (simp_all add: parser_response_init_def parser_init_def upd_msg_def)
  show "at_chunk (reading_entity t y) [] t" "text_of (reading_entity t y) = t"
    using holding_ok [OF l] z
    by (simp_all add: at_chunk_def reading_entity_def with_buf_def upd_msg_def text_of_def)
  show "ent_position (reading_entity t y) = y" "entity_start_position (reading_entity t y) = 0"
    "is_request (hmsg (reading_entity t y)) = False" "amount_discarded (hmsg (reading_entity t y)) = 0"
    by (simp_all add: reading_entity_def with_buf_def upd_msg_def parser_response_init_def parser_init_def
        httpmsg_init_def zero_message_def)
  have "fit (holding t)"
    using holding_ok [OF l] assms(1) by (simp add: fit_def small_def holding_def)
  with ok z assms(2) show "parser_ok (reading_entity t y)"
    by (simp add: parser_ok_def reading_entity_def with_buf_def upd_msg_def text_of_def)
qed

text \<open>An entity with a \<open>Content-Length\<close> is complete exactly when that many bytes have arrived
  behind the headers, and then it is exactly these bytes; before, the parser asks for more and the
  message and the cursor stay as they are.\<close>
theorem entity_by_length:
  assumes "parser_ok p" and "ent_position p = ENTREAD_USING_CLEN"
  shows "\<exists>p'. parser_parse_entity rs al p =
           Some (if length (body p) < unat (content_length p) then PARSE_INCOMPLETE else PARSE_SUCCESS, p') \<and>
           (if length (body p) < unat (content_length p)
            then text_of p' = text_of p \<and> scan_pos p' = scan_pos p
            else position p' = POS_COMPLETE \<and> entity_of p' = Some (take (unat (content_length p)) (body p)))"
  using using_clen_result [OF assms] assms(2)
  by (auto simp: parser_parse_entity.simps [of rs al p] entity_step_def split: if_splits)

theorem entity_by_length_witness:
  "\<exists>p'. parser_parse_entity no_names any_alloc
           ((reading_entity ''abcd'' ENTREAD_USING_CLEN)\<lparr>content_length := 3\<rparr>) = Some (PARSE_SUCCESS, p') \<and>
         entity_of p' = Some ''abc''"
proof -
  let ?p = "(reading_entity ''abcd'' ENTREAD_USING_CLEN)\<lparr>content_length := 3\<rparr>"
  have l: "length ''abcd'' < LIMIT" by (simp add: LIMIT_def)
  note r = reading_entity_ok [OF l, of ENTREAD_USING_CLEN]
  have "parser_ok ?p" "ent_position ?p = ENTREAD_USING_CLEN" "body ?p = ''abcd''"
    using r by (simp_all add: parser_ok_def text_of_def body_def)
  from entity_by_length [OF this(1,2), of no_names any_alloc] this(3) show ?thesis by auto
qed




text \<open>The size of a chunk is read through an \<open>int\<close>: of a size line \<open>v\<close> only \<open>v mod 2 ^ 32\<close>
  arrives, so that a chunk of \<open>2 ^ 32\<close> bytes (\<open>100000000\<close>) counts as the last one.\<close>
theorem chunk_size_truncated:
  assumes "\<forall>n. can_alloc al n" and "mb_ok (msgbuf (hmsg p))" and "text_of p = a @ h @ CRLF @ r"
    and "scan_pos p = length a" and "h \<noteq> []" and "\<forall>c \<in> set h. isxdigit c"
    and "int (digits_val 16 h) \<le> LONG_MAX"
  shows "\<exists>p'. parser_parse_chunky_entity rs al p = Some (PARSE_CONTINUE_1, p') \<and>
           unat (chunk_size p') = digits_val 16 h mod 2 ^ 32 \<and>
           ent_position p' = (if digits_val 16 h mod 2 ^ 32 = 0 then ENTREAD_CHUNKY_HEADERS else ENTREAD_CHUNKY_BODY)"
proof -
  have x: "ext_ok []" by (simp add: ext_ok_def)
  have "at_chunk p a (h @ [] @ CRLF @ r)" using assms(2-4) by (simp add: at_chunk_def)
  from chunky_entity_result [OF assms(1) this assms(5-7) x, of rs] obtain p' where
    p': "parser_parse_chunky_entity rs al p = Some (PARSE_CONTINUE_1, p')"
      "chunk_size p' = ucast (of_nat (digits_val 16 h) :: 32 word)"
      "ent_position p' = (if chunk_size p' = 0 then ENTREAD_CHUNKY_HEADERS else ENTREAD_CHUNKY_BODY)"
    by (auto split: if_split_asm)
  have "unat (chunk_size p') = digits_val 16 h mod 2 ^ 32"
    unfolding p'(2) by (simp add: unsigned_ucast_eq unsigned_of_nat take_bit_eq_mod)
  moreover from this have "chunk_size p' = 0 \<longleftrightarrow> digits_val 16 h mod 2 ^ 32 = 0"
    by (simp add: unat_eq_zero [symmetric])
  ultimately show ?thesis using p'(1,3) by simp
qed

theorem chunk_size_truncated_witness:
  "\<exists>p'. parser_parse_chunky_entity no_names any_alloc
           (reading_entity (''100000000'' @ CRLF @ ''data'') ENTREAD_USING_CHUNKED) = Some (PARSE_CONTINUE_1, p') \<and>
         unat (chunk_size p') = 0"
proof -
  let ?t = "''100000000'' @ CRLF @ ''data''"
  have l: "length ?t < LIMIT" by (simp add: LIMIT_def CRLF_def)
  note r = reading_entity_ok [OF l, of ENTREAD_USING_CHUNKED]
  have v: "\<forall>c \<in> set ''100000000''. isxdigit c" by code_simp
  have d: "digits_val 16 ''100000000'' = 4294967296"
    by (simp add: digits_val_def hex_val_def isdigit_def islower_def isupper_def code_def)
  have "mb_ok (msgbuf (hmsg (reading_entity ?t ENTREAD_USING_CHUNKED)))"
    "text_of (reading_entity ?t ENTREAD_USING_CHUNKED) = [] @ ''100000000'' @ CRLF @ ''data''"
    "scan_pos (reading_entity ?t ENTREAD_USING_CHUNKED) = length []"
    using r(2,3) by (simp_all add: at_chunk_def)
  from chunk_size_truncated [OF _ this _ v, of any_alloc no_names] d show ?thesis
    by (auto simp: any_alloc_def LONG_MAX_def)
qed

text \<open>A \<open>Content-Length\<close> that is not a number is not refused: it becomes the largest 32-bit
  length, and the parser waits for 4 gigabytes.\<close>
theorem bad_length_accepted:
  "map_option (\<lambda>(st, p). (st, content_length p))
     (parser_append no_names any_alloc
        (''HTTP/1.1 200 OK'' @ CRLF @ ''Content-Length: abc'' @ CRLF @ CRLF @ ''xyz'')
        (parser_response_init (new_list (\<lambda>_. True)) HTTPMETHOD_GET)) =
   Some (PARSE_INCOMPLETE, 4294967295)"
  by code_simp

end
