(* ===== verification/HttpIO.thy ===== *)
theory HttpIO
  imports HttpEntity
begin

text \<open>
  Messages over sockets: \<open>sock_read_write\<close> of \<open>genlib/net/sock.c\<close>, \<open>http_RecvMessage\<close> and
  \<open>http_SendMessage\<close> of \<open>genlib/net/http/httpreadwrite.c\<close>. The operating system is a script of what
  its calls will answer; a call behind the end of the script fails. What is written is kept in
  \<open>wire\<close>. \<open>None\<close> is undefined behaviour: an access outside of a buffer, a NULL pointer, or a call
  that never returns.
\<close>

subsection \<open>Sockets\<close>

text \<open>
  The answers of \<open>select\<close>; what \<open>recv\<close> would deliver (\<open>None\<close> an error, \<open>[]\<close> that the peer has closed)
  and what \<open>send\<close> accepts (\<open>None\<close> an error); the times the clock shows at its calls.
\<close>

datatype sel = SelReady | SelTimeout | SelIntr | SelError

record SOCKINFO =
  selects :: "sel list"
  recvs :: "char list option list"
  sends :: "nat option list"
  clock :: "nat \<Rightarrow> int"
  ticks :: nat
  wire :: "char list"

definition UPNP_E_TIMEDOUT :: int where "UPNP_E_TIMEDOUT = -207"
definition UPNP_E_SOCKET_ERROR :: int where "UPNP_E_SOCKET_ERROR = -208"
definition UPNP_E_BAD_HTTPMSG :: int where "UPNP_E_BAD_HTTPMSG = -119"
definition UPNP_E_FILE_READ_ERROR :: int where "UPNP_E_FILE_READ_ERROR = -503"
definition UPNP_E_INTERNAL_ERROR :: int where "UPNP_E_INTERNAL_ERROR = -911"
definition HTTP_REQ_ENTITY_TOO_LARGE :: int where "HTTP_REQ_ENTITY_TOO_LARGE = 413"

lemmas io_codes = UPNP_E_TIMEDOUT_def UPNP_E_SOCKET_ERROR_def UPNP_E_BAD_HTTPMSG_def
  UPNP_E_FILE_READ_ERROR_def UPNP_E_INTERNAL_ERROR_def UPNP_E_OUTOF_BOUNDS_def UPNP_E_OUTOF_MEMORY_def

definition time :: "SOCKINFO \<Rightarrow> int \<times> SOCKINFO" where
  "time s = (clock s (ticks s), s\<lparr>ticks := Suc (ticks s)\<rparr>)"

text \<open>
  Waiting for the socket; the result is that of the last \<open>select\<close>, with the rest of the script.
  Without a time limit \<open>select\<close> does not time out.
\<close>

fun wait_ready :: "bool \<Rightarrow> sel list \<Rightarrow> sel \<times> sel list" where
  "wait_ready forever [] = (SelError, [])"
| "wait_ready forever (SelIntr # r) = wait_ready forever r"
| "wait_ready forever (SelTimeout # r) = (if forever then wait_ready forever r else (SelTimeout, r))"
| "wait_ready forever (x # r) = (x, r)"

text \<open>\<open>recv\<close> of at most \<open>n\<close> bytes.\<close>

definition recv :: "nat \<Rightarrow> SOCKINFO \<Rightarrow> char list option \<times> SOCKINFO" where
  "recv n s =
     (case recvs s of
        [] \<Rightarrow> (None, s)
      | None # r \<Rightarrow> (None, s\<lparr>recvs := r\<rparr>)
      | Some b # r \<Rightarrow> (Some (take n b), s\<lparr>recvs := (if length b > n then Some (drop n b) # r else r)\<rparr>))"

text \<open>The loop around \<open>send\<close>, which accepts at most what is left.\<close>

fun send_loop :: "nat option list \<Rightarrow> char list \<Rightarrow> char list \<Rightarrow> bool \<times> nat option list \<times> char list" where
  "send_loop r w [] = (True, r, w)"
| "send_loop [] w b = (False, [], w)"
| "send_loop (None # r) w b = (False, r, w)"
| "send_loop (Some n # r) w b = send_loop r (w @ take n b) (drop n b)"

text \<open>\<open>(int)\<close> of a \<open>long\<close>.\<close>

definition int_cast :: "int \<Rightarrow> int" where
  "int_cast n = sint (word_of_int n :: 32 word)"

definition start_io :: "int \<Rightarrow> SOCKINFO \<Rightarrow> int \<times> int \<times> SOCKINFO" where
  "start_io timeoutSecs info =
     (case time info of (start_time, s1) \<Rightarrow>
        if timeoutSecs < 0 then (UPNP_E_TIMEDOUT, start_time, s1)
        else
          (case wait_ready (timeoutSecs = 0) (selects s1) of (r, rest) \<Rightarrow>
             (case r of
                SelTimeout \<Rightarrow> UPNP_E_TIMEDOUT
              | SelError \<Rightarrow> UPNP_E_SOCKET_ERROR
              | _ \<Rightarrow> 0,
              start_time, s1\<lparr>selects := rest\<rparr>)))"

definition time_left :: "int \<Rightarrow> int \<Rightarrow> SOCKINFO \<Rightarrow> int \<times> SOCKINFO" where
  "time_left timeoutSecs start_time s =
     (if timeoutSecs \<noteq> 0
      then (case time s of (t, s1) \<Rightarrow> (timeoutSecs - int_cast (t - start_time), s1))
      else (timeoutSecs, s))"

definition sock_read :: "nat \<Rightarrow> int \<Rightarrow> SOCKINFO \<Rightarrow> int \<times> char list \<times> int \<times> SOCKINFO" where
  "sock_read bufsize timeoutSecs info =
     (case start_io timeoutSecs info of (rc, start_time, s1) \<Rightarrow>
        if rc \<noteq> 0 then (rc, [], timeoutSecs, s1)
        else
          (case recv bufsize s1 of
             (None, s2) \<Rightarrow> (UPNP_E_SOCKET_ERROR, [], timeoutSecs, s2)
           | (Some b, s2) \<Rightarrow>
               (case time_left timeoutSecs start_time s2 of (t, s3) \<Rightarrow> (int_cast (int (length b)), b, t, s3))))"

definition sock_write :: "char list \<Rightarrow> int \<Rightarrow> SOCKINFO \<Rightarrow> int \<times> int \<times> SOCKINFO" where
  "sock_write b timeoutSecs info =
     (case start_io timeoutSecs info of (rc, start_time, s1) \<Rightarrow>
        if rc \<noteq> 0 then (rc, timeoutSecs, s1)
        else
          (case send_loop (sends s1) (wire s1) b of (ok, r, w) \<Rightarrow>
             let s2 = s1\<lparr>sends := r, wire := w\<rparr>
             in if \<not> ok then (-1, timeoutSecs, s2)
                else (case time_left timeoutSecs start_time s2 of (t, s3) \<Rightarrow> (int_cast (int (length b)), t, s3))))"

subsection \<open>Receiving\<close>

text \<open>What \<open>http_RecvMessage\<close> returns: the error code is untouched (\<open>None\<close>) if there is none.\<close>

record received =
  rc_ret :: int
  rc_http_error :: "int option"
  rc_parser :: http_parser
  rc_timeout :: int
  rc_sock :: SOCKINFO

definition RECV_BUF :: nat where "RECV_BUF = 2 * 1024"

definition too_large :: "size_t \<Rightarrow> http_parser \<Rightarrow> bool" where
  "too_large g_maxContentLength p \<longleftrightarrow>
     g_maxContentLength > 0 \<and> content_length p > (ucast g_maxContentLength :: 32 word)"

partial_function (option) recv_loop ::
  "resolver \<Rightarrow> allocator \<Rightarrow> size_t \<Rightarrow> bool \<Rightarrow> int \<Rightarrow> SOCKINFO \<Rightarrow> http_parser \<Rightarrow> received option" where
  "recv_loop rs al lim ok_on_close timeout info p =
     (let r = sock_read RECV_BUF timeout info; num_read = fst r; t = fst (snd (snd r)); s = snd (snd (snd r))
      in if num_read > 0
         then Option.bind (parser_append rs al (fst (snd r)) p)
           (\<lambda>x. if fst x = PARSE_SUCCESS
                then if too_large lim (snd x)
                     then Some \<lparr>rc_ret = UPNP_E_OUTOF_BOUNDS, rc_http_error = Some HTTP_REQ_ENTITY_TOO_LARGE,
                                rc_parser = snd x, rc_timeout = t, rc_sock = s\<rparr>
                     else Some \<lparr>rc_ret = 0, rc_http_error = None, rc_parser = snd x, rc_timeout = t, rc_sock = s\<rparr>
                else if fst x \<in> {PARSE_FAILURE, PARSE_NO_MATCH}
                then Some \<lparr>rc_ret = UPNP_E_BAD_HTTPMSG, rc_http_error = Some (http_error_code (snd x)),
                           rc_parser = snd x, rc_timeout = t, rc_sock = s\<rparr>
                else if fst x = PARSE_CONTINUE_1
                then Some \<lparr>rc_ret = 0, rc_http_error = None, rc_parser = snd x, rc_timeout = t, rc_sock = s\<rparr>
                else recv_loop rs al lim (fst x = PARSE_INCOMPLETE_ENTITY \<or> ok_on_close) t s (snd x))
         else if num_read = 0
         then Some (if ok_on_close
                    then \<lparr>rc_ret = 0, rc_http_error = None, rc_parser = p, rc_timeout = t, rc_sock = s\<rparr>
                    else \<lparr>rc_ret = UPNP_E_BAD_HTTPMSG, rc_http_error = Some HTTP_BAD_REQUEST,
                          rc_parser = p, rc_timeout = t, rc_sock = s\<rparr>)
         else Some \<lparr>rc_ret = num_read, rc_http_error = Some (http_error_code p),
                    rc_parser = p, rc_timeout = t, rc_sock = s\<rparr>)"

definition http_RecvMessage ::
  "resolver \<Rightarrow> allocator \<Rightarrow> size_t \<Rightarrow> http_header LinkedList \<Rightarrow> int \<Rightarrow> int \<Rightarrow> SOCKINFO \<Rightarrow> received option" where
  "http_RecvMessage rs al g_maxContentLength l0 req_method timeout_secs info =
     recv_loop rs al g_maxContentLength False timeout_secs info
       (if req_method = HTTPMETHOD_UNKNOWN then parser_request_init l0
        else parser_response_init l0 req_method)"

subsection \<open>Sending\<close>

record SendInstruction =
  IsVirtualFile :: bool
  IsChunkActive :: bool
  IsRangeActive :: bool
  IsTrailers :: bool
  RangeHeader :: "char list"
  AcceptLanguageHeader :: "char list"
  RangeOffset :: int
  ReadSendSize :: int
  RecvWriteSize :: int

definition WEB_SERVER_BUF_SIZE :: nat where "WEB_SERVER_BUF_SIZE = 1024 * 1024"
definition CHUNK_HEADER_SIZE :: nat where "CHUNK_HEADER_SIZE = 10"

text \<open>
  An open file: what its reads deliver from the start and from an offset, if the seek succeeds, the
  end of the file after the last. An error of a read callback is a negative number, one of \<open>fread\<close>
  looks like the end.
\<close>

datatype read_result = Got "char list" | ReadError

record file_stream =
  reads :: "read_result list"
  seek :: "int \<Rightarrow> read_result list option"

definition read_file :: "bool \<Rightarrow> nat \<Rightarrow> read_result list \<Rightarrow> size_t \<times> char list \<times> read_result list" where
  "read_file is_virtual n rd =
     (case rd of
        [] \<Rightarrow> (0, [], [])
      | ReadError # r \<Rightarrow> (if is_virtual then -1 else 0, [], r)
      | Got b # r \<Rightarrow>
          (of_nat (length (take n b)), take n b, (if length b > n then Got (drop n b) # r else r)))"

text \<open>\<open>%zx\<close>\<close>

definition hex_digit :: "nat \<Rightarrow> char" where
  "hex_digit d = (if d < 10 then char_of (48 + d) else char_of (87 + d))"

fun hex_string :: "nat \<Rightarrow> char list" where
  "hex_string n = (if n < 16 then [hex_digit n] else hex_string (n div 16) @ [hex_digit (n mod 16)])"

declare hex_string.simps [simp del]

definition LAST_CHUNK :: "char list" where "LAST_CHUNK = ''0'' @ CRLF @ CRLF"

text \<open>
  The loop over the contents of a file. A size larger than the buffer makes the code read and write
  behind it.
\<close>

partial_function (option) send_file_loop ::
  "SendInstruction \<Rightarrow> nat \<Rightarrow> size_t \<Rightarrow> read_result list \<Rightarrow> int \<Rightarrow> SOCKINFO \<Rightarrow> (int \<times> int \<times> SOCKINFO) option" where
  "send_file_loop instr bufsize amount rd timeout s =
     (if amount = 0 then Some (0, timeout, s)
      else
        let r = read_file (IsVirtualFile instr) (min (unat amount) bufsize) rd;
            num_read = fst r; data = fst (snd r); rd1 = snd (snd r);
            amount1 = (if ReadSendSize instr < 0 then of_nat bufsize else amount - num_read)
        in if num_read = 0
           then if IsChunkActive instr then Some (0, snd (sock_write LAST_CHUNK timeout s))
                else Some (UPNP_E_FILE_READ_ERROR, timeout, s)
           else if unat num_read > bufsize then None
           else if IsChunkActive instr \<and> length (hex_string (unat num_read)) \<ge> CHUNK_HEADER_SIZE - 2
           then Some (UPNP_E_INTERNAL_ERROR, timeout, s)
           else
             let b = (if IsChunkActive instr then hex_string (unat num_read) @ CRLF @ data @ CRLF else data);
                 w = sock_write b timeout s
             in if fst w \<le> 0 \<or> (word_of_int (fst w) :: size_t) \<noteq> of_nat (length b) then Some (0, snd w)
                else send_file_loop instr bufsize amount1 rd1 (fst (snd w)) (snd (snd w)))"

text \<open>\<open>fmt\<close> with the arguments of its characters; another character than these is skipped.\<close>

datatype send_item =
  Send_I SendInstruction
| Send_f "char list"
| Send_b "char list"

text \<open>
  What \<open>I\<close> sets: the size of the buffer, which an earlier \<open>I\<close> may have made smaller, and how much is
  to be read.
\<close>

definition setup_I :: "nat \<Rightarrow> SendInstruction \<Rightarrow> nat \<times> size_t" where
  "setup_I bufsize instr =
     (let amount = (if ReadSendSize instr \<ge> 0 then word_of_int (ReadSendSize instr) else of_nat bufsize)
      in (if unat amount < WEB_SERVER_BUF_SIZE then unat amount else bufsize, amount))"

definition send_file ::
  "(bool \<Rightarrow> char list \<Rightarrow> file_stream option) \<Rightarrow> (SendInstruction \<times> nat \<times> size_t) option \<Rightarrow> char list \<Rightarrow> int \<Rightarrow>
   SOCKINFO \<Rightarrow> (int \<times> int \<times> SOCKINFO) option" where
  "send_file open_file instr filename timeout s =
     (case open_file (case instr of None \<Rightarrow> False | Some (i, _) \<Rightarrow> IsVirtualFile i) filename of
        None \<Rightarrow> Some (UPNP_E_FILE_READ_ERROR, timeout, s)
      | Some fp \<Rightarrow>
          (case instr of
             None \<Rightarrow> Some (0, timeout, s)
           | Some (i, bufsize, amount) \<Rightarrow>
               (case (if IsRangeActive i then seek fp (RangeOffset i) else Some (reads fp)) of
                  None \<Rightarrow> Some (UPNP_E_FILE_READ_ERROR, timeout, s)
                | Some rd \<Rightarrow> send_file_loop i bufsize amount rd timeout s)))"

fun send_items ::
  "(bool \<Rightarrow> char list \<Rightarrow> file_stream option) \<Rightarrow> allocator \<Rightarrow> (SendInstruction \<times> nat \<times> size_t) option \<Rightarrow>
   send_item list \<Rightarrow> int \<Rightarrow> SOCKINFO \<Rightarrow> (int \<times> int \<times> SOCKINFO) option" where
  "send_items open_file al instr [] timeout s = Some (0, timeout, s)"
| "send_items open_file al instr (Send_I i # fmt) timeout s =
     (case setup_I (case instr of None \<Rightarrow> WEB_SERVER_BUF_SIZE | Some (_, b, _) \<Rightarrow> b) i of (bufsize, amount) \<Rightarrow>
        if can_alloc al (bufsize + CHUNK_HEADER_SIZE + 10)
        then send_items open_file al (Some (i, bufsize, amount)) fmt timeout s
        else Some (UPNP_E_OUTOF_MEMORY, timeout, s))"
| "send_items open_file al instr (Send_f filename # fmt) timeout s =
     send_file open_file instr filename timeout s"
| "send_items open_file al instr (Send_b b # fmt) timeout s =
     (if b = [] then send_items open_file al instr fmt timeout s
      else
        (case sock_write b timeout s of (nw, t, s1) \<Rightarrow>
           if (word_of_int nw :: size_t) \<noteq> of_nat (length b) then Some (0, t, s1)
           else send_items open_file al instr fmt t s1))"

definition http_SendMessage ::
  "(bool \<Rightarrow> char list \<Rightarrow> file_stream option) \<Rightarrow> allocator \<Rightarrow> send_item list \<Rightarrow> int \<Rightarrow> SOCKINFO \<Rightarrow>
   (int \<times> int \<times> SOCKINFO) option" where
  "http_SendMessage open_file al fmt timeout info = send_items open_file al None fmt timeout info"

declare recv_loop.simps [code] send_file_loop.simps [code]

end
