(* ===== verification/HttpIOProperties.thy ===== *)
theory HttpIOProperties
  imports HttpIO
begin

text \<open>
  Receiving and sending of messages: \<open>http_RecvMessage\<close> returns whatever the network does, with a
  complete message or an error; \<open>http_SendMessage\<close> writes what it is told to, and what it sends in
  chunks is what the parser puts together again.
\<close>

subsection \<open>Receiving\<close>







lemma int_cast_small: "0 \<le> n \<Longrightarrow> n < 2 ^ 31 \<Longrightarrow> int_cast n = n"
  by (simp add: int_cast_def int_word_sint)















subsection \<open>Chunks as they are written\<close>

lemma hex_digit_ok:
  assumes "d < 16" shows "isxdigit (hex_digit d) \<and> hex_val (hex_digit d) = d"
proof -
  have "d < 10 \<or> d = 10 \<or> d = 11 \<or> d = 12 \<or> d = 13 \<or> d = 14 \<or> d = 15" using assms by linarith
  then show ?thesis
    by (elim disjE) (simp_all add: hex_digit_def isxdigit_def isdigit_def isupper_def islower_def hex_val_def code_def)
qed

lemma digits_val_snoc: "digits_val base (ds @ [d]) = digits_val base ds * base + hex_val d"
  by (simp add: digits_val_def)

lemma hex_string_ok: "hex_string n \<noteq> [] \<and> (\<forall>c \<in> set (hex_string n). isxdigit c) \<and> digits_val 16 (hex_string n) = n"
proof (induction n rule: less_induct)
  case (less n)
  show ?case
  proof (cases "n < 16")
    case True
    then show ?thesis using hex_digit_ok[of n] by (simp add: hex_string.simps[of n] digits_val_def)
  next
    case False
    then have "n div 16 < n" by simp
    from less.IH[OF this] show ?thesis
      using False hex_digit_ok[of "n mod 16"] by (simp add: hex_string.simps[of n] digits_val_snoc)
  qed
qed

lemma hex_string_length: "n < 16 ^ Suc k \<Longrightarrow> length (hex_string n) \<le> Suc k"
proof (induction k arbitrary: n)
  case 0
  then show ?case by (simp add: hex_string.simps[of n])
next
  case (Suc k)
  then have "length (hex_string (n div 16)) \<le> Suc k" by (intro Suc.IH) auto
  then show ?case by (subst hex_string.simps) auto
qed

definition chunk_of :: "char list \<Rightarrow> chunk" where
  "chunk_of b = \<lparr>csize = hex_string (length b), cext = [], cdata = b\<rparr>"

lemma chunk_of_ok: "length b < 2 ^ 32 \<Longrightarrow> chunk_ok (chunk_of b)"
  using hex_string_ok[of "length b"] by (simp add: chunk_ok_def chunk_of_def ext_ok_def)

lemma chunk_of_text: "chunk_text (chunk_of b) = hex_string (length b) @ CRLF @ b @ CRLF"
  by (simp add: chunk_text_def chunk_of_def)

subsection \<open>Sending\<close>

text \<open>A network that takes the next \<open>k\<close> pieces at once.\<close>

definition accepting :: "nat \<Rightarrow> SOCKINFO \<Rightarrow> bool" where
  "accepting k s \<longleftrightarrow> take k (selects s) = replicate k SelReady \<and> take k (sends s) = replicate k (Some (2 ^ 31))"

lemma accepting_less: "accepting k s \<Longrightarrow> j \<le> k \<Longrightarrow> accepting j s"
proof -
  assume a: "accepting k s" and "j \<le> k"
  then have "take j (take k xs) = take j xs" "take j (replicate k y) = replicate j y" for xs :: "'a list" and y :: 'b
    by (simp_all add: min_def)
  then show ?thesis using a unfolding accepting_def by (metis)
qed

lemma write_accepted:
  assumes "accepting (Suc k) s" "b \<noteq> []" "length b < 2 ^ 31"
  shows "\<exists>s'. sock_write b 0 s = (int (length b), 0, s') \<and> wire s' = wire s @ b \<and> accepting k s'"
proof -
  obtain ss rs where s: "selects s = SelReady # ss" "sends s = Some (2 ^ 31) # rs"
    "take k ss = replicate k SelReady" "take k rs = replicate k (Some (2 ^ 31))"
    using assms(1) by (cases "selects s"; cases "sends s") (auto simp: accepting_def)
  obtain c cs where b: "b = c # cs" using assms(2) by (cases b) auto
  have "send_loop (Some (2 ^ 31) # rs) w b = (True, rs, w @ b)" for w
    unfolding b using assms(3) b by simp
  then show ?thesis
    using s assms(3) by (auto simp: sock_write_def start_io_def time_def time_left_def accepting_def int_cast_small)
qed

text \<open>What one turn of the loop writes for the data it has read.\<close>

definition piece :: "SendInstruction \<Rightarrow> char list \<Rightarrow> char list" where
  "piece i d = (if IsChunkActive i then chunk_text (chunk_of d) else d)"

lemma piece_eq: "IsChunkActive i \<Longrightarrow> map (piece i) ps = map chunk_text (map chunk_of ps)"
  by (simp add: piece_def)

lemma piece_length: "d \<noteq> [] \<Longrightarrow> length d \<le> 2 ^ 20 \<Longrightarrow> piece i d \<noteq> [] \<and> length (piece i d) < 2 ^ 31"
  using hex_string_length[of "length d" 6] by (auto simp: piece_def chunk_of_text CRLF_def)

lemma read_file_piece:
  assumes "b \<noteq> []" "0 < k" "k \<le> 2 ^ 20" "[] \<notin> set bs"
  shows "\<exists>bs1. read_file v k (map Got (b # bs)) = (of_nat (length (take k b)), take k b, map Got bs1) \<and>
           [] \<notin> set bs1 \<and> concat (b # bs) = take k b @ concat bs1"
proof (cases "length b > k")
  case True
  then show ?thesis
    using assms by (intro exI[of _ "drop k b # bs"]) (simp add: read_file_def append_assoc[symmetric] del: append_assoc)
next
  case False
  then show ?thesis using assms by (intro exI[of _ bs]) (simp add: read_file_def)
qed

lemma send_step:
  assumes "amount \<noteq> 0" and B: "B \<le> 2 ^ 20"
    and r: "read_file (IsVirtualFile i) (min (unat amount) B) rd = (of_nat (length d), d, rd1)"
    and d: "d \<noteq> []" "length d \<le> B"
    and w: "sock_write (piece i d) t s = (int (length (piece i d)), t', s1)"
  shows "send_file_loop i B amount rd t s =
    send_file_loop i B (if ReadSendSize i < 0 then of_nat B else amount - of_nat (length d)) rd1 t' s1"
proof -
  have ud: "unat (of_nat (length d) :: size_t) = length d" using d(2) B by (simp add: unat_of_small)
  have d0: "(of_nat (length d) :: size_t) \<noteq> 0" using ud d(1) by (metis length_0_conv unat_0)
  have h: "\<not> length (hex_string (length d)) \<ge> CHUNK_HEADER_SIZE - 2"
    using hex_string_length[of "length d" 6] d(2) B by (simp add: CHUNK_HEADER_SIZE_def)
  have b: "(if IsChunkActive i then hex_string (length d) @ CRLF @ d @ CRLF else d) = piece i d"
    by (simp add: piece_def chunk_of_text)
  have "\<not> int (length (piece i d)) \<le> 0" using piece_length[OF d(1), of i] d(2) B by simp
  then show ?thesis
    using assms(1) d(2) h w r ud d0 unfolding send_file_loop.simps[of i B amount rd t s]
    by (simp only: Let_def fst_conv snd_conv b if_False if_True not_less[symmetric]) simp
qed

text \<open>
  The loop, for a request of \<open>n\<close> bytes, or more than there are if the size is negative: it sends
  \<open>n\<close> bytes, or what there is.
\<close>

lemma send_file_loop_result:
  assumes B: "0 < B" "B \<le> 2 ^ 20"
  shows "[] \<notin> set bs \<Longrightarrow> n < 2 ^ 64 \<Longrightarrow> (ReadSendSize i < 0 \<longrightarrow> n > length (concat bs)) \<Longrightarrow>
     accepting (Suc (length (concat bs))) s \<Longrightarrow>
     \<exists>ps s'. send_file_loop i B (of_nat (if ReadSendSize i < 0 then B else n)) (map Got bs) 0 s =
         Some (if n \<le> length (concat bs) \<or> IsChunkActive i then 0 else UPNP_E_FILE_READ_ERROR, 0, s') \<and>
       concat ps = take n (concat bs) \<and> (\<forall>d \<in> set ps. d \<noteq> [] \<and> length d \<le> B) \<and>
       wire s' = wire s @ concat (map (piece i) ps) @
         (if n > length (concat bs) \<and> IsChunkActive i then LAST_CHUNK else [])"
proof (induction bs arbitrary: n s rule: measure_induct_rule[where f = "\<lambda>bs. length (concat bs)"])
  case (less bs)
  let ?a = "of_nat (if ReadSendSize i < 0 then B else n) :: size_t"
  have ua: "unat ?a = (if ReadSendSize i < 0 then B else n)" using B(2) less.prems(2) by (simp add: unat_of_small)
  note u = send_file_loop.simps[of i B ?a "map Got bs" 0 s]
  show ?case
  proof (cases "n = 0")
    case True
    then have "\<not> ReadSendSize i < 0" using less.prems(3) by auto
    then show ?thesis using True u by (intro exI[of _ "[]"] exI[of _ s]) simp
  next
    case n: False
    then have a0: "?a \<noteq> 0" using ua B(1) by (metis unat_0 neq0_conv)
    define k where "k = min (unat ?a) B"
    have k: "0 < k" "k \<le> B" using n B(1) ua by (simp_all add: k_def)
    show ?thesis
    proof (cases bs)
      case Nil
      obtain s' where w: "sock_write LAST_CHUNK 0 s = (int (length LAST_CHUNK), 0, s')" "wire s' = wire s @ LAST_CHUNK"
        using write_accepted[of 0 s LAST_CHUNK] less.prems(4) Nil by (auto simp: LAST_CHUNK_def CRLF_def)
      show ?thesis
        using w n a0 Nil unfolding u by (intro exI[of _ "[]"]) (auto simp: read_file_def Let_def)
    next
      case (Cons b bs')
      obtain bs1 where r: "read_file (IsVirtualFile i) k (map Got bs) = (of_nat (length (take k b)), take k b, map Got bs1)"
        "[] \<notin> set bs1" "concat bs = take k b @ concat bs1"
        using read_file_piece[of b k bs'] less.prems(1) k B(2) Cons by auto
      define d where "d = take k b"
      have d: "d \<noteq> []" "length d \<le> B" "length d \<le> 2 ^ 20" using less.prems(1) k B(2) Cons by (auto simp: d_def)
      have acc: "accepting (Suc (Suc (length (concat bs1)))) s"
      proof (rule accepting_less[OF less.prems(4)])
        have "length d \<ge> Suc 0" using d(1) by (cases d) auto
        then show "Suc (Suc (length (concat bs1))) \<le> Suc (length (concat bs))" using r(3) by (simp add: d_def[symmetric])
      qed
      obtain s1 where w: "sock_write (piece i d) 0 s = (int (length (piece i d)), 0, s1)"
        "wire s1 = wire s @ piece i d" "accepting (Suc (length (concat bs1))) s1"
        using write_accepted[OF acc, of "piece i d"] piece_length[OF d(1,3), of i] by auto
      have dn: "\<not> ReadSendSize i < 0 \<longrightarrow> length d \<le> n" using ua by (auto simp: d_def k_def)
      define n1 where "n1 = n - length d"
      have a1: "(if ReadSendSize i < 0 then of_nat B else ?a - of_nat (length d)) =
          (of_nat (if ReadSendSize i < 0 then B else n1) :: size_t)"
        using dn by (simp add: n1_def)
      have step: "send_file_loop i B ?a (map Got bs) 0 s =
          send_file_loop i B (of_nat (if ReadSendSize i < 0 then B else n1)) (map Got bs1) 0 s1"
        unfolding send_step[OF a0 B(2) r(1)[folded d_def, unfolded k_def] d(1,2) w(1)] a1 ..
      have len: "length (concat bs1) < length (concat bs)" using r(3) d(1) by (simp add: d_def[symmetric])
      have cc: "concat bs = d @ concat bs1" using r(3) by (simp add: d_def)
      have "ReadSendSize i < 0 \<longrightarrow> n1 > length (concat bs1)"
        using less.prems(3) unfolding cc n1_def length_append by linarith
      moreover have "n1 < 2 ^ 64" using less.prems(2) by (simp add: n1_def)
      ultimately obtain ps s' where p:
        "send_file_loop i B (of_nat (if ReadSendSize i < 0 then B else n1)) (map Got bs1) 0 s1 =
           Some (if n1 \<le> length (concat bs1) \<or> IsChunkActive i then 0 else UPNP_E_FILE_READ_ERROR, 0, s')"
        "concat ps = take n1 (concat bs1)" "\<forall>d \<in> set ps. d \<noteq> [] \<and> length d \<le> B"
        "wire s' = wire s1 @ concat (map (piece i) ps) @ (if n1 > length (concat bs1) \<and> IsChunkActive i then LAST_CHUNK else [])"
        using less.IH[OF len r(2) _ _ w(3)] by blast
      have dn': "length d \<le> n" using dn less.prems(3) cc by (cases "ReadSendSize i < 0") auto
      have "n1 \<le> length (concat bs1) \<longleftrightarrow> n \<le> length (concat bs)" using cc dn' by (simp add: n1_def) linarith
      then show ?thesis
        using p step w(2) cc dn' d(1,2) by (intro exI[of _ "d # ps"] exI[of _ s']) (auto simp: n1_def)
    qed
  qed
qed

lemma send_file_result:
  assumes f: "open_file (IsVirtualFile i) f = Some fp"
    and rd: "(if IsRangeActive i then seek fp (RangeOffset i) else Some (reads fp)) = Some (map Got bs)" "[] \<notin> set bs"
    and al: "can_alloc al (fst (setup_I WEB_SERVER_BUF_SIZE i) + CHUNK_HEADER_SIZE + 10)"
    and acc: "accepting (Suc (length (concat bs))) s"
    and n: "n < 2 ^ 64" "if ReadSendSize i < 0 then n > length (concat bs) else n = nat (ReadSendSize i)"
  shows "\<exists>ps s'. http_SendMessage open_file al [Send_I i, Send_f f] 0 s =
         Some (if n \<le> length (concat bs) \<or> IsChunkActive i then 0 else UPNP_E_FILE_READ_ERROR, 0, s') \<and>
       concat ps = take n (concat bs) \<and> (\<forall>d \<in> set ps. d \<noteq> [] \<and> length d \<le> WEB_SERVER_BUF_SIZE) \<and>
       wire s' = wire s @ concat (map (piece i) ps) @
         (if n > length (concat bs) \<and> IsChunkActive i then LAST_CHUNK else [])"
proof -
  define B where "B = fst (setup_I WEB_SERVER_BUF_SIZE i)"
  have a: "snd (setup_I WEB_SERVER_BUF_SIZE i) = of_nat (if ReadSendSize i < 0 then B else n)"
    using n by (auto simp: setup_I_def B_def Let_def WEB_SERVER_BUF_SIZE_def)
  have B: "B \<le> WEB_SERVER_BUF_SIZE" by (simp add: B_def setup_I_def Let_def)
  have m: "http_SendMessage open_file al [Send_I i, Send_f f] 0 s = send_file_loop i B (snd (setup_I WEB_SERVER_BUF_SIZE i)) (map Got bs) 0 s"
    using f rd(1) al by (auto simp: http_SendMessage_def send_file_def B_def split: prod.split)
  show ?thesis
  proof (cases "n = 0")
    case True
    then have r: "\<not> ReadSendSize i < 0" using n(2) by auto
    then have "snd (setup_I WEB_SERVER_BUF_SIZE i) = 0" using a True by simp
    then show ?thesis using m True r send_file_loop.simps[of i B 0] by (intro exI[of _ "[]"] exI[of _ s]) simp
  next
    case False
    have "ReadSendSize i < 0 \<Longrightarrow> B > 0" by (simp add: B_def setup_I_def Let_def WEB_SERVER_BUF_SIZE_def)
    moreover have "unat (snd (setup_I WEB_SERVER_BUF_SIZE i)) = n" if "\<not> ReadSendSize i < 0"
      unfolding a using that n(1) by (simp add: unat_of_small)
    ultimately have "B > 0" using False by (auto simp: B_def setup_I_def Let_def WEB_SERVER_BUF_SIZE_def split: if_splits)
    moreover have B2: "B \<le> 2 ^ 20" using B by (simp add: WEB_SERVER_BUF_SIZE_def)
    ultimately obtain ps s' where
      "send_file_loop i B (snd (setup_I WEB_SERVER_BUF_SIZE i)) (map Got bs) 0 s =
         Some (if n \<le> length (concat bs) \<or> IsChunkActive i then 0 else UPNP_E_FILE_READ_ERROR, 0, s')"
      "concat ps = take n (concat bs)" "\<forall>d \<in> set ps. d \<noteq> [] \<and> length d \<le> B"
      "wire s' = wire s @ concat (map (piece i) ps) @ (if n > length (concat bs) \<and> IsChunkActive i then LAST_CHUNK else [])"
      using send_file_loop_result[OF _ _ rd(2) n(1) _ acc, of B i] B2 n(2) unfolding a by auto
    moreover from this(3) have "\<forall>d \<in> set ps. d \<noteq> [] \<and> length d \<le> WEB_SERVER_BUF_SIZE" using B le_trans by blast
    ultimately show ?thesis unfolding m by blast
  qed
qed


text \<open>A network that takes what is written, a file on it, and what is told to the sender.\<close>

definition fast :: SOCKINFO where
  "fast = \<lparr>selects = replicate 9 SelReady, recvs = [], sends = replicate 9 (Some (2 ^ 31)), clock = (\<lambda>_. 0),
           ticks = 0, wire = ''HTTP ''\<rparr>"

lemma fast_accepts: "k \<le> 9 \<Longrightarrow> accepting k fast"
  by (simp add: accepting_def fast_def min_def)

definition hello :: "bool \<Rightarrow> char list \<Rightarrow> file_stream option" where
  "hello virtual name =
     (if name = ''f'' then Some \<lparr>reads = [Got ''hel'', Got ''lo''], seek = (\<lambda>n. if n = 2 then Some [Got ''llo''] else None)\<rparr>
      else None)"

definition instr :: "bool \<Rightarrow> bool \<Rightarrow> int \<Rightarrow> SendInstruction" where
  "instr chunk part n =
     \<lparr>IsVirtualFile = False, IsChunkActive = chunk, IsRangeActive = part, IsTrailers = False, RangeHeader = [],
      AcceptLanguageHeader = [], RangeOffset = 2, ReadSendSize = n, RecvWriteSize = 0\<rparr>"


text \<open>A parser at the chunks of an entity, behind \<open>a\<close>.\<close>

definition chunk_reader :: "http_parser \<Rightarrow> char list \<Rightarrow> bool" where
  "chunk_reader p a \<longleftrightarrow>
     mb_ok (msgbuf (hmsg p)) \<and> \<not> (is_request (hmsg p) \<and> hmethod (hmsg p) = HTTPMETHOD_POST) \<and>
     scan_pos p = length a \<and> ent_position p = ENTREAD_USING_CHUNKED \<and>
     entity_start_position p = of_nat (length a) \<and> amount_discarded (hmsg p) = 0"


lemma chunks_of:
  assumes "\<forall>d \<in> set ps. d \<noteq> [] \<and> length d \<le> WEB_SERVER_BUF_SIZE"
  shows "\<forall>c \<in> set (map chunk_of ps). chunk_ok c \<and> cdata c \<noteq> []" and "concat (map cdata (map chunk_of ps)) = concat ps"
  using assms chunk_of_ok by (auto simp: WEB_SERVER_BUF_SIZE_def chunk_of_def comp_def)



text \<open>
  With a length or a range the chunked encoding is never closed: the file is written in chunks,
  the last chunk is not, \<open>http_SendMessage\<close> reports success, and the entity parser of the other side
  waits for more.
\<close>

theorem chunked_length_unterminated:
  assumes "open_file (IsVirtualFile i) f = Some fp"
    and "(if IsRangeActive i then seek fp (RangeOffset i) else Some (reads fp)) = Some (map Got bs)" "[] \<notin> set bs"
    and "can_alloc al (fst (setup_I WEB_SERVER_BUF_SIZE i) + CHUNK_HEADER_SIZE + 10)"
    and "accepting (Suc (length (concat bs))) s"
    and "IsChunkActive i" and "ReadSendSize i = int n" and "n \<le> length (concat bs)" "n < 2 ^ 63"
  shows "\<exists>s' w. http_SendMessage open_file al [Send_I i, Send_f f] 0 s = Some (0, 0, s') \<and> wire s' = wire s @ w \<and>
       (\<forall>p a rs al'. (\<forall>n. can_alloc al' n) \<and> chunk_reader p a \<and> text_of p = a @ w \<longrightarrow>
          (\<exists>p'. parser_parse_entity rs al' p = Some (PARSE_INCOMPLETE, p')))"
proof -
  have n: "n < 2 ^ 64" "if ReadSendSize i < 0 then length (concat bs) < n else n = nat (ReadSendSize i)"
    using assms by simp_all
  obtain ps s' where s':
    "http_SendMessage open_file al [Send_I i, Send_f f] 0 s = Some (0, 0, s')"
    "\<forall>d \<in> set ps. d \<noteq> [] \<and> length d \<le> WEB_SERVER_BUF_SIZE" "wire s' = wire s @ concat (map (piece i) ps)"
    using send_file_result[where open_file = open_file and i = i and f = f and fp = fp and bs = bs and al = al and s = s and n = n,
        OF assms(1-5) n] assms(6,8) by auto
  define w where "w = concat (map chunk_text (map chunk_of ps))"
  have "wire s' = wire s @ w" using s'(3) assms(6) by (simp add: w_def piece_eq)
  moreover have "\<exists>p'. parser_parse_entity rs al' p = Some (PARSE_INCOMPLETE, p')"
    if "\<forall>n. can_alloc al' n" "chunk_reader p a" "text_of p = a @ w" for p a rs al'
  proof -
    have "at_chunk p a (concat (map chunk_text (map chunk_of ps)))"
      using that(2,3) by (simp add: at_chunk_def chunk_reader_def w_def)
    from chunks_unfinished[OF that(1) chunks_of(1)[OF s'(2)] this] that(2) show ?thesis
      by (auto simp: chunk_reader_def)
  qed
  ultimately show ?thesis using s'(1) by blast
qed

theorem chunked_length_unterminated_witness:
  "\<exists>s' w. http_SendMessage hello limited_alloc [Send_I (instr True False (int 2)), Send_f ''f''] 0 fast = Some (0, 0, s') \<and>
     wire s' = wire fast @ w \<and>
     (\<forall>p a rs al'. (\<forall>n. can_alloc al' n) \<and> chunk_reader p a \<and> text_of p = a @ w \<longrightarrow>
        (\<exists>p'. parser_parse_entity rs al' p = Some (PARSE_INCOMPLETE, p')))"
  by (rule chunked_length_unterminated[where fp = "the (hello False ''f'')" and bs = "[''hel'', ''lo'']" and n = 2])
     (simp_all add: hello_def instr_def limited_alloc_def setup_I_def Let_def CHUNK_HEADER_SIZE_def WEB_SERVER_BUF_SIZE_def
        LIMIT_def fast_accepts)

text \<open>An error of the read callback of a virtual file, \<open>-1\<close>, is sent as a piece of \<open>2 ^ 64 - 1\<close> bytes.\<close>

theorem read_error_overruns:
  assumes "open_file True f = Some fp" and "reads fp = ReadError # r"
    and "IsVirtualFile i" "\<not> IsRangeActive i" and "can_alloc al (fst (setup_I WEB_SERVER_BUF_SIZE i) + CHUNK_HEADER_SIZE + 10)"
    and "snd (setup_I WEB_SERVER_BUF_SIZE i) \<noteq> 0"
  shows "http_SendMessage open_file al [Send_I i, Send_f f] t s = None"
proof -
  obtain B a where p: "setup_I WEB_SERVER_BUF_SIZE i = (B, a)" by (cases "setup_I WEB_SERVER_BUF_SIZE i")
  then have B: "B \<le> WEB_SERVER_BUF_SIZE" by (auto simp: setup_I_def Let_def split: if_splits)
  have r: "read_file True (min (unat a) B) (reads fp) = (-1, [], r)" using assms(2) by (simp add: read_file_def)
  have "unat (-1 :: size_t) > B" using B by (simp add: WEB_SERVER_BUF_SIZE_def unsigned_minus_1_eq_mask mask_eq_exp_minus_1)
  then have "send_file_loop i B a (reads fp) t s = None"
    using assms(3,6) p r unfolding send_file_loop.simps[of i B a "reads fp" t s] by (simp add: Let_def)
  then show ?thesis
    using assms(1,3-5) p by (simp add: http_SendMessage_def send_file_def)
qed

end
