(* ===== verification/Dom.thy ===== *)
theory Dom
  imports Prelude
begin

text \<open>
  The nodes of the DOM of \<open>ixml\<close> (\<open>ixml/src/node.c\<close>, \<open>nodeList.c\<close> and the structures of
  \<open>ixml/inc/ixml.h\<close>). The memory is a map from addresses to nodes: an address that is not in it has
  been freed or never allocated, and following such a pointer, freeing it again or a recursion that
  does not end is the result \<open>None\<close>. Strings are values (\<open>None\<close> is NULL); the subtypes of \<open>IXML_Node\<close>
  are one record that also has the fields of \<open>IXML_Element\<close> and \<open>IXML_Attr\<close>.
\<close>

subsection \<open>Data\<close>

datatype IXML_NODE_TYPE =
  eINVALID_NODE | eELEMENT_NODE | eATTRIBUTE_NODE | eTEXT_NODE | eCDATA_SECTION_NODE
| eENTITY_REFERENCE_NODE | eENTITY_NODE | ePROCESSING_INSTRUCTION_NODE | eCOMMENT_NODE
| eDOCUMENT_NODE | eDOCUMENT_TYPE_NODE | eDOCUMENT_FRAGMENT_NODE | eNOTATION_NODE

type_synonym ptr = "nat option"
type_synonym DOMString = "string option"

record IXML_Node =
  nodeName :: DOMString
  nodeValue :: DOMString
  nodeType :: IXML_NODE_TYPE
  namespaceURI :: DOMString
  prefix :: DOMString
  localName :: DOMString
  parentNode :: ptr
  firstChild :: ptr
  prevSibling :: ptr
  nextSibling :: ptr
  firstAttr :: ptr
  ownerDocument :: ptr
  tagName :: DOMString
  specified :: bool
  ownerElement :: ptr

type_synonym store = "nat \<Rightarrow> IXML_Node option"

definition IXML_SUCCESS :: int where "IXML_SUCCESS = 0"
definition IXML_HIERARCHY_REQUEST_ERR :: int where "IXML_HIERARCHY_REQUEST_ERR = 3"
definition IXML_WRONG_DOCUMENT_ERR :: int where "IXML_WRONG_DOCUMENT_ERR = 4"
definition IXML_NOT_FOUND_ERR :: int where "IXML_NOT_FOUND_ERR = 8"
definition IXML_INSUFFICIENT_MEMORY :: int where "IXML_INSUFFICIENT_MEMORY = 102"
definition IXML_INVALID_PARAMETER :: int where "IXML_INVALID_PARAMETER = 105"
definition IXML_FAILED :: int where "IXML_FAILED = 106"

lemmas ixml_codes = IXML_SUCCESS_def IXML_HIERARCHY_REQUEST_ERR_def IXML_WRONG_DOCUMENT_ERR_def
  IXML_NOT_FOUND_ERR_def IXML_INSUFFICIENT_MEMORY_def IXML_INVALID_PARAMETER_def IXML_FAILED_def

text \<open>\<open>memset\<close> to zero.\<close>

definition ixmlNode_init :: IXML_Node where
  "ixmlNode_init =
     \<lparr>nodeName = None, nodeValue = None, nodeType = eINVALID_NODE, namespaceURI = None, prefix = None,
      localName = None, parentNode = None, firstChild = None, prevSibling = None, nextSibling = None,
      firstAttr = None, ownerDocument = None, tagName = None, specified = False,
      ownerElement = None\<rparr>"

text \<open>Writing a field of the node at an address; the second form is guarded by a test for NULL.\<close>

definition put :: "nat \<Rightarrow> (IXML_Node \<Rightarrow> IXML_Node) \<Rightarrow> store \<Rightarrow> store option" where
  "put a f s = (case s a of None \<Rightarrow> None | Some n \<Rightarrow> Some (s(a \<mapsto> f n)))"

definition put_if :: "ptr \<Rightarrow> (IXML_Node \<Rightarrow> IXML_Node) \<Rightarrow> store \<Rightarrow> store option" where
  "put_if p f s = (case p of None \<Rightarrow> Some s | Some a \<Rightarrow> put a f s)"

subsection \<open>Freeing\<close>

definition ixmlNode_freeSingleNode :: "store \<Rightarrow> ptr \<Rightarrow> store option" where
  "ixmlNode_freeSingleNode s p =
     (case p of None \<Rightarrow> Some s | Some a \<Rightarrow> if s a = None then None else Some (s(a := None)))"

partial_function (option) ixmlNode_free :: "store \<Rightarrow> ptr \<Rightarrow> store option" where
  "ixmlNode_free s p =
     (case p of
        None \<Rightarrow> Some s
      | Some a \<Rightarrow>
          do {
            n \<leftarrow> s a;
            s1 \<leftarrow> ixmlNode_free s (firstChild n);
            n1 \<leftarrow> s1 a;
            s2 \<leftarrow> ixmlNode_free s1 (nextSibling n1);
            n2 \<leftarrow> s2 a;
            s3 \<leftarrow> ixmlNode_free s2 (firstAttr n2);
            ixmlNode_freeSingleNode s3 (Some a)
          })"

subsection \<open>Reading\<close>

definition get_ptr :: "(IXML_Node \<Rightarrow> ptr) \<Rightarrow> store \<Rightarrow> ptr \<Rightarrow> ptr option" where
  "get_ptr f s p = (case p of None \<Rightarrow> Some None | Some a \<Rightarrow> map_option f (s a))"

definition get_str :: "(IXML_Node \<Rightarrow> DOMString) \<Rightarrow> store \<Rightarrow> ptr \<Rightarrow> DOMString option" where
  "get_str f s p = (case p of None \<Rightarrow> Some None | Some a \<Rightarrow> map_option f (s a))"

definition ixmlNode_getNodeName where "ixmlNode_getNodeName s p = get_str nodeName s p"
definition ixmlNode_getLocalName where "ixmlNode_getLocalName s p = get_str localName s p"
definition ixmlNode_getNamespaceURI where "ixmlNode_getNamespaceURI s p = get_str namespaceURI s p"
definition ixmlNode_getPrefix where "ixmlNode_getPrefix s p = get_str prefix s p"
definition ixmlNode_getNodeValue where "ixmlNode_getNodeValue s p = get_str nodeValue s p"
definition ixmlNode_getParentNode where "ixmlNode_getParentNode s p = get_ptr parentNode s p"
definition ixmlNode_getFirstChild where "ixmlNode_getFirstChild s p = get_ptr firstChild s p"
definition ixmlNode_getPreviousSibling where "ixmlNode_getPreviousSibling s p = get_ptr prevSibling s p"
definition ixmlNode_getNextSibling where "ixmlNode_getNextSibling s p = get_ptr nextSibling s p"
definition ixmlNode_getOwnerDocument where "ixmlNode_getOwnerDocument s p = get_ptr ownerDocument s p"

definition ixmlNode_getNodeType :: "store \<Rightarrow> ptr \<Rightarrow> IXML_NODE_TYPE option" where
  "ixmlNode_getNodeType s p = (case p of None \<Rightarrow> Some eINVALID_NODE | Some a \<Rightarrow> map_option nodeType (s a))"

text \<open>The last of a chain of siblings; \<open>prev\<close> is the node before it.\<close>

partial_function (option) last_sibling :: "store \<Rightarrow> nat \<Rightarrow> ptr \<Rightarrow> nat option" where
  "last_sibling s pv nx =
     (case nx of
        None \<Rightarrow> Some pv
      | Some a \<Rightarrow> do { n \<leftarrow> s a; last_sibling s a (nextSibling n) })"

definition ixmlNode_getLastChild :: "store \<Rightarrow> ptr \<Rightarrow> ptr option" where
  "ixmlNode_getLastChild s p =
     (case p of
        None \<Rightarrow> Some None
      | Some a \<Rightarrow> do { n \<leftarrow> s a; k \<leftarrow> last_sibling s a (firstChild n); Some (Some k) })"

definition ixmlNode_hasChildNodes :: "store \<Rightarrow> ptr \<Rightarrow> bool option" where
  "ixmlNode_hasChildNodes s p =
     (case p of None \<Rightarrow> Some False | Some a \<Rightarrow> do { n \<leftarrow> s a; Some (firstChild n \<noteq> None) })"

definition ixmlNode_hasAttributes :: "store \<Rightarrow> ptr \<Rightarrow> bool option" where
  "ixmlNode_hasAttributes s p =
     (case p of
        None \<Rightarrow> Some False
      | Some a \<Rightarrow> do { n \<leftarrow> s a; Some (nodeType n = eELEMENT_NODE \<and> firstAttr n \<noteq> None) })"

text \<open>\<open>strcmp\<close> of strings one of which is NULL is undefined.\<close>

definition same_string :: "DOMString \<Rightarrow> DOMString \<Rightarrow> bool option" where
  "same_string x y = do { a \<leftarrow> x; b \<leftarrow> y; Some (a = b) }"

definition and_also :: "bool option \<Rightarrow> bool option \<Rightarrow> bool option" where
  "and_also x y = do { a \<leftarrow> x; if a then y else Some False }"

definition ixmlNode_compare :: "store \<Rightarrow> nat \<Rightarrow> nat \<Rightarrow> bool option" where
  "ixmlNode_compare s a b =
     (if a = b then Some True
      else do {
        m \<leftarrow> s a;
        n \<leftarrow> s b;
        and_also (same_string (nodeName m) (nodeName n))
          (and_also (same_string (nodeValue m) (nodeValue n))
            (and_also (Some (nodeType m = nodeType n))
              (and_also (same_string (namespaceURI m) (namespaceURI n))
                (and_also (same_string (prefix m) (prefix n))
                  (same_string (localName m) (localName n))))))
      })"

subsection \<open>The tree\<close>

text \<open>The search goes through the descendants of the node and of the siblings behind it.\<close>

partial_function (option) ixmlNode_isAncestor :: "store \<Rightarrow> ptr \<Rightarrow> ptr \<Rightarrow> bool option" where
  "ixmlNode_isAncestor s ancestorNode toFind =
     (case (ancestorNode, toFind) of
        (Some a, Some t) \<Rightarrow>
          do {
            n \<leftarrow> s t;
            if parentNode n = Some a then Some True
            else do {
              m \<leftarrow> s a;
              found \<leftarrow> ixmlNode_isAncestor s (firstChild m) toFind;
              if found then Some True else ixmlNode_isAncestor s (nextSibling m) toFind
            }
          }
      | _ \<Rightarrow> Some False)"

definition ixmlNode_isParent :: "store \<Rightarrow> ptr \<Rightarrow> ptr \<Rightarrow> bool option" where
  "ixmlNode_isParent s nodeptr toFind =
     (case (nodeptr, toFind) of
        (Some a, Some t) \<Rightarrow> do { n \<leftarrow> s t; Some (parentNode n = Some a) }
      | _ \<Rightarrow> Some False)"

definition ixmlNode_allowChildren :: "IXML_NODE_TYPE \<Rightarrow> IXML_NODE_TYPE \<Rightarrow> bool" where
  "ixmlNode_allowChildren ty child =
     (if ty \<in> {eATTRIBUTE_NODE, eTEXT_NODE, eCDATA_SECTION_NODE} then False
      else if ty = eELEMENT_NODE then child \<notin> {eATTRIBUTE_NODE, eDOCUMENT_NODE}
      else if ty = eDOCUMENT_NODE then child = eELEMENT_NODE
      else True)"

text \<open>Taking a node out of the chain of its siblings.\<close>

definition unlink_child :: "nat \<Rightarrow> nat \<Rightarrow> store \<Rightarrow> store option" where
  "unlink_child p c s =
     do {
       n \<leftarrow> s c;
       s1 \<leftarrow> put_if (prevSibling n) (\<lambda>m. m\<lparr>nextSibling := nextSibling n\<rparr>) s;
       m \<leftarrow> s1 p;
       n1 \<leftarrow> s1 c;
       s2 \<leftarrow> (if firstChild m = Some c then put p (\<lambda>m. m\<lparr>firstChild := nextSibling n1\<rparr>) s1 else Some s1);
       n2 \<leftarrow> s2 c;
       s3 \<leftarrow> put_if (nextSibling n2) (\<lambda>m. m\<lparr>prevSibling := prevSibling n2\<rparr>) s2;
       put c (\<lambda>m. m\<lparr>nextSibling := None, prevSibling := None, parentNode := None\<rparr>) s3
     }"

text \<open>
  \<open>keep\<close> tells whether the removed node is returned (\<open>returnNode\<close> is not NULL) or freed.
\<close>

definition ixmlNode_removeChild :: "store \<Rightarrow> ptr \<Rightarrow> ptr \<Rightarrow> bool \<Rightarrow> (int \<times> store) option" where
  "ixmlNode_removeChild s nodeptr oldChild keep =
     (case (nodeptr, oldChild) of
        (Some p, Some c) \<Rightarrow>
          do {
            isp \<leftarrow> ixmlNode_isParent s nodeptr oldChild;
            if \<not> isp then Some (IXML_NOT_FOUND_ERR, s)
            else do {
              s4 \<leftarrow> unlink_child p c s;
              s5 \<leftarrow> (if keep then Some s4 else ixmlNode_free s4 (Some c));
              Some (IXML_SUCCESS, s5)
            }
          }
      | _ \<Rightarrow> Some (IXML_INVALID_PARAMETER, s))"

text \<open>Putting a node behind the last child.\<close>

definition link_last :: "nat \<Rightarrow> nat \<Rightarrow> store \<Rightarrow> store option" where
  "link_last p c s =
     do {
       m \<leftarrow> s p;
       case firstChild m of
         None \<Rightarrow> put p (\<lambda>m. m\<lparr>firstChild := Some c\<rparr>) s
       | Some k \<Rightarrow>
           do {
             n \<leftarrow> s k;
             l \<leftarrow> last_sibling s k (nextSibling n);
             s1 \<leftarrow> put l (\<lambda>m. m\<lparr>nextSibling := Some c\<rparr>) s;
             put c (\<lambda>m. m\<lparr>prevSibling := Some l\<rparr>) s1
           }
     }"

definition ixmlNode_appendChild :: "store \<Rightarrow> ptr \<Rightarrow> ptr \<Rightarrow> (int \<times> store) option" where
  "ixmlNode_appendChild s nodeptr newChild =
     (case (nodeptr, newChild) of
        (Some p, Some c) \<Rightarrow>
          do {
            n \<leftarrow> s c;
            m \<leftarrow> s p;
            if ownerDocument n \<noteq> None \<and> ownerDocument m \<noteq> ownerDocument n
            then Some (IXML_WRONG_DOCUMENT_ERR, s)
            else do {
              anc \<leftarrow> ixmlNode_isAncestor s newChild nodeptr;
              if anc \<or> \<not> ixmlNode_allowChildren (nodeType m) (nodeType n)
              then Some (IXML_HIERARCHY_REQUEST_ERR, s)
              else do {
                isp \<leftarrow> ixmlNode_isParent s nodeptr newChild;
                (_, s1) \<leftarrow> (if isp then ixmlNode_removeChild s nodeptr newChild True else Some (0, s));
                m1 \<leftarrow> s1 p;
                s2 \<leftarrow> put c (\<lambda>x. x\<lparr>parentNode := Some p, ownerDocument := ownerDocument m1\<rparr>) s1;
                s3 \<leftarrow> link_last p c s2;
                Some (IXML_SUCCESS, s3)
              }
            }
          }
      | _ \<Rightarrow> Some (IXML_INVALID_PARAMETER, s))"

text \<open>
  \<open>ixmlNode_isParent\<close> of a NULL pointer is false, so that the branch for a NULL \<open>refChild\<close> behind
  it is never reached.
\<close>

definition link_before :: "nat \<Rightarrow> nat \<Rightarrow> nat \<Rightarrow> store \<Rightarrow> store option" where
  "link_before p c r s =
     do {
       s1 \<leftarrow> put c (\<lambda>x. x\<lparr>nextSibling := Some r\<rparr>) s;
       m \<leftarrow> s1 r;
       s2 \<leftarrow> (case prevSibling m of
                None \<Rightarrow> Some s1
              | Some q \<Rightarrow>
                  do {
                    s1' \<leftarrow> put q (\<lambda>x. x\<lparr>nextSibling := Some c\<rparr>) s1;
                    put c (\<lambda>x. x\<lparr>prevSibling := Some q\<rparr>) s1'
                  });
       s3 \<leftarrow> put r (\<lambda>x. x\<lparr>prevSibling := Some c\<rparr>) s2;
       n \<leftarrow> s3 c;
       s4 \<leftarrow> (if prevSibling n = None then put p (\<lambda>x. x\<lparr>firstChild := Some c\<rparr>) s3 else Some s3);
       put c (\<lambda>x. x\<lparr>parentNode := Some p\<rparr>) s4
     }"

definition ixmlNode_insertBefore :: "store \<Rightarrow> ptr \<Rightarrow> ptr \<Rightarrow> ptr \<Rightarrow> (int \<times> store) option" where
  "ixmlNode_insertBefore s nodeptr newChild refChild =
     (case (nodeptr, newChild) of
        (Some p, Some c) \<Rightarrow>
          do {
            m \<leftarrow> s p;
            n \<leftarrow> s c;
            anc \<leftarrow> (if ixmlNode_allowChildren (nodeType m) (nodeType n)
                    then ixmlNode_isAncestor s newChild nodeptr else Some True);
            if anc then Some (IXML_HIERARCHY_REQUEST_ERR, s)
            else if ownerDocument m \<noteq> ownerDocument n then Some (IXML_WRONG_DOCUMENT_ERR, s)
            else do {
              isp \<leftarrow> ixmlNode_isParent s nodeptr refChild;
              if \<not> isp then Some (IXML_NOT_FOUND_ERR, s)
              else
                (case refChild of
                   Some r \<Rightarrow>
                     do {
                       ispc \<leftarrow> ixmlNode_isParent s nodeptr newChild;
                       (_, s1) \<leftarrow> (if ispc then ixmlNode_removeChild s nodeptr newChild True else Some (0, s));
                       s2 \<leftarrow> link_before p c r s1;
                       Some (IXML_SUCCESS, s2)
                     }
                 | None \<Rightarrow> ixmlNode_appendChild s nodeptr newChild)
            }
          }
      | _ \<Rightarrow> Some (IXML_INVALID_PARAMETER, s))"

definition ixmlNode_replaceChild :: "store \<Rightarrow> ptr \<Rightarrow> ptr \<Rightarrow> ptr \<Rightarrow> bool \<Rightarrow> (int \<times> store) option" where
  "ixmlNode_replaceChild s nodeptr newChild oldChild keep =
     (case (nodeptr, newChild, oldChild) of
        (Some p, Some c, Some ch) \<Rightarrow>
          do {
            m \<leftarrow> s p;
            n \<leftarrow> s c;
            anc \<leftarrow> ixmlNode_isAncestor s newChild nodeptr;
            if anc \<or> \<not> ixmlNode_allowChildren (nodeType m) (nodeType n)
            then Some (IXML_HIERARCHY_REQUEST_ERR, s)
            else if ownerDocument m \<noteq> ownerDocument n then Some (IXML_WRONG_DOCUMENT_ERR, s)
            else do {
              isp \<leftarrow> ixmlNode_isParent s nodeptr oldChild;
              if \<not> isp then Some (IXML_NOT_FOUND_ERR, s)
              else do {
                (ret, s1) \<leftarrow> ixmlNode_insertBefore s nodeptr newChild oldChild;
                if ret \<noteq> IXML_SUCCESS then Some (ret, s1)
                else ixmlNode_removeChild s1 nodeptr oldChild keep
              }
            }
          }
      | _ \<Rightarrow> Some (IXML_INVALID_PARAMETER, s))"

subsection \<open>Lists of nodes\<close>

text \<open>
  A chain of \<open>IXML_NodeList\<close> structures is the list of their items, NULL the empty list. A new list
  has one structure without an item.
\<close>

type_synonym IXML_NodeList = "ptr list"

definition ixmlNodeList_init :: IXML_NodeList where "ixmlNodeList_init = [None]"

definition ixmlNodeList_length :: "IXML_NodeList \<Rightarrow> nat" where "ixmlNodeList_length l = length l"

definition ixmlNodeList_item :: "IXML_NodeList \<Rightarrow> nat \<Rightarrow> ptr" where
  "ixmlNodeList_item l index =
     (if l = [] then None else if index > ixmlNodeList_length l - 1 then None else l ! index)"

definition ixmlNodeList_addToNodeList :: "heap \<Rightarrow> IXML_NodeList \<Rightarrow> nat \<Rightarrow> int \<times> heap \<times> IXML_NodeList" where
  "ixmlNodeList_addToNodeList h l add =
     (case l of
        [] \<Rightarrow>
          (case malloc h of
             (None, h1) \<Rightarrow> (IXML_INSUFFICIENT_MEMORY, h1, [])
           | (Some _, h1) \<Rightarrow> (IXML_SUCCESS, h1, [Some add]))
      | i # is \<Rightarrow>
          if i = None then (IXML_SUCCESS, h, Some add # is)
          else
            (case malloc h of
               (None, h1) \<Rightarrow> (IXML_INSUFFICIENT_MEMORY, h1, l)
             | (Some _, h1) \<Rightarrow> (IXML_SUCCESS, h1, l @ [Some add])))"

partial_function (option) child_nodes :: "store \<Rightarrow> ptr \<Rightarrow> heap \<times> IXML_NodeList \<Rightarrow> (heap \<times> IXML_NodeList) option" where
  "child_nodes s p l =
     (case p of
        None \<Rightarrow> Some l
      | Some a \<Rightarrow>
          do {
            r \<leftarrow> Some (ixmlNodeList_addToNodeList (fst l) (snd l) a);
            if fst r \<noteq> IXML_SUCCESS then Some (fst (snd r), [])
            else do { n \<leftarrow> s a; child_nodes s (nextSibling n) (snd r) }
          })"

definition ixmlNode_getChildNodes :: "store \<Rightarrow> heap \<Rightarrow> ptr \<Rightarrow> (heap \<times> IXML_NodeList) option" where
  "ixmlNode_getChildNodes s h p =
     (case p of
        None \<Rightarrow> Some (h, [])
      | Some a \<Rightarrow>
          (case malloc h of
             (None, h1) \<Rightarrow> Some (h1, [])
           | (Some _, h1) \<Rightarrow> do { n \<leftarrow> s a; child_nodes s (firstChild n) (h1, ixmlNodeList_init) }))"

text \<open>An element is added if its name is the wanted one; that the list can not grow is not noticed.\<close>

definition add_if :: "bool \<Rightarrow> nat \<Rightarrow> heap \<times> IXML_NodeList \<Rightarrow> heap \<times> IXML_NodeList" where
  "add_if b a l = (if b then snd (ixmlNodeList_addToNodeList (fst l) (snd l) a) else l)"

text \<open>Whether the node is an element of this name; the name of an element must not be NULL.\<close>

definition has_tag :: "string \<Rightarrow> IXML_Node \<Rightarrow> bool option" where
  "has_tag tagname n =
     (if nodeType n = eELEMENT_NODE
      then do { name \<leftarrow> nodeName n; Some (tagname = name \<or> tagname = ''*'') }
      else Some False)"

definition has_tag_ns :: "string \<Rightarrow> string \<Rightarrow> IXML_Node \<Rightarrow> bool option" where
  "has_tag_ns ns lname n =
     Some (nodeType n = eELEMENT_NODE \<and>
       (case (localName n, namespaceURI n) of
          (Some name, Some uri) \<Rightarrow> (ns = uri \<or> ns = ''*'') \<and> (name = lname \<or> lname = ''*'')
        | _ \<Rightarrow> False))"

partial_function (option) elements_recursive ::
  "(IXML_Node \<Rightarrow> bool option) \<Rightarrow> store \<Rightarrow> ptr \<Rightarrow> heap \<times> IXML_NodeList \<Rightarrow> (heap \<times> IXML_NodeList) option" where
  "elements_recursive wanted s p l =
     (case p of
        None \<Rightarrow> Some l
      | Some a \<Rightarrow>
          do {
            n \<leftarrow> s a;
            w \<leftarrow> wanted n;
            l1 \<leftarrow> elements_recursive wanted s (firstChild n) (add_if w a l);
            elements_recursive wanted s (nextSibling n) l1
          })"

definition elements_of ::
  "(IXML_Node \<Rightarrow> bool option) \<Rightarrow> store \<Rightarrow> nat \<Rightarrow> heap \<times> IXML_NodeList \<Rightarrow> (heap \<times> IXML_NodeList) option" where
  "elements_of wanted s a l =
     do {
       n \<leftarrow> s a;
       w \<leftarrow> wanted n;
       elements_recursive wanted s (firstChild n) (add_if w a l)
     }"

definition ixmlNode_getElementsByTagName ::
  "store \<Rightarrow> nat \<Rightarrow> string \<Rightarrow> heap \<times> IXML_NodeList \<Rightarrow> (heap \<times> IXML_NodeList) option" where
  "ixmlNode_getElementsByTagName s a tagname l = elements_of (has_tag tagname) s a l"

definition ixmlNode_getElementsByTagNameNS ::
  "store \<Rightarrow> nat \<Rightarrow> string \<Rightarrow> string \<Rightarrow> heap \<times> IXML_NodeList \<Rightarrow> (heap \<times> IXML_NodeList) option" where
  "ixmlNode_getElementsByTagNameNS s a ns lname l = elements_of (has_tag_ns ns lname) s a l"

declare ixmlNode_free.simps [code] last_sibling.simps [code] ixmlNode_isAncestor.simps [code]
  child_nodes.simps [code] elements_recursive.simps [code]

end
