(* ===== verification/DomTree.thy ===== *)
theory DomTree
  imports Dom
begin

text \<open>
  What the pointers of a DOM represent. A chain of siblings with everything below it is an ordered
  forest of addresses; \<open>seg\<close> says that the store holds it, with every parent, sibling, child and
  attribute pointer as they have to be. The theorems say that the operations of \<open>node.c\<close> are the
  operations on that forest.
\<close>

subsection \<open>Forests\<close>

text \<open>The first node with its attributes, its children and the siblings behind it.\<close>

datatype forest = End | Nd nat (attrs: forest) (kids: forest) (rest: forest)

fun addrs :: "forest \<Rightarrow> nat list" where
  "addrs End = []"
| "addrs (Nd a x k r) = a # addrs x @ addrs k @ addrs r"

fun roots :: "forest \<Rightarrow> nat list" where
  "roots End = []"
| "roots (Nd a x k r) = a # roots r"

text \<open>The nodes of a document in their order, without the attributes.\<close>

fun nodes :: "forest \<Rightarrow> nat list" where
  "nodes End = []"
| "nodes (Nd a x k r) = a # nodes k @ nodes r"

fun fapp :: "forest \<Rightarrow> forest \<Rightarrow> forest" where
  "fapp End g = g"
| "fapp (Nd a x k r) g = Nd a x k (fapp r g)"

text \<open>The pointers: \<open>par\<close> is the parent, \<open>pv\<close> the sibling before and \<open>nx\<close> the one behind the forest.\<close>

fun seg :: "store \<Rightarrow> ptr \<Rightarrow> ptr \<Rightarrow> ptr \<Rightarrow> forest \<Rightarrow> ptr \<Rightarrow> bool" where
  "seg s par pv p End nx \<longleftrightarrow> p = nx"
| "seg s par pv p (Nd a x k r) nx \<longleftrightarrow>
     p = Some a \<and>
     (case s a of
        None \<Rightarrow> False
      | Some n \<Rightarrow>
          parentNode n = par \<and> prevSibling n = pv \<and>
          seg s None None (firstAttr n) x None \<and>
          seg s (Some a) None (firstChild n) k None \<and>
          seg s par (Some a) (nextSibling n) r nx)"

definition last_root :: "ptr \<Rightarrow> forest \<Rightarrow> ptr" where
  "last_root pv f = (if roots f = [] then pv else Some (last (roots f)))"

lemma last_root_simps [simp]:
  "last_root pv End = pv"
  "last_root pv (Nd a x k r) = last_root (Some a) r"
  by (auto simp: last_root_def)

lemma roots_fapp [simp]: "roots (fapp f g) = roots f @ roots g"
  by (induction f) auto

lemma addrs_fapp [simp]: "addrs (fapp f g) = addrs f @ addrs g"
  by (induction f) auto

lemma fapp_End [simp]: "fapp f End = f"
  by (induction f) auto

lemma roots_addrs: "set (roots f) \<subseteq> set (addrs f)"
  by (induction f) auto

lemma nodes_addrs: "set (nodes f) \<subseteq> set (addrs f)"
  by (induction f) auto

lemma roots_nodes: "set (roots f) \<subseteq> set (nodes f)"
  by (induction f) auto

lemma seg_fapp:
  "seg s par pv p (fapp f g) nx \<longleftrightarrow> (\<exists>q. seg s par pv p f q \<and> seg s par (last_root pv f) q g nx)"
  by (induction f arbitrary: pv p) (auto split: option.splits)

lemma seg_first:
  "seg s par pv p f nx \<Longrightarrow> p = (case roots f of [] \<Rightarrow> nx | a # _ \<Rightarrow> Some a)"
  by (cases f) auto

lemma seg_in_store: "seg s par pv p f nx \<Longrightarrow> a \<in> set (addrs f) \<Longrightarrow> \<exists>n. s a = Some n"
  by (induction f arbitrary: par pv p nx) (auto split: option.splits)

text \<open>Only the nodes of the forest matter.\<close>

lemma seg_cong:
  "(\<And>a. a \<in> set (addrs f) \<Longrightarrow> s' a = s a) \<Longrightarrow> seg s' par pv p f nx = seg s par pv p f nx"
proof (induction f arbitrary: par pv p nx)
  case (Nd a x k r)
  have "s' a = s a" using Nd.prems by simp
  moreover have "seg s' par pv p x nx = seg s par pv p x nx"
    "seg s' par pv p k nx = seg s par pv p k nx" "seg s' par pv p r nx = seg s par pv p r nx"
    for par pv p nx
    using Nd.IH Nd.prems by auto
  ultimately show ?case by (simp split: option.splits)
qed simp

lemma seg_update [simp]: "a \<notin> set (addrs f) \<Longrightarrow> seg (s(a := n)) par pv p f nx = seg s par pv p f nx"
  by (rule seg_cong) auto

text \<open>Everything is reached through \<open>nextSibling\<close> from the roots.\<close>

lemma split_root:
  "c \<in> set (roots f) \<Longrightarrow> \<exists>f1 x k f2. f = fapp f1 (Nd c x k f2)"
proof (induction f)
  case (Nd a x k r)
  show ?case
  proof (cases "c = a")
    case True
    then show ?thesis by (metis fapp.simps(1))
  next
    case False
    then obtain f1 x' k' f2 where "r = fapp f1 (Nd c x' k' f2)" using Nd by auto
    then show ?thesis by (metis fapp.simps(2))
  qed
qed simp

subsection \<open>Freeing\<close>

text \<open>Freeing a chain of siblings frees every node below and behind it once.\<close>

lemma ixmlNode_free_seg:
  "seg s par pv p f None \<Longrightarrow> distinct (addrs f) \<Longrightarrow>
     ixmlNode_free s p = Some (\<lambda>a. if a \<in> set (addrs f) then None else s a)"
proof (induction f arbitrary: s par pv p)
  case End
  then show ?case by (simp add: ixmlNode_free.simps)
next
  case (Nd a x k r)
  let ?rm = "\<lambda>f s b. if b \<in> set (addrs f) then None else (s :: store) b"
  from Nd.prems obtain n where p: "p = Some a" and n: "s a = Some n"
    and x: "seg s None None (firstAttr n) x None"
    and k: "seg s (Some a) None (firstChild n) k None"
    and r: "seg s par (Some a) (nextSibling n) r None"
    by (auto split: option.splits)
  have k': "ixmlNode_free s (firstChild n) = Some (?rm k s)"
    using Nd.IH(2)[OF k] Nd.prems by simp
  have "seg (?rm k s) par (Some a) (nextSibling n) r None"
    using r Nd.prems by (subst seg_cong[of _ _ s]) auto
  then have r': "ixmlNode_free (?rm k s) (nextSibling n) = Some (?rm r (?rm k s))"
    using Nd.IH(3) Nd.prems by simp
  have "seg (?rm r (?rm k s)) None None (firstAttr n) x None"
    using x Nd.prems by (subst seg_cong[of _ _ s]) auto
  then have x': "ixmlNode_free (?rm r (?rm k s)) (firstAttr n) = Some (?rm x (?rm r (?rm k s)))"
    using Nd.IH(1) Nd.prems by simp
  have a: "a \<notin> set (addrs k)" "a \<notin> set (addrs r)" "a \<notin> set (addrs x)" using Nd.prems by auto
  have "ixmlNode_free s p = Some ((?rm x (?rm r (?rm k s)))(a := None))"
    using a n by (subst ixmlNode_free.simps)
      (simp add: p k' r' x' ixmlNode_freeSingleNode_def)
  also have "\<dots> = Some (?rm (Nd a x k r) s)" by (auto simp: fun_eq_iff)
  finally show ?case .
qed

subsection \<open>Ancestors\<close>

lemma seg_parent:
  "seg s par pv p f nx \<Longrightarrow> a \<in> set (nodes f) \<Longrightarrow> s a = Some n \<Longrightarrow>
     parentNode n \<in> insert par (Some ` set (nodes f))"
proof (induction f arbitrary: par pv p nx)
  case (Nd b x k r)
  from Nd.prems obtain m where m: "s b = Some m" "parentNode m = par"
    and k: "seg s (Some b) None (firstChild m) k None"
    and r: "seg s par (Some b) (nextSibling m) r nx"
    by (auto split: option.splits)
  consider "a = b" | "a \<in> set (nodes k)" | "a \<in> set (nodes r)" using Nd.prems by auto
  then show ?case
    using Nd.IH(2)[OF k] Nd.IH(3)[OF r] Nd.prems(3) m by cases auto
qed simp

lemma seg_root_parent:
  "seg s par pv p f nx \<Longrightarrow> a \<in> set (roots f) \<Longrightarrow> \<exists>n. s a = Some n \<and> parentNode n = par"
  by (induction f arbitrary: pv p) (auto split: option.splits)

text \<open>
  \<open>ixmlNode_isAncestor\<close> returns on every forest: it says whether the parent of the second node is a
  node of the first one's subtree or of that of one of the siblings behind it.
\<close>

lemma ixmlNode_isAncestor_seg:
  "seg s par pv p f None \<Longrightarrow> s t = Some n \<Longrightarrow>
     ixmlNode_isAncestor s p (Some t) = Some (parentNode n \<in> Some ` set (nodes f))"
proof (induction f arbitrary: par pv p)
  case End
  then show ?case by (simp add: ixmlNode_isAncestor.simps)
next
  case (Nd a x k r)
  from Nd.prems obtain m where p: "p = Some a" and m: "s a = Some m"
    and k: "seg s (Some a) None (firstChild m) k None"
    and r: "seg s par (Some a) (nextSibling m) r None"
    by (auto split: option.splits)
  show ?case
    using Nd.IH(2)[OF k Nd.prems(2)] Nd.IH(3)[OF r Nd.prems(2)] m Nd.prems(2)
    by (subst ixmlNode_isAncestor.simps) (auto simp: p)
qed

subsection \<open>Elements by name\<close>

text \<open>The elements that match, in document order, and a list of nodes with something added.\<close>

definition matching :: "(IXML_Node \<Rightarrow> bool option) \<Rightarrow> store \<Rightarrow> nat list \<Rightarrow> nat list" where
  "matching wanted s as = filter (\<lambda>a. wanted (the (s a)) = Some True) as"

definition add_all :: "IXML_NodeList \<Rightarrow> nat list \<Rightarrow> IXML_NodeList" where
  "add_all l as = (if as = [] then l else (if l = [None] then [] else l) @ map Some as)"

definition list_ok :: "IXML_NodeList \<Rightarrow> bool" where
  "list_ok l \<longleftrightarrow> l = [None] \<or> None \<notin> set l"

definition granted :: "heap \<Rightarrow> bool" where "granted h \<longleftrightarrow> (\<forall>n. grants h n)"

lemma add_all_Nil [simp]: "add_all l [] = l"
  by (simp add: add_all_def)

lemma add_all_append: "list_ok l \<Longrightarrow> add_all (add_all l as) bs = add_all l (as @ bs)"
  by (cases "l = [None]") (auto simp: add_all_def list_ok_def append_eq_Cons_conv)

lemma list_ok_add_all [simp]: "list_ok l \<Longrightarrow> list_ok (add_all l as)"
  by (auto simp: add_all_def list_ok_def)

lemma addToNodeList_granted:
  "granted h \<Longrightarrow> list_ok l \<Longrightarrow>
     \<exists>h'. granted h' \<and> ixmlNodeList_addToNodeList h l a = (IXML_SUCCESS, h', add_all l [a])"
  by (auto simp: ixmlNodeList_addToNodeList_def granted_def list_ok_def add_all_def malloc_def
      split: list.splits)

lemma add_if_granted:
  assumes "granted h" "list_ok l"
  shows "\<exists>h'. granted h' \<and> add_if b a (h, l) = (h', add_all l (if b then [a] else []))"
  using addToNodeList_granted[OF assms, of a] assms by (auto simp: add_if_def)

text \<open>The search visits the nodes in document order and never fails if the test never does.\<close>

lemma elements_recursive_seg:
  "seg s par pv p f None \<Longrightarrow> granted h \<Longrightarrow> list_ok l \<Longrightarrow>
     (\<And>a. a \<in> set (nodes f) \<Longrightarrow> wanted (the (s a)) \<noteq> None) \<Longrightarrow>
     \<exists>h'. granted h' \<and>
       elements_recursive wanted s p (h, l) = Some (h', add_all l (matching wanted s (nodes f)))"
proof (induction f arbitrary: par pv p h l)
  case End
  then show ?case by (simp add: elements_recursive.simps matching_def)
next
  case (Nd a x k r)
  from Nd.prems obtain m where p: "p = Some a" and m: "s a = Some m"
    and k: "seg s (Some a) None (firstChild m) k None"
    and r: "seg s par (Some a) (nextSibling m) r None"
    by (auto split: option.splits)
  obtain w where w: "wanted m = Some w" using Nd.prems(4)[of a] m by auto
  define l1 where "l1 = add_all l (if w then [a] else [])"
  obtain h1 where h1: "granted h1" "add_if w a (h, l) = (h1, l1)"
    using add_if_granted[OF Nd.prems(2,3)] unfolding l1_def by blast
  have l1: "list_ok l1" unfolding l1_def using Nd.prems(3) by simp
  obtain h2 where h2: "granted h2"
    "elements_recursive wanted s (firstChild m) (h1, l1) = Some (h2, add_all l1 (matching wanted s (nodes k)))"
    using Nd.IH(2)[OF k h1(1) l1] Nd.prems(4) by auto
  obtain h3 where h3: "granted h3"
    "elements_recursive wanted s (nextSibling m) (h2, add_all l1 (matching wanted s (nodes k))) =
       Some (h3, add_all (add_all l1 (matching wanted s (nodes k))) (matching wanted s (nodes r)))"
    using Nd.IH(3)[OF r h2(1) list_ok_add_all[OF l1]] Nd.prems(4) by auto
  have "matching wanted s (nodes (Nd a x k r)) =
      (if w then [a] else []) @ matching wanted s (nodes k) @ matching wanted s (nodes r)"
    using m w by (simp add: matching_def)
  moreover have "add_all (add_all l1 (matching wanted s (nodes k))) (matching wanted s (nodes r)) =
      add_all l ((if w then [a] else []) @ matching wanted s (nodes k) @ matching wanted s (nodes r))"
    using Nd.prems(3) l1 unfolding l1_def by (simp add: add_all_append)
  ultimately show ?case
    using h1 h2 h3 m w by (subst elements_recursive.simps) (auto simp: p)
qed

end
