(* ===== verification/DomEdit.thy ===== *)
theory DomEdit
  imports DomTree
begin

text \<open>
  Changing a DOM: \<open>ixmlNode_removeChild\<close>, \<open>ixmlNode_appendChild\<close> and \<open>ixmlNode_insertBefore\<close> are
  the removal and the insertion of a tree in the list of children of one node of the forest, and
  leave everything else as it is.
\<close>

subsection \<open>The abstract operations\<close>

fun kids_of :: "nat \<Rightarrow> forest \<Rightarrow> forest" where
  "kids_of p End = End"
| "kids_of p (Nd a x k r) =
     (if a = p then k else if p \<in> set (nodes k) then kids_of p k else kids_of p r)"

text \<open>Applying a function to the children of one node.\<close>

fun edit :: "nat \<Rightarrow> (forest \<Rightarrow> forest) \<Rightarrow> forest \<Rightarrow> forest" where
  "edit p h End = End"
| "edit p h (Nd a x k r) = Nd a x (if a = p then h k else edit p h k) (edit p h r)"

fun remove_root :: "nat \<Rightarrow> forest \<Rightarrow> forest" where
  "remove_root c End = End"
| "remove_root c (Nd a x k r) = (if a = c then r else Nd a x k (remove_root c r))"

text \<open>One of the trees, alone.\<close>

fun tree_of :: "nat \<Rightarrow> forest \<Rightarrow> forest" where
  "tree_of c End = End"
| "tree_of c (Nd a x k r) = (if a = c then Nd a x k End else tree_of c r)"

fun insert_root :: "nat \<Rightarrow> forest \<Rightarrow> forest \<Rightarrow> forest" where
  "insert_root b t End = t"
| "insert_root b t (Nd a x k r) = (if a = b then fapp t (Nd a x k r) else Nd a x k (insert_root b t r))"

lemma remove_root_fapp: "c \<notin> set (roots f) \<Longrightarrow> remove_root c (fapp f (Nd c x k g)) = fapp f g"
  by (induction f) auto

lemma tree_of_fapp: "c \<notin> set (roots f) \<Longrightarrow> tree_of c (fapp f (Nd c x k g)) = Nd c x k End"
  by (induction f) auto

lemma insert_root_fapp:
  "b \<notin> set (roots f) \<Longrightarrow> insert_root b t (fapp f (Nd b x k g)) = fapp f (fapp t (Nd b x k g))"
  by (induction f) auto

lemma edit_id: "p \<notin> set (nodes f) \<Longrightarrow> edit p h f = f"
  by (induction f) auto

lemma kids_of_addrs: "set (addrs (kids_of p f)) \<subseteq> set (addrs f)"
  by (induction f) auto

lemma kids_of_distinct: "distinct (addrs f) \<Longrightarrow> distinct (addrs (kids_of p f))"
  by (induction f) auto

lemma kids_of_not_self: "distinct (addrs f) \<Longrightarrow> p \<notin> set (addrs (kids_of p f))"
proof (induction f)
  case (Nd a x k r)
  then show ?case using kids_of_addrs[of p k] kids_of_addrs[of p r] by auto
qed simp

lemma kids_of_nodes: "set (nodes (kids_of p f)) \<subseteq> set (nodes f)"
  by (induction f) auto

lemma seg_kids:
  "seg s par pv q f nx \<Longrightarrow> p \<in> set (nodes f) \<Longrightarrow> s p = Some m \<Longrightarrow>
     seg s (Some p) None (firstChild m) (kids_of p f) None"
proof (induction f arbitrary: par pv q nx)
  case (Nd a x k r)
  from Nd.prems obtain n where n: "s a = Some n"
    and k: "seg s (Some a) None (firstChild n) k None"
    and r: "seg s par (Some a) (nextSibling n) r nx"
    by (auto split: option.splits)
  show ?case
    using Nd.IH(2)[OF k] Nd.IH(3)[OF r] Nd.prems(2,3) n k by auto
qed simp

text \<open>
  The whole forest follows: what is outside the children of \<open>p\<close> is the same, \<open>p\<close> has a new first
  child and the children are what they should be.
\<close>

lemma seg_edit:
  assumes "seg s par pv q f nx" "distinct (addrs f)" "p \<in> set (nodes f)"
    and "s p = Some m" "s' p = Some (m\<lparr>firstChild := q'\<rparr>)"
    and "seg s' (Some p) None q' (h (kids_of p f)) None"
    and "\<And>a. a \<in> set (addrs f) \<Longrightarrow> a \<noteq> p \<Longrightarrow> a \<notin> set (addrs (kids_of p f)) \<Longrightarrow> s' a = s a"
  shows "seg s' par pv q (edit p h f) nx"
  using assms
proof (induction f arbitrary: par pv q nx)
  case (Nd a x k r)
  from Nd.prems(1) obtain n where q: "q = Some a" and n: "s a = Some n" "parentNode n = par" "prevSibling n = pv"
    and x: "seg s None None (firstAttr n) x None"
    and k: "seg s (Some a) None (firstChild n) k None"
    and r: "seg s par (Some a) (nextSibling n) r nx"
    by (auto split: option.splits)
  have d: "distinct (addrs x)" "distinct (addrs k)" "distinct (addrs r)" using Nd.prems(2) by auto
  note self = kids_of_not_self[OF Nd.prems(2), of p]
  consider (here) "a = p" | (below) "a \<noteq> p" "p \<in> set (nodes k)"
    | (behind) "a \<noteq> p" "p \<notin> set (nodes k)" "p \<in> set (nodes r)"
    using Nd.prems(3) by auto
  then show ?case
  proof cases
    case here
    have "p \<notin> set (nodes r)" using Nd.prems(2) here nodes_addrs[of r] by auto
    then have e: "edit p h r = r" by (rule edit_id)
    have same: "s' b = s b" if "b \<in> set (addrs x) \<or> b \<in> set (addrs r)" for b
      using that Nd.prems(2) Nd.prems(7)[of b] here by auto
    have "seg s' None None (firstAttr n) x None" "seg s' par (Some a) (nextSibling n) r nx"
      using x r same by (subst seg_cong[of _ _ s], auto)+
    then show ?thesis using here q n Nd.prems(4,5,6) e by simp
  next
    case below
    have pk: "p \<in> set (addrs k)" using below nodes_addrs[of k] by auto
    have "p \<notin> set (nodes r)" using Nd.prems(2) pk nodes_addrs[of r] by auto
    then have e: "edit p h r = r" by (rule edit_id)
    have same: "s' b = s b" if "b = a \<or> b \<in> set (addrs x) \<or> b \<in> set (addrs r)" for b
      using that Nd.prems(2) Nd.prems(7)[of b] below pk kids_of_addrs[of p k] by auto
    have "seg s' None None (firstAttr n) x None" "seg s' par (Some a) (nextSibling n) r nx"
      using x r same by (subst seg_cong[of _ _ s], auto)+
    moreover have "seg s' (Some a) None (firstChild n) (edit p h k) None"
      using Nd.IH(2)[OF k d(2) below(2)] Nd.prems(4,5,6,7) below by auto
    moreover have "s' a = s a" using same by simp
    ultimately show ?thesis using below q n e by simp
  next
    case behind
    have pr: "p \<in> set (addrs r)" using behind nodes_addrs[of r] by auto
    have e: "edit p h k = k" using behind by (simp add: edit_id)
    have same: "s' b = s b" if "b = a \<or> b \<in> set (addrs x) \<or> b \<in> set (addrs k)" for b
      using that Nd.prems(2) Nd.prems(7)[of b] behind pr kids_of_addrs[of p r] by auto
    have "seg s' None None (firstAttr n) x None" "seg s' (Some a) None (firstChild n) k None"
      using x k same by (subst seg_cong[of _ _ s], auto)+
    moreover have "seg s' par (Some a) (nextSibling n) (edit p h r) nx"
      using Nd.IH(3)[OF r d(3) behind(3)] Nd.prems(4,5,6,7) behind by auto
    moreover have "s' a = s a" using same by simp
    ultimately show ?thesis using behind q n e by simp
  qed
qed simp

subsection \<open>Relinking a chain\<close>

definition upd :: "ptr \<Rightarrow> (IXML_Node \<Rightarrow> IXML_Node) \<Rightarrow> store \<Rightarrow> store" where
  "upd p f s = (case p of None \<Rightarrow> s | Some a \<Rightarrow> s(a := map_option f (s a)))"

lemma upd_None [simp]: "upd None f s = s"
  by (simp add: upd_def)

lemma upd_same [simp]: "upd (Some a) f s a = map_option f (s a)"
  by (simp add: upd_def)

lemma upd_other [simp]: "p \<noteq> Some a \<Longrightarrow> upd p f s a = s a"
  by (cases p) (auto simp: upd_def)

lemma put_upd: "s a \<noteq> None \<Longrightarrow> put a f s = Some (upd (Some a) f s)"
  by (auto simp: put_def upd_def fun_eq_iff)

lemma put_if_upd: "(\<And>a. p = Some a \<Longrightarrow> s a \<noteq> None) \<Longrightarrow> put_if p f s = Some (upd p f s)"
  by (cases p) (simp_all add: put_if_def put_upd)

lemma seg_upd [simp]: "p \<notin> Some ` set (addrs f) \<Longrightarrow> seg (upd p g s) par pv q f nx = seg s par pv q f nx"
  by (rule seg_cong) (auto simp: image_iff)

lemma seg_upd_Some [simp]: "a \<notin> set (addrs f) \<Longrightarrow> seg (upd (Some a) g s) par pv q f nx = seg s par pv q f nx"
  by (rule seg_upd) auto

lemma last_root_in: "roots f \<noteq> [] \<Longrightarrow> last_root pv f \<in> Some ` set (addrs f)"
  using subsetD[OF roots_addrs last_in_set] by (simp add: last_root_def image_iff)

text \<open>A new node behind the chain: only the last one changes.\<close>

lemma seg_relink_next:
  "seg s par pv p f nx \<Longrightarrow> distinct (addrs f) \<Longrightarrow>
     seg (upd (last_root None f) (\<lambda>m. m\<lparr>nextSibling := nx'\<rparr>) s) par pv
       (if roots f = [] then nx' else p) f nx'"
proof (induction f arbitrary: pv p)
  case (Nd a x k r)
  let ?s = "\<lambda>p. upd p (\<lambda>m. m\<lparr>nextSibling := nx'\<rparr>) s"
  from Nd.prems(1) obtain n where p: "p = Some a" and n: "s a = Some n" "parentNode n = par" "prevSibling n = pv"
    and x: "seg s None None (firstAttr n) x None"
    and k: "seg s (Some a) None (firstChild n) k None"
    and r: "seg s par (Some a) (nextSibling n) r nx"
    by (auto split: option.splits)
  show ?case
  proof (cases r)
    case End
    then show ?thesis using p n x k Nd.prems(2) by simp
  next
    case (Nd b x' k' r')
    have l: "last_root (Some a) r = last_root None r" using Nd by simp
    have lr: "last_root None r \<in> Some ` set (addrs r)"
      using Nd last_root_in[of r None] by simp
    have "seg (?s (last_root None r)) par (Some a) (nextSibling n) r nx'"
      using Nd.IH(3)[OF r] Nd.prems(2) Nd by simp
    moreover have "last_root None r \<notin> Some ` set (addrs x)" "last_root None r \<notin> Some ` set (addrs k)"
      "last_root None r \<noteq> Some a"
      using lr Nd.prems(2) by auto
    ultimately show ?thesis using p n x k l by simp
  qed
qed simp

text \<open>A new node before it: only the first one changes.\<close>

lemma seg_relink_prev:
  "seg s par pv p f None \<Longrightarrow> distinct (addrs f) \<Longrightarrow>
     seg (upd p (\<lambda>m. m\<lparr>prevSibling := pv'\<rparr>) s) par pv' p f None"
  by (cases f) (auto split: option.splits)

lemma first_root_in: "seg s par pv p f None \<Longrightarrow> p = None \<or> p \<in> Some ` set (addrs f)"
  by (cases f) auto

subsection \<open>Removing\<close>

text \<open>Where the pieces of a list of children are.\<close>

lemma seg_around:
  assumes "seg s (Some p) None q (fapp f1 (Nd c x k f2)) None"
  obtains n where "s c = Some n" "parentNode n = Some p" "prevSibling n = last_root None f1"
    "seg s (Some p) None q f1 (Some c)" "seg s None None (firstAttr n) x None"
    "seg s (Some c) None (firstChild n) k None" "seg s (Some p) (Some c) (nextSibling n) f2 None"
  using assms by (auto simp: seg_fapp split: option.splits)

lemma ixmlNode_isParent_child:
  "s c = Some n \<Longrightarrow> ixmlNode_isParent s (Some p) (Some c) = Some (parentNode n = Some p)"
  by (simp add: ixmlNode_isParent_def)

lemma seg_first_is:
  "seg s par pv p f (Some c) \<Longrightarrow> c \<notin> set (addrs f) \<Longrightarrow> p = Some c \<longleftrightarrow> roots f = []"
  by (cases f) auto

definition unlinked :: "nat \<Rightarrow> nat \<Rightarrow> ptr \<Rightarrow> ptr \<Rightarrow> ptr \<Rightarrow> store \<Rightarrow> store" where
  "unlinked p c pv nx q s =
     upd (Some c) (\<lambda>m. m\<lparr>nextSibling := None, prevSibling := None, parentNode := None\<rparr>)
       (upd nx (\<lambda>m. m\<lparr>prevSibling := pv\<rparr>)
         (upd (Some p) (\<lambda>m. m\<lparr>firstChild := q\<rparr>) (upd pv (\<lambda>m. m\<lparr>nextSibling := nx\<rparr>) s)))"

lemma removeChild_unlinks:
  assumes "s p = Some m" "s c = Some n" "parentNode n = Some p" "p \<noteq> c"
    and pv: "prevSibling n \<noteq> Some p" "prevSibling n \<noteq> Some c" "\<And>a. prevSibling n = Some a \<Longrightarrow> s a \<noteq> None"
    and nx: "nextSibling n \<noteq> Some p" "nextSibling n \<noteq> Some c" "\<And>a. nextSibling n = Some a \<Longrightarrow> s a \<noteq> None"
    and q: "q = (if firstChild m = Some c then nextSibling n else firstChild m)"
  shows "ixmlNode_removeChild s (Some p) (Some c) True =
           Some (IXML_SUCCESS, unlinked p c (prevSibling n) (nextSibling n) q s)"
proof -
  define s1 where "s1 = upd (prevSibling n) (\<lambda>m. m\<lparr>nextSibling := nextSibling n\<rparr>) s"
  define s2 where "s2 = upd (Some p) (\<lambda>m. m\<lparr>firstChild := q\<rparr>) s1"
  define s3 where "s3 = upd (nextSibling n) (\<lambda>m. m\<lparr>prevSibling := prevSibling n\<rparr>) s2"
  have p1: "s1 p = Some m" and c1: "s1 c = Some n" using assms by (simp_all add: s1_def)
  have dom: "s2 a \<noteq> None" if "s a \<noteq> None" for a
    using that by (auto simp: s2_def s1_def upd_def split: option.splits)
  have c2: "s2 c = Some n" using c1 assms(4) by (simp add: s2_def)
  have c3: "s3 c = Some n" using c2 nx by (simp add: s3_def)
  have 1: "put_if (prevSibling n) (\<lambda>m. m\<lparr>nextSibling := nextSibling n\<rparr>) s = Some s1"
    unfolding s1_def using pv by (intro put_if_upd) blast
  have 2: "(if firstChild m = Some c then put p (\<lambda>m. m\<lparr>firstChild := nextSibling n\<rparr>) s1 else Some s1) = Some s2"
    using p1 q by (auto simp: s2_def put_def upd_def fun_eq_iff)
  have 3: "put_if (nextSibling n) (\<lambda>m. m\<lparr>prevSibling := prevSibling n\<rparr>) s2 = Some s3"
    unfolding s3_def using nx dom by (intro put_if_upd) blast
  have 4: "put c (\<lambda>m. m\<lparr>nextSibling := None, prevSibling := None, parentNode := None\<rparr>) s3 =
      Some (unlinked p c (prevSibling n) (nextSibling n) q s)"
    using c3 by (subst put_upd) (simp_all add: unlinked_def s3_def s2_def s1_def)
  show ?thesis
    using assms(2,3) by (simp add: ixmlNode_removeChild_def unlink_child_def ixmlNode_isParent_child 1 p1 c1 2 c2 3 4)
qed

lemma removeChild_local:
  assumes m: "s p = Some m" and ks: "seg s (Some p) None (firstChild m) (fapp f1 (Nd c x k f2)) None"
    and d: "distinct (p # addrs (fapp f1 (Nd c x k f2)))"
  shows "\<exists>s' q. ixmlNode_removeChild s (Some p) (Some c) True = Some (IXML_SUCCESS, s') \<and>
           s' p = Some (m\<lparr>firstChild := q\<rparr>) \<and> seg s' (Some p) None q (fapp f1 f2) None \<and>
           seg s' None None (Some c) (Nd c x k End) None \<and>
           (\<forall>a. a \<noteq> p \<and> a \<notin> set (addrs (fapp f1 (Nd c x k f2))) \<longrightarrow> s' a = s a)"
proof -
  obtain n where n: "s c = Some n" "parentNode n = Some p" and pv: "prevSibling n = last_root None f1"
    and f1: "seg s (Some p) None (firstChild m) f1 (Some c)"
    and x: "seg s None None (firstAttr n) x None" and k: "seg s (Some c) None (firstChild n) k None"
    and f2: "seg s (Some p) (Some c) (nextSibling n) f2 None"
    by (rule seg_around[OF ks])
  let ?pv = "prevSibling n" and ?nx = "nextSibling n"
  define q where "q = (if roots f1 = [] then ?nx else firstChild m)"
  define s' where "s' = unlinked p c ?pv ?nx q s"
  have pvin: "?pv = None \<or> ?pv \<in> Some ` set (addrs f1)"
    using pv last_root_in[of f1 None] by (auto simp: last_root_def)
  have nxin: "?nx = None \<or> ?nx \<in> Some ` set (addrs f2)" by (rule first_root_in[OF f2])
  have stay: "?pv \<noteq> Some p" "?pv \<noteq> Some c" "?nx \<noteq> Some p" "?nx \<noteq> Some c" "p \<noteq> c"
    "?pv \<notin> Some ` set (addrs f2)" "?nx \<notin> Some ` set (addrs f1)"
    "?pv \<notin> Some ` set (addrs x)" "?nx \<notin> Some ` set (addrs x)"
    "?pv \<notin> Some ` set (addrs k)" "?nx \<notin> Some ` set (addrs k)"
    using pvin nxin d by auto
  have fc: "firstChild m = Some c \<longleftrightarrow> roots f1 = []" using seg_first_is[OF f1] d by auto
  have "ixmlNode_removeChild s (Some p) (Some c) True = Some (IXML_SUCCESS, s')"
    unfolding s'_def
  proof (rule removeChild_unlinks[OF m n stay(5) stay(1,2) _ stay(3,4)])
    show "s a \<noteq> None" if "?pv = Some a" for a using that pvin seg_in_store[OF f1] by auto
    show "s a \<noteq> None" if "?nx = Some a" for a using that nxin seg_in_store[OF f2] by auto
  qed (simp add: q_def fc)
  moreover have "s' p = Some (m\<lparr>firstChild := q\<rparr>)"
    using m stay by (simp add: s'_def unlinked_def)
  moreover have "seg s' (Some p) None q (fapp f1 f2) None"
  proof -
    have "seg (upd ?pv (\<lambda>m. m\<lparr>nextSibling := ?nx\<rparr>) s) (Some p) None q f1 ?nx"
      unfolding pv q_def using seg_relink_next[OF f1] d by simp
    then have "seg s' (Some p) None q f1 ?nx" using d stay by (simp add: s'_def unlinked_def)
    moreover have "seg (upd (Some p) (\<lambda>m. m\<lparr>firstChild := q\<rparr>) (upd ?pv (\<lambda>m. m\<lparr>nextSibling := ?nx\<rparr>) s))
        (Some p) (Some c) ?nx f2 None"
      using f2 d stay by simp
    then have "seg s' (Some p) ?pv ?nx f2 None"
      using seg_relink_prev[of _ "Some p" "Some c" ?nx f2 ?pv] d by (simp add: s'_def unlinked_def)
    ultimately show ?thesis unfolding seg_fapp pv by blast
  qed
  moreover have "seg s' None None (Some c) (Nd c x k End) None"
    using n x k d stay by (simp add: s'_def unlinked_def)
  moreover have "\<forall>a. a \<noteq> p \<and> a \<notin> set (addrs (fapp f1 (Nd c x k f2))) \<longrightarrow> s' a = s a"
  proof (intro allI impI)
    fix a assume a: "a \<noteq> p \<and> a \<notin> set (addrs (fapp f1 (Nd c x k f2)))"
    then have "?pv \<noteq> Some a" "?nx \<noteq> Some a" "c \<noteq> a" using pvin nxin by auto
    then show "s' a = s a" using a by (simp add: s'_def unlinked_def)
  qed
  ultimately show ?thesis by blast
qed

text \<open>In the whole forest.\<close>

lemma kids_split:
  assumes "c \<in> set (roots (kids_of p f))" "distinct (addrs f)"
  obtains f1 x k f2 where "kids_of p f = fapp f1 (Nd c x k f2)" "c \<notin> set (roots f1)"
    "distinct (p # addrs (fapp f1 (Nd c x k f2)))"
proof -
  obtain f1 x k f2 where ks: "kids_of p f = fapp f1 (Nd c x k f2)" using split_root[OF assms(1)] by blast
  have d: "distinct (p # addrs (kids_of p f))"
    using kids_of_distinct[OF assms(2)] kids_of_not_self[OF assms(2)] by simp
  then have "c \<notin> set (addrs f1)" unfolding ks by auto
  then have "c \<notin> set (roots f1)" using roots_addrs[of f1] by blast
  then show thesis using that ks d by simp
qed

lemma removeChild_keeps:
  assumes f: "seg s par pv q f None" "distinct (addrs f)" "p \<in> set (nodes f)" "c \<in> set (roots (kids_of p f))"
  shows "\<exists>s'. ixmlNode_removeChild s (Some p) (Some c) True = Some (IXML_SUCCESS, s') \<and>
           seg s' par pv q (edit p (remove_root c) f) None \<and>
           seg s' None None (Some c) (tree_of c (kids_of p f)) None \<and>
           (\<forall>a. a \<notin> set (addrs f) \<longrightarrow> s' a = s a)"
proof -
  obtain f1 x k f2 where ks: "kids_of p f = fapp f1 (Nd c x k f2)" and c: "c \<notin> set (roots f1)"
    and d: "distinct (p # addrs (fapp f1 (Nd c x k f2)))"
    by (rule kids_split[OF f(4,2)])
  obtain m where m: "s p = Some m"
    using seg_in_store[OF f(1)] f(3) nodes_addrs[of f] by blast
  have l: "seg s (Some p) None (firstChild m) (fapp f1 (Nd c x k f2)) None"
    using seg_kids[OF f(1,3) m] unfolding ks .
  obtain s' q' where r: "ixmlNode_removeChild s (Some p) (Some c) True = Some (IXML_SUCCESS, s')"
    and p': "s' p = Some (m\<lparr>firstChild := q'\<rparr>)" and k': "seg s' (Some p) None q' (fapp f1 f2) None"
    and t: "seg s' None None (Some c) (Nd c x k End) None"
    and o: "\<forall>a. a \<noteq> p \<and> a \<notin> set (addrs (fapp f1 (Nd c x k f2))) \<longrightarrow> s' a = s a"
    using removeChild_local[OF m l d] by blast
  have "seg s' par pv q (edit p (remove_root c) f) None"
    by (rule seg_edit[where h = "remove_root c" and q' = q' and s' = s', OF f(1-3) m p']) (use o k' in \<open>simp_all add: ks remove_root_fapp[OF c]\<close>)
  moreover have "\<forall>a. a \<notin> set (addrs f) \<longrightarrow> s' a = s a"
    using o kids_of_addrs[of p f] f(3) nodes_addrs[of f] unfolding ks by (metis subsetD)
  ultimately show ?thesis using r t by (simp add: ks tree_of_fapp[OF c])
qed

subsection \<open>Appending\<close>

lemma last_sibling_seg:
  "seg s par (Some v) p f None \<Longrightarrow> last_sibling s v p = last_root (Some v) f"
proof (induction f arbitrary: v p)
  case (Nd a x k r)
  from Nd.prems obtain n where "p = Some a" "s a = Some n" "seg s par (Some a) (nextSibling n) r None"
    by (auto split: option.splits)
  then show ?case using Nd.IH(3) by (subst last_sibling.simps) simp
qed (simp add: last_sibling.simps)

lemma last_sibling_kids:
  assumes "seg s par None p ks None" "p = Some v" "s v = Some n"
  shows "last_sibling s v (nextSibling n) = last_root None ks"
  using assms last_sibling_seg by (cases ks) auto

text \<open>A node without siblings is put behind the children.\<close>

definition linked_last :: "nat \<Rightarrow> nat \<Rightarrow> IXML_Node \<Rightarrow> ptr \<Rightarrow> store \<Rightarrow> store" where
  "linked_last p c m l s =
     (case l of
        None \<Rightarrow> upd (Some p) (\<lambda>m. m\<lparr>firstChild := Some c\<rparr>) s
      | Some _ \<Rightarrow> upd (Some c) (\<lambda>x. x\<lparr>prevSibling := l\<rparr>) (upd l (\<lambda>x. x\<lparr>nextSibling := Some c\<rparr>) s))"

lemma link_last_links:
  assumes m: "s p = Some m" and ks: "seg s (Some p) None (firstChild m) ks None" and c: "s c \<noteq> None"
    and d: "p \<noteq> c" "c \<notin> set (addrs ks)"
  shows "link_last p c s = Some (linked_last p c m (last_root None ks) s)"
proof (cases "firstChild m")
  case None
  then have "ks = End" using ks by (cases ks) auto
  then show ?thesis using None m by (simp add: link_last_def linked_last_def put_upd)
next
  case (Some v)
  then have ne: "roots ks \<noteq> []" and v: "v \<in> set (addrs ks)" using ks by (cases ks, auto)+
  obtain n where n: "s v = Some n" using seg_in_store[OF ks v] by blast
  obtain l where l: "last_root None ks = Some l" "l \<in> set (addrs ks)" using last_root_in[OF ne, of None] by auto
  have "last_sibling s v (nextSibling n) = Some l"
    using last_sibling_kids[OF ks Some n] l by simp
  moreover have "s l \<noteq> None" using seg_in_store[OF ks l(2)] by auto
  moreover have "l \<noteq> c" using l d by auto
  ultimately show ?thesis using m Some n l c
    by (simp add: link_last_def linked_last_def put_upd)
qed

lemma link_last_local:
  assumes m: "s p = Some m" and ks: "seg s (Some p) None (firstChild m) ks None"
    and t: "seg s (Some p) None (Some c) (Nd c x k End) None"
    and d: "distinct (p # addrs ks @ addrs (Nd c x k End))"
  shows "\<exists>s' q. link_last p c s = Some s' \<and> s' p = Some (m\<lparr>firstChild := q\<rparr>) \<and>
           seg s' (Some p) None q (fapp ks (Nd c x k End)) None \<and>
           (\<forall>a. a \<noteq> p \<and> a \<notin> set (addrs ks) \<and> a \<noteq> c \<longrightarrow> s' a = s a)"
proof -
  obtain n where n: "s c = Some n" "parentNode n = Some p" "prevSibling n = None" "nextSibling n = None"
    and x: "seg s None None (firstAttr n) x None" and k: "seg s (Some c) None (firstChild n) k None"
    using t by (auto split: option.splits)
  let ?l = "last_root None ks"
  define s' where "s' = linked_last p c m ?l s"
  have r: "link_last p c s = Some s'"
    unfolding s'_def by (rule link_last_links[OF m ks]) (use n d in auto)
  show ?thesis
  proof (cases "roots ks = []")
    case True
    then have e: "ks = End" by (cases ks) auto
    then show ?thesis using r m n x k d
      by (intro exI[of _ s'] exI[of _ "Some c"]) (simp add: s'_def linked_last_def)
  next
    case False
    then obtain l where l: "?l = Some l" "l \<in> set (addrs ks)" using last_root_in[OF False, of None] by auto
    have lc: "l \<noteq> c" "l \<noteq> p" "l \<notin> set (addrs x)" "l \<notin> set (addrs k)" using l d by auto
    have s': "s' = upd (Some c) (\<lambda>x. x\<lparr>prevSibling := ?l\<rparr>) (upd ?l (\<lambda>x. x\<lparr>nextSibling := Some c\<rparr>) s)"
      by (simp add: s'_def linked_last_def l)
    have "seg (upd ?l (\<lambda>x. x\<lparr>nextSibling := Some c\<rparr>) s) (Some p) None (firstChild m) ks (Some c)"
      using seg_relink_next[OF ks, of "Some c"] d False by simp
    then have "seg s' (Some p) None (firstChild m) ks (Some c)" unfolding s' using d by simp
    moreover have "seg s' (Some p) ?l (Some c) (Nd c x k End) None"
      unfolding s' using n x k d l lc by simp
    ultimately have "seg s' (Some p) None (firstChild m) (fapp ks (Nd c x k End)) None"
      unfolding seg_fapp by blast
    moreover have "s' p = Some m" unfolding s' using m d l lc by simp
    moreover have "s' a = s a" if "a \<noteq> p \<and> a \<notin> set (addrs ks) \<and> a \<noteq> c" for a
    proof -
      have "l \<noteq> a" using that l by auto
      then show ?thesis unfolding s' using that l by simp
    qed
    ultimately show ?thesis using r by (intro exI[of _ s'] exI[of _ "firstChild m"]) simp
  qed
qed

text \<open>A tree that stands alone becomes the last child.\<close>

lemma seg_new_parent:
  assumes "seg s None None (Some c) (Nd c x k End) None" "distinct (addrs (Nd c x k End))"
  shows "seg (upd (Some c) (\<lambda>x. x\<lparr>parentNode := Some p, ownerDocument := d\<rparr>) s) (Some p) None (Some c)
           (Nd c x k End) None"
  using assms by (auto split: option.splits)

lemma not_ancestor:
  assumes f: "seg s None None q f None" "p \<in> set (nodes f)" "s p = Some m"
    and t: "seg s None None (Some c) t None" and d: "set (addrs f) \<inter> set (addrs t) = {}"
  shows "ixmlNode_isAncestor s (Some c) (Some p) = Some False"
proof -
  have "parentNode m \<in> insert None (Some ` set (nodes f))" by (rule seg_parent[OF f])
  moreover have "set (nodes f) \<inter> set (nodes t) = {}" using d nodes_addrs[of f] nodes_addrs[of t] by blast
  ultimately have "parentNode m \<notin> Some ` set (nodes t)" by auto
  then show ?thesis using ixmlNode_isAncestor_seg[OF t f(3)] by simp
qed

lemma append_core:
  assumes f: "seg s None None q f None" "distinct (addrs f)" "p \<in> set (nodes f)" "s p = Some m"
    and t: "seg s None None (Some c) (Nd c x k End) None" "distinct (addrs (Nd c x k End))"
    and d: "set (addrs f) \<inter> set (addrs (Nd c x k End)) = {}"
  shows "\<exists>s2 s'. put c (\<lambda>x. x\<lparr>parentNode := Some p, ownerDocument := ownerDocument m\<rparr>) s = Some s2 \<and>
           link_last p c s2 = Some s' \<and>
           seg s' None None q (edit p (\<lambda>ks. fapp ks (Nd c x k End)) f) None \<and>
           (\<forall>a. a \<notin> set (addrs f) \<and> a \<noteq> c \<longrightarrow> s' a = s a)"
proof -
  let ?ks = "kids_of p f"
  define s2 where "s2 = upd (Some c) (\<lambda>x. x\<lparr>parentNode := Some p, ownerDocument := ownerDocument m\<rparr>) s"
  have pc: "p \<noteq> c" using f(3) nodes_addrs[of f] d by auto
  have cf: "c \<notin> set (addrs f)" using d by auto
  have kf: "set (addrs ?ks) \<subseteq> set (addrs f)" by (rule kids_of_addrs)
  have m2: "s2 p = Some m" using f(4) pc by (simp add: s2_def)
  have f2: "seg s2 None None q f None" using f(1) cf by (simp add: s2_def)
  have k2: "seg s2 (Some p) None (firstChild m) ?ks None" by (rule seg_kids[OF f2 f(3) m2])
  have t2: "seg s2 (Some p) None (Some c) (Nd c x k End) None"
    unfolding s2_def by (rule seg_new_parent[OF t(1,2)])
  have dk: "distinct (p # addrs ?ks @ addrs (Nd c x k End))"
    using kids_of_distinct[OF f(2), of p] kids_of_not_self[OF f(2), of p] t(2) d kf f(3) nodes_addrs[of f]
    by fastforce
  obtain s' q' where s': "link_last p c s2 = Some s'" and p': "s' p = Some (m\<lparr>firstChild := q'\<rparr>)"
    and k': "seg s' (Some p) None q' (fapp ?ks (Nd c x k End)) None"
    and o: "\<And>a. a \<noteq> p \<and> a \<notin> set (addrs ?ks) \<and> a \<noteq> c \<Longrightarrow> s' a = s2 a"
    using link_last_local[OF m2 k2 t2 dk] by blast
  have "put c (\<lambda>x. x\<lparr>parentNode := Some p, ownerDocument := ownerDocument m\<rparr>) s = Some s2"
    unfolding s2_def by (rule put_upd) (use t(1) in \<open>auto split: option.splits\<close>)
  moreover have "seg s' None None q (edit p (\<lambda>ks. fapp ks (Nd c x k End)) f) None"
    by (rule seg_edit[where h = "\<lambda>ks. fapp ks (Nd c x k End)" and q' = q' and s' = s', OF f2 f(2,3) m2 p'])
      (use k' o cf in auto)
  moreover have "s' a = s a" if "a \<notin> set (addrs f) \<and> a \<noteq> c" for a
  proof -
    have "a \<noteq> p" using that f(3) nodes_addrs[of f] by auto
    then have "s' a = s2 a" using o that kf by blast
    then show ?thesis using that by (simp add: s2_def)
  qed
  ultimately show ?thesis using s' by blast
qed

lemma appendChild_adds:
  assumes f: "seg s None None q f None" "distinct (addrs f)" "p \<in> set (nodes f)" "s p = Some m"
    and t: "seg s None None (Some c) (Nd c x k End) None" "distinct (addrs (Nd c x k End))" "s c = Some n"
    and d: "set (addrs f) \<inter> set (addrs (Nd c x k End)) = {}"
    and ok: "ownerDocument n = None \<or> ownerDocument n = ownerDocument m"
      "ixmlNode_allowChildren (nodeType m) (nodeType n)"
  shows "\<exists>s'. ixmlNode_appendChild s (Some p) (Some c) = Some (IXML_SUCCESS, s') \<and>
           seg s' None None q (edit p (\<lambda>ks. fapp ks (Nd c x k End)) f) None \<and>
           (\<forall>a. a \<notin> set (addrs f) \<and> a \<noteq> c \<longrightarrow> s' a = s a)"
proof -
  have anc: "ixmlNode_isAncestor s (Some c) (Some p) = Some False"
    by (rule not_ancestor[OF f(1,3,4) t(1) d])
  have pn: "parentNode n = None" using t by simp
  obtain s2 s' where s2: "put c (\<lambda>x. x\<lparr>parentNode := Some p, ownerDocument := ownerDocument m\<rparr>) s = Some s2"
    and s': "link_last p c s2 = Some s'" and r: "seg s' None None q (edit p (\<lambda>ks. fapp ks (Nd c x k End)) f) None"
      "\<forall>a. a \<notin> set (addrs f) \<and> a \<noteq> c \<longrightarrow> s' a = s a"
    using append_core[OF f t(1,2) d] by blast
  have "ixmlNode_appendChild s (Some p) (Some c) = Some (IXML_SUCCESS, s')"
    using t(3) f(4) anc pn ok s2 s'
    by (auto simp: ixmlNode_appendChild_def ixmlNode_isParent_child)
  then show ?thesis using r by blast
qed

text \<open>A child moves to the end.\<close>

lemma parent_not_below:
  "seg s par pv q f nx \<Longrightarrow> distinct (addrs f) \<Longrightarrow> par \<notin> Some ` set (addrs f) \<Longrightarrow>
     p \<in> set (nodes f) \<Longrightarrow> s p = Some m \<Longrightarrow> parentNode m \<notin> Some ` set (addrs (kids_of p f))"
proof (induction f arbitrary: par pv q nx)
  case (Nd a x k r)
  from Nd.prems(1) obtain n where n: "s a = Some n" "parentNode n = par"
    and k: "seg s (Some a) None (firstChild n) k None"
    and r: "seg s par (Some a) (nextSibling n) r nx"
    by (auto split: option.splits)
  have par: "par \<notin> Some ` set (addrs k)" "par \<notin> Some ` set (addrs r)" "Some a \<notin> Some ` set (addrs k)"
    using Nd.prems(2,3) by auto
  show ?case using Nd.IH(2)[OF k] Nd.IH(3)[OF r] Nd.prems par n by auto
qed simp

lemma child_not_ancestor:
  assumes f: "seg s None None q f None" "distinct (addrs f)" "p \<in> set (nodes f)" "s p = Some m"
    and c: "c \<in> set (roots (kids_of p f))"
  shows "ixmlNode_isAncestor s (Some c) (Some p) = Some False"
proof -
  obtain f1 x k f2 where ks: "kids_of p f = fapp f1 (Nd c x k f2)" using split_root[OF c] by blast
  have "seg s (Some p) None (firstChild m) (fapp f1 (Nd c x k f2)) None"
    using seg_kids[OF f(1,3,4)] unfolding ks .
  then have t: "seg s (Some p) (last_root None f1) (Some c) (Nd c x k f2) None"
    by (auto simp: seg_fapp)
  have "parentNode m \<notin> Some ` set (addrs (kids_of p f))"
    by (rule parent_not_below[OF f(1,2) _ f(3,4)]) simp
  then have "parentNode m \<notin> Some ` set (nodes (Nd c x k f2))"
    unfolding ks using nodes_addrs[of "Nd c x k f2"] by auto
  then show ?thesis using ixmlNode_isAncestor_seg[OF t f(4)] by simp
qed

subsection \<open>The addresses after a change\<close>

lemma edit_edit: "edit p g (edit p h f) = edit p (\<lambda>k. g (h k)) f"
  by (induction f) auto

lemma nodes_edit: "p \<in> set (nodes f) \<Longrightarrow> p \<in> set (nodes (edit p h f))"
  by (induction f) auto

lemma addrs_edit:
  "distinct (addrs f) \<Longrightarrow> p \<in> set (nodes f) \<Longrightarrow>
     set (addrs (edit p h f)) = (set (addrs f) - set (addrs (kids_of p f))) \<union> set (addrs (h (kids_of p f)))"
proof (induction f)
  case (Nd a x k r)
  have self: "p \<notin> set (addrs (kids_of p (Nd a x k r)))" by (rule kids_of_not_self[OF Nd.prems(1)])
  consider (here) "a = p" | (below) "a \<noteq> p" "p \<in> set (nodes k)"
    | (behind) "a \<noteq> p" "p \<notin> set (nodes k)" "p \<in> set (nodes r)"
    using Nd.prems(2) by auto
  then show ?case
  proof cases
    case here
    then have "p \<notin> set (nodes r)" using Nd.prems nodes_addrs[of r] by auto
    then show ?thesis using here Nd.prems edit_id[of p r h] by auto
  next
    case below
    then have "p \<notin> set (nodes r)" using Nd.prems nodes_addrs[of r] nodes_addrs[of k] by auto
    then show ?thesis using below Nd kids_of_addrs[of p k] edit_id[of p r h] by auto
  next
    case behind
    then show ?thesis using Nd kids_of_addrs[of p r] edit_id[of p k h] by auto
  qed
qed simp

lemma distinct_edit:
  "distinct (addrs f) \<Longrightarrow> p \<in> set (nodes f) \<Longrightarrow> distinct (addrs (h (kids_of p f))) \<Longrightarrow>
     set (addrs (h (kids_of p f))) \<inter> (set (addrs f) - set (addrs (kids_of p f))) = {} \<Longrightarrow>
     distinct (addrs (edit p h f))"
proof (induction f)
  case (Nd a x k r)
  have self: "p \<notin> set (addrs (kids_of p (Nd a x k r)))" by (rule kids_of_not_self[OF Nd.prems(1)])
  consider (here) "a = p" | (below) "a \<noteq> p" "p \<in> set (nodes k)"
    | (behind) "a \<noteq> p" "p \<notin> set (nodes k)" "p \<in> set (nodes r)"
    using Nd.prems(2) by auto
  then show ?case
  proof cases
    case here
    then have "p \<notin> set (nodes r)" using Nd.prems nodes_addrs[of r] by auto
    then show ?thesis using here Nd.prems edit_id[of p r h] by auto
  next
    case below
    then have r: "p \<notin> set (nodes r)" using Nd.prems nodes_addrs[of r] nodes_addrs[of k] by auto
    have "distinct (addrs (edit p h k))" using Nd.IH(2) Nd.prems below by auto
    moreover have "set (addrs (edit p h k)) =
        (set (addrs k) - set (addrs (kids_of p k))) \<union> set (addrs (h (kids_of p k)))"
      using addrs_edit Nd.prems below by auto
    moreover have "set (addrs (h (kids_of p k))) \<inter> (insert a (set (addrs x) \<union> set (addrs r))) = {}"
      using Nd.prems below kids_of_addrs[of p k] by auto
    ultimately show ?thesis using below Nd.prems edit_id[OF r] by auto
  next
    case behind
    have "distinct (addrs (edit p h r))" using Nd.IH(3) Nd.prems behind by auto
    moreover have "set (addrs (edit p h r)) =
        (set (addrs r) - set (addrs (kids_of p r))) \<union> set (addrs (h (kids_of p r)))"
      using addrs_edit Nd.prems behind by auto
    moreover have "set (addrs (h (kids_of p r))) \<inter> (insert a (set (addrs x) \<union> set (addrs k))) = {}"
      using Nd.prems behind kids_of_addrs[of p r] by auto
    ultimately show ?thesis using behind Nd.prems edit_id[OF behind(2)] by auto
  qed
qed simp

text \<open>What removing a child leaves, and what it takes out.\<close>

lemma remove_root_addrs:
  assumes "distinct (addrs ks)" "c \<in> set (roots ks)"
  shows "distinct (addrs (remove_root c ks))"
    "set (addrs (remove_root c ks)) = set (addrs ks) - set (addrs (tree_of c ks))"
    "distinct (addrs (tree_of c ks))" "set (addrs (tree_of c ks)) \<subseteq> set (addrs ks)"
    "\<exists>x k. tree_of c ks = Nd c x k End"
  using assms
proof (induction ks)
  case (Nd a x k r)
  case 1 then show ?case using Nd.IH(11,12) by auto
  case 2
  show ?case
  proof (cases "a = c")
    case True
    then show ?thesis using 2 by auto
  next
    case False
    then have "set (addrs (remove_root c r)) = set (addrs r) - set (addrs (tree_of c r))"
      "set (addrs (tree_of c r)) \<subseteq> set (addrs r)"
      using Nd.IH(12,14) 2 by auto
    moreover have "(insert a (set (addrs x) \<union> set (addrs k))) \<inter> set (addrs r) = {}" using 2 by auto
    ultimately show ?thesis using False by simp blast
  qed
next
  case (Nd a x k r)
  case 3 then show ?case using Nd.IH(13) by auto
  case 4 then show ?case using Nd.IH(14) by auto
  case 5 then show ?case using Nd.IH(15) by auto
qed simp_all

lemma removed_addrs:
  assumes "distinct (addrs f)" "p \<in> set (nodes f)" "c \<in> set (roots (kids_of p f))"
  shows "distinct (addrs (edit p (remove_root c) f))"
    "set (addrs (edit p (remove_root c) f)) = set (addrs f) - set (addrs (tree_of c (kids_of p f)))"
proof -
  note k = remove_root_addrs[OF kids_of_distinct[OF assms(1), of p] assms(3)]
  show "set (addrs (edit p (remove_root c) f)) = set (addrs f) - set (addrs (tree_of c (kids_of p f)))"
    unfolding addrs_edit[OF assms(1,2)] k(2) using k(4) kids_of_addrs[of p f] by blast
  show "distinct (addrs (edit p (remove_root c) f))"
    by (rule distinct_edit[where h = "remove_root c", OF assms(1,2) k(1)]) (use k(2) in blast)
qed

lemma appendChild_moves:
  assumes f: "seg s None None q f None" "distinct (addrs f)" "p \<in> set (nodes f)" "s p = Some m"
    and c: "c \<in> set (roots (kids_of p f))" "s c = Some n"
    and ok: "ownerDocument n = None \<or> ownerDocument n = ownerDocument m"
      "ixmlNode_allowChildren (nodeType m) (nodeType n)"
  shows "\<exists>s'. ixmlNode_appendChild s (Some p) (Some c) = Some (IXML_SUCCESS, s') \<and>
           seg s' None None q (edit p (\<lambda>ks. fapp (remove_root c ks) (tree_of c (kids_of p f))) f) None \<and>
           (\<forall>a. a \<notin> set (addrs f) \<longrightarrow> s' a = s a)"
proof -
  let ?ks = "kids_of p f" and ?f = "edit p (remove_root c) f"
  note k = remove_root_addrs[OF kids_of_distinct[OF f(2), of p] c(1)]
  note e = removed_addrs[OF f(2,3) c(1)]
  have anc: "ixmlNode_isAncestor s (Some c) (Some p) = Some False"
    by (rule child_not_ancestor[OF f c(1)])
  have pn: "parentNode n = Some p"
    using seg_root_parent[OF seg_kids[OF f(1,3,4)] c(1)] c(2) by simp
  obtain x kk where t: "tree_of c ?ks = Nd c x kk End" using k(5) by blast
  obtain s1 where s1: "ixmlNode_removeChild s (Some p) (Some c) True = Some (IXML_SUCCESS, s1)"
    and f1: "seg s1 None None q ?f None" and t1: "seg s1 None None (Some c) (Nd c x kk End) None"
    and o1: "\<forall>a. a \<notin> set (addrs f) \<longrightarrow> s1 a = s a"
    using removeChild_keeps[OF f(1-3) c(1)] unfolding t by blast
  have p1: "p \<in> set (nodes ?f)" by (rule nodes_edit[OF f(3)])
  obtain m1 where m1: "s1 p = Some m1" using seg_in_store[OF f1] p1 nodes_addrs[of ?f] by blast
  have dt: "distinct (addrs (Nd c x kk End))" "set (addrs ?f) \<inter> set (addrs (Nd c x kk End)) = {}"
    using k(3) e(2) unfolding t by auto
  obtain s2 s' where s2: "put c (\<lambda>x. x\<lparr>parentNode := Some p, ownerDocument := ownerDocument m1\<rparr>) s1 = Some s2"
    and s': "link_last p c s2 = Some s'"
    and r: "seg s' None None q (edit p (\<lambda>ks. fapp ks (Nd c x kk End)) ?f) None"
    and o: "\<forall>a. a \<notin> set (addrs ?f) \<and> a \<noteq> c \<longrightarrow> s' a = s1 a"
    using append_core[OF f1 e(1) p1 m1 t1 dt] by blast
  have "ixmlNode_appendChild s (Some p) (Some c) = Some (IXML_SUCCESS, s')"
    using c(2) f(4) anc pn ok s1 m1 s2 s'
    by (auto simp: ixmlNode_appendChild_def ixmlNode_isParent_child)
  moreover have "s' a = s a" if "a \<notin> set (addrs f)" for a
  proof -
    have "c \<in> set (addrs f)" using c(1) roots_addrs[of ?ks] kids_of_addrs[of p f] by blast
    then show ?thesis using that o o1 e(2) by (metis Diff_iff)
  qed
  ultimately show ?thesis using r unfolding edit_edit t by blast
qed

subsection \<open>Inserting\<close>

definition linked_before :: "nat \<Rightarrow> nat \<Rightarrow> nat \<Rightarrow> ptr \<Rightarrow> ptr \<Rightarrow> store \<Rightarrow> store" where
  "linked_before p c r pv q s =
     upd (Some c) (\<lambda>x. x\<lparr>nextSibling := Some r, prevSibling := pv, parentNode := Some p\<rparr>)
       (upd (Some r) (\<lambda>x. x\<lparr>prevSibling := Some c\<rparr>)
         (upd (Some p) (\<lambda>m. m\<lparr>firstChild := q\<rparr>) (upd pv (\<lambda>m. m\<lparr>nextSibling := Some c\<rparr>) s)))"

lemma link_before_links:
  assumes m: "s p = Some m" and n: "s c = Some n" "prevSibling n = None" and r: "s r = Some u"
    and d: "p \<noteq> c" "p \<noteq> r" "c \<noteq> r" "prevSibling u \<notin> {Some p, Some c, Some r}"
    and pv: "\<And>a. prevSibling u = Some a \<Longrightarrow> s a \<noteq> None"
    and q: "q = (if prevSibling u = None then Some c else firstChild m)"
  shows "link_before p c r s = Some (linked_before p c r (prevSibling u) q s)"
proof (cases "prevSibling u")
  case None
  then show ?thesis using m n r d q
    by (auto simp: link_before_def linked_before_def put_def upd_def fun_eq_iff)
next
  case (Some l)
  then obtain v where "s l = Some v" using pv by blast
  moreover have "m\<lparr>firstChild := firstChild m\<rparr> = m" by simp
  ultimately show ?thesis using m n r d q Some
    by (auto simp: link_before_def linked_before_def put_def upd_def fun_eq_iff)
qed

lemma link_before_local:
  assumes m: "s p = Some m" and ks: "seg s (Some p) None (firstChild m) (fapp f1 (Nd r x' k' f2)) None"
    and t: "seg s None None (Some c) (Nd c x k End) None"
    and d: "distinct (p # addrs (fapp f1 (Nd r x' k' f2)) @ addrs (Nd c x k End))"
  shows "\<exists>s' q. link_before p c r s = Some s' \<and> s' p = Some (m\<lparr>firstChild := q\<rparr>) \<and>
           seg s' (Some p) None q (fapp f1 (Nd c x k (Nd r x' k' f2))) None \<and>
           (\<forall>a. a \<noteq> p \<and> a \<notin> set (addrs (fapp f1 (Nd r x' k' f2))) \<and> a \<noteq> c \<longrightarrow> s' a = s a)"
proof -
  obtain u where u: "s r = Some u" "parentNode u = Some p" and pv: "prevSibling u = last_root None f1"
    and f1: "seg s (Some p) None (firstChild m) f1 (Some r)"
    and x': "seg s None None (firstAttr u) x' None" and k': "seg s (Some r) None (firstChild u) k' None"
    and f2: "seg s (Some p) (Some r) (nextSibling u) f2 None"
    by (rule seg_around[OF ks])
  obtain n where n: "s c = Some n" "parentNode n = None" "prevSibling n = None" "nextSibling n = None"
    and x: "seg s None None (firstAttr n) x None" and k: "seg s (Some c) None (firstChild n) k None"
    using t by (auto split: option.splits)
  let ?pv = "prevSibling u"
  define q where "q = (if ?pv = None then Some c else firstChild m)"
  define s' where "s' = linked_before p c r ?pv q s"
  have pvin: "?pv = None \<or> ?pv \<in> Some ` set (addrs f1)"
    using pv last_root_in[of f1 None] by (auto simp: last_root_def)
  have pvr: "?pv = None \<longleftrightarrow> roots f1 = []" unfolding pv by (simp add: last_root_def)
  have stay: "?pv \<notin> {Some p, Some c, Some r}" "p \<noteq> c" "p \<noteq> r" "c \<noteq> r"
    "?pv \<notin> Some ` set (addrs f2)" "?pv \<notin> Some ` set (addrs x)" "?pv \<notin> Some ` set (addrs k)"
    "?pv \<notin> Some ` set (addrs x')" "?pv \<notin> Some ` set (addrs k')"
    using pvin d by auto
  have "link_before p c r s = Some s'" unfolding s'_def
  proof (rule link_before_links[OF m n(1,3) u(1) stay(2-4,1)])
    show "s a \<noteq> None" if "?pv = Some a" for a using that pvin seg_in_store[OF f1] by auto
  qed (simp add: q_def)
  moreover have "s' p = Some (m\<lparr>firstChild := q\<rparr>)"
    using m stay by (simp add: s'_def linked_before_def)
  moreover have "seg s' (Some p) None q (fapp f1 (Nd c x k (Nd r x' k' f2))) None"
  proof -
    have "seg (upd ?pv (\<lambda>m. m\<lparr>nextSibling := Some c\<rparr>) s) (Some p) None q f1 (Some c)"
      unfolding pv q_def using seg_relink_next[OF f1, of "Some c"] d by (simp add: pvr[unfolded pv])
    then have "seg s' (Some p) None q f1 (Some c)" using d stay by (simp add: s'_def linked_before_def)
    moreover have "seg s' (Some p) ?pv (Some c) (Nd c x k (Nd r x' k' f2)) None"
      using n u x k x' k' f2 d stay by (simp add: s'_def linked_before_def)
    ultimately show ?thesis unfolding seg_fapp pv by blast
  qed
  moreover have "s' a = s a"
    if "a \<noteq> p \<and> a \<notin> set (addrs (fapp f1 (Nd r x' k' f2))) \<and> a \<noteq> c" for a
  proof -
    have "?pv \<noteq> Some a" "r \<noteq> a" using that pvin by auto
    then show ?thesis using that by (simp add: s'_def linked_before_def)
  qed
  ultimately show ?thesis by blast
qed

lemma insert_core:
  assumes f: "seg s None None q f None" "distinct (addrs f)" "p \<in> set (nodes f)"
    and r: "r \<in> set (roots (kids_of p f))"
    and t: "seg s None None (Some c) (Nd c x k End) None" "distinct (addrs (Nd c x k End))"
    and d: "set (addrs f) \<inter> set (addrs (Nd c x k End)) = {}"
  shows "\<exists>s'. link_before p c r s = Some s' \<and>
           seg s' None None q (edit p (insert_root r (Nd c x k End)) f) None \<and>
           (\<forall>a. a \<notin> set (addrs f) \<and> a \<noteq> c \<longrightarrow> s' a = s a)"
proof -
  obtain f1 x' k' f2 where ks: "kids_of p f = fapp f1 (Nd r x' k' f2)" and rr: "r \<notin> set (roots f1)"
    and dk: "distinct (p # addrs (fapp f1 (Nd r x' k' f2)))"
    by (rule kids_split[OF r f(2)])
  have kf: "set (addrs (fapp f1 (Nd r x' k' f2))) \<subseteq> set (addrs f)"
    using kids_of_addrs[of p f] unfolding ks .
  have pf: "p \<in> set (addrs f)" using f(3) nodes_addrs[of f] by blast
  obtain m where m: "s p = Some m" using seg_in_store[OF f(1) pf] by blast
  have l: "seg s (Some p) None (firstChild m) (fapp f1 (Nd r x' k' f2)) None"
    using seg_kids[OF f(1,3) m] unfolding ks .
  have dd: "distinct (p # addrs (fapp f1 (Nd r x' k' f2)) @ addrs (Nd c x k End))"
  proof -
    have "set (addrs (fapp f1 (Nd r x' k' f2))) \<inter> set (addrs (Nd c x k End)) = {}"
      "p \<notin> set (addrs (Nd c x k End))" using d kf pf by blast+
    then show ?thesis using dk t(2) by (simp del: addrs.simps addrs_fapp)
  qed
  obtain s' q' where s': "link_before p c r s = Some s'" and p': "s' p = Some (m\<lparr>firstChild := q'\<rparr>)"
    and k'': "seg s' (Some p) None q' (fapp f1 (Nd c x k (Nd r x' k' f2))) None"
    and o: "\<forall>a. a \<noteq> p \<and> a \<notin> set (addrs (fapp f1 (Nd r x' k' f2))) \<and> a \<noteq> c \<longrightarrow> s' a = s a"
    using link_before_local[OF m l t(1) dd] by blast
  have cf: "c \<notin> set (addrs f)" using d by auto
  have "seg s' None None q (edit p (insert_root r (Nd c x k End)) f) None"
    by (rule seg_edit[where h = "insert_root r (Nd c x k End)" and q' = q' and s' = s', OF f(1-3) m p'])
      (use o k'' cf in \<open>auto simp: ks insert_root_fapp[OF rr]\<close>)
  moreover have "\<forall>a. a \<notin> set (addrs f) \<and> a \<noteq> c \<longrightarrow> s' a = s a" using o kf pf by (metis subsetD)
  ultimately show ?thesis using s' by blast
qed

end
