(* ===== verification/DomProperties.thy ===== *)
theory DomProperties
  imports DomEdit
begin

text \<open>
  The contracts of the tree operations: what \<open>removeChild\<close>, \<open>appendChild\<close>, \<open>insertBefore\<close>,
  \<open>replaceChild\<close>, \<open>free\<close> and the searches do to the forest that a store represents.
\<close>

definition represents :: "store \<Rightarrow> ptr \<Rightarrow> forest \<Rightarrow> bool" where
  "represents s p f \<longleftrightarrow> seg s None None p f None \<and> distinct (addrs f)"

subsection \<open>More about changes of a forest\<close>

lemma kids_of_edit: "p \<in> set (nodes f) \<Longrightarrow> distinct (addrs f) \<Longrightarrow> kids_of p (edit p h f) = h (kids_of p f)"
proof (induction f)
  case (Nd a x k r)
  show ?case
  proof (cases "p \<in> set (nodes k)")
    case True
    then show ?thesis using Nd nodes_edit[OF True] by auto
  next
    case False
    then show ?thesis using Nd edit_id[OF False] by auto
  qed
qed simp

lemma roots_remove_root: "distinct (roots f) \<Longrightarrow> set (roots (remove_root c f)) = set (roots f) - {c}"
  by (induction f) auto

lemma distinct_roots: "distinct (addrs f) \<Longrightarrow> distinct (roots f)"
proof (induction f)
  case (Nd a x k r)
  then show ?case using roots_addrs[of r] by auto
qed simp

lemma insert_root_addrs:
  "set (addrs (insert_root b t f)) = set (addrs t) \<union> set (addrs f)"
  "distinct (addrs f) \<Longrightarrow> distinct (addrs t) \<Longrightarrow> set (addrs f) \<inter> set (addrs t) = {} \<Longrightarrow>
     distinct (addrs (insert_root b t f))"
proof -
  show s: "set (addrs (insert_root b t f)) = set (addrs t) \<union> set (addrs f)" for f
    by (induction f) auto
  show "distinct (addrs f) \<Longrightarrow> distinct (addrs t) \<Longrightarrow> set (addrs f) \<inter> set (addrs t) = {} \<Longrightarrow>
     distinct (addrs (insert_root b t f))"
    by (induction f) (auto simp: s)
qed

lemma roots_insert_root: "b \<in> set (roots f) \<Longrightarrow> set (roots (insert_root b t f)) = set (roots t) \<union> set (roots f)"
  by (induction f) auto


lemma tree_of_insert_root: "r \<noteq> c \<Longrightarrow> tree_of r (insert_root r (Nd c x k End) f) = tree_of r f"
  by (induction f) auto


lemma inserted_distinct:
  assumes "represents s q f" "p \<in> set (nodes f)" "distinct (addrs t)" "set (addrs f) \<inter> set (addrs t) = {}"
  shows "distinct (addrs (edit p (insert_root r t) f))" "distinct (addrs (edit p (\<lambda>ks. fapp ks t) f))"
proof -
  have f: "distinct (addrs f)" using assms(1) by (simp add: represents_def)
  note k = kids_of_distinct[OF f, of p] and s = kids_of_addrs[of p f]
  have d: "set (addrs (kids_of p f)) \<inter> set (addrs t) = {}" using s assms(4) by blast
  show "distinct (addrs (edit p (insert_root r t) f))"
    by (rule distinct_edit[where h = "insert_root r t", OF f assms(2) insert_root_addrs(2)[OF k assms(3) d]])
      (use assms(4) in \<open>auto simp: insert_root_addrs(1)\<close>)
  have "distinct (addrs (fapp (kids_of p f) t))" using k assms(3) d by auto
  then show "distinct (addrs (edit p (\<lambda>ks. fapp ks t) f))"
    by (rule distinct_edit[where h = "\<lambda>ks. fapp ks t", OF f assms(2)]) (use assms(4) in auto)
qed

lemma edit_cong:
  "distinct (addrs f) \<Longrightarrow> g (kids_of p f) = h (kids_of p f) \<Longrightarrow> edit p g f = edit p h f"
proof (induction f)
  case (Nd a x k r)
  consider (here) "a = p" | (below) "a \<noteq> p" "p \<in> set (nodes k)" | (behind) "a \<noteq> p" "p \<notin> set (nodes k)" by auto
  then show ?case
  proof cases
    case here
    then have "p \<notin> set (nodes r)" using Nd.prems(1) nodes_addrs[of r] by auto
    then show ?thesis using here Nd.prems edit_id[of p r] by auto
  next
    case below
    then have "p \<notin> set (nodes r)" using Nd.prems(1) nodes_addrs[of k] nodes_addrs[of r] by auto
    then show ?thesis using below Nd edit_id[of p r] by auto
  next
    case behind
    then show ?thesis using Nd edit_id[of p k] by auto
  qed
qed simp


subsection \<open>An example\<close>

text \<open>A document with one element that has an attribute, two elements and a text; one more element alone.\<close>

abbreviation blank :: IXML_Node where "blank \<equiv> ixmlNode_init\<lparr>ownerDocument := Some 0\<rparr>"

definition shop :: store where
  "shop =
     [0 \<mapsto> blank\<lparr>nodeType := eDOCUMENT_NODE, nodeName := Some ''#document'', firstChild := Some 1\<rparr>,
      1 \<mapsto> blank\<lparr>nodeType := eELEMENT_NODE, nodeName := Some ''root'', parentNode := Some 0,
              firstChild := Some 2, firstAttr := Some 5\<rparr>,
      2 \<mapsto> blank\<lparr>nodeType := eELEMENT_NODE, nodeName := Some ''item'', parentNode := Some 1, nextSibling := Some 3\<rparr>,
      3 \<mapsto> blank\<lparr>nodeType := eTEXT_NODE, nodeName := Some ''#text'', parentNode := Some 1, prevSibling := Some 2,
              nextSibling := Some 4\<rparr>,
      4 \<mapsto> blank\<lparr>nodeType := eELEMENT_NODE, nodeName := Some ''item'', parentNode := Some 1, prevSibling := Some 3\<rparr>,
      5 \<mapsto> blank\<lparr>nodeType := eATTRIBUTE_NODE, nodeName := Some ''id''\<rparr>,
      6 \<mapsto> blank\<lparr>nodeType := eELEMENT_NODE, nodeName := Some ''item''\<rparr>]"

definition shop_tree :: forest where
  "shop_tree = Nd 0 End (Nd 1 (Nd 5 End End End) (Nd 2 End End (Nd 3 End End (Nd 4 End End End))) End) End"

lemma shop_represents:
  "represents shop (Some 0) shop_tree" "represents shop (Some 6) (Nd 6 End End End)"
  by (simp_all add: represents_def shop_def shop_tree_def ixmlNode_init_def)

lemma shop_sets [simp]:
  "set (addrs shop_tree) = {0, 1, 2, 3, 4, 5}" "set (nodes shop_tree) = {0, 1, 2, 3, 4}"
  "set (roots (kids_of (Suc 0) shop_tree)) = {2, 3, 4}"
  by (auto simp: shop_tree_def)

subsection \<open>Removing\<close>



subsection \<open>Adding\<close>

lemma appendChild_represents:
  assumes "represents s q f" "p \<in> set (nodes f)" "s p = Some m"
    and "represents s (Some c) (Nd c x k End)" "s c = Some n" "set (addrs f) \<inter> set (addrs (Nd c x k End)) = {}"
    and "ownerDocument n = None \<or> ownerDocument n = ownerDocument m"
    and "ixmlNode_allowChildren (nodeType m) (nodeType n)"
  shows "\<exists>s'. ixmlNode_appendChild s (Some p) (Some c) = Some (IXML_SUCCESS, s') \<and>
           represents s' q (edit p (\<lambda>ks. fapp ks (Nd c x k End)) f) \<and>
           (\<forall>a. a \<notin> set (addrs f) \<and> a \<noteq> c \<longrightarrow> s' a = s a)"
proof -
  have f: "seg s None None q f None" "distinct (addrs f)"
    and t: "seg s None None (Some c) (Nd c x k End) None" "distinct (addrs (Nd c x k End))"
    using assms(1,4) by (auto simp only: represents_def)
  show ?thesis
    using appendChild_adds[OF f assms(2,3) t assms(5-8)] inserted_distinct(2)[OF assms(1,2) t(2) assms(6)]
    unfolding represents_def by blast
qed

text \<open>
  C13: Appending a tree that stands alone makes it the last child of the node: the store then
  represents the document with the tree behind the other children, all parent and sibling pointers
  right, and nothing outside the document and the new node has changed.
\<close>

theorem appendChild_refines:
  assumes "represents s q f" "p \<in> set (nodes f)" "s p = Some m"
    and "represents s (Some c) (Nd c x k End)" "s c = Some n" "set (addrs f) \<inter> set (addrs (Nd c x k End)) = {}"
    and "ownerDocument n = None \<or> ownerDocument n = ownerDocument m"
    and "ixmlNode_allowChildren (nodeType m) (nodeType n)"
  shows "\<exists>s'. ixmlNode_appendChild s (Some p) (Some c) = Some (IXML_SUCCESS, s') \<and>
           represents s' q (edit p (\<lambda>ks. fapp ks (Nd c x k End)) f) \<and>
           (\<forall>a. a \<notin> set (addrs f) \<and> a \<noteq> c \<longrightarrow> s' a = s a)"
  by (rule appendChild_represents[OF assms])

theorem appendChild_refines_witness:
  "\<exists>s'. ixmlNode_appendChild shop (Some 1) (Some 6) = Some (IXML_SUCCESS, s') \<and>
     represents s' (Some 0) (edit 1 (\<lambda>ks. fapp ks (Nd 6 End End End)) shop_tree) \<and>
     (\<forall>a. a \<notin> set (addrs shop_tree) \<and> a \<noteq> 6 \<longrightarrow> s' a = shop a)"
  by (rule appendChild_refines[where m = "the (shop 1)" and n = "the (shop 6)", OF shop_represents(1) _ _ shop_represents(2)])
    (simp_all add: shop_def ixmlNode_init_def ixmlNode_allowChildren_def)

text \<open>
  Appending a node that is a child already moves its tree behind the other children; nothing
  outside the document changes.
\<close>

theorem appendChild_moves_to_end:
  assumes "represents s q f" "p \<in> set (nodes f)" "s p = Some m"
    and "c \<in> set (roots (kids_of p f))" "s c = Some n"
    and "ownerDocument n = None \<or> ownerDocument n = ownerDocument m"
    and "ixmlNode_allowChildren (nodeType m) (nodeType n)"
  shows "\<exists>s'. ixmlNode_appendChild s (Some p) (Some c) = Some (IXML_SUCCESS, s') \<and>
           represents s' q (edit p (\<lambda>ks. fapp (remove_root c ks) (tree_of c ks)) f) \<and>
           (\<forall>a. a \<notin> set (addrs f) \<longrightarrow> s' a = s a)"
proof -
  have f: "seg s None None q f None" "distinct (addrs f)" using assms(1) by (auto simp: represents_def)
  let ?ks = "kids_of p f"
  note k = remove_root_addrs[OF kids_of_distinct[OF f(2), of p] assms(4)]
  have e: "edit p (\<lambda>ks. fapp (remove_root c ks) (tree_of c ?ks)) f = edit p (\<lambda>ks. fapp (remove_root c ks) (tree_of c ks)) f"
    by (rule edit_cong[OF f(2)]) simp
  have "distinct (addrs (fapp (remove_root c ?ks) (tree_of c ?ks)))" using k(1-3) by auto
  then have "distinct (addrs (edit p (\<lambda>ks. fapp (remove_root c ks) (tree_of c ks)) f))"
    by (rule distinct_edit[where h = "\<lambda>ks. fapp (remove_root c ks) (tree_of c ks)", OF f(2) assms(2)])
      (use k(2,4) in auto)
  then show ?thesis
    using appendChild_moves[OF f assms(2-7)] unfolding e represents_def by blast
qed

theorem appendChild_moves_to_end_witness:
  "\<exists>s'. ixmlNode_appendChild shop (Some 1) (Some 2) = Some (IXML_SUCCESS, s') \<and>
     represents s' (Some 0) (edit 1 (\<lambda>ks. fapp (remove_root 2 ks) (tree_of 2 ks)) shop_tree) \<and>
     (\<forall>a. a \<notin> set (addrs shop_tree) \<longrightarrow> s' a = shop a)"
  by (rule appendChild_moves_to_end[where m = "the (shop 1)" and n = "the (shop 2)", OF shop_represents(1)])
    (simp_all add: shop_def ixmlNode_init_def ixmlNode_allowChildren_def)

lemma insertBefore_adds:
  assumes "represents s q f" "p \<in> set (nodes f)" "s p = Some m" "r \<in> set (roots (kids_of p f))"
    and "represents s (Some c) (Nd c x k End)" "s c = Some n" "set (addrs f) \<inter> set (addrs (Nd c x k End)) = {}"
    and "ownerDocument m = ownerDocument n" "ixmlNode_allowChildren (nodeType m) (nodeType n)"
  shows "\<exists>s'. ixmlNode_insertBefore s (Some p) (Some c) (Some r) = Some (IXML_SUCCESS, s') \<and>
           represents s' q (edit p (insert_root r (Nd c x k End)) f) \<and>
           (\<forall>a. a \<notin> set (addrs f) \<and> a \<noteq> c \<longrightarrow> s' a = s a)"
proof -
  have f: "seg s None None q f None" "distinct (addrs f)"
    and t: "seg s None None (Some c) (Nd c x k End) None" "distinct (addrs (Nd c x k End))"
    using assms(1,5) by (auto simp only: represents_def)
  have anc: "ixmlNode_isAncestor s (Some c) (Some p) = Some False"
    by (rule not_ancestor[OF f(1) assms(2,3) t(1) assms(7)])
  have pn: "parentNode n = None" using t(1) assms(6) by simp
  obtain u where u: "s r = Some u" "parentNode u = Some p"
    using seg_root_parent[OF seg_kids[OF f(1) assms(2,3)] assms(4)] by blast
  obtain s' where s': "link_before p c r s = Some s'"
    and r: "seg s' None None q (edit p (insert_root r (Nd c x k End)) f) None"
    and o: "\<forall>a. a \<notin> set (addrs f) \<and> a \<noteq> c \<longrightarrow> s' a = s a"
    using insert_core[OF f assms(2,4) t assms(7)] by blast
  have "ixmlNode_insertBefore s (Some p) (Some c) (Some r) = Some (IXML_SUCCESS, s')"
    using assms(3,6,8,9) anc pn u s' by (simp add: ixmlNode_insertBefore_def ixmlNode_isParent_child)
  then show ?thesis using r o inserted_distinct(1)[OF assms(1,2) t(2) assms(7)] unfolding represents_def by blast
qed

text \<open>
  C14: Inserting a tree that stands alone before a child of the node puts it right before that child,
  whether that is the first one or not; nothing else changes.
\<close>

theorem insertBefore_refines:
  assumes "represents s q f" "p \<in> set (nodes f)" "s p = Some m" "r \<in> set (roots (kids_of p f))"
    and "represents s (Some c) (Nd c x k End)" "s c = Some n" "set (addrs f) \<inter> set (addrs (Nd c x k End)) = {}"
    and "ownerDocument m = ownerDocument n" "ixmlNode_allowChildren (nodeType m) (nodeType n)"
  shows "\<exists>s'. ixmlNode_insertBefore s (Some p) (Some c) (Some r) = Some (IXML_SUCCESS, s') \<and>
           represents s' q (edit p (insert_root r (Nd c x k End)) f) \<and>
           (\<forall>a. a \<notin> set (addrs f) \<and> a \<noteq> c \<longrightarrow> s' a = s a)"
  by (rule insertBefore_adds[OF assms])

theorem insertBefore_refines_witness:
  "\<exists>s'. ixmlNode_insertBefore shop (Some 1) (Some 6) (Some 3) = Some (IXML_SUCCESS, s') \<and>
     represents s' (Some 0) (edit 1 (insert_root 3 (Nd 6 End End End)) shop_tree) \<and>
     (\<forall>a. a \<notin> set (addrs shop_tree) \<and> a \<noteq> 6 \<longrightarrow> s' a = shop a)"
  by (rule insertBefore_refines[where m = "the (shop 1)" and n = "the (shop 6)", OF shop_represents(1) _ _ _ shop_represents(2)])
    (simp_all add: shop_def ixmlNode_init_def ixmlNode_allowChildren_def)

text \<open>
  Replacing a child by a tree that stands alone puts the tree in its place and hands the old
  child's tree back, detached.
\<close>

theorem replaceChild_refines:
  assumes "represents s q f" "p \<in> set (nodes f)" "s p = Some m" "r \<in> set (roots (kids_of p f))"
    and "represents s (Some c) (Nd c x k End)" "s c = Some n" "set (addrs f) \<inter> set (addrs (Nd c x k End)) = {}"
    and "ownerDocument m = ownerDocument n" "ixmlNode_allowChildren (nodeType m) (nodeType n)"
  shows "\<exists>s'. ixmlNode_replaceChild s (Some p) (Some c) (Some r) True = Some (IXML_SUCCESS, s') \<and>
           represents s' q (edit p (\<lambda>ks. remove_root r (insert_root r (Nd c x k End) ks)) f) \<and>
           represents s' (Some r) (tree_of r (kids_of p f)) \<and>
           (\<forall>a. a \<notin> set (addrs f) \<and> a \<notin> set (addrs (Nd c x k End)) \<longrightarrow> s' a = s a)"
proof -
  let ?t = "Nd c x k End" and ?f = "edit p (insert_root r (Nd c x k End)) f"
  have f: "seg s None None q f None" "distinct (addrs f)"
    and t: "seg s None None (Some c) ?t None" "distinct (addrs ?t)"
    using assms(1,5) by (auto simp only: represents_def)
  have anc: "ixmlNode_isAncestor s (Some c) (Some p) = Some False"
    by (rule not_ancestor[OF f(1) assms(2,3) t(1) assms(7)])
  obtain u where u: "s r = Some u" "parentNode u = Some p"
    using seg_root_parent[OF seg_kids[OF f(1) assms(2,3)] assms(4)] by blast
  obtain s1 where s1: "ixmlNode_insertBefore s (Some p) (Some c) (Some r) = Some (IXML_SUCCESS, s1)"
    and r1: "represents s1 q ?f" and o1: "\<forall>a. a \<notin> set (addrs f) \<and> a \<noteq> c \<longrightarrow> s1 a = s a"
    using insertBefore_adds[OF assms] by blast
  have rc: "r \<noteq> c" using assms(4,7) roots_addrs[of "kids_of p f"] kids_of_addrs[of p f] by auto
  have k1: "kids_of p ?f = insert_root r ?t (kids_of p f)" by (rule kids_of_edit[OF assms(2) f(2)])
  have r2: "r \<in> set (roots (kids_of p ?f))" unfolding k1 using roots_insert_root[OF assms(4)] assms(4) by simp
  have f1: "seg s1 None None q ?f None" "distinct (addrs ?f)" using r1 by (auto simp only: represents_def)
  have tr: "tree_of r (kids_of p ?f) = tree_of r (kids_of p f)"
    unfolding k1 by (rule tree_of_insert_root[OF rc])
  obtain s' where s': "ixmlNode_removeChild s1 (Some p) (Some r) True = Some (IXML_SUCCESS, s')"
    and r': "seg s' None None q (edit p (remove_root r) ?f) None" "seg s' None None (Some r) (tree_of r (kids_of p f)) None"
    and o: "\<forall>a. a \<notin> set (addrs ?f) \<longrightarrow> s' a = s1 a"
    using removeChild_keeps[OF f1 nodes_edit[OF assms(2)] r2] unfolding tr by blast
  have "ixmlNode_replaceChild s (Some p) (Some c) (Some r) True = Some (IXML_SUCCESS, s')"
    using assms(3,6,8,9) anc u s1 s' by (simp add: ixmlNode_replaceChild_def ixmlNode_isParent_child)
  moreover have "set (addrs ?f) \<subseteq> set (addrs f) \<union> set (addrs ?t)"
    using addrs_edit[OF f(2) assms(2), of "insert_root r ?t"] insert_root_addrs(1) kids_of_addrs[of p f] by blast
  then have "\<forall>a. a \<notin> set (addrs f) \<and> a \<notin> set (addrs ?t) \<longrightarrow> s' a = s a" using o o1 by auto
  ultimately show ?thesis
    using r' removed_addrs(1)[OF f1(2) nodes_edit[OF assms(2)] r2]
      remove_root_addrs(3)[OF kids_of_distinct[OF f(2), of p] assms(4)]
    unfolding represents_def edit_edit by blast
qed

theorem replaceChild_refines_witness:
  "\<exists>s'. ixmlNode_replaceChild shop (Some 1) (Some 6) (Some 3) True = Some (IXML_SUCCESS, s') \<and>
     represents s' (Some 0) (edit 1 (\<lambda>ks. remove_root 3 (insert_root 3 (Nd 6 End End End) ks)) shop_tree) \<and>
     represents s' (Some 3) (tree_of 3 (kids_of 1 shop_tree)) \<and>
     (\<forall>a. a \<notin> set (addrs shop_tree) \<and> a \<notin> set (addrs (Nd 6 End End End)) \<longrightarrow> s' a = shop a)"
  by (rule replaceChild_refines[where m = "the (shop 1)" and n = "the (shop 6)", OF shop_represents(1) _ _ _ shop_represents(2)])
    (simp_all add: shop_def ixmlNode_init_def ixmlNode_allowChildren_def)

subsection \<open>What is rejected\<close>



text \<open>A chain that comes back to its start is never freed.\<close>

lemma free_cycle:
  assumes "s a = Some n" "firstChild n = Some a"
  shows "ixmlNode_free s (Some a) = None"
proof (rule ccontr)
  assume "ixmlNode_free s (Some a) \<noteq> None"
  then obtain y where y: "ixmlNode_free s (Some a) = Some y" by blast
  have "\<not> (Some a = Some a \<and> s = s)"
  proof (rule ixmlNode_free.raw_induct[of "\<lambda>s0 p z. \<not> (p = Some a \<and> s0 = s)", OF _ y], goal_cases)
    case (1 f s0 p z)
    then show ?case using assms 1(1)[of s "Some a"] by (auto simp: bind_eq_Some_conv)
  qed
  then show False by simp
qed

text \<open>
  The test for ancestors does not compare the two nodes themselves: appending an element to
  itself succeeds, makes it its own parent and child, and a later \<open>ixmlNode_free\<close> never returns.
\<close>

theorem append_to_itself_cycles:
  assumes "represents s (Some c) (Nd c x End End)" "s c = Some n" "nodeType n = eELEMENT_NODE"
  shows "\<exists>s' n'. ixmlNode_appendChild s (Some c) (Some c) = Some (IXML_SUCCESS, s') \<and>
           s' c = Some n' \<and> parentNode n' = Some c \<and> firstChild n' = Some c \<and> ixmlNode_free s' (Some c) = None"
proof -
  have n: "parentNode n = None" "firstChild n = None" "nextSibling n = None"
    using assms(1,2) by (auto simp: represents_def)
  have "ixmlNode_isAncestor s (Some c) (Some c) = Some False"
    using assms(2) n by (simp add: ixmlNode_isAncestor.simps)
  moreover define n' where "n' = n\<lparr>parentNode := Some c, firstChild := Some c\<rparr>"
  ultimately have "ixmlNode_appendChild s (Some c) (Some c) = Some (IXML_SUCCESS, s(c \<mapsto> n'))"
    using assms(2,3) n
    by (simp add: ixmlNode_appendChild_def ixmlNode_isParent_def ixmlNode_allowChildren_def put_def link_last_def)
  then show ?thesis using free_cycle[of "s(c \<mapsto> n')" c n'] by (simp add: n'_def)
qed

theorem append_to_itself_cycles_witness:
  "\<exists>s' n'. ixmlNode_appendChild shop (Some 6) (Some 6) = Some (IXML_SUCCESS, s') \<and>
     s' 6 = Some n' \<and> parentNode n' = Some 6 \<and> firstChild n' = Some 6 \<and> ixmlNode_free s' (Some 6) = None"
  by (rule append_to_itself_cycles[where n = "the (shop 6)", OF shop_represents(2)])
    (simp_all add: shop_def ixmlNode_init_def)

subsection \<open>Freeing and searching\<close>







subsection \<open>The types of nodes\<close>

text \<open>Which nodes may be below which: the rule that \<open>ixmlNode_allowChildren\<close> enforces.\<close>

definition ty :: "store \<Rightarrow> nat \<Rightarrow> IXML_NODE_TYPE" where
  "ty s a = nodeType (the (s a))"

fun well_typed :: "store \<Rightarrow> forest \<Rightarrow> bool" where
  "well_typed s End \<longleftrightarrow> True"
| "well_typed s (Nd a x k r) \<longleftrightarrow>
     (\<forall>b \<in> set (roots k). ixmlNode_allowChildren (ty s a) (ty s b)) \<and>
     well_typed s x \<and> well_typed s k \<and> well_typed s r"

definition same_types :: "store \<Rightarrow> store \<Rightarrow> bool" where
  "same_types s s' \<longleftrightarrow> (\<forall>a. map_option nodeType (s' a) = map_option nodeType (s a))"

lemma same_types_refl [simp]: "same_types s s"
  by (simp add: same_types_def)






lemma well_typed_fapp [simp]: "well_typed s (fapp f g) \<longleftrightarrow> well_typed s f \<and> well_typed s g"
  by (induction f) auto













end
