(* ===== verification/XmlChars.thy ===== *)
theory XmlChars
  imports CStrings "HOL-Library.Word"
begin

text \<open>
  The characters of the XML parser of \<open>ixml\<close> (\<open>ixml/src/ixmlparser.c\<close>): UTF-8, the tables of names and
  the references. A \<open>char *\<close> is the memory from where it points to the end of its block, the NUL
  included; reading behind that is \<open>None\<close>. \<open>err\<close> is \<open>g_error_char\<close>, NUL for a strict parser.
\<close>

unbundle bit_operations_syntax

type_synonym cptr = "char list"

abbreviation NUL :: char where "NUL \<equiv> CHR 0x00"

subsection \<open>Names\<close>

text \<open>The tables of the characters a name can start with, and of those that can also follow.\<close>

type_synonym char_info_t = "int \<times> int"

definition Letter :: "char_info_t list" where
  "Letter =
     [(0x003A, 0x003A), (0x0041, 0x005A), (0x005F, 0x005F), (0x0061, 0x007A), (0x00C0, 0x00D6),
      (0x00D8, 0x00F6), (0x00F8, 0x00FF), (0x0100, 0x0131), (0x0134, 0x013E), (0x0141, 0x0148),
      (0x014A, 0x017E), (0x0180, 0x01C3), (0x01CD, 0x01F0), (0x01F4, 0x01F5), (0x01FA, 0x0217),
      (0x0250, 0x02A8), (0x02BB, 0x02C1), (0x0386, 0x0386), (0x0388, 0x038A), (0x038C, 0x038C),
      (0x038E, 0x03A1), (0x03A3, 0x03CE), (0x03D0, 0x03D6), (0x03DA, 0x03DA), (0x03DC, 0x03DC),
      (0x03DE, 0x03DE), (0x03E0, 0x03E0), (0x03E2, 0x03F3), (0x0401, 0x040C), (0x040E, 0x044F),
      (0x0451, 0x045C), (0x045E, 0x0481), (0x0490, 0x04C4), (0x04C7, 0x04C8), (0x04CB, 0x04CC),
      (0x04D0, 0x04EB), (0x04EE, 0x04F5), (0x04F8, 0x04F9), (0x0531, 0x0556), (0x0559, 0x0559),
      (0x0561, 0x0586), (0x05D0, 0x05EA), (0x05F0, 0x05F2), (0x0621, 0x063A), (0x0641, 0x064A),
      (0x0671, 0x06B7), (0x06BA, 0x06BE), (0x06C0, 0x06CE), (0x06D0, 0x06D3), (0x06D5, 0x06D5),
      (0x06E5, 0x06E6), (0x0905, 0x0939), (0x093D, 0x093D), (0x0958, 0x0961), (0x0985, 0x098C),
      (0x098F, 0x0990), (0x0993, 0x09A8), (0x09AA, 0x09B0), (0x09B2, 0x09B2), (0x09B6, 0x09B9),
      (0x09DC, 0x09DD), (0x09DF, 0x09E1), (0x09F0, 0x09F1), (0x0A05, 0x0A0A), (0x0A0F, 0x0A10),
      (0x0A13, 0x0A28), (0x0A2A, 0x0A30), (0x0A32, 0x0A33), (0x0A35, 0x0A36), (0x0A38, 0x0A39),
      (0x0A59, 0x0A5C), (0x0A5E, 0x0A5E), (0x0A72, 0x0A74), (0x0A85, 0x0A8B), (0x0A8D, 0x0A8D),
      (0x0A8F, 0x0A91), (0x0A93, 0x0AA8), (0x0AAA, 0x0AB0), (0x0AB2, 0x0AB3), (0x0AB5, 0x0AB9),
      (0x0ABD, 0x0ABD), (0x0AE0, 0x0AE0), (0x0B05, 0x0B0C), (0x0B0F, 0x0B10), (0x0B13, 0x0B28),
      (0x0B2A, 0x0B30), (0x0B32, 0x0B33), (0x0B36, 0x0B39), (0x0B3D, 0x0B3D), (0x0B5C, 0x0B5D),
      (0x0B5F, 0x0B61), (0x0B85, 0x0B8A), (0x0B8E, 0x0B90), (0x0B92, 0x0B95), (0x0B99, 0x0B9A),
      (0x0B9C, 0x0B9C), (0x0B9E, 0x0B9F), (0x0BA3, 0x0BA4), (0x0BA8, 0x0BAA), (0x0BAE, 0x0BB5),
      (0x0BB7, 0x0BB9), (0x0C05, 0x0C0C), (0x0C0E, 0x0C10), (0x0C12, 0x0C28), (0x0C2A, 0x0C33),
      (0x0C35, 0x0C39), (0x0C60, 0x0C61), (0x0C85, 0x0C8C), (0x0C8E, 0x0C90), (0x0C92, 0x0CA8),
      (0x0CAA, 0x0CB3), (0x0CB5, 0x0CB9), (0x0CDE, 0x0CDE), (0x0CE0, 0x0CE1), (0x0D05, 0x0D0C),
      (0x0D0E, 0x0D10), (0x0D12, 0x0D28), (0x0D2A, 0x0D39), (0x0D60, 0x0D61), (0x0E01, 0x0E2E),
      (0x0E30, 0x0E30), (0x0E32, 0x0E33), (0x0E40, 0x0E45), (0x0E81, 0x0E82), (0x0E84, 0x0E84),
      (0x0E87, 0x0E88), (0x0E8A, 0x0E8A), (0x0E8D, 0x0E8D), (0x0E94, 0x0E97), (0x0E99, 0x0E9F),
      (0x0EA1, 0x0EA3), (0x0EA5, 0x0EA5), (0x0EA7, 0x0EA7), (0x0EAA, 0x0EAB), (0x0EAD, 0x0EAE),
      (0x0EB0, 0x0EB0), (0x0EB2, 0x0EB3), (0x0EBD, 0x0EBD), (0x0EC0, 0x0EC4), (0x0F40, 0x0F47),
      (0x0F49, 0x0F69), (0x10A0, 0x10C5), (0x10D0, 0x10F6), (0x1100, 0x1100), (0x1102, 0x1103),
      (0x1105, 0x1107), (0x1109, 0x1109), (0x110B, 0x110C), (0x110E, 0x1112), (0x113C, 0x113C),
      (0x113E, 0x113E), (0x1140, 0x1140), (0x114C, 0x114C), (0x114E, 0x114E), (0x1150, 0x1150),
      (0x1154, 0x1155), (0x1159, 0x1159), (0x115F, 0x1161), (0x1163, 0x1163), (0x1165, 0x1165),
      (0x1167, 0x1167), (0x1169, 0x1169), (0x116D, 0x116E), (0x1172, 0x1173), (0x1175, 0x1175),
      (0x119E, 0x119E), (0x11A8, 0x11A8), (0x11AB, 0x11AB), (0x11AE, 0x11AF), (0x11B7, 0x11B8),
      (0x11BA, 0x11BA), (0x11BC, 0x11C2), (0x11EB, 0x11EB), (0x11F0, 0x11F0), (0x11F9, 0x11F9),
      (0x1E00, 0x1E9B), (0x1EA0, 0x1EF9), (0x1F00, 0x1F15), (0x1F18, 0x1F1D), (0x1F20, 0x1F45),
      (0x1F48, 0x1F4D), (0x1F50, 0x1F57), (0x1F59, 0x1F59), (0x1F5B, 0x1F5B), (0x1F5D, 0x1F5D),
      (0x1F5F, 0x1F7D), (0x1F80, 0x1FB4), (0x1FB6, 0x1FBC), (0x1FBE, 0x1FBE), (0x1FC2, 0x1FC4),
      (0x1FC6, 0x1FCC), (0x1FD0, 0x1FD3), (0x1FD6, 0x1FDB), (0x1FE0, 0x1FEC), (0x1FF2, 0x1FF4),
      (0x1FF6, 0x1FFC), (0x2126, 0x2126), (0x212A, 0x212B), (0x212E, 0x212E), (0x2180, 0x2182),
      (0x3007, 0x3007), (0x3021, 0x3029), (0x3041, 0x3094), (0x30A1, 0x30FA), (0x3105, 0x312C),
      (0x4E00, 0x9FA5), (0xAC00, 0xD7A3)]"

definition NameChar :: "char_info_t list" where
  "NameChar =
     [(0x002D, 0x002D), (0x002E, 0x002E), (0x0030, 0x0039), (0x00B7, 0x00B7), (0x02D0, 0x02D0),
      (0x02D1, 0x02D1), (0x0300, 0x0345), (0x0360, 0x0361), (0x0387, 0x0387), (0x0483, 0x0486),
      (0x0591, 0x05A1), (0x05A3, 0x05B9), (0x05BB, 0x05BD), (0x05BF, 0x05BF), (0x05C1, 0x05C2),
      (0x05C4, 0x05C4), (0x0640, 0x0640), (0x064B, 0x0652), (0x0660, 0x0669), (0x0670, 0x0670),
      (0x06D6, 0x06DC), (0x06DD, 0x06DF), (0x06E0, 0x06E4), (0x06E7, 0x06E8), (0x06EA, 0x06ED),
      (0x06F0, 0x06F9), (0x0901, 0x0903), (0x093C, 0x093C), (0x093E, 0x094C), (0x094D, 0x094D),
      (0x0951, 0x0954), (0x0962, 0x0963), (0x0966, 0x096F), (0x0981, 0x0983), (0x09BC, 0x09BC),
      (0x09BE, 0x09BE), (0x09BF, 0x09BF), (0x09C0, 0x09C4), (0x09C7, 0x09C8), (0x09CB, 0x09CD),
      (0x09D7, 0x09D7), (0x09E2, 0x09E3), (0x09E6, 0x09EF), (0x0A02, 0x0A02), (0x0A3C, 0x0A3C),
      (0x0A3E, 0x0A3E), (0x0A3F, 0x0A3F), (0x0A40, 0x0A42), (0x0A47, 0x0A48), (0x0A4B, 0x0A4D),
      (0x0A66, 0x0A6F), (0x0A70, 0x0A71), (0x0A81, 0x0A83), (0x0ABC, 0x0ABC), (0x0ABE, 0x0AC5),
      (0x0AC7, 0x0AC9), (0x0ACB, 0x0ACD), (0x0AE6, 0x0AEF), (0x0B01, 0x0B03), (0x0B3C, 0x0B3C),
      (0x0B3E, 0x0B43), (0x0B47, 0x0B48), (0x0B4B, 0x0B4D), (0x0B56, 0x0B57), (0x0B66, 0x0B6F),
      (0x0B82, 0x0B83), (0x0BBE, 0x0BC2), (0x0BC6, 0x0BC8), (0x0BCA, 0x0BCD), (0x0BD7, 0x0BD7),
      (0x0BE7, 0x0BEF), (0x0C01, 0x0C03), (0x0C3E, 0x0C44), (0x0C46, 0x0C48), (0x0C4A, 0x0C4D),
      (0x0C55, 0x0C56), (0x0C66, 0x0C6F), (0x0C82, 0x0C83), (0x0CBE, 0x0CC4), (0x0CC6, 0x0CC8),
      (0x0CCA, 0x0CCD), (0x0CD5, 0x0CD6), (0x0CE6, 0x0CEF), (0x0D02, 0x0D03), (0x0D3E, 0x0D43),
      (0x0D46, 0x0D48), (0x0D4A, 0x0D4D), (0x0D57, 0x0D57), (0x0D66, 0x0D6F), (0x0E31, 0x0E31),
      (0x0E34, 0x0E3A), (0x0E46, 0x0E46), (0x0E47, 0x0E4E), (0x0E50, 0x0E59), (0x0EB1, 0x0EB1),
      (0x0EB4, 0x0EB9), (0x0EBB, 0x0EBC), (0x0EC6, 0x0EC6), (0x0EC8, 0x0ECD), (0x0ED0, 0x0ED9),
      (0x0F18, 0x0F19), (0x0F20, 0x0F29), (0x0F35, 0x0F35), (0x0F37, 0x0F37), (0x0F39, 0x0F39),
      (0x0F3E, 0x0F3E), (0x0F3F, 0x0F3F), (0x0F71, 0x0F84), (0x0F86, 0x0F8B), (0x0F90, 0x0F95),
      (0x0F97, 0x0F97), (0x0F99, 0x0FAD), (0x0FB1, 0x0FB7), (0x0FB9, 0x0FB9), (0x20D0, 0x20DC),
      (0x20E1, 0x20E1), (0x3005, 0x3005), (0x302A, 0x302F), (0x3031, 0x3035), (0x3099, 0x3099),
      (0x309A, 0x309A), (0x309D, 0x309E), (0x30FC, 0x30FE)]"

text \<open>The search starts with the size of the table as the last index, which is one too many.\<close>

function table_loop :: "char_info_t list \<Rightarrow> int \<Rightarrow> int \<Rightarrow> int \<Rightarrow> bool option" where
  "table_loop tbl c t b =
     (if t \<le> b
      then
        let m = (t + b) div 2
        in if m < 0 \<or> nat m \<ge> length tbl then None
           else if c < fst (tbl ! nat m) then table_loop tbl c t (m - 1)
           else if c > snd (tbl ! nat m) then table_loop tbl c (m + 1) b
           else Some True
      else Some False)"
  by pat_completeness auto
termination by (relation "measure (\<lambda>(tbl, c, t, b). nat (b - t + 1))") auto

declare table_loop.simps [simp del]

definition Parser_isCharInTable :: "int \<Rightarrow> char_info_t list \<Rightarrow> bool option" where
  "Parser_isCharInTable c tbl = table_loop tbl c 0 (int (length tbl))"

definition Parser_isNameChar :: "int \<Rightarrow> bool \<Rightarrow> bool option" where
  "Parser_isNameChar c bNameChar =
     do {
       a \<leftarrow> Parser_isCharInTable c Letter;
       if a then Some True
       else if bNameChar then Parser_isCharInTable c NameChar
       else Some False
     }"

definition Parser_isXmlChar :: "int \<Rightarrow> bool" where
  "Parser_isXmlChar c \<longleftrightarrow>
     c = 0x9 \<or> c = 0xA \<or> c = 0xD \<or> (c \<ge> 0x20 \<and> c \<le> 0xD7FF) \<or> (c \<ge> 0xE000 \<and> c \<le> 0xFFFD) \<or>
     (c \<ge> 0x10000 \<and> c \<le> 0x10FFFF)"

text \<open>
  Bytes, not characters, are looked at here; a name whose first byte can not start one is accepted
  whatever follows.
\<close>

definition schar :: "char \<Rightarrow> int" where
  "schar c = (if code c < 128 then int (code c) else int (code c) - 256)"

fun all_name_chars :: "string \<Rightarrow> bool option" where
  "all_name_chars [] = Some True"
| "all_name_chars (c # cs) =
     do { b \<leftarrow> Parser_isNameChar (schar c) True; if b then all_name_chars cs else Some False }"

definition Parser_isValidXmlName :: "string \<Rightarrow> bool option" where
  "Parser_isValidXmlName name =
     do {
       b \<leftarrow> Parser_isNameChar (schar (if name = [] then NUL else hd name)) False;
       if b then all_name_chars (tl name) else Some True
     }"

subsection \<open>UTF-8\<close>

text \<open>A byte as \<open>unsigned char\<close>, and the cast to \<open>char\<close>.\<close>

definition byte :: "cptr \<Rightarrow> nat \<Rightarrow> int option" where
  "byte s i = (if i < length s then Some (int (code (s ! i))) else None)"

definition to_char :: "int \<Rightarrow> char" where
  "to_char c = char_of (nat (c mod 256))"

text \<open>Whether \<open>n\<close> bytes from the first on are continuation bytes; the first that is not ends the test.\<close>

fun continues :: "cptr \<Rightarrow> nat \<Rightarrow> nat \<Rightarrow> bool option" where
  "continues s i 0 = Some True"
| "continues s i (Suc n) =
     do { b \<leftarrow> byte s i; if b AND 0xC0 = 0x80 then continues s (Suc i) n else Some False }"

definition seq_of :: "cptr \<Rightarrow> int \<Rightarrow> int \<Rightarrow> int \<Rightarrow> nat \<Rightarrow> bool option" where
  "seq_of s c m v n = (if c AND m = v then continues s 1 n else Some False)"

text \<open>The six bits of a continuation byte.\<close>

definition six :: "cptr \<Rightarrow> nat \<Rightarrow> int" where
  "six s i = int (code (s ! i)) AND 0x3F"

definition Parser_UTF8ToInt :: "char \<Rightarrow> cptr \<Rightarrow> (int \<times> nat) option" where
  "Parser_UTF8ToInt err s =
     do {
       c \<leftarrow> byte s 0;
       two \<leftarrow> (if c \<le> 127 then Some False else seq_of s c 0xE0 0xC0 1);
       three \<leftarrow> (if c \<le> 127 \<or> two then Some False else seq_of s c 0xF0 0xE0 2);
       four \<leftarrow> (if c \<le> 127 \<or> two \<or> three then Some False else seq_of s c 0xF8 0xF0 3);
       five \<leftarrow> (if c \<le> 127 \<or> two \<or> three \<or> four then Some False else seq_of s c 0xFC 0xF8 4);
       longest \<leftarrow> (if c \<le> 127 \<or> two \<or> three \<or> four \<or> five then Some False else seq_of s c 0xFE 0xFC 5);
       Some
         (if c \<le> 127 then (c, 1)
          else if two then (push_bit 6 (c AND 0x1F) OR six s 1, 2)
          else if three then (push_bit 12 (c AND 0x0F) OR push_bit 6 (six s 1) OR six s 2, 3)
          else if four
          then (push_bit 18 (c AND 0x07) OR push_bit 12 (six s 1) OR push_bit 6 (six s 2) OR six s 3, 4)
          else if five
          then (push_bit 24 (c AND 0x03) OR push_bit 18 (six s 1) OR push_bit 12 (six s 2) OR
                push_bit 6 (six s 3) OR six s 4, 5)
          else if longest
          then (push_bit 30 (c AND 0x01) OR push_bit 24 (six s 1) OR push_bit 18 (six s 2) OR
                push_bit 12 (six s 3) OR push_bit 6 (six s 4) OR six s 5, 6)
          else if err \<noteq> NUL then (schar err, 1)
          else (-1, 0))
     }"

definition cont_byte :: "int \<Rightarrow> nat \<Rightarrow> char" where
  "cont_byte c k = to_char (0x80 OR (drop_bit k c AND 0x3F))"

text \<open>The bytes without the NUL behind them.\<close>

definition Parser_intToUTF8 :: "int \<Rightarrow> char list" where
  "Parser_intToUTF8 c =
     (if c < 0 then []
      else if c \<le> 127 then [to_char c]
      else if c \<le> 0x07FF then [to_char (0xC0 OR drop_bit 6 c), cont_byte c 0]
      else if c \<le> 0xFFFF then [to_char (0xE0 OR drop_bit 12 c), cont_byte c 6, cont_byte c 0]
      else if c \<le> 0x1FFFFF
      then [to_char (0xF0 OR drop_bit 18 c), cont_byte c 12, cont_byte c 6, cont_byte c 0]
      else if c \<le> 0x3FFFFFF
      then [to_char (0xF8 OR drop_bit 24 c), cont_byte c 18, cont_byte c 12, cont_byte c 6, cont_byte c 0]
      else if c \<le> 0x7FFFFFFF
      then [to_char (0xFC OR drop_bit 30 c), cont_byte c 24, cont_byte c 18, cont_byte c 12, cont_byte c 6,
            cont_byte c 0]
      else [])"

subsection \<open>Characters and references\<close>

text \<open>Whether \<open>strncmp\<close>, or \<open>strncasecmp\<close>, finds the key where the pointer is.\<close>

fun starts :: "cptr \<Rightarrow> string \<Rightarrow> bool option" where
  "starts p [] = Some True"
| "starts [] (k # ks) = None"
| "starts (c # p) (k # ks) = (if c = k then starts p ks else Some False)"

fun starts_ci :: "cptr \<Rightarrow> string \<Rightarrow> bool option" where
  "starts_ci p [] = Some True"
| "starts_ci [] (k # ks) = None"
| "starts_ci (c # p) (k # ks) = (if tolower c = tolower k then starts_ci p ks else Some False)"

definition QUOT :: string where "QUOT = ''&quot;''"
definition LT :: string where "LT = ''&lt;''"
definition GT :: string where "GT = ''&gt;''"
definition APOS :: string where "APOS = ''&apos;''"
definition AMP :: string where "AMP = ''&amp;''"
definition ESC_HEX :: string where "ESC_HEX = ''&#x''"
definition ESC_DEC :: string where "ESC_DEC = ''&#''"
definition DEC_NUMBERS :: string where "DEC_NUMBERS = ''0123456789''"
definition HEX_NUMBERS :: string where "HEX_NUMBERS = ''0123456789ABCDEFabcdef''"

lemmas entity_defs = QUOT_def LT_def GT_def APOS_def AMP_def ESC_HEX_def ESC_DEC_def

text \<open>
  \<open>strchr(NUMBERS, c) != 0\<close> also holds for the NUL, which ends the string searched in. The sum is an
  \<open>int\<close>, which wraps around.
\<close>

definition wrap_int :: "int \<Rightarrow> int" where
  "wrap_int n = sint (word_of_int n :: 32 word)"

definition hex_digit_val :: "char \<Rightarrow> int" where
  "hex_digit_val c =
     (if schar c \<le> schar CHR ''9'' then schar c - schar CHR ''0''
      else if schar c \<le> schar CHR ''F'' then schar c - schar CHR ''A'' + 10
      else schar c - schar CHR ''a'' + 10)"

fun hex_ref :: "cptr \<Rightarrow> int \<Rightarrow> (int \<times> cptr) option" where
  "hex_ref [] s = None"
| "hex_ref (c # p) s =
     (if c \<in> set HEX_NUMBERS \<or> c = NUL then hex_ref p (wrap_int (s * 16 + hex_digit_val c))
      else Some (s, c # p))"

fun dec_ref :: "cptr \<Rightarrow> int \<Rightarrow> (int \<times> cptr) option" where
  "dec_ref [] s = None"
| "dec_ref (c # p) s =
     (if c \<in> set DEC_NUMBERS \<or> c = NUL then dec_ref p (wrap_int (s * 10 + (schar c - schar CHR ''0'')))
      else Some (s, c # p))"

text \<open>The character \<open>src\<close> points to with the number of bytes it takes; a failure is \<open>-1\<close>.\<close>

definition fail_entity :: "char \<Rightarrow> int \<times> nat" where
  "fail_entity err = (if err \<noteq> NUL then (schar CHR ''&'', 1) else (-1, 0))"

definition number_ref :: "char \<Rightarrow> cptr \<Rightarrow> int \<times> cptr \<Rightarrow> int \<times> nat" where
  "number_ref err src r =
     (if hd (snd r) \<noteq> CHR '';'' \<or> \<not> Parser_isXmlChar (fst r) then fail_entity err
      else (fst r, length src - length (snd r) + 1))"

definition plain_getChar :: "char \<Rightarrow> cptr \<Rightarrow> (int \<times> nat) option" where
  "plain_getChar err src =
     (let c = schar (hd src)
      in if c > 0 \<and> Parser_isXmlChar c then Some (c, 1)
         else do {
           (i, len) \<leftarrow> Parser_UTF8ToInt err src;
           Some (if \<not> Parser_isXmlChar i then (if err \<noteq> NUL then schar err else -1, len) else (i, len))
         })"

definition Parser_getChar :: "char \<Rightarrow> cptr \<Rightarrow> (int \<times> nat) option" where
  "Parser_getChar err src =
     (if src = [] then None
      else if hd src \<noteq> CHR ''&'' then plain_getChar err src
      else do {
        q \<leftarrow> starts_ci src QUOT;
        l \<leftarrow> (if q then Some False else starts_ci src LT);
        g \<leftarrow> (if q \<or> l then Some False else starts_ci src GT);
        a \<leftarrow> (if q \<or> l \<or> g then Some False else starts_ci src APOS);
        m \<leftarrow> (if q \<or> l \<or> g \<or> a then Some False else starts_ci src AMP);
        x \<leftarrow> (if q \<or> l \<or> g \<or> a \<or> m then Some False else starts_ci src ESC_HEX);
        d \<leftarrow> (if q \<or> l \<or> g \<or> a \<or> m \<or> x then Some False else starts_ci src ESC_DEC);
        if q then Some (schar CHR 0x22, length QUOT)
        else if l then Some (schar CHR ''<'', length LT)
        else if g then Some (schar CHR ''>'', length GT)
        else if a then Some (schar CHR 0x27, length APOS)
        else if m then Some (schar CHR ''&'', length AMP)
        else if x then map_option (number_ref err src) (hex_ref (drop (length ESC_HEX) src) 0)
        else if d then map_option (number_ref err src) (dec_ref (drop (length ESC_DEC) src) 0)
        else Some (fail_entity err)
      })"

end
