(* ===== verification/XmlText.thy ===== *)
theory XmlText
  imports XmlChars
begin

text \<open>
  What the characters of the XML parser are: the search in the tables of names, encoding and decoding,
  and the references that escaped text is written with.
\<close>

subsection \<open>The tables\<close>

definition sorted_table :: "char_info_t list \<Rightarrow> bool" where
  "sorted_table tbl \<longleftrightarrow> sorted_wrt (\<lambda>x y. snd x < fst y) tbl \<and> (\<forall>x \<in> set tbl. fst x \<le> snd x)"

definition in_table :: "int \<Rightarrow> char_info_t list \<Rightarrow> bool" where
  "in_table c tbl \<longleftrightarrow> (\<exists>x \<in> set tbl. fst x \<le> c \<and> c \<le> snd x)"

lemma sorted_table_nth:
  assumes "sorted_table tbl" "i < j" "j < length tbl"
  shows "snd (tbl ! i) < fst (tbl ! j)"
  using sorted_wrt_nth_less[of "\<lambda>x y. snd x < fst y" tbl i j] assms by (simp add: sorted_table_def)

lemma sorted_table_le: "sorted_table tbl \<Longrightarrow> i < length tbl \<Longrightarrow> fst (tbl ! i) \<le> snd (tbl ! i)"
  by (simp add: sorted_table_def)

text \<open>What the loop knows: everything before \<open>t\<close> is below, everything behind \<open>b\<close> above.\<close>

definition bracket :: "char_info_t list \<Rightarrow> int \<Rightarrow> int \<Rightarrow> int \<Rightarrow> bool" where
  "bracket tbl c t b \<longleftrightarrow>
     sorted_table tbl \<and> 0 \<le> t \<and> t \<le> int (length tbl) \<and> b \<le> int (length tbl) \<and>
     (\<forall>i < length tbl. (int i < t \<longrightarrow> snd (tbl ! i) < c) \<and> (b < int i \<longrightarrow> c < fst (tbl ! i)))"

lemma bracket_empty:
  assumes "bracket tbl c t b" "\<not> t \<le> b"
  shows "\<not> in_table c tbl" "b = int (length tbl) \<longrightarrow> \<not> (\<forall>x \<in> set tbl. snd x < c)"
proof -
  have "\<not> (fst (tbl ! i) \<le> c \<and> c \<le> snd (tbl ! i))" if "i < length tbl" for i
  proof (cases "int i < t")
    case True
    then have "snd (tbl ! i) < c" using assms(1) that unfolding bracket_def by blast
    then show ?thesis by simp
  next
    case False
    then have "b < int i" using assms(2) by simp
    then have "c < fst (tbl ! i)" using assms(1) that unfolding bracket_def by blast
    then show ?thesis by simp
  qed
  then show "\<not> in_table c tbl" unfolding in_table_def by (metis in_set_conv_nth)
  show "b = int (length tbl) \<longrightarrow> \<not> (\<forall>x \<in> set tbl. snd x < c)" using assms by (auto simp: bracket_def)
qed

lemma bracket_left:
  assumes "bracket tbl c t b" "m \<le> b" "0 \<le> m" "m < int (length tbl)" "c < fst (tbl ! nat m)"
  shows "bracket tbl c t (m - 1)"
proof -
  have "c < fst (tbl ! i)" if "i < length tbl" "m - 1 < int i" for i
  proof (cases "i = nat m")
    case False
    then have "nat m < i" using that assms(3) by linarith
    moreover have "sorted_table tbl" "nat m < length tbl" using assms by (auto simp: bracket_def)
    ultimately have "snd (tbl ! nat m) < fst (tbl ! i)" "fst (tbl ! nat m) \<le> snd (tbl ! nat m)"
      using sorted_table_nth sorted_table_le that by blast+
    then show ?thesis using assms(5) by linarith
  qed (use assms in simp)
  then show ?thesis using assms by (auto simp: bracket_def)
qed

lemma bracket_right:
  assumes "bracket tbl c t b" "t \<le> m" "m < int (length tbl)" "snd (tbl ! nat m) < c"
  shows "bracket tbl c (m + 1) b"
proof -
  have m: "0 \<le> m" using assms by (simp add: bracket_def)
  have "snd (tbl ! i) < c" if "i < length tbl" "int i < m + 1" for i
  proof (cases "i = nat m")
    case False
    then have "i < nat m" using that m by linarith
    moreover have "sorted_table tbl" "nat m < length tbl" using assms m by (auto simp: bracket_def)
    ultimately have "snd (tbl ! i) < fst (tbl ! nat m)" "fst (tbl ! nat m) \<le> snd (tbl ! nat m)"
      using sorted_table_nth sorted_table_le by blast+
    then show ?thesis using assms(4) by linarith
  qed (use assms in simp)
  then show ?thesis using assms m by (auto simp: bracket_def)
qed

lemma table_loop_result:
  "bracket tbl c t b \<Longrightarrow>
    table_loop tbl c t b =
      (if b = int (length tbl) \<and> (\<forall>x \<in> set tbl. snd x < c) then None else Some (in_table c tbl))"
proof (induction tbl c t b rule: table_loop.induct)
  case (1 tbl c t b)
  note u = table_loop.simps[of tbl c t b]
  have tbl: "sorted_table tbl" using "1.prems" by (simp add: bracket_def)
  show ?case
  proof (cases "t \<le> b")
    case False
    then show ?thesis using bracket_empty[OF "1.prems" False] u by auto
  next
    case True
    define m where "m = (t + b) div 2"
    have m: "t \<le> m" "m \<le> b" "0 \<le> m" using True "1.prems" by (auto simp: m_def bracket_def)
    note IH = "1.IH"[OF True m_def]
    show ?thesis
    proof (cases "m < int (length tbl)")
      case False
      then have e: "m = b" "t = b" "b = int (length tbl)"
        using m True "1.prems" by (auto simp: m_def bracket_def)
      then have "\<forall>i < length tbl. snd (tbl ! i) < c" using "1.prems" by (simp add: bracket_def)
      then have "\<forall>x \<in> set tbl. snd x < c" by (metis in_set_conv_nth)
      then show ?thesis using u True e m_def[symmetric] by (simp add: Let_def)
    next
      case False': True
      then have i: "\<not> (m < 0 \<or> nat m \<ge> length tbl)" using m by linarith
      have mem: "tbl ! nat m \<in> set tbl" using i by simp
      consider (l) "c < fst (tbl ! nat m)" | (r) "snd (tbl ! nat m) < c"
        | (f) "fst (tbl ! nat m) \<le> c" "c \<le> snd (tbl ! nat m)" by linarith
      then show ?thesis
      proof cases
        case l
        then have "\<not> (\<forall>x \<in> set tbl. snd x < c)"
          using mem sorted_table_le[OF tbl, of "nat m"] i by (meson dual_order.strict_trans1 not_less order_less_asym)
        moreover have "m - 1 \<noteq> int (length tbl)" using False' by simp
        ultimately show ?thesis
          using u True i l IH(1)[OF i l bracket_left[OF "1.prems" m(2,3) False' l]] m_def[symmetric]
          by (simp add: Let_def)
      next
        case r
        then have "\<not> c < fst (tbl ! nat m)" using sorted_table_le[OF tbl, of "nat m"] i by simp
        then show ?thesis
          using u True i r IH(2)[OF i _ r bracket_right[OF "1.prems" m(1) False' r]] m_def[symmetric]
          by (simp add: Let_def)
      next
        case f
        then have "\<not> (\<forall>x \<in> set tbl. snd x < c)" "in_table c tbl"
          using mem unfolding in_table_def by (meson not_less)+
        then show ?thesis using u True i f m_def[symmetric] by (simp add: Let_def)
      qed
    qed
  qed
qed

fun ascending :: "int \<Rightarrow> char_info_t list \<Rightarrow> bool" where
  "ascending k [] = True"
| "ascending k (x # xs) = (k < fst x \<and> fst x \<le> snd x \<and> ascending (snd x) xs)"

lemma ascending_sorted: "ascending k xs \<Longrightarrow> (\<forall>x \<in> set xs. k < fst x) \<and> sorted_table xs"
  by (induction k xs rule: ascending.induct) (auto simp: sorted_table_def)

lemma tables_sorted: "sorted_table Letter" "sorted_table NameChar"
proof -
  have "ascending 0 Letter" "ascending 0 NameChar" by code_simp+
  then show "sorted_table Letter" "sorted_table NameChar" using ascending_sorted by blast+
qed

text \<open>
  The search in a table of characters finds exactly what is in one of its ranges, except that
  for a character above all of them it reads behind the end of the table.
\<close>

theorem isCharInTable_search:
  assumes "sorted_table tbl"
  shows "Parser_isCharInTable c tbl =
    (if \<forall>x \<in> set tbl. snd x < c then None else Some (\<exists>x \<in> set tbl. fst x \<le> c \<and> c \<le> snd x))"
proof -
  have "bracket tbl c 0 (int (length tbl))" using assms by (simp add: bracket_def)
  from table_loop_result[OF this] show ?thesis by (simp add: Parser_isCharInTable_def in_table_def)
qed

theorem isCharInTable_search_witness:
  "Parser_isCharInTable 0x41 Letter =
    (if \<forall>x \<in> set Letter. snd x < 0x41 then None else Some (\<exists>x \<in> set Letter. fst x \<le> 0x41 \<and> 0x41 \<le> snd x))"
  by (rule isCharInTable_search) (rule tables_sorted)

subsection \<open>UTF-8\<close>

lemma byte_ands: "\<forall>c \<in> set [0..255::int].
   c AND 0xE0 = c div 32 * 32 \<and> c AND 0xF0 = c div 16 * 16 \<and> c AND 0xF8 = c div 8 * 8 \<and> c AND 0xFC = c div 4 * 4 \<and>
   c AND 0xFE = c div 2 * 2 \<and> c AND 0xC0 = c div 64 * 64"
  by code_simp

lemma byte_and:
  assumes "0 \<le> c" "c < (256 :: int)"
  shows "c AND 0xE0 = c div 32 * 32" "c AND 0xF0 = c div 16 * 16" "c AND 0xF8 = c div 8 * 8" "c AND 0xFC = c div 4 * 4"
    "c AND 0xFE = c div 2 * 2" "c AND 0xC0 = c div 64 * 64"
proof -
  have "c \<in> set [0..255]" using assms by simp
  with byte_ands show "c AND 0xE0 = c div 32 * 32" "c AND 0xF0 = c div 16 * 16" "c AND 0xF8 = c div 8 * 8"
    "c AND 0xFC = c div 4 * 4" "c AND 0xFE = c div 2 * 2" "c AND 0xC0 = c div 64 * 64" by blast+
qed

lemma mod_ands:
  "(c::int) AND 0x1F = c mod 32" "c AND 0x0F = c mod 16" "c AND 0x07 = c mod 8" "c AND 0x03 = c mod 4"
  "c AND 0x01 = c mod 2" "c AND 0x3F = c mod 64"
  using take_bit_eq_mask[of 5 c] take_bit_eq_mask[of 4 c] take_bit_eq_mask[of 3 c] take_bit_eq_mask[of 2 c]
    take_bit_eq_mask[of 1 c] take_bit_eq_mask[of 6 c]
  by (simp_all add: mask_eq_exp_minus_1 take_bit_eq_mod)

lemma or_low: "0 \<le> x \<Longrightarrow> x < 2 ^ n \<Longrightarrow> push_bit n (y :: int) OR x = y * 2 ^ n + x"
proof -
  assume x: "0 \<le> x" "x < 2 ^ n"
  then have t: "take_bit n x = x" by (simp add: take_bit_int_eq_self)
  have "push_bit n y AND take_bit n x = 0" by (rule bit_eqI) (auto simp: bit_simps)
  then show ?thesis unfolding t by (simp add: push_bit_eq_mult flip: disjunctive_add_eq_or)
qed

text \<open>The bytes as numbers.\<close>

lemma code_to_char: "0 \<le> c \<Longrightarrow> c < 256 \<Longrightarrow> int (code (to_char c)) = c"
  by (simp add: to_char_def code_def)

lemma or_lead:
  "0 \<le> x \<Longrightarrow> x < 32 \<Longrightarrow> (0xC0::int) OR x = 192 + x" "0 \<le> x \<Longrightarrow> x < 16 \<Longrightarrow> (0xE0::int) OR x = 224 + x"
  "0 \<le> x \<Longrightarrow> x < 8 \<Longrightarrow> (0xF0::int) OR x = 240 + x" "0 \<le> x \<Longrightarrow> x < 4 \<Longrightarrow> (0xF8::int) OR x = 248 + x"
  "0 \<le> x \<Longrightarrow> x < 2 \<Longrightarrow> (0xFC::int) OR x = 252 + x" "0 \<le> x \<Longrightarrow> x < 64 \<Longrightarrow> (0x80::int) OR x = 128 + x"
  using or_low[of x 5 6] or_low[of x 4 14] or_low[of x 3 30] or_low[of x 2 62] or_low[of x 1 126] or_low[of x 6 2]
  by (simp_all add: push_bit_eq_mult)

lemma cont_byte_code: "0 \<le> c \<Longrightarrow> int (code (cont_byte c k)) = 128 + c div 2 ^ k mod 64"
  using or_lead(6)[of "c div 2 ^ k mod 64"]
  by (simp add: cont_byte_def mod_ands drop_bit_eq_div code_to_char)

lemma lead_code:
  "0 \<le> x \<Longrightarrow> x < 32 \<Longrightarrow> int (code (to_char (0xC0 OR x))) = 192 + x"
  "0 \<le> x \<Longrightarrow> x < 16 \<Longrightarrow> int (code (to_char (0xE0 OR x))) = 224 + x"
  "0 \<le> x \<Longrightarrow> x < 8 \<Longrightarrow> int (code (to_char (0xF0 OR x))) = 240 + x"
  "0 \<le> x \<Longrightarrow> x < 4 \<Longrightarrow> int (code (to_char (0xF8 OR x))) = 248 + x"
  "0 \<le> x \<Longrightarrow> x < 2 \<Longrightarrow> int (code (to_char (0xFC OR x))) = 252 + x"
  by (simp_all add: or_lead code_to_char)

text \<open>The test of continuation bytes, and what the bits of the bytes are put together to.\<close>

definition is_cont :: "char \<Rightarrow> bool" where "is_cont b \<longleftrightarrow> code b div 64 = 2"

lemma is_cont_byte: "0 \<le> c \<Longrightarrow> is_cont (cont_byte c k)"
proof -
  assume "0 \<le> c"
  then have "int (code (cont_byte c k)) = 128 + c div 2 ^ k mod 64" by (rule cont_byte_code)
  then have "int (code (cont_byte c k)) div 64 = 2" by simp
  then show ?thesis unfolding is_cont_def by linarith
qed

text \<open>Decoding a sequence of each length, \<open>x\<close> the bits of its first byte.\<close>

abbreviation bits6 :: "char \<Rightarrow> int" where "bits6 b \<equiv> int (code b) mod 64"

lemma cont_seq: "is_cont (s ! i) \<Longrightarrow> i < length s \<Longrightarrow> continues s i (Suc n) = continues s (Suc i) n"
proof -
  assume b: "is_cont (s ! i)" "i < length s"
  have "int (code (s ! i)) AND 0xC0 = int (code (s ! i)) div 64 * 64"
    by (rule byte_and) (simp_all add: less_imp_of_nat_less code_less)
  moreover have "int (code (s ! i)) div 64 = 2" using b(1) unfolding is_cont_def by linarith
  ultimately show ?thesis using b by (simp add: byte_def)
qed

lemma bits6_cont [simp]: "(128 + (y::int) mod 64) mod 64 = y mod 64"
  using mod_mult_self2[of "y mod 64" 64 2] by (simp add: add.commute)

lemma decode2:
  assumes "int (code b0) = 192 + x" "0 \<le> x" "x < 32" "is_cont b1"
  shows "Parser_UTF8ToInt err (b0 # b1 # r) = Some (x * 2 ^ 6 + bits6 b1, 2)"
proof -
  have lead: "192 + x AND 0xE0 = 0xc0" "192 + x AND 31 = x"
    using assms(2,3) by (simp_all add: byte_and mod_ands) presburger
  have c: "continues (b0 # b1 # r) 1 1 = Some True"
    using assms by (simp add: numeral_eq_Suc cont_seq del: continues.simps(2))
  have lm: "(192 + x) mod 32 = x" using assms(2,3) by presburger
  show ?thesis
    using assms(2,3) c unfolding Parser_UTF8ToInt_def seq_of_def byte_def six_def
    by (simp add: assms(1) lead lm mod_ands or_low add.assoc del: continues.simps)
qed

lemma decode3:
  assumes "int (code b0) = 224 + x" "0 \<le> x" "x < 16" "is_cont b1" "is_cont b2"
  shows "Parser_UTF8ToInt err (b0 # b1 # b2 # r) = Some (x * 2 ^ 12 + bits6 b1 * 2 ^ 6 + bits6 b2, 3)"
proof -
  have lead: "224 + x AND 0xE0 \<noteq> 0xc0" "224 + x AND 0xF0 = 0xe0" "224 + x AND 15 = x"
    using assms(2,3) by (simp_all add: byte_and mod_ands) presburger
  have c: "continues (b0 # b1 # b2 # r) 1 2 = Some True"
    using assms by (simp add: numeral_eq_Suc cont_seq del: continues.simps(2))
  have lm: "(224 + x) mod 16 = x" using assms(2,3) by presburger
  show ?thesis
    using assms(2,3) c unfolding Parser_UTF8ToInt_def seq_of_def byte_def six_def
    by (simp add: assms(1) lead lm mod_ands or_low add.assoc del: continues.simps)
qed

lemma decode4:
  assumes "int (code b0) = 240 + x" "0 \<le> x" "x < 8" "is_cont b1" "is_cont b2" "is_cont b3"
  shows "Parser_UTF8ToInt err (b0 # b1 # b2 # b3 # r) = Some (x * 2 ^ 18 + bits6 b1 * 2 ^ 12 + bits6 b2 * 2 ^ 6 + bits6 b3, 4)"
proof -
  have lead: "240 + x AND 0xE0 \<noteq> 0xc0" "240 + x AND 0xF0 \<noteq> 0xe0" "240 + x AND 0xF8 = 0xf0" "240 + x AND 7 = x"
    using assms(2,3) by (simp_all add: byte_and mod_ands) presburger
  have c: "continues (b0 # b1 # b2 # b3 # r) 1 3 = Some True"
    using assms by (simp add: numeral_eq_Suc cont_seq del: continues.simps(2))
  have lm: "(240 + x) mod 8 = x" using assms(2,3) by presburger
  show ?thesis
    using assms(2,3) c unfolding Parser_UTF8ToInt_def seq_of_def byte_def six_def
    by (simp add: assms(1) lead lm mod_ands or_low add.assoc del: continues.simps)
qed

lemma decode5:
  assumes "int (code b0) = 248 + x" "0 \<le> x" "x < 4" "is_cont b1" "is_cont b2" "is_cont b3" "is_cont b4"
  shows "Parser_UTF8ToInt err (b0 # b1 # b2 # b3 # b4 # r) = Some (x * 2 ^ 24 + bits6 b1 * 2 ^ 18 + bits6 b2 * 2 ^ 12 + bits6 b3 * 2 ^ 6 + bits6 b4, 5)"
proof -
  have lead: "248 + x AND 0xE0 \<noteq> 0xc0" "248 + x AND 0xF0 \<noteq> 0xe0" "248 + x AND 0xF8 \<noteq> 0xf0" "248 + x AND 0xFC = 0xf8" "248 + x AND 3 = x"
    using assms(2,3) by (simp_all add: byte_and mod_ands) presburger
  have c: "continues (b0 # b1 # b2 # b3 # b4 # r) 1 4 = Some True"
    using assms by (simp add: numeral_eq_Suc cont_seq del: continues.simps(2))
  have lm: "(248 + x) mod 4 = x" using assms(2,3) by presburger
  show ?thesis
    using assms(2,3) c unfolding Parser_UTF8ToInt_def seq_of_def byte_def six_def
    by (simp add: assms(1) lead lm mod_ands or_low add.assoc del: continues.simps)
qed

lemma decode6:
  assumes "int (code b0) = 252 + x" "0 \<le> x" "x < 2" "is_cont b1" "is_cont b2" "is_cont b3" "is_cont b4" "is_cont b5"
  shows "Parser_UTF8ToInt err (b0 # b1 # b2 # b3 # b4 # b5 # r) = Some (x * 2 ^ 30 + bits6 b1 * 2 ^ 24 + bits6 b2 * 2 ^ 18 + bits6 b3 * 2 ^ 12 + bits6 b4 * 2 ^ 6 + bits6 b5, 6)"
proof -
  have lead: "252 + x AND 0xE0 \<noteq> 0xc0" "252 + x AND 0xF0 \<noteq> 0xe0" "252 + x AND 0xF8 \<noteq> 0xf0" "252 + x AND 0xFC \<noteq> 0xf8" "252 + x AND 0xFE = 0xfc" "252 + x AND 1 = x"
    using assms(2,3) by (simp_all add: byte_and mod_ands) presburger
  have c: "continues (b0 # b1 # b2 # b3 # b4 # b5 # r) 1 5 = Some True"
    using assms by (simp add: numeral_eq_Suc cont_seq del: continues.simps(2))
  have lm: "(252 + x) mod 2 = x" using assms(2,3) by presburger
  show ?thesis
    using assms(2,3) c unfolding Parser_UTF8ToInt_def seq_of_def byte_def six_def
    by (simp add: assms(1) lead lm mod_ands or_low add.assoc del: continues.simps)
qed

lemma split6:
  fixes c :: int
  shows "c = c div 2 ^ 6 * 64 + c div 2 ^ 0 mod 64" "c div 2 ^ 6 = c div 2 ^ 12 * 64 + c div 2 ^ 6 mod 64"
    "c div 2 ^ 12 = c div 2 ^ 18 * 64 + c div 2 ^ 12 mod 64" "c div 2 ^ 18 = c div 2 ^ 24 * 64 + c div 2 ^ 18 mod 64"
    "c div 2 ^ 24 = c div 2 ^ 30 * 64 + c div 2 ^ 24 mod 64"
proof -
  have s: "c div k = c div (k * 64) * 64 + c div k mod 64" if "k > 0" for k
    using zdiv_zmult2_eq[of 64 c k] div_mult_mod_eq[of "c div k" 64] by simp
  show "c = c div 2 ^ 6 * 64 + c div 2 ^ 0 mod 64" "c div 2 ^ 6 = c div 2 ^ 12 * 64 + c div 2 ^ 6 mod 64"
    "c div 2 ^ 12 = c div 2 ^ 18 * 64 + c div 2 ^ 12 mod 64" "c div 2 ^ 18 = c div 2 ^ 24 * 64 + c div 2 ^ 18 mod 64"
    "c div 2 ^ 24 = c div 2 ^ 30 * 64 + c div 2 ^ 24 mod 64"
    using s[of 1] s[of "2 ^ 6"] s[of "2 ^ 12"] s[of "2 ^ 18"] s[of "2 ^ 24"] by simp_all
qed

lemma horner:
  fixes c :: int
  assumes "c = a1 * 64 + m0" "a1 = a2 * 64 + m1" "a2 = a3 * 64 + m2" "a3 = a4 * 64 + m3" "a4 = a5 * 64 + m4"
  shows "a1 * 2 ^ 6 + m0 = c" "a2 * 2 ^ 12 + m1 * 2 ^ 6 + m0 = c" "a3 * 2 ^ 18 + m2 * 2 ^ 12 + m1 * 2 ^ 6 + m0 = c"
    "a4 * 2 ^ 24 + m3 * 2 ^ 18 + m2 * 2 ^ 12 + m1 * 2 ^ 6 + m0 = c"
    "a5 * 2 ^ 30 + m4 * 2 ^ 24 + m3 * 2 ^ 18 + m2 * 2 ^ 12 + m1 * 2 ^ 6 + m0 = c"
  unfolding assms by simp_all

lemma decoded:
  assumes "0 \<le> c" and "c \<le> 0x7FFFFFFF"
  shows "Parser_UTF8ToInt err (Parser_intToUTF8 c @ r) = Some (c, length (Parser_intToUTF8 c))"
proof -
  note s = is_cont_byte[OF assms(1)]
  note d = cont_byte_code[OF assms(1)]
  consider "c \<le> 127" | "127 < c" "c \<le> 0x07FF" | "0x07FF < c" "c \<le> 0xFFFF" | "0xFFFF < c" "c \<le> 0x1FFFFF"
    | "0x1FFFFF < c" "c \<le> 0x3FFFFFF" | "0x3FFFFFF < c" using assms(2) by linarith
  then show ?thesis
  proof cases
    case 1
    then show ?thesis using assms code_to_char[of c]
      by (simp add: Parser_intToUTF8_def Parser_UTF8ToInt_def byte_def)
  next
    case 2
    have l: "int (code (to_char (0xC0 OR drop_bit 6 c))) = 192 + c div 2 ^ 6" "0 \<le> c div 2 ^ 6" "c div 2 ^ 6 < 32"
      using 2 assms by (simp_all add: lead_code drop_bit_eq_div)
    have v: "c div 2 ^ 6 * 2 ^ 6 + c div 2 ^ 0 mod 64 = c"
      by (rule horner(1)[OF split6])
    have e: "Parser_intToUTF8 c = [to_char (0xC0 OR drop_bit 6 c), cont_byte c 0]"
      using 2 by (simp add: Parser_intToUTF8_def)
    show ?thesis
      using decode2[OF l s[of 0], where err = err and r = r]
      unfolding e d bits6_cont v by simp
  next
    case 3
    have l: "int (code (to_char (0xE0 OR drop_bit 12 c))) = 224 + c div 2 ^ 12" "0 \<le> c div 2 ^ 12" "c div 2 ^ 12 < 16"
      using 3 assms by (simp_all add: lead_code drop_bit_eq_div)
    have v: "c div 2 ^ 12 * 2 ^ 12 + c div 2 ^ 6 mod 64 * 2 ^ 6 + c div 2 ^ 0 mod 64 = c"
      by (rule horner(2)[OF split6])
    have e: "Parser_intToUTF8 c = [to_char (0xE0 OR drop_bit 12 c), cont_byte c 6, cont_byte c 0]"
      using 3 by (simp add: Parser_intToUTF8_def)
    show ?thesis
      using decode3[OF l s[of 6] s[of 0], where err = err and r = r]
      unfolding e d bits6_cont v by simp
  next
    case 4
    have l: "int (code (to_char (0xF0 OR drop_bit 18 c))) = 240 + c div 2 ^ 18" "0 \<le> c div 2 ^ 18" "c div 2 ^ 18 < 8"
      using 4 assms by (simp_all add: lead_code drop_bit_eq_div)
    have v: "c div 2 ^ 18 * 2 ^ 18 + c div 2 ^ 12 mod 64 * 2 ^ 12 + c div 2 ^ 6 mod 64 * 2 ^ 6 + c div 2 ^ 0 mod 64 = c"
      by (rule horner(3)[OF split6])
    have e: "Parser_intToUTF8 c = [to_char (0xF0 OR drop_bit 18 c), cont_byte c 12, cont_byte c 6, cont_byte c 0]"
      using 4 by (simp add: Parser_intToUTF8_def)
    show ?thesis
      using decode4[OF l s[of 12] s[of 6] s[of 0], where err = err and r = r]
      unfolding e d bits6_cont v by simp
  next
    case 5
    have l: "int (code (to_char (0xF8 OR drop_bit 24 c))) = 248 + c div 2 ^ 24" "0 \<le> c div 2 ^ 24" "c div 2 ^ 24 < 4"
      using 5 assms by (simp_all add: lead_code drop_bit_eq_div)
    have v: "c div 2 ^ 24 * 2 ^ 24 + c div 2 ^ 18 mod 64 * 2 ^ 18 + c div 2 ^ 12 mod 64 * 2 ^ 12 + c div 2 ^ 6 mod 64 * 2 ^ 6 + c div 2 ^ 0 mod 64 = c"
      by (rule horner(4)[OF split6])
    have e: "Parser_intToUTF8 c = [to_char (0xF8 OR drop_bit 24 c), cont_byte c 18, cont_byte c 12, cont_byte c 6, cont_byte c 0]"
      using 5 by (simp add: Parser_intToUTF8_def)
    show ?thesis
      using decode5[OF l s[of 18] s[of 12] s[of 6] s[of 0], where err = err and r = r]
      unfolding e d bits6_cont v by simp
  next
    case 6
    have l: "int (code (to_char (0xFC OR drop_bit 30 c))) = 252 + c div 2 ^ 30" "0 \<le> c div 2 ^ 30" "c div 2 ^ 30 < 2"
      using 6 assms by (simp_all add: lead_code drop_bit_eq_div)
    have v: "c div 2 ^ 30 * 2 ^ 30 + c div 2 ^ 24 mod 64 * 2 ^ 24 + c div 2 ^ 18 mod 64 * 2 ^ 18 + c div 2 ^ 12 mod 64 * 2 ^ 12 + c div 2 ^ 6 mod 64 * 2 ^ 6 + c div 2 ^ 0 mod 64 = c"
      by (rule horner(5)[OF split6])
    have e: "Parser_intToUTF8 c = [to_char (0xFC OR drop_bit 30 c), cont_byte c 24, cont_byte c 18, cont_byte c 12, cont_byte c 6, cont_byte c 0]"
      using 6 assms(2) by (simp add: Parser_intToUTF8_def)
    show ?thesis
      using decode6[OF l s[of 24] s[of 18] s[of 12] s[of 6] s[of 0], where err = err and r = r]
      unfolding e d bits6_cont v by simp
  qed
qed

text \<open>
  A character that is encoded is decoded to itself, with the number of its bytes, whatever
  follows it.
\<close>

theorem utf8_roundtrip:
  assumes "0 \<le> c" and "c \<le> 0x7FFFFFFF"
  shows "Parser_UTF8ToInt err (Parser_intToUTF8 c @ r) = Some (c, length (Parser_intToUTF8 c))"
  by (rule decoded[OF assms])

theorem utf8_roundtrip_witness:
  "Parser_UTF8ToInt NUL (Parser_intToUTF8 8364 @ ''x'') = Some (8364, length (Parser_intToUTF8 8364)) \<and>
   Parser_intToUTF8 8364 = [CHR 0xE2, CHR 0x82, CHR 0xAC]"
proof (rule conjI)
  show "Parser_UTF8ToInt NUL (Parser_intToUTF8 8364 @ ''x'') = Some (8364, length (Parser_intToUTF8 8364))"
    by (rule utf8_roundtrip[where c = 8364 and err = NUL and r = "''x''"]) simp_all
  show "Parser_intToUTF8 8364 = [CHR 0xE2, CHR 0x82, CHR 0xAC]"
    by code_simp
qed

end
