(* ===== verification/DomElement.thy ===== *)
theory DomElement
  imports Dom XmlChars
begin

text \<open>
  Making nodes (\<open>document.c\<close>, \<open>attr.c\<close>), their setters and copies (\<open>node.c\<close>), the attributes of elements
  (\<open>element.c\<close>) and named node maps (\<open>namedNodeMap.c\<close>) of \<open>ixml\<close>. Nodes are allocated from the heap,
  which may refuse; strings are values and copying them does not fail. An assertion is off.
\<close>

definition IXML_INVALID_CHARACTER_ERR :: int where "IXML_INVALID_CHARACTER_ERR = 5"
definition IXML_NOT_SUPPORTED_ERR :: int where "IXML_NOT_SUPPORTED_ERR = 9"
definition IXML_INUSE_ATTRIBUTE_ERR :: int where "IXML_INUSE_ATTRIBUTE_ERR = 10"
definition IXML_SYNTAX_ERR :: int where "IXML_SYNTAX_ERR = 12"
definition IXML_NAMESPACE_ERR :: int where "IXML_NAMESPACE_ERR = 14"

lemmas ixml_element_codes = ixml_codes IXML_INVALID_CHARACTER_ERR_def IXML_NOT_SUPPORTED_ERR_def
  IXML_INUSE_ATTRIBUTE_ERR_def IXML_SYNTAX_ERR_def IXML_NAMESPACE_ERR_def

definition DOCUMENTNODENAME :: string where "DOCUMENTNODENAME = ''#document''"
definition TEXTNODENAME :: string where "TEXTNODENAME = ''#text''"
definition CDATANODENAME :: string where "CDATANODENAME = ''#cdata-section''"

subsection \<open>Setters\<close>

definition ixmlNode_setNamespaceURI :: "IXML_Node \<Rightarrow> DOMString \<Rightarrow> IXML_Node" where
  "ixmlNode_setNamespaceURI n uri = n\<lparr>namespaceURI := uri\<rparr>"

definition ixmlNode_setPrefix :: "IXML_Node \<Rightarrow> DOMString \<Rightarrow> IXML_Node" where
  "ixmlNode_setPrefix n p = n\<lparr>prefix := p\<rparr>"

definition ixmlNode_setLocalName :: "IXML_Node \<Rightarrow> DOMString \<Rightarrow> IXML_Node" where
  "ixmlNode_setLocalName n l = n\<lparr>localName := l\<rparr>"

definition ixmlNode_setNodeValue :: "IXML_Node \<Rightarrow> DOMString \<Rightarrow> IXML_Node" where
  "ixmlNode_setNodeValue n v = n\<lparr>nodeValue := v\<rparr>"

text \<open>The name is split at its first colon; it must not be NULL.\<close>

definition Parser_setNodePrefixAndLocalName :: "IXML_Node \<Rightarrow> IXML_Node option" where
  "Parser_setNodePrefixAndLocalName n =
     do {
       nm \<leftarrow> nodeName n;
       Some
         (if CHR '':'' \<notin> set nm then n\<lparr>prefix := None, localName := Some nm\<rparr>
          else n\<lparr>prefix := Some (takeWhile (\<lambda>c. c \<noteq> CHR '':'') nm),
                 localName := Some (tl (dropWhile (\<lambda>c. c \<noteq> CHR '':'') nm))\<rparr>)
     }"

definition ixmlNode_setNodeName :: "IXML_Node \<Rightarrow> DOMString \<Rightarrow> IXML_Node option" where
  "ixmlNode_setNodeName n q =
     (case q of
        None \<Rightarrow> Some (n\<lparr>nodeName := None\<rparr>)
      | Some _ \<Rightarrow> Parser_setNodePrefixAndLocalName (n\<lparr>nodeName := q\<rparr>))"

definition ixmlNode_setNodeProperties :: "IXML_Node \<Rightarrow> IXML_Node \<Rightarrow> IXML_Node" where
  "ixmlNode_setNodeProperties dest src =
     (ixmlNode_setPrefix (ixmlNode_setLocalName (ixmlNode_setNodeValue dest (nodeValue src)) (localName src))
       (prefix src))\<lparr>nodeType := nodeType src\<rparr>"

definition ixmlElement_setTagName :: "IXML_Node \<Rightarrow> DOMString \<Rightarrow> int \<times> IXML_Node" where
  "ixmlElement_setTagName n t =
     (case t of None \<Rightarrow> (IXML_FAILED, n) | Some _ \<Rightarrow> (IXML_SUCCESS, n\<lparr>tagName := t\<rparr>))"

subsection \<open>Making nodes\<close>

type_synonym mem = "heap \<times> store"

definition new_node :: "IXML_Node \<Rightarrow> mem \<Rightarrow> ptr \<times> mem" where
  "new_node n m =
     (case malloc (fst m) of
        (None, h1) \<Rightarrow> (None, h1, snd m)
      | (Some a, h1) \<Rightarrow> (Some a, h1, (snd m)(a \<mapsto> n)))"

definition made :: "ptr \<times> mem \<Rightarrow> int \<times> ptr \<times> mem" where
  "made r = (if fst r = None then IXML_INSUFFICIENT_MEMORY else IXML_SUCCESS, r)"

definition ixmlDocument_createElementEx :: "ptr \<Rightarrow> DOMString \<Rightarrow> mem \<Rightarrow> int \<times> ptr \<times> mem" where
  "ixmlDocument_createElementEx doc tag m =
     (if doc = None \<or> tag = None then (IXML_INVALID_PARAMETER, None, m)
      else made (new_node
        (ixmlNode_init\<lparr>tagName := tag, nodeType := eELEMENT_NODE, nodeName := tag, ownerDocument := doc\<rparr>) m))"

definition ixmlDocument_createDocumentEx :: "mem \<Rightarrow> int \<times> ptr \<times> mem" where
  "ixmlDocument_createDocumentEx m =
     (case malloc (fst m) of
        (None, h1) \<Rightarrow> (IXML_INSUFFICIENT_MEMORY, None, h1, snd m)
      | (Some a, h1) \<Rightarrow>
          (IXML_SUCCESS, Some a, h1,
           (snd m)(a \<mapsto> ixmlNode_init\<lparr>nodeName := Some DOCUMENTNODENAME, nodeType := eDOCUMENT_NODE,
                                      ownerDocument := Some a\<rparr>)))"

definition ixmlDocument_createTextNodeEx :: "ptr \<Rightarrow> DOMString \<Rightarrow> mem \<Rightarrow> int \<times> ptr \<times> mem" where
  "ixmlDocument_createTextNodeEx doc data m =
     (if doc = None \<or> data = None then (IXML_INVALID_PARAMETER, None, m)
      else made (new_node
        (ixmlNode_init\<lparr>nodeName := Some TEXTNODENAME, nodeValue := data, nodeType := eTEXT_NODE,
                       ownerDocument := doc\<rparr>) m))"

definition ixmlDocument_createCDATASectionEx :: "ptr \<Rightarrow> DOMString \<Rightarrow> mem \<Rightarrow> int \<times> ptr \<times> mem" where
  "ixmlDocument_createCDATASectionEx doc data m =
     (if doc = None \<or> data = None then (IXML_INVALID_PARAMETER, None, m)
      else made (new_node
        (ixmlNode_init\<lparr>nodeType := eCDATA_SECTION_NODE, nodeName := Some CDATANODENAME, nodeValue := data,
                       ownerDocument := doc\<rparr>) m))"

text \<open>With a parameter missing, the node that is freed has not been initialised.\<close>

definition ixmlDocument_createAttributeEx :: "ptr \<Rightarrow> DOMString \<Rightarrow> mem \<Rightarrow> (int \<times> ptr \<times> mem) option" where
  "ixmlDocument_createAttributeEx doc name m =
     (let r = new_node (ixmlNode_init\<lparr>nodeType := eATTRIBUTE_NODE, nodeName := name, ownerDocument := doc\<rparr>) m
      in if fst r \<noteq> None \<and> (doc = None \<or> name = None) then None else Some (made r))"

definition ixmlDocument_createAttributeNSEx ::
  "ptr \<Rightarrow> DOMString \<Rightarrow> DOMString \<Rightarrow> mem \<Rightarrow> (int \<times> ptr \<times> mem) option" where
  "ixmlDocument_createAttributeNSEx doc uri qname m =
     (if doc = None \<or> uri = None \<or> qname = None then Some (IXML_INVALID_PARAMETER, None, m)
      else do {
        (rc, p, m1) \<leftarrow> ixmlDocument_createAttributeEx doc qname m;
        case p of
          None \<Rightarrow> Some (rc, None, m1)
        | Some a \<Rightarrow>
            do {
              n \<leftarrow> snd m1 a;
              n1 \<leftarrow> ixmlNode_setNodeName (n\<lparr>namespaceURI := uri\<rparr>) qname;
              Some (IXML_SUCCESS, Some a, fst m1, (snd m1)(a \<mapsto> n1))
            }
      })"

definition ixmlDocument_createElementNSEx ::
  "ptr \<Rightarrow> DOMString \<Rightarrow> DOMString \<Rightarrow> mem \<Rightarrow> (int \<times> ptr \<times> mem) option" where
  "ixmlDocument_createElementNSEx doc uri qname m =
     (if doc = None \<or> uri = None \<or> qname = None then Some (IXML_INVALID_PARAMETER, None, m)
      else
        (case ixmlDocument_createElementEx doc qname m of
           (rc, None, m1) \<Rightarrow> Some (rc, None, m1)
         | (rc, Some a, m1) \<Rightarrow>
             do {
               n \<leftarrow> snd m1 a;
               n1 \<leftarrow> ixmlNode_setNodeName (n\<lparr>namespaceURI := uri\<rparr>) qname;
               Some (IXML_SUCCESS, Some a, fst m1, (snd m1)(a \<mapsto> n1\<lparr>nodeValue := None\<rparr>))
             }))"

text \<open>Importing a node into a document: a copy whose nodes all belong to it.\<close>

partial_function (option) ixmlDocument_setOwnerDocument :: "nat \<Rightarrow> store \<Rightarrow> ptr \<Rightarrow> store option" where
  "ixmlDocument_setOwnerDocument doc s p =
     (case p of
        None \<Rightarrow> Some s
      | Some a \<Rightarrow>
          do {
            s1 \<leftarrow> put a (\<lambda>n. n\<lparr>ownerDocument := Some doc\<rparr>) s;
            n1 \<leftarrow> s1 a;
            s2 \<leftarrow> ixmlDocument_setOwnerDocument doc s1 (firstChild n1);
            n2 \<leftarrow> s2 a;
            ixmlDocument_setOwnerDocument doc s2 (nextSibling n2)
          })"

text \<open>Finding an element of a name, in the subtree and behind it.\<close>

partial_function (option) ixmlDocument_getElementById :: "store \<Rightarrow> ptr \<Rightarrow> string \<Rightarrow> ptr option" where
  "ixmlDocument_getElementById s p tag =
     (case p of
        None \<Rightarrow> Some None
      | Some a \<Rightarrow>
          do {
            n \<leftarrow> s a;
            if nodeType n = eELEMENT_NODE \<and> nodeName n = None then Some None
            else if nodeType n = eELEMENT_NODE \<and> nodeName n = Some tag then Some p
            else do {
              r \<leftarrow> ixmlDocument_getElementById s (firstChild n) tag;
              if r \<noteq> None then Some r else ixmlDocument_getElementById s (nextSibling n) tag
            }
          })"

subsection \<open>Attributes\<close>

text \<open>The loop over the attributes; a test that compares with a string that is NULL is undefined.\<close>

partial_function (option) attr_search :: "(IXML_Node \<Rightarrow> bool option) \<Rightarrow> store \<Rightarrow> ptr \<Rightarrow> ptr option" where
  "attr_search found s p =
     (case p of
        None \<Rightarrow> Some None
      | Some a \<Rightarrow>
          do {
            n \<leftarrow> s a;
            b \<leftarrow> found n;
            if b then Some p else attr_search found s (nextSibling n)
          })"

definition named :: "string \<Rightarrow> IXML_Node \<Rightarrow> bool option" where
  "named name n = same_string (nodeName n) (Some name)"

definition named_ns :: "string \<Rightarrow> string \<Rightarrow> IXML_Node \<Rightarrow> bool option" where
  "named_ns uri lname n =
     and_also (same_string (localName n) (Some lname)) (same_string (namespaceURI n) (Some uri))"

definition find_attr :: "(IXML_Node \<Rightarrow> bool option) \<Rightarrow> store \<Rightarrow> nat \<Rightarrow> ptr option" where
  "find_attr found s e = do { n \<leftarrow> s e; attr_search found s (firstAttr n) }"

definition ixmlElement_getAttributeNode :: "store \<Rightarrow> ptr \<Rightarrow> DOMString \<Rightarrow> ptr option" where
  "ixmlElement_getAttributeNode s e name =
     (case (e, name) of (Some a, Some nm) \<Rightarrow> find_attr (named nm) s a | _ \<Rightarrow> Some None)"

definition ixmlElement_getAttributeNodeNS :: "store \<Rightarrow> ptr \<Rightarrow> DOMString \<Rightarrow> DOMString \<Rightarrow> ptr option" where
  "ixmlElement_getAttributeNodeNS s e uri lname =
     (case (e, uri, lname) of
        (Some a, Some u, Some l) \<Rightarrow> find_attr (named_ns u l) s a
      | _ \<Rightarrow> Some None)"

definition value_of :: "store \<Rightarrow> ptr \<Rightarrow> DOMString option" where
  "value_of s p = (case p of None \<Rightarrow> Some None | Some a \<Rightarrow> map_option nodeValue (s a))"

definition ixmlElement_getAttribute :: "store \<Rightarrow> ptr \<Rightarrow> DOMString \<Rightarrow> DOMString option" where
  "ixmlElement_getAttribute s e name = do { p \<leftarrow> ixmlElement_getAttributeNode s e name; value_of s p }"

definition ixmlElement_getAttributeNS :: "store \<Rightarrow> ptr \<Rightarrow> DOMString \<Rightarrow> DOMString \<Rightarrow> DOMString option" where
  "ixmlElement_getAttributeNS s e uri lname =
     do { p \<leftarrow> ixmlElement_getAttributeNodeNS s e uri lname; value_of s p }"

definition ixmlElement_hasAttribute :: "store \<Rightarrow> ptr \<Rightarrow> DOMString \<Rightarrow> bool option" where
  "ixmlElement_hasAttribute s e name = map_option (\<lambda>p. p \<noteq> None) (ixmlElement_getAttributeNode s e name)"

definition ixmlElement_hasAttributeNS :: "store \<Rightarrow> ptr \<Rightarrow> DOMString \<Rightarrow> DOMString \<Rightarrow> bool option" where
  "ixmlElement_hasAttributeNS s e uri lname =
     map_option (\<lambda>p. p \<noteq> None) (ixmlElement_getAttributeNodeNS s e uri lname)"

text \<open>Removing an attribute by name only removes its value.\<close>

definition drop_value :: "store \<Rightarrow> ptr \<Rightarrow> store option" where
  "drop_value s p = put_if p (\<lambda>n. n\<lparr>nodeValue := None\<rparr>) s"

definition ixmlElement_removeAttribute :: "store \<Rightarrow> ptr \<Rightarrow> DOMString \<Rightarrow> (int \<times> store) option" where
  "ixmlElement_removeAttribute s e name =
     (if e = None \<or> name = None then Some (IXML_INVALID_PARAMETER, s)
      else do {
        p \<leftarrow> ixmlElement_getAttributeNode s e name;
        s1 \<leftarrow> drop_value s p;
        Some (IXML_SUCCESS, s1)
      })"

definition ixmlElement_removeAttributeNS ::
  "store \<Rightarrow> ptr \<Rightarrow> DOMString \<Rightarrow> DOMString \<Rightarrow> (int \<times> store) option" where
  "ixmlElement_removeAttributeNS s e uri lname =
     (if e = None \<or> uri = None \<or> lname = None then Some (IXML_INVALID_PARAMETER, s)
      else do {
        p \<leftarrow> ixmlElement_getAttributeNodeNS s e uri lname;
        s1 \<leftarrow> drop_value s p;
        Some (IXML_SUCCESS, s1)
      })"

text \<open>Putting a node in the place of an attribute: the links of the node itself are not set.\<close>

definition replace_attr :: "nat \<Rightarrow> nat \<Rightarrow> nat \<Rightarrow> store \<Rightarrow> store option" where
  "replace_attr e old new s =
     do {
       n \<leftarrow> s old;
       s1 \<leftarrow> put_if (prevSibling n) (\<lambda>m. m\<lparr>nextSibling := Some new\<rparr>) s;
       s2 \<leftarrow> put_if (nextSibling n) (\<lambda>m. m\<lparr>prevSibling := Some new\<rparr>) s1;
       m \<leftarrow> s2 e;
       if firstAttr m = Some old then put e (\<lambda>m. m\<lparr>firstAttr := Some new\<rparr>) s2 else Some s2
     }"

definition first_attr :: "nat \<Rightarrow> nat \<Rightarrow> store \<Rightarrow> store option" where
  "first_attr e new s =
     do {
       s1 \<leftarrow> put e (\<lambda>m. m\<lparr>firstAttr := Some new\<rparr>) s;
       put new (\<lambda>m. m\<lparr>prevSibling := None, nextSibling := None\<rparr>) s1
     }"

text \<open>\<open>keep\<close>: \<open>rtAttr\<close> is not NULL; the second component is what it is set to.\<close>

definition ixmlElement_setAttributeNode ::
  "store \<Rightarrow> ptr \<Rightarrow> ptr \<Rightarrow> bool \<Rightarrow> (int \<times> ptr \<times> store) option" where
  "ixmlElement_setAttributeNode s element newAttr keep =
     (case (element, newAttr) of
        (Some e, Some a) \<Rightarrow>
          do {
            n \<leftarrow> s a;
            m \<leftarrow> s e;
            if ownerDocument n \<noteq> ownerDocument m then Some (IXML_WRONG_DOCUMENT_ERR, None, s)
            else if ownerElement n \<noteq> None then Some (IXML_INUSE_ATTRIBUTE_ERR, None, s)
            else do {
              s1 \<leftarrow> put a (\<lambda>n. n\<lparr>ownerElement := Some e\<rparr>) s;
              p \<leftarrow> attr_search (\<lambda>x. same_string (nodeName x) (nodeName n)) s1 (firstAttr m);
              case p of
                Some old \<Rightarrow>
                  do {
                    s2 \<leftarrow> replace_attr e old a s1;
                    s3 \<leftarrow> (if keep then Some s2 else ixmlNode_free s2 (Some old));
                    Some (IXML_SUCCESS, if keep then Some old else None, s3)
                  }
              | None \<Rightarrow>
                  do {
                    s2 \<leftarrow> (case firstAttr m of
                            None \<Rightarrow> first_attr e a s1
                          | Some k \<Rightarrow>
                              do {
                                x \<leftarrow> s1 k;
                                l \<leftarrow> last_sibling s1 k (nextSibling x);
                                s2 \<leftarrow> put l (\<lambda>y. y\<lparr>nextSibling := Some a\<rparr>) s1;
                                put a (\<lambda>y. y\<lparr>prevSibling := Some l\<rparr>) s2
                              });
                    Some (IXML_SUCCESS, None, s2)
                  }
            }
          }
      | _ \<Rightarrow> Some (IXML_INVALID_PARAMETER, None, s))"

text \<open>The form with namespaces: it does not set \<open>prevSibling\<close> of an attribute it adds at the end.\<close>

definition ixmlElement_setAttributeNodeNS ::
  "store \<Rightarrow> ptr \<Rightarrow> ptr \<Rightarrow> bool \<Rightarrow> (int \<times> ptr \<times> store) option" where
  "ixmlElement_setAttributeNodeNS s element newAttr keep =
     (case (element, newAttr) of
        (Some e, Some a) \<Rightarrow>
          do {
            n \<leftarrow> s a;
            m \<leftarrow> s e;
            if ownerDocument n \<noteq> ownerDocument m then Some (IXML_WRONG_DOCUMENT_ERR, None, s)
            else if ownerElement n \<noteq> None \<and> ownerElement n \<noteq> Some e then Some (IXML_INUSE_ATTRIBUTE_ERR, None, s)
            else do {
              s1 \<leftarrow> put a (\<lambda>n. n\<lparr>ownerElement := Some e\<rparr>) s;
              p \<leftarrow> attr_search
                    (\<lambda>x. and_also (same_string (localName x) (localName n))
                                  (same_string (namespaceURI x) (namespaceURI n))) s1 (firstAttr m);
              case p of
                Some old \<Rightarrow>
                  if \<not> keep then None
                  else do {
                    s2 \<leftarrow> replace_attr e old a s1;
                    Some (IXML_SUCCESS, Some old, s2)
                  }
              | None \<Rightarrow>
                  do {
                    s2 \<leftarrow> (case firstAttr m of
                            None \<Rightarrow> first_attr e a s1
                          | Some k \<Rightarrow>
                              do {
                                x \<leftarrow> s1 k;
                                l \<leftarrow> last_sibling s1 k (nextSibling x);
                                put l (\<lambda>y. y\<lparr>nextSibling := Some a\<rparr>) s1
                              });
                    Some (IXML_SUCCESS, None, s2)
                  }
            }
          }
      | _ \<Rightarrow> Some (IXML_INVALID_PARAMETER, None, s))"

definition ixmlElement_setAttribute :: "mem \<Rightarrow> ptr \<Rightarrow> DOMString \<Rightarrow> DOMString \<Rightarrow> (int \<times> mem) option" where
  "ixmlElement_setAttribute m element name val =
     (case (element, name, val) of
        (Some e, Some nm, Some _) \<Rightarrow>
          do {
            valid \<leftarrow> Parser_isValidXmlName nm;
            if \<not> valid then Some (IXML_INVALID_CHARACTER_ERR, m)
            else do {
              p \<leftarrow> find_attr (named nm) (snd m) e;
              case p of
                Some a \<Rightarrow>
                  do {
                    s1 \<leftarrow> put a (\<lambda>n. n\<lparr>nodeValue := val\<rparr>) (snd m);
                    Some (IXML_SUCCESS, fst m, s1)
                  }
              | None \<Rightarrow>
                  do {
                    n \<leftarrow> snd m e;
                    (rc, q, m1) \<leftarrow> ixmlDocument_createAttributeEx (ownerDocument n) name m;
                    case q of
                      None \<Rightarrow> Some (rc, m1)
                    | Some a \<Rightarrow>
                        do {
                          s1 \<leftarrow> put a (\<lambda>n. n\<lparr>nodeValue := val\<rparr>) (snd m1);
                          (rc2, _, s2) \<leftarrow> ixmlElement_setAttributeNode s1 element q False;
                          s3 \<leftarrow> (if rc2 \<noteq> IXML_SUCCESS then ixmlNode_free s2 q else Some s2);
                          Some (rc2, fst m1, s3)
                        }
                  }
            }
          }
      | _ \<Rightarrow> Some (IXML_INVALID_PARAMETER, m))"

definition XML_NS :: string where "XML_NS = ''http://www.w3.org/XML/1998/namespace''"
definition XMLNS_NS :: string where "XMLNS_NS = ''http://www.w3.org/2000/xmlns/''"

definition ixmlElement_setAttributeNS ::
  "mem \<Rightarrow> ptr \<Rightarrow> DOMString \<Rightarrow> DOMString \<Rightarrow> DOMString \<Rightarrow> (int \<times> mem) option" where
  "ixmlElement_setAttributeNS m element uri qname val =
     (case (element, uri, qname, val) of
        (Some e, Some u, Some q, Some _) \<Rightarrow>
          do {
            valid \<leftarrow> Parser_isValidXmlName q;
            if \<not> valid then Some (IXML_INVALID_CHARACTER_ERR, m)
            else do {
              new \<leftarrow> Parser_setNodePrefixAndLocalName (ixmlNode_init\<lparr>nodeName := qname\<rparr>);
              if prefix new = Some ''xml'' \<and> u \<noteq> XML_NS \<or> q = ''xmlns'' \<and> u \<noteq> XMLNS_NS
              then Some (IXML_NAMESPACE_ERR, m)
              else do {
                l \<leftarrow> localName new;
                p \<leftarrow> find_attr (named_ns u l) (snd m) e;
                case p of
                  Some a \<Rightarrow>
                    do {
                      s1 \<leftarrow> put a (\<lambda>n. n\<lparr>prefix := prefix new, nodeValue := val\<rparr>) (snd m);
                      Some (IXML_SUCCESS, fst m, s1)
                    }
                | None \<Rightarrow>
                    do {
                      n \<leftarrow> snd m e;
                      (rc, x, m1) \<leftarrow> ixmlDocument_createAttributeNSEx (ownerDocument n) uri qname m;
                      case x of
                        None \<Rightarrow> Some (rc, m1)
                      | Some a \<Rightarrow>
                          do {
                            s1 \<leftarrow> put a (\<lambda>n. n\<lparr>nodeValue := val\<rparr>) (snd m1);
                            (rc2, _, s2) \<leftarrow> ixmlElement_setAttributeNodeNS s1 element x True;
                            if rc2 \<noteq> IXML_SUCCESS
                            then do { s3 \<leftarrow> ixmlNode_free s2 x; Some (IXML_FAILED, fst m1, s3) }
                            else Some (IXML_SUCCESS, fst m1, s2)
                          }
                    }
              }
            }
          }
      | _ \<Rightarrow> Some (IXML_INVALID_PARAMETER, m))"

partial_function (option) find_same :: "store \<Rightarrow> ptr \<Rightarrow> nat \<Rightarrow> ptr option" where
  "find_same s p old =
     (case p of
        None \<Rightarrow> Some None
      | Some a \<Rightarrow>
          do {
            b \<leftarrow> ixmlNode_compare s a old;
            if b then Some p else do { n \<leftarrow> s a; find_same s (nextSibling n) old }
          })"

definition ixmlElement_findAttributeNode :: "store \<Rightarrow> nat \<Rightarrow> nat \<Rightarrow> ptr option" where
  "ixmlElement_findAttributeNode s e old = do { n \<leftarrow> s e; find_same s (firstAttr n) old }"

text \<open>The owner of an attribute that is taken out is not reset.\<close>

definition ixmlElement_removeAttributeNode :: "store \<Rightarrow> ptr \<Rightarrow> ptr \<Rightarrow> (int \<times> ptr \<times> store) option" where
  "ixmlElement_removeAttributeNode s element oldAttr =
     (case (element, oldAttr) of
        (Some e, Some old) \<Rightarrow>
          do {
            p \<leftarrow> ixmlElement_findAttributeNode s e old;
            case p of
              None \<Rightarrow> Some (IXML_NOT_FOUND_ERR, None, s)
            | Some a \<Rightarrow>
                do {
                  n \<leftarrow> s a;
                  s1 \<leftarrow> put_if (prevSibling n) (\<lambda>m. m\<lparr>nextSibling := nextSibling n\<rparr>) s;
                  s2 \<leftarrow> put_if (nextSibling n) (\<lambda>m. m\<lparr>prevSibling := prevSibling n\<rparr>) s1;
                  m \<leftarrow> s2 e;
                  s3 \<leftarrow> (if firstAttr m = Some a then put e (\<lambda>m. m\<lparr>firstAttr := nextSibling n\<rparr>) s2
                         else Some s2);
                  s4 \<leftarrow> put a (\<lambda>m. m\<lparr>parentNode := None, prevSibling := None, nextSibling := None\<rparr>) s3;
                  Some (IXML_SUCCESS, Some a, s4)
                }
          }
      | _ \<Rightarrow> Some (IXML_INVALID_PARAMETER, None, s))"

subsection \<open>Named node maps\<close>

text \<open>
  A chain of structures is the list of its items; what is looked up in a map are the siblings of its
  first item.
\<close>

type_synonym IXML_NamedNodeMap = "ptr list"

definition ixmlNamedNodeMap_addToNamedNodeMap ::
  "heap \<Rightarrow> IXML_NamedNodeMap \<Rightarrow> ptr \<Rightarrow> int \<times> heap \<times> IXML_NamedNodeMap" where
  "ixmlNamedNodeMap_addToNamedNodeMap h l add =
     (if add = None then (IXML_SUCCESS, h, l)
      else
        (case l of
           [] \<Rightarrow>
             (case malloc h of
                (None, h1) \<Rightarrow> (IXML_INSUFFICIENT_MEMORY, h1, [])
              | (Some _, h1) \<Rightarrow> (IXML_SUCCESS, h1, [add]))
         | i # is \<Rightarrow>
             if i = None then (IXML_SUCCESS, h, add # is)
             else
               (case malloc h of
                  (None, h1) \<Rightarrow> (IXML_INSUFFICIENT_MEMORY, h1, l)
                | (Some _, h1) \<Rightarrow> (IXML_SUCCESS, h1, l @ [add]))))"

definition IXML_INVALID_ITEM_NUMBER :: nat where "IXML_INVALID_ITEM_NUMBER = 107"

partial_function (option) item_number :: "store \<Rightarrow> ptr \<Rightarrow> string \<Rightarrow> nat \<Rightarrow> nat option" where
  "item_number s p name i =
     (case p of
        None \<Rightarrow> Some IXML_INVALID_ITEM_NUMBER
      | Some a \<Rightarrow>
          do {
            n \<leftarrow> s a;
            b \<leftarrow> named name n;
            if b then Some i else item_number s (nextSibling n) name (Suc i)
          })"

definition first_item :: "IXML_NamedNodeMap \<Rightarrow> ptr" where
  "first_item l = (if l = [] then None else hd l)"

definition ixmlNamedNodeMap_getItemNumber :: "store \<Rightarrow> IXML_NamedNodeMap \<Rightarrow> string \<Rightarrow> nat option" where
  "ixmlNamedNodeMap_getItemNumber s l name = item_number s (first_item l) name 0"

partial_function (option) siblings_from :: "store \<Rightarrow> ptr \<Rightarrow> nat \<Rightarrow> nat option" where
  "siblings_from s p k =
     (case p of
        None \<Rightarrow> Some k
      | Some a \<Rightarrow> do { n \<leftarrow> s a; siblings_from s (nextSibling n) (Suc k) })"

definition ixmlNamedNodeMap_getLength :: "store \<Rightarrow> IXML_NamedNodeMap \<Rightarrow> nat option" where
  "ixmlNamedNodeMap_getLength s l = siblings_from s (first_item l) 0"

fun nth_sibling :: "store \<Rightarrow> ptr \<Rightarrow> nat \<Rightarrow> ptr option" where
  "nth_sibling s None i = Some None"
| "nth_sibling s (Some a) 0 = Some (Some a)"
| "nth_sibling s (Some a) (Suc i) = do { n \<leftarrow> s a; nth_sibling s (nextSibling n) i }"

text \<open>The length less one wraps around if it is 0.\<close>

definition ixmlNamedNodeMap_item :: "store \<Rightarrow> IXML_NamedNodeMap \<Rightarrow> nat \<Rightarrow> ptr option" where
  "ixmlNamedNodeMap_item s l index =
     (if l = [] then Some None
      else do {
        n \<leftarrow> ixmlNamedNodeMap_getLength s l;
        if n \<noteq> 0 \<and> index > n - 1 then Some None else nth_sibling s (first_item l) index
      })"

definition ixmlNamedNodeMap_getNamedItem :: "store \<Rightarrow> IXML_NamedNodeMap \<Rightarrow> DOMString \<Rightarrow> ptr option" where
  "ixmlNamedNodeMap_getNamedItem s l name =
     (case name of
        None \<Rightarrow> Some None
      | Some nm \<Rightarrow>
          if l = [] then Some None
          else do {
            i \<leftarrow> ixmlNamedNodeMap_getItemNumber s l nm;
            if i = IXML_INVALID_ITEM_NUMBER then Some None else ixmlNamedNodeMap_item s l i
          })"

partial_function (option) add_attributes :: "store \<Rightarrow> ptr \<Rightarrow> heap \<times> IXML_NamedNodeMap \<Rightarrow> (heap \<times> IXML_NamedNodeMap) option" where
  "add_attributes s p l =
     (case p of
        None \<Rightarrow> Some l
      | Some a \<Rightarrow>
          do {
            r \<leftarrow> Some (ixmlNamedNodeMap_addToNamedNodeMap (fst l) (snd l) p);
            if fst r \<noteq> IXML_SUCCESS then Some (fst (snd r), [])
            else do { n \<leftarrow> s a; add_attributes s (nextSibling n) (snd r) }
          })"

definition ixmlNode_getAttributes :: "store \<Rightarrow> heap \<Rightarrow> ptr \<Rightarrow> (heap \<times> IXML_NamedNodeMap) option" where
  "ixmlNode_getAttributes s h p =
     (case p of
        None \<Rightarrow> Some (h, [])
      | Some a \<Rightarrow>
          do {
            n \<leftarrow> s a;
            if nodeType n \<noteq> eELEMENT_NODE then Some (h, [])
            else
              (case malloc h of
                 (None, h1) \<Rightarrow> Some (h1, [])
               | (Some _, h1) \<Rightarrow> add_attributes s (firstAttr n) (h1, [None]))
          })"

subsection \<open>Copying\<close>

text \<open>The copy of a single node, before its pointers are set.\<close>

definition ixmlNode_cloneTextNode :: "IXML_Node \<Rightarrow> IXML_Node option" where
  "ixmlNode_cloneTextNode n =
     map_option (\<lambda>c. (ixmlNode_setNodeValue c (nodeValue n))\<lparr>nodeType := eTEXT_NODE\<rparr>)
       (ixmlNode_setNodeName ixmlNode_init (nodeName n))"

definition ixmlNode_cloneCDATASect :: "IXML_Node \<Rightarrow> IXML_Node option" where
  "ixmlNode_cloneCDATASect n =
     map_option (\<lambda>c. (ixmlNode_setNodeValue c (nodeValue n))\<lparr>nodeType := eCDATA_SECTION_NODE\<rparr>)
       (ixmlNode_setNodeName ixmlNode_init (nodeName n))"

definition clone_names :: "IXML_Node \<Rightarrow> IXML_Node \<Rightarrow> IXML_Node option" where
  "clone_names c n =
     map_option
       (\<lambda>c. ixmlNode_setLocalName
              (ixmlNode_setPrefix
                (ixmlNode_setNamespaceURI (ixmlNode_setNodeValue c (nodeValue n)) (namespaceURI n)) (prefix n))
              (localName n))
       (ixmlNode_setNodeName c (nodeName n))"

definition ixmlNode_cloneElement :: "IXML_Node \<Rightarrow> IXML_Node option" where
  "ixmlNode_cloneElement n =
     map_option (\<lambda>c. c\<lparr>nodeType := eELEMENT_NODE\<rparr>)
       (clone_names (snd (ixmlElement_setTagName ixmlNode_init (tagName n))) n)"

definition ixmlNode_cloneAttr :: "IXML_Node \<Rightarrow> IXML_Node option" where
  "ixmlNode_cloneAttr n = map_option (\<lambda>c. c\<lparr>nodeType := eATTRIBUTE_NODE\<rparr>) (clone_names ixmlNode_init n)"

definition ixmlNode_newDoc :: "IXML_Node option" where
  "ixmlNode_newDoc =
     map_option (\<lambda>c. c\<lparr>nodeType := eDOCUMENT_NODE\<rparr>) (ixmlNode_setNodeName ixmlNode_init (Some DOCUMENTNODENAME))"

definition mem_put :: "nat \<Rightarrow> (IXML_Node \<Rightarrow> IXML_Node) \<Rightarrow> mem \<Rightarrow> mem option" where
  "mem_put a f m = map_option (Pair (fst m)) (put a f (snd m))"

definition mem_put_if :: "ptr \<Rightarrow> (IXML_Node \<Rightarrow> IXML_Node) \<Rightarrow> mem \<Rightarrow> mem option" where
  "mem_put_if p f m = map_option (Pair (fst m)) (put_if p f (snd m))"

partial_function (option) set_parents :: "ptr \<Rightarrow> ptr \<Rightarrow> mem \<Rightarrow> mem option" where
  "set_parents par p m =
     (case p of
        None \<Rightarrow> Some m
      | Some a \<Rightarrow>
          do {
            m1 \<leftarrow> mem_put a (\<lambda>n. n\<lparr>parentNode := par\<rparr>) m;
            n \<leftarrow> snd m1 a;
            set_parents par (nextSibling n) m1
          })"

definition ixmlNode_setSiblingNodesParent :: "nat \<Rightarrow> mem \<Rightarrow> mem option" where
  "ixmlNode_setSiblingNodesParent a m = do { n \<leftarrow> snd m a; set_parents (parentNode n) (nextSibling n) m }"

text \<open>
  The copy of a node with what is below it and, of an element or an attribute, the siblings behind
  it. Behind a text or a CDATA section nothing is copied.
\<close>

partial_function (option) ixmlNode_cloneNodeTreeRecursive :: "bool \<Rightarrow> ptr \<times> mem \<Rightarrow> (ptr \<times> mem) option" where
  "ixmlNode_cloneNodeTreeRecursive deep x =
     (case fst x of
        None \<Rightarrow> Some (None, snd x)
      | Some a \<Rightarrow>
          do {
            n \<leftarrow> snd (snd x) a;
            case nodeType n of
              eELEMENT_NODE \<Rightarrow>
                if tagName n = None then Some (None, snd x)
                else do {
                  c \<leftarrow> ixmlNode_cloneElement n;
                  r \<leftarrow> Some (new_node c (snd x));
                  case fst r of
                    None \<Rightarrow> Some r
                  | Some e \<Rightarrow>
                      do {
                        fa \<leftarrow> ixmlNode_cloneNodeTreeRecursive deep (firstAttr n, snd r);
                        m1 \<leftarrow> mem_put e (\<lambda>y. y\<lparr>firstAttr := fst fa\<rparr>) (snd fa);
                        if \<not> deep then Some (Some e, m1)
                        else do {
                          fc \<leftarrow> ixmlNode_cloneNodeTreeRecursive deep (firstChild n, m1);
                          m2 \<leftarrow> mem_put e (\<lambda>y. y\<lparr>firstChild := fst fc\<rparr>) (snd fc);
                          m3 \<leftarrow> (case fst fc of
                                  None \<Rightarrow> Some m2
                                | Some k \<Rightarrow>
                                    do {
                                      m3 \<leftarrow> mem_put k (\<lambda>y. y\<lparr>parentNode := Some e\<rparr>) m2;
                                      ixmlNode_setSiblingNodesParent k m3
                                    });
                          nx \<leftarrow> ixmlNode_cloneNodeTreeRecursive deep (nextSibling n, m3);
                          m4 \<leftarrow> mem_put e (\<lambda>y. y\<lparr>nextSibling := fst nx\<rparr>) (snd nx);
                          m5 \<leftarrow> mem_put_if (fst nx) (\<lambda>y. y\<lparr>prevSibling := Some e\<rparr>) m4;
                          Some (Some e, m5)
                        }
                      }
                }
            | eATTRIBUTE_NODE \<Rightarrow>
                do {
                  c \<leftarrow> ixmlNode_cloneAttr n;
                  r \<leftarrow> Some (new_node c (snd x));
                  case fst r of
                    None \<Rightarrow> Some r
                  | Some e \<Rightarrow>
                      do {
                        nx \<leftarrow> ixmlNode_cloneNodeTreeRecursive deep (nextSibling n, snd r);
                        m4 \<leftarrow> mem_put e (\<lambda>y. y\<lparr>nextSibling := fst nx\<rparr>) (snd nx);
                        m5 \<leftarrow> mem_put_if (fst nx) (\<lambda>y. y\<lparr>prevSibling := Some e\<rparr>) m4;
                        Some (Some e, m5)
                      }
                }
            | eTEXT_NODE \<Rightarrow> do { c \<leftarrow> ixmlNode_cloneTextNode n; Some (new_node c (snd x)) }
            | eCDATA_SECTION_NODE \<Rightarrow> do { c \<leftarrow> ixmlNode_cloneCDATASect n; Some (new_node c (snd x)) }
            | eDOCUMENT_NODE \<Rightarrow>
                do {
                  c \<leftarrow> ixmlNode_newDoc;
                  r \<leftarrow> Some (new_node c (snd x));
                  case fst r of
                    None \<Rightarrow> Some r
                  | Some e \<Rightarrow>
                      if \<not> deep then Some r
                      else do {
                        fc \<leftarrow> ixmlNode_cloneNodeTreeRecursive deep (firstChild n, snd r);
                        m2 \<leftarrow> mem_put e (\<lambda>y. y\<lparr>firstChild := fst fc\<rparr>) (snd fc);
                        m3 \<leftarrow> mem_put_if (fst fc) (\<lambda>y. y\<lparr>parentNode := Some e\<rparr>) m2;
                        Some (Some e, m3)
                      }
                }
            | _ \<Rightarrow> Some (None, snd x)
          })"

definition ixmlNode_cloneNodeTree :: "bool \<Rightarrow> nat \<Rightarrow> mem \<Rightarrow> (ptr \<times> mem) option" where
  "ixmlNode_cloneNodeTree deep a m =
     do {
       n \<leftarrow> snd m a;
       (p, m') \<leftarrow>
         (if nodeType n = eELEMENT_NODE
          then
            (if tagName n = None then Some (None, m)
             else do {
               c \<leftarrow> ixmlNode_cloneElement n;
               r \<leftarrow> Some (new_node c m);
               case fst r of
                 None \<Rightarrow> Some r
               | Some e \<Rightarrow>
                   do {
                     fa \<leftarrow> ixmlNode_cloneNodeTreeRecursive deep (firstAttr n, snd r);
                     m1 \<leftarrow> mem_put e (\<lambda>y. y\<lparr>firstAttr := fst fa\<rparr>) (snd fa);
                     if \<not> deep then Some (Some e, m1)
                     else do {
                       fc \<leftarrow> ixmlNode_cloneNodeTreeRecursive deep (firstChild n, m1);
                       m2 \<leftarrow> mem_put e (\<lambda>y. y\<lparr>firstChild := fst fc\<rparr>) (snd fc);
                       m3 \<leftarrow> set_parents (Some e) (fst fc) m2;
                       m4 \<leftarrow> mem_put e (\<lambda>y. y\<lparr>nextSibling := None\<rparr>) m3;
                       Some (Some e, m4)
                     }
                   }
             })
          else if nodeType n \<in> {eATTRIBUTE_NODE, eTEXT_NODE, eCDATA_SECTION_NODE, eDOCUMENT_NODE}
          then ixmlNode_cloneNodeTreeRecursive deep (Some a, m)
          else Some (None, m));
       m1 \<leftarrow> mem_put_if p (\<lambda>y. y\<lparr>parentNode := None\<rparr>) m';
       Some (p, m1)
     }"

definition ixmlNode_cloneAttrDirect :: "IXML_Node \<Rightarrow> IXML_Node option" where
  "ixmlNode_cloneAttrDirect n = map_option (\<lambda>c. c\<lparr>specified := True\<rparr>) (ixmlNode_cloneAttr n)"

definition ixmlNode_cloneNode :: "ptr \<Rightarrow> bool \<Rightarrow> mem \<Rightarrow> (ptr \<times> mem) option" where
  "ixmlNode_cloneNode p deep m =
     (case p of
        None \<Rightarrow> Some (None, m)
      | Some a \<Rightarrow>
          do {
            n \<leftarrow> snd m a;
            if nodeType n = eATTRIBUTE_NODE
            then do { c \<leftarrow> ixmlNode_cloneAttrDirect n; Some (new_node c m) }
            else ixmlNode_cloneNodeTree deep a m
          })"

definition ixmlDocument_importNode :: "ptr \<Rightarrow> ptr \<Rightarrow> bool \<Rightarrow> mem \<Rightarrow> (int \<times> ptr \<times> mem) option" where
  "ixmlDocument_importNode doc p deep m =
     (case (doc, p) of
        (Some d, Some a) \<Rightarrow>
          do {
            n \<leftarrow> snd m a;
            if nodeType n = eDOCUMENT_NODE then Some (IXML_NOT_SUPPORTED_ERR, None, m)
            else do {
              (q, m1) \<leftarrow> ixmlNode_cloneNode p deep m;
              if q = None then Some (IXML_FAILED, None, m1)
              else do {
                s2 \<leftarrow> ixmlDocument_setOwnerDocument d (snd m1) q;
                Some (IXML_SUCCESS, q, fst m1, s2)
              }
            }
          }
      | _ \<Rightarrow> Some (IXML_INVALID_PARAMETER, None, m))"

declare ixmlDocument_setOwnerDocument.simps [code] ixmlDocument_getElementById.simps [code] attr_search.simps [code]
  find_same.simps [code] item_number.simps [code] siblings_from.simps [code] add_attributes.simps [code]
  set_parents.simps [code] ixmlNode_cloneNodeTreeRecursive.simps [code]

end
