(* ===== verification/XmlTokens.thy ===== *)
theory XmlTokens
  imports DomElement
begin

text \<open>
  The scanner of the XML parser (\<open>ixml/src/ixmlparser.c\<close>): what is skipped, and the tokens. The token
  buffer is the string it holds, \<open>None\<close> if it has been cleared.
\<close>

definition IXML_FILE_DONE :: int where "IXML_FILE_DONE = 104"

lemmas xml_codes = ixml_element_codes IXML_FILE_DONE_def

definition WHITESPACE :: string where "WHITESPACE = [CHR 0x0A, CHR 0x09, CHR 0x0D, CHR '' '']"
definition COMPLETETAG :: string where "COMPLETETAG = ''/>''"
definition ENDTAG :: string where "ENDTAG = ''</''"
definition XMLDECL :: string where "XMLDECL = ''<?xml ''"
definition XMLDECL2 :: string where "XMLDECL2 = ''<?xml?''"
definition BEGIN_COMMENT :: string where "BEGIN_COMMENT = ''<!--''"
definition END_COMMENT :: string where "END_COMMENT = ''-->''"
definition BEGIN_PI :: string where "BEGIN_PI = ''<?''"
definition END_PI :: string where "END_PI = ''?>''"
definition BEGIN_DOCTYPE :: string where "BEGIN_DOCTYPE = ''<!DOCTYPE''"
definition CDSTART :: string where "CDSTART = ''<![CDATA[''"
definition CDEND :: string where "CDEND = '']]>''"

lemmas xml_strings = COMPLETETAG_def ENDTAG_def XMLDECL_def XMLDECL2_def BEGIN_COMMENT_def END_COMMENT_def BEGIN_PI_def
  END_PI_def BEGIN_DOCTYPE_def CDSTART_def CDEND_def

subsection \<open>State\<close>

record IXML_NamespaceURI =
  nsURI :: string
  ns_prefix :: string

record IXML_ElementStack =
  es_element :: string
  es_prefix :: DOMString
  es_namespaceUri :: DOMString
  pNsURI :: "IXML_NamespaceURI list"

datatype PARSER_STATE = eELEMENT | eATTRIBUTE | eCONTENT

record Parser =
  dataBuffer :: cptr
  curPtr :: cptr
  savePtr :: cptr
  lastElem :: DOMString
  tokenBuf :: DOMString
  pNeedPrefixNode :: ptr
  pCurElement :: "IXML_ElementStack list"
  currentNodePtr :: ptr
  state :: PARSER_STATE
  bHasTopLevel :: bool

subsection \<open>Searching\<close>

text \<open>\<open>strchr\<close> and \<open>strstr\<close> as the number of bytes before what they find.\<close>

fun strchr :: "cptr \<Rightarrow> char \<Rightarrow> nat option option" where
  "strchr [] c = None"
| "strchr (x # p) c =
     (if x = c then Some (Some 0) else if x = NUL then Some None
      else map_option (map_option Suc) (strchr p c))"

fun strstr :: "cptr \<Rightarrow> string \<Rightarrow> nat option option" where
  "strstr [] key = None"
| "strstr (x # p) key =
     do {
       b \<leftarrow> starts (x # p) key;
       if b then Some (Some 0) else if x = NUL then Some None
       else map_option (map_option Suc) (strstr p key)
     }"

subsection \<open>Skipping\<close>

text \<open>The document type; nested tags are counted, strings are skipped.\<close>

partial_function (option) doctype_end :: "cptr \<Rightarrow> int \<Rightarrow> cptr option option" where
  "doctype_end p num =
     (if num = 0 then Some (Some p)
      else
        (case p of
           [] \<Rightarrow> None
         | c # r \<Rightarrow>
             if c = NUL then Some None
             else if c = CHR ''<'' then doctype_end r (num + 1)
             else if c = CHR ''>'' then doctype_end r (num - 1)
             else if c = CHR 0x22
             then do {
               n \<leftarrow> strchr r (CHR 0x22);
               case n of None \<Rightarrow> Some None | Some k \<Rightarrow> doctype_end (drop (Suc k) r) num
             }
             else doctype_end r num))"

definition Parser_skipDocType :: "cptr \<Rightarrow> (int \<times> cptr) option" where
  "Parser_skipDocType p =
     map_option (\<lambda>r. case r of None \<Rightarrow> (IXML_SYNTAX_ERR, p) | Some q \<Rightarrow> (IXML_SUCCESS, q)) (doctype_end p 1)"

fun skip_to :: "cptr \<Rightarrow> string \<Rightarrow> cptr option" where
  "skip_to [] key = None"
| "skip_to (c # p) key =
     (if c = NUL then Some (c # p)
      else do { b \<leftarrow> starts (c # p) key; if b then Some (c # p) else skip_to p key })"

definition Parser_skipString :: "cptr \<Rightarrow> string \<Rightarrow> (int \<times> cptr) option" where
  "Parser_skipString p key =
     do {
       q \<leftarrow> skip_to p key;
       Some (if hd q = NUL then (IXML_SYNTAX_ERR, q) else (IXML_SUCCESS, drop (length key) q))
     }"

fun Parser_skipWhiteSpaces :: "cptr \<Rightarrow> cptr option" where
  "Parser_skipWhiteSpaces [] = None"
| "Parser_skipWhiteSpaces (c # p) = (if c \<in> set WHITESPACE then Parser_skipWhiteSpaces p else Some (c # p))"

definition Parser_skipXMLDecl :: "cptr \<Rightarrow> (int \<times> cptr) option" where
  "Parser_skipXMLDecl p =
     do { (rc, q) \<leftarrow> Parser_skipString p END_PI; q1 \<leftarrow> Parser_skipWhiteSpaces q; Some (rc, q1) }"

definition Parser_skipComment :: "cptr \<Rightarrow> (int \<times> cptr) option" where
  "Parser_skipComment p =
     do {
       n \<leftarrow> strstr p END_COMMENT;
       Some
         (case n of
            Some k \<Rightarrow>
              if k \<noteq> 0 \<and> p ! (k - 1) \<noteq> CHR ''-'' then (IXML_SUCCESS, drop (k + length END_COMMENT) p)
              else (IXML_SYNTAX_ERR, p)
          | None \<Rightarrow> (IXML_SYNTAX_ERR, p))
     }"

text \<open>Comments, processing instructions and the white space behind them.\<close>

definition is_xmldecl :: "cptr \<Rightarrow> bool option" where
  "is_xmldecl p = do { b \<leftarrow> starts_ci p XMLDECL; if b then Some True else starts_ci p XMLDECL2 }"

definition misc_step :: "cptr \<Rightarrow> (bool \<times> int \<times> cptr) option" where
  "misc_step p =
     do {
       c \<leftarrow> starts_ci p BEGIN_COMMENT;
       if c then map_option (Pair False) (Parser_skipComment p)
       else do {
         d \<leftarrow> is_xmldecl p;
         if d then Some (False, IXML_SYNTAX_ERR, p)
         else do {
           i \<leftarrow> starts_ci p BEGIN_PI;
           if i then map_option (Pair False) (Parser_skipString p END_PI) else Some (True, IXML_SUCCESS, p)
         }
       }
     }"

partial_function (option) Parser_skipMisc :: "cptr \<Rightarrow> (int \<times> cptr) option" where
  "Parser_skipMisc p =
     do {
       r \<leftarrow> misc_step p;
       q \<leftarrow> Parser_skipWhiteSpaces (snd (snd r));
       if fst r \<or> fst (snd r) \<noteq> IXML_SUCCESS then Some (fst (snd r), q) else Parser_skipMisc q
     }"

definition Parser_skipProlog :: "cptr \<Rightarrow> (int \<times> cptr) option" where
  "Parser_skipProlog p =
     do {
       p1 \<leftarrow> Parser_skipWhiteSpaces p;
       x \<leftarrow> starts p1 XMLDECL;
       (rc, p2) \<leftarrow> (if x then Parser_skipXMLDecl p1 else Some (IXML_SUCCESS, p1));
       if rc \<noteq> IXML_SUCCESS then Some (rc, p2)
       else do {
         (rc3, p3) \<leftarrow> Parser_skipMisc p2;
         d \<leftarrow> (if rc3 = IXML_SUCCESS then starts p3 BEGIN_DOCTYPE else Some False);
         (rc4, p4) \<leftarrow> (if d then Parser_skipDocType (tl p3) else Some (rc3, p3));
         if rc4 = IXML_SUCCESS then Parser_skipMisc p4 else Some (rc4, p4)
       }
     }"

definition Parser_skipPI :: "cptr \<Rightarrow> (int \<times> cptr) option" where
  "Parser_skipPI p =
     do {
       d \<leftarrow> is_xmldecl p;
       if d then Some (IXML_SYNTAX_ERR, p)
       else do {
         i \<leftarrow> starts_ci p BEGIN_PI;
         if \<not> i then Some (IXML_SUCCESS, p)
         else do {
           n \<leftarrow> strstr p END_PI;
           Some
             (case n of
                Some k \<Rightarrow> if k \<noteq> 0 then (IXML_SUCCESS, drop (k + length BEGIN_PI) p) else (IXML_SYNTAX_ERR, p)
              | None \<Rightarrow> (IXML_SYNTAX_ERR, p))
         }
       }
     }"

subsection \<open>Tokens\<close>

text \<open>
  Copying \<open>len\<close> bytes with the references replaced. A character of one byte is appended as it is, any
  other in its encoding.
\<close>

definition append_tok :: "DOMString \<Rightarrow> string \<Rightarrow> DOMString" where
  "append_tok b s = (if s = [] then b else Some ((case b of None \<Rightarrow> [] | Some t \<Rightarrow> t) @ s))"

partial_function (option) copy_loop :: "char \<Rightarrow> cptr \<Rightarrow> int \<Rightarrow> DOMString \<Rightarrow> (int \<times> DOMString) option" where
  "copy_loop err p len buf =
     (if len < 0 then Some (IXML_FAILED, buf)
      else if len = 0 then Some (IXML_SUCCESS, buf)
      else do {
        r \<leftarrow> Parser_getChar err p;
        if fst r \<le> 0 then Some (IXML_FAILED, buf)
        else if snd r = 1 then copy_loop err (drop 1 p) (len - 1) (append_tok buf [to_char (fst r)])
        else if Parser_intToUTF8 (fst r) = [] then Some (IXML_FAILED, buf)
        else copy_loop err (drop (snd r) p) (len - int (snd r)) (append_tok buf (Parser_intToUTF8 (fst r)))
      })"

definition Parser_copyToken :: "char \<Rightarrow> cptr \<Rightarrow> nat \<Rightarrow> DOMString \<Rightarrow> (int \<times> DOMString) option" where
  "Parser_copyToken err src len buf =
     (if len = 0 then Some (IXML_FAILED, buf) else copy_loop err src (int len) buf)"

text \<open>The name from \<open>index\<close> on.\<close>

partial_function (option) name_loop :: "char \<Rightarrow> cptr \<Rightarrow> nat \<Rightarrow> nat option" where
  "name_loop err p index =
     do {
       r \<leftarrow> Parser_UTF8ToInt err (drop index p);
       b \<leftarrow> Parser_isNameChar (fst r) True;
       if b then name_loop err p (index + snd r) else Some index
     }"

text \<open>The length of the token that starts here, \<open>None\<close> inside if there is none.\<close>

definition token_length :: "char \<Rightarrow> cptr \<Rightarrow> nat option option" where
  "token_length err p =
     (if p = [] then None
      else if hd p = CHR 0x22 \<or> hd p = CHR 0x27 then Some (Some 1)
      else if hd p = CHR ''<''
      then do {
        (temp, _) \<leftarrow> Parser_UTF8ToInt err (tl p);
        if temp = schar CHR ''/'' then Some (Some 2)
        else do { b \<leftarrow> Parser_isNameChar temp False; Some (if b then Some 1 else None) }
      }
      else if hd p = CHR ''='' then Some (Some 1)
      else if hd p = CHR ''/'' then do { c \<leftarrow> byte p 1; Some (Some (if c = schar CHR ''>'' then 2 else 0)) }
      else if hd p = CHR ''>'' then Some (Some 1)
      else do {
        (c, len) \<leftarrow> Parser_UTF8ToInt err p;
        b \<leftarrow> Parser_isNameChar c False;
        if b then map_option Some (name_loop err p len) else Some None
      })"

definition Parser_getNextToken :: "char \<Rightarrow> Parser \<Rightarrow> (nat \<times> Parser) option" where
  "Parser_getNextToken err x =
     (let x1 = x\<lparr>tokenBuf := None\<rparr>
      in if curPtr x = [] then None
         else if hd (curPtr x) = NUL then Some (0, x1)
         else do {
           (rc, p) \<leftarrow> Parser_skipMisc (curPtr x);
           let x2 = x1\<lparr>curPtr := p\<rparr>;
           if rc \<noteq> IXML_SUCCESS then Some (0, x2)
           else do {
             n \<leftarrow> token_length err p;
             case n of
               None \<Rightarrow> Some (0, x2)
             | Some len \<Rightarrow>
                 do {
                   let x3 = (if hd p = CHR ''/'' \<and> len = 2 then x2\<lparr>savePtr := p\<rparr> else x2);
                   (rc2, buf) \<leftarrow> Parser_copyToken err p len None;
                   let x4 = x3\<lparr>tokenBuf := buf\<rparr>;
                   Some (if rc2 \<noteq> IXML_SUCCESS then (0, x4) else (len, x4\<lparr>curPtr := drop len p\<rparr>))
                 }
           }
         })"

declare doctype_end.simps [code] Parser_skipMisc.simps [code] copy_loop.simps [code] name_loop.simps [code]

end
