(* ===== verification/XmlParser.thy ===== *)
theory XmlParser
  imports XmlTokens
begin

text \<open>
  The XML parser (\<open>ixml/src/ixmlparser.c\<close> and the parts of \<open>ixml.c\<close> that call it): tags, attributes,
  content, the stack of elements with their namespaces, and the loop that builds the document. A node
  under construction is a value; the nodes of the document are in the store.
\<close>

definition IXML_NO_SUCH_FILE :: int where "IXML_NO_SUCH_FILE = 101"

text \<open>\<open>safe_strdup\<close>: with the assertion off, NULL becomes the empty string.\<close>

definition safe_strdup :: "DOMString \<Rightarrow> DOMString" where
  "safe_strdup s = Some (case s of None \<Rightarrow> [] | Some t \<Rightarrow> t)"

definition Parser_setLastElem :: "Parser \<Rightarrow> DOMString \<Rightarrow> int \<times> Parser" where
  "Parser_setLastElem x s =
     (case s of None \<Rightarrow> (IXML_FAILED, x) | Some _ \<Rightarrow> (IXML_SUCCESS, x\<lparr>lastElem := s\<rparr>))"

subsection \<open>Tags\<close>

definition Parser_processSTag :: "char \<Rightarrow> Parser \<Rightarrow> IXML_Node \<Rightarrow> (int \<times> Parser \<times> IXML_Node) option" where
  "Parser_processSTag err x n =
     do {
       (len, x1) \<leftarrow> Parser_getNextToken err x;
       if len = 0 \<or> tokenBuf x1 = None then Some (IXML_SYNTAX_ERR, x1, n)
       else do {
         let n1 = n\<lparr>nodeName := tokenBuf x1\<rparr>;
         let x2 = snd (Parser_setLastElem x1 (nodeName n1));
         n2 \<leftarrow> Parser_setNodePrefixAndLocalName n1;
         let n3 = n2\<lparr>nodeValue := None, nodeType := eELEMENT_NODE\<rparr>;
         (len2, x3) \<leftarrow> Parser_getNextToken err (x2\<lparr>savePtr := curPtr x2\<rparr>);
         if len2 = 0 then Some (IXML_SYNTAX_ERR, x3, n3)
         else do {
           tok \<leftarrow> tokenBuf x3;
           Some (IXML_SUCCESS,
                 if tok = COMPLETETAG then x3\<lparr>state := eELEMENT, curPtr := savePtr x3\<rparr>
                 else if tok = ''>'' then x3\<lparr>state := eCONTENT\<rparr>
                 else x3\<lparr>state := eATTRIBUTE, curPtr := savePtr x3\<rparr>,
                 n3)
         }
       }
     }"

text \<open>The end tag; the last component is \<open>bETag\<close>.\<close>

definition Parser_processETag :: "char \<Rightarrow> Parser \<Rightarrow> IXML_Node \<Rightarrow> (int \<times> Parser \<times> IXML_Node \<times> bool) option" where
  "Parser_processETag err x n =
     do {
       (len, x1) \<leftarrow> Parser_getNextToken err x;
       if len = 0 \<or> tokenBuf x1 = None then Some (IXML_SYNTAX_ERR, x1, n, False)
       else do {
         let n1 = n\<lparr>nodeName := tokenBuf x1, nodeValue := None, nodeType := eELEMENT_NODE\<rparr>;
         p \<leftarrow> Parser_skipWhiteSpaces (curPtr x1);
         (len2, x2) \<leftarrow> Parser_getNextToken err (x1\<lparr>curPtr := p\<rparr>);
         if len2 = 0 \<or> tokenBuf x2 \<noteq> Some ''>'' then Some (IXML_SYNTAX_ERR, x2, n1, False)
         else Some (IXML_SUCCESS, x2, n1, True)
       }
     }"

subsection \<open>Content\<close>

text \<open>
  The end of a CDATA section: the first \<open>]]>\<close>, or the first byte that as a signed \<open>char\<close> is not an XML
  character, which any byte of a longer UTF-8 sequence is.
\<close>

fun cdata_end :: "cptr \<Rightarrow> nat option" where
  "cdata_end [] = None"
| "cdata_end (c # p) =
     (if Parser_isXmlChar (schar c) \<and> c \<noteq> NUL
      then do { b \<leftarrow> starts (c # p) CDEND; if b then Some 0 else map_option Suc (cdata_end p) }
      else Some 0)"

definition Parser_processCDSect :: "cptr \<Rightarrow> IXML_Node \<Rightarrow> (int \<times> cptr \<times> IXML_Node) option" where
  "Parser_processCDSect p n =
     do {
       let start = drop (length CDSTART) p;
       k \<leftarrow> cdata_end start;
       Some
         (if k > 0 \<and> start ! k \<noteq> NUL
          then (IXML_SUCCESS, drop (k + length CDEND) start,
                n\<lparr>nodeValue := Some (take k start), nodeName := Some CDATANODENAME, nodeType := eCDATA_SECTION_NODE\<rparr>)
          else (IXML_SYNTAX_ERR, p, n))
     }"

fun content_end :: "cptr \<Rightarrow> nat option" where
  "content_end [] = None"
| "content_end (c # p) =
     (if c = CHR ''<'' then Some 0
      else do {
        b \<leftarrow> starts (c # p) CDEND;
        if b \<or> c = NUL then Some 0 else map_option Suc (content_end p)
      })"

definition process_text :: "char \<Rightarrow> Parser \<Rightarrow> IXML_Node \<Rightarrow> (int \<times> Parser \<times> IXML_Node) option" where
  "process_text err x n =
     do {
       k \<leftarrow> content_end (curPtr x);
       b \<leftarrow> starts (drop k (curPtr x)) CDEND;
       if b then Some (IXML_SYNTAX_ERR, x, n)
       else do {
         (rc, buf) \<leftarrow> Parser_copyToken err (curPtr x) k None;
         let x1 = x\<lparr>tokenBuf := buf\<rparr>;
         Some
           (if rc \<noteq> IXML_SUCCESS \<or> buf = None then (IXML_SYNTAX_ERR, x1, n)
            else (IXML_SUCCESS, x1\<lparr>curPtr := drop k (curPtr x)\<rparr>,
                  n\<lparr>nodeValue := buf, nodeName := Some TEXTNODENAME, nodeType := eTEXT_NODE\<rparr>))
       }
     }"

definition Parser_processContent :: "char \<Rightarrow> Parser \<Rightarrow> IXML_Node \<Rightarrow> (int \<times> Parser \<times> IXML_Node) option" where
  "Parser_processContent err x n =
     do {
       p \<leftarrow> Parser_skipWhiteSpaces (curPtr x);
       let x1 = x\<lparr>savePtr := curPtr x, curPtr := p\<rparr>;
       if hd p = NUL then Some (IXML_SUCCESS, x1, n)
       else if hd p = CHR ''<''
       then do {
         c \<leftarrow> starts p CDSTART;
         m \<leftarrow> (if c then Some False else starts p BEGIN_COMMENT);
         i \<leftarrow> (if c \<or> m then Some False else starts p BEGIN_PI);
         if c
         then do {
           (rc, q, n1) \<leftarrow> Parser_processCDSect p n;
           Some (if rc \<noteq> IXML_SUCCESS then (IXML_SYNTAX_ERR, x1, n1) else (IXML_SUCCESS, x1\<lparr>curPtr := q\<rparr>, n1))
         }
         else if m \<or> i
         then do {
           (rc, q) \<leftarrow> (if m then Parser_skipComment p else Parser_skipPI p);
           Some (if rc \<noteq> IXML_SUCCESS then (IXML_SYNTAX_ERR, x1, n) else (IXML_SUCCESS, x1\<lparr>curPtr := q\<rparr>, n))
         }
         else Some (IXML_SUCCESS, x1\<lparr>state := eELEMENT\<rparr>, n)
       }
       else process_text err (x1\<lparr>curPtr := savePtr x1\<rparr>) n
     }"

subsection \<open>Namespaces\<close>

text \<open>The namespace of a prefix at the innermost element.\<close>

fun find_ns :: "IXML_NamespaceURI list \<Rightarrow> string \<Rightarrow> DOMString" where
  "find_ns [] pf = None"
| "find_ns (u # us) pf = (if ns_prefix u = pf then Some (nsURI u) else find_ns us pf)"

definition Parser_getNameSpace :: "Parser \<Rightarrow> string \<Rightarrow> DOMString option" where
  "Parser_getNameSpace x pf =
     (case pCurElement x of
        [] \<Rightarrow> None
      | e # _ \<Rightarrow> do { ep \<leftarrow> es_prefix e; Some (if ep \<noteq> pf then find_ns (pNsURI e) pf else es_namespaceUri e) })"

definition Parser_addNamespace :: "Parser \<Rightarrow> store \<Rightarrow> (int \<times> Parser \<times> store) option" where
  "Parser_addNamespace x s =
     (case (pNeedPrefixNode x, pCurElement x) of
        (Some a, e # _) \<Rightarrow>
          do {
            n \<leftarrow> s a;
            case prefix n of
              None \<Rightarrow>
                do {
                  nm \<leftarrow> nodeName n;
                  if nm \<noteq> es_element e then Some (IXML_FAILED, x, s)
                  else do {
                    s1 \<leftarrow> (if es_namespaceUri e = None then Some s
                           else put a (\<lambda>n. n\<lparr>namespaceURI := es_namespaceUri e\<rparr>) s);
                    Some (IXML_SUCCESS, x\<lparr>pNeedPrefixNode := None\<rparr>, s1)
                  }
                }
            | Some pf \<Rightarrow>
                (case es_prefix e of
                   None \<Rightarrow> Some (IXML_FAILED, x, s)
                 | Some ep \<Rightarrow>
                     do {
                       nm \<leftarrow> nodeName n;
                       if nm \<noteq> es_element e \<and> pf \<noteq> ep then Some (IXML_FAILED, x, s)
                       else do {
                         u \<leftarrow> Parser_getNameSpace x ep;
                         if u = None then Some (IXML_SUCCESS, x, s)
                         else do {
                           s1 \<leftarrow> put a (\<lambda>n. n\<lparr>namespaceURI := u\<rparr>) s;
                           Some (IXML_SUCCESS, x\<lparr>pNeedPrefixNode := None\<rparr>, s1)
                         }
                       }
                     })
          }
      | _ \<Rightarrow> None)"

text \<open>Setting the namespace of a prefix in a list; a new one is added at the end.\<close>

fun set_ns :: "IXML_NamespaceURI list \<Rightarrow> string \<Rightarrow> string \<Rightarrow> IXML_NamespaceURI list" where
  "set_ns [] pf uri = [\<lparr>nsURI = uri, ns_prefix = pf\<rparr>]"
| "set_ns (u # us) pf uri = (if ns_prefix u = pf then u\<lparr>nsURI := uri\<rparr> # us else u # set_ns us pf uri)"

definition ns_known :: "IXML_NamespaceURI list \<Rightarrow> string \<Rightarrow> bool" where
  "ns_known us pf \<longleftrightarrow> (\<exists>u \<in> set us. ns_prefix u = pf)"

text \<open>The definition of a namespace by an attribute.\<close>

definition define_ns ::
  "Parser \<Rightarrow> IXML_Node \<Rightarrow> mem \<Rightarrow> (int \<times> Parser \<times> IXML_Node \<times> mem) option" where
  "define_ns x n m =
     do {
       nm \<leftarrow> nodeName n;
       let v = (case nodeValue n of None \<Rightarrow> [] | Some v \<Rightarrow> v);
       if nm = ''xmlns''
       then (case pCurElement x of
               [] \<Rightarrow> None
             | e # es \<Rightarrow> Some (IXML_SUCCESS, x\<lparr>pCurElement := e\<lparr>es_namespaceUri := Some v\<rparr> # es\<rparr>, n, m))
       else if take 6 nm = ''xmlns:''
       then do {
         n1 \<leftarrow> Parser_setNodePrefixAndLocalName n;
         l \<leftarrow> localName n1;
         case pCurElement x of
           [] \<Rightarrow> Some (IXML_FAILED, x, n1, m)
         | e # es \<Rightarrow>
             if es_prefix e = Some l
             then Some (IXML_SUCCESS, x\<lparr>pCurElement := e\<lparr>es_namespaceUri := Some v\<rparr> # es\<rparr>, n1, m)
             else
               let r = (if ns_known (pNsURI e) l then (Some 0, fst m) else malloc (fst m));
                   m1 = (snd r, snd m)
               in if fst r = None then Some (IXML_INSUFFICIENT_MEMORY, x, n1, m1)
                  else Some (IXML_SUCCESS, x\<lparr>pCurElement := e\<lparr>pNsURI := set_ns (pNsURI e) l v\<rparr> # es\<rparr>, n1, m1)
       }
       else Some (IXML_SUCCESS, x, n, m)
     }"

definition Parser_xmlNamespace ::
  "Parser \<Rightarrow> IXML_Node \<Rightarrow> mem \<Rightarrow> (int \<times> Parser \<times> IXML_Node \<times> mem) option" where
  "Parser_xmlNamespace x n m =
     do {
       (rc, x1, n1, m1) \<leftarrow> define_ns x n m;
       if rc \<noteq> IXML_SUCCESS \<or> pNeedPrefixNode x1 = None then Some (rc, x1, n1, m1)
       else do {
         (rc2, x2, s2) \<leftarrow> Parser_addNamespace x1 (snd m1);
         Some (rc2, x2, n1, fst m1, s2)
       }
     }"

subsection \<open>Attributes\<close>

text \<open>The part of an attribute from the equals sign to the end of its value.\<close>

definition attribute_value ::
  "char \<Rightarrow> Parser \<Rightarrow> (int \<times> Parser \<times> DOMString) option" where
  "attribute_value err x =
     do {
       (len, x1) \<leftarrow> Parser_getNextToken err x;
       if len = 0 then Some (IXML_SYNTAX_ERR, x1, None)
       else do {
         eq \<leftarrow> tokenBuf x1;
         if hd eq \<noteq> CHR ''='' then Some (IXML_SYNTAX_ERR, x1, None)
         else do {
           (len2, x2) \<leftarrow> Parser_getNextToken err x1;
           if len2 = 0 then Some (IXML_SYNTAX_ERR, x2, None)
           else do {
             q \<leftarrow> tokenBuf x2;
             if hd q \<noteq> CHR 0x22 \<and> hd q \<noteq> CHR 0x27 then Some (IXML_SYNTAX_ERR, x2, None)
             else do {
               e \<leftarrow> strstr (curPtr x2) q;
               case e of
                 None \<Rightarrow> Some (IXML_SYNTAX_ERR, x2, None)
               | Some k \<Rightarrow>
                   if CHR ''<'' \<in> set (take k (curPtr x2)) then Some (IXML_SYNTAX_ERR, x2, None)
                   else do {
                     (rc, buf) \<leftarrow> (if k = 0 then Some (IXML_SUCCESS, None)
                                  else Parser_copyToken err (curPtr x2) k None);
                     let x3 = x2\<lparr>tokenBuf := buf\<rparr>;
                     if rc \<noteq> IXML_SUCCESS then Some (IXML_SYNTAX_ERR, x3, None)
                     else Some (IXML_SUCCESS, x3\<lparr>curPtr := drop (Suc k) (curPtr x2)\<rparr>, safe_strdup buf)
                   }
             }
           }
         }
       }
     }"

definition Parser_processAttribute ::
  "char \<Rightarrow> Parser \<Rightarrow> IXML_Node \<Rightarrow> mem \<Rightarrow> (int \<times> Parser \<times> IXML_Node \<times> mem) option" where
  "Parser_processAttribute err x n m =
     (case tokenBuf x of
        None \<Rightarrow> Some (IXML_SYNTAX_ERR, x, n, m)
      | Some tok \<Rightarrow>
          do {
            (c, _) \<leftarrow> Parser_UTF8ToInt err (tok @ [NUL]);
            b \<leftarrow> Parser_isNameChar c False;
            if \<not> b then Some (IXML_SYNTAX_ERR, x, n, m)
            else do {
              let n1 = n\<lparr>nodeName := Some tok\<rparr>;
              (rc, x1, v) \<leftarrow> attribute_value err x;
              if rc \<noteq> IXML_SUCCESS then Some (rc, x1, n1, m)
              else do {
                (rc2, x2, n2, m2) \<leftarrow> Parser_xmlNamespace x1 (n1\<lparr>nodeValue := v, nodeType := eATTRIBUTE_NODE\<rparr>) m;
                if rc2 \<noteq> IXML_SUCCESS then Some (rc2, x2, n2, m2)
                else do {
                  (len, x3) \<leftarrow> Parser_getNextToken err (x2\<lparr>savePtr := curPtr x2\<rparr>);
                  if len = 0 then Some (IXML_SYNTAX_ERR, x3, n2, m2)
                  else do {
                    t \<leftarrow> tokenBuf x3;
                    Some (if t = ''<'' then (IXML_FAILED, x3, n2, m2)
                          else if t \<noteq> ''>'' then (IXML_SUCCESS, x3\<lparr>curPtr := savePtr x3\<rparr>, n2, m2)
                          else (IXML_SUCCESS, x3\<lparr>state := eCONTENT\<rparr>, n2, m2))
                  }
                }
              }
            }
          })"

subsection \<open>The next node\<close>

record next_node =
  nn_rc :: int
  nn_parser :: Parser
  nn_node :: IXML_Node
  nn_bETag :: bool
  nn_mem :: mem

definition Parser_getNextNode :: "char \<Rightarrow> Parser \<Rightarrow> IXML_Node \<Rightarrow> mem \<Rightarrow> next_node option" where
  "Parser_getNextNode err x n m =
     (let ret = (\<lambda>rc x n b m. \<lparr>nn_rc = rc, nn_parser = x, nn_node = n, nn_bETag = b, nn_mem = m\<rparr>)
      in if curPtr x = [] then None
         else if hd (curPtr x) = NUL then Some (ret IXML_FILE_DONE x n True m)
         else if state x = eCONTENT
         then do { (rc, x1, n1) \<leftarrow> Parser_processContent err x n; Some (ret rc x1 n1 False m) }
         else do {
           p \<leftarrow> Parser_skipWhiteSpaces (curPtr x);
           (len, x1) \<leftarrow> Parser_getNextToken err (x\<lparr>curPtr := p\<rparr>);
           if len = 0 \<and> pCurElement x1 = [] \<and> hd (curPtr x1) = NUL then Some (ret IXML_SUCCESS x1 n False m)
           else
             (case tokenBuf x1 of
                None \<Rightarrow> Some (ret IXML_SYNTAX_ERR x1 n False m)
              | Some tok \<Rightarrow>
                  if hd tok = CHR ''>'' then Some (ret IXML_SUCCESS x1 n False m)
                  else if tok = ENDTAG
                  then do { (rc, x2, n2, b) \<leftarrow> Parser_processETag err x1 n; Some (ret rc x2 n2 b m) }
                  else if hd tok = CHR ''<''
                  then do { (rc, x2, n2) \<leftarrow> Parser_processSTag err x1 n; Some (ret rc x2 n2 False m) }
                  else if tok = COMPLETETAG
                  then Some
                    (if lastElem x1 = None then ret IXML_SYNTAX_ERR x1 n False m
                     else ret IXML_SUCCESS x1 (n\<lparr>nodeName := lastElem x1, nodeType := eELEMENT_NODE\<rparr>) True m)
                  else if pCurElement x1 \<noteq> [] \<and> state x1 = eATTRIBUTE
                  then do {
                    (rc, x2, n2, m2) \<leftarrow> Parser_processAttribute err x1 n m;
                    Some (ret (if rc \<noteq> IXML_SUCCESS then IXML_SYNTAX_ERR else IXML_SUCCESS) x2 n2 False m2)
                  }
                  else Some (ret IXML_SYNTAX_ERR x1 n False m))
         })"

subsection \<open>The document\<close>

text \<open>The namespace of a prefix at any open element, which may be NULL; and the default namespace.\<close>

fun Parser_ElementPrefixDefined :: "IXML_ElementStack list \<Rightarrow> string \<Rightarrow> DOMString option" where
  "Parser_ElementPrefixDefined [] pf = None"
| "Parser_ElementPrefixDefined (e # es) pf =
     (if es_prefix e = Some pf then Some (es_namespaceUri e)
      else if ns_known (pNsURI e) pf then Some (find_ns (pNsURI e) pf)
      else Parser_ElementPrefixDefined es pf)"

fun Parser_hasDefaultNamespace :: "IXML_ElementStack list \<Rightarrow> DOMString" where
  "Parser_hasDefaultNamespace [] = None"
| "Parser_hasDefaultNamespace (e # es) =
     (if es_prefix e = None \<and> es_namespaceUri e \<noteq> None then es_namespaceUri e
      else Parser_hasDefaultNamespace es)"

definition Parser_setElementNamespace :: "nat \<Rightarrow> DOMString \<Rightarrow> store \<Rightarrow> store option" where
  "Parser_setElementNamespace a uri s =
     put a (\<lambda>n. if namespaceURI n \<noteq> None then n else n\<lparr>namespaceURI := safe_strdup uri\<rparr>) s"

definition isDuplicateAttribute :: "Parser \<Rightarrow> IXML_Node \<Rightarrow> store \<Rightarrow> bool option" where
  "isDuplicateAttribute x new s =
     do {
       a \<leftarrow> currentNodePtr x;
       nm \<leftarrow> nodeName new;
       p \<leftarrow> find_attr (named nm) s a;
       Some (p \<noteq> None)
     }"

definition Parser_processAttributeName :: "ptr \<Rightarrow> Parser \<Rightarrow> IXML_Node \<Rightarrow> mem \<Rightarrow> (int \<times> mem) option" where
  "Parser_processAttributeName doc x new m =
     do {
       dup \<leftarrow> isDuplicateAttribute x new (snd m);
       if dup then Some (IXML_SYNTAX_ERR, m)
       else do {
         (rc, p, m1) \<leftarrow> ixmlDocument_createAttributeEx doc (nodeName new) m;
         case p of
           None \<Rightarrow> Some (rc, m1)
         | Some a \<Rightarrow>
             do {
               s1 \<leftarrow> put a (\<lambda>n. ixmlNode_setNodeProperties n new) (snd m1);
               (rc2, _, s2) \<leftarrow> ixmlElement_setAttributeNode s1 (currentNodePtr x) p False;
               s3 \<leftarrow> (if rc2 \<noteq> IXML_SUCCESS then ixmlNode_free s2 p else Some s2);
               Some (rc2, fst m1, s3)
             }
       }
     }"

definition Parser_pushElement :: "Parser \<Rightarrow> nat \<Rightarrow> mem \<Rightarrow> (int \<times> Parser \<times> mem) option" where
  "Parser_pushElement x a m =
     do {
       n \<leftarrow> snd m a;
       case malloc (fst m) of
         (None, h1) \<Rightarrow> Some (IXML_INSUFFICIENT_MEMORY, x, h1, snd m)
       | (Some _, h1) \<Rightarrow>
           Some (IXML_SUCCESS,
                 x\<lparr>pCurElement :=
                     \<lparr>es_element = the (safe_strdup (nodeName n)), es_prefix = prefix n,
                      es_namespaceUri = namespaceURI n, pNsURI = []\<rparr> # pCurElement x\<rparr>,
                 h1, snd m)
     }"

text \<open>The namespace of a new element, and whether it may be defined by one of its attributes.\<close>

definition element_namespace :: "Parser \<Rightarrow> IXML_Node \<Rightarrow> nat \<Rightarrow> store \<Rightarrow> (Parser \<times> store) option" where
  "element_namespace x new a s =
     (case prefix new of
        Some pf \<Rightarrow>
          (case Parser_ElementPrefixDefined (pCurElement x) pf of
             None \<Rightarrow> Some (x\<lparr>pNeedPrefixNode := Some a\<rparr>, s)
           | Some uri \<Rightarrow> map_option (Pair x) (Parser_setElementNamespace a uri s))
      | None \<Rightarrow>
          (case Parser_hasDefaultNamespace (pCurElement x) of
             Some uri \<Rightarrow> map_option (Pair x) (Parser_setElementNamespace a (Some uri) s)
           | None \<Rightarrow> Some (if state x = eATTRIBUTE then x\<lparr>pNeedPrefixNode := Some a\<rparr> else x, s)))"

definition Parser_processElementName ::
  "ptr \<Rightarrow> Parser \<Rightarrow> IXML_Node \<Rightarrow> mem \<Rightarrow> (int \<times> Parser \<times> mem) option" where
  "Parser_processElementName doc x new m =
     (if bHasTopLevel x \<and> pCurElement x = [] then Some (IXML_SYNTAX_ERR, x, m)
      else
        let x1 = x\<lparr>bHasTopLevel := True, savePtr := curPtr x\<rparr>
        in
          (case ixmlDocument_createElementEx doc (nodeName new) m of
             (rc, None, m1) \<Rightarrow> Some (rc, x1, m1)
           | (rc, Some a, m1) \<Rightarrow>
               do {
                 s1 \<leftarrow> put a (\<lambda>n. ixmlNode_setNodeProperties n new) (snd m1);
                 (x2, s2) \<leftarrow> element_namespace x1 new a s1;
                 (rc3, s3) \<leftarrow> ixmlNode_appendChild s2 (currentNodePtr x2) (Some a);
                 if rc3 \<noteq> IXML_SUCCESS
                 then do { s4 \<leftarrow> ixmlNode_free s3 (Some a); Some (rc3, x2, fst m1, s4) }
                 else Parser_pushElement (x2\<lparr>currentNodePtr := Some a\<rparr>) a (fst m1, s3)
               }))"

definition Parser_isValidEndElement :: "Parser \<Rightarrow> string \<Rightarrow> bool" where
  "Parser_isValidEndElement x name \<longleftrightarrow> (case pCurElement x of [] \<Rightarrow> False | e # _ \<Rightarrow> es_element e = name)"

definition Parser_popElement :: "Parser \<Rightarrow> Parser" where
  "Parser_popElement x = x\<lparr>pCurElement := tl (pCurElement x)\<rparr>"

definition Parser_eTagVerification :: "Parser \<Rightarrow> IXML_Node \<Rightarrow> store \<Rightarrow> (int \<times> Parser) option" where
  "Parser_eTagVerification x new s =
     do {
       nm \<leftarrow> nodeName new;
       if nodeType new = eELEMENT_NODE \<and> \<not> Parser_isValidEndElement x nm then Some (IXML_SYNTAX_ERR, x)
       else do {
         let x1 = (if nodeType new = eELEMENT_NODE then Parser_popElement x else x);
         a \<leftarrow> currentNodePtr x1;
         n \<leftarrow> s a;
         nm2 \<leftarrow> nodeName n;
         Some (if nm = nm2 then (IXML_SUCCESS, x1\<lparr>currentNodePtr := parentNode n\<rparr>) else (IXML_SYNTAX_ERR, x1))
       }
     }"

text \<open>What the loop does with the node that has been read.\<close>

definition append_new :: "Parser \<Rightarrow> int \<times> ptr \<times> mem \<Rightarrow> (int \<times> Parser \<times> mem) option" where
  "append_new x r =
     (case r of
        (rc, p, m1) \<Rightarrow>
          if rc \<noteq> IXML_SUCCESS then Some (rc, x, m1)
          else do {
            (rc2, s2) \<leftarrow> ixmlNode_appendChild (snd m1) (currentNodePtr x) p;
            Some (rc2, x, fst m1, s2)
          })"

definition Parser_processNode :: "ptr \<Rightarrow> next_node \<Rightarrow> (int \<times> Parser \<times> mem) option" where
  "Parser_processNode doc r =
     (let x = nn_parser r; n = nn_node r; m = nn_mem r
      in if nn_bETag r
         then do {
           (rc, x1) \<leftarrow> Parser_eTagVerification x n (snd m);
           Some (rc, if rc = IXML_SUCCESS then x1\<lparr>state := eCONTENT\<rparr> else x1, m)
         }
         else
           (case nodeType n of
              eELEMENT_NODE \<Rightarrow> Parser_processElementName doc x n m
            | eTEXT_NODE \<Rightarrow> append_new x (ixmlDocument_createTextNodeEx doc (nodeValue n) m)
            | eCDATA_SECTION_NODE \<Rightarrow> append_new x (ixmlDocument_createCDATASectionEx doc (nodeValue n) m)
            | eATTRIBUTE_NODE \<Rightarrow>
                map_option (\<lambda>(rc, m1). (rc, x, m1)) (Parser_processAttributeName doc x n m)
            | _ \<Rightarrow> Some (IXML_SUCCESS, x, m)))"

partial_function (option) parse_loop :: "char \<Rightarrow> ptr \<Rightarrow> Parser \<times> mem \<Rightarrow> (int \<times> Parser \<times> mem) option" where
  "parse_loop err doc xm =
     do {
       r \<leftarrow> Parser_getNextNode err (fst xm) ixmlNode_init (snd xm);
       if nn_rc r = IXML_SUCCESS
       then do {
         q \<leftarrow> Parser_processNode doc r;
         if fst q \<noteq> IXML_SUCCESS then Some q else parse_loop err doc (snd q)
       }
       else if nn_bETag r then Some (IXML_SUCCESS, nn_parser r, nn_mem r)
       else Some (IXML_FAILED, nn_parser r, nn_mem r)
     }"

definition Parser_parseDocument :: "char \<Rightarrow> Parser \<Rightarrow> mem \<Rightarrow> (int \<times> ptr \<times> mem) option" where
  "Parser_parseDocument err x m =
     (case ixmlDocument_createDocumentEx m of
        (rc, None, m1) \<Rightarrow> Some (rc, None, m1)
      | (_, doc, m1) \<Rightarrow>
          do {
            (rc, p) \<leftarrow> Parser_skipProlog (curPtr x);
            let x1 = x\<lparr>currentNodePtr := doc, curPtr := p\<rparr>;
            (rc2, x2, m2) \<leftarrow> (if rc \<noteq> IXML_SUCCESS then Some (rc, x1, m1) else parse_loop err doc (x1, m1));
            let rc3 = (if rc2 = IXML_SUCCESS \<and> pCurElement x2 \<noteq> [] then IXML_SYNTAX_ERR else rc2);
            if rc3 \<noteq> IXML_SUCCESS
            then do { s3 \<leftarrow> ixmlNode_free (snd m2) doc; Some (rc3, None, fst m2, s3) }
            else Some (IXML_SUCCESS, doc, m2)
          })"

definition Parser_init :: "heap \<Rightarrow> Parser option \<times> heap" where
  "Parser_init h =
     (case malloc h of
        (None, h1) \<Rightarrow> (None, h1)
      | (Some _, h1) \<Rightarrow>
          (Some \<lparr>dataBuffer = [], curPtr = [], savePtr = [], lastElem = None, tokenBuf = None,
                 pNeedPrefixNode = None, pCurElement = [], currentNodePtr = None, state = eELEMENT,
                 bHasTopLevel = False\<rparr>, h1))"

text \<open>A file is what it can be read as; an empty one is rejected.\<close>

definition Parser_readFileOrBuffer :: "(string \<Rightarrow> char list option) \<Rightarrow> string \<Rightarrow> bool \<Rightarrow> int \<times> cptr" where
  "Parser_readFileOrBuffer read_whole name file =
     (if file
      then
        (case read_whole name of
           None \<Rightarrow> (IXML_NO_SUCH_FILE, [])
         | Some t \<Rightarrow> if t = [] then (IXML_SYNTAX_ERR, []) else (IXML_SUCCESS, t @ [NUL]))
      else (IXML_SUCCESS, name @ [NUL]))"

definition Parser_LoadDocument ::
  "(string \<Rightarrow> char list option) \<Rightarrow> char \<Rightarrow> string \<Rightarrow> bool \<Rightarrow> mem \<Rightarrow> (int \<times> ptr \<times> mem) option" where
  "Parser_LoadDocument read_whole err name file m =
     (case Parser_init (fst m) of
        (None, h1) \<Rightarrow> Some (IXML_INSUFFICIENT_MEMORY, None, h1, snd m)
      | (Some x, h1) \<Rightarrow>
          (case Parser_readFileOrBuffer read_whole name file of
             (rc, buf) \<Rightarrow>
               if rc \<noteq> IXML_SUCCESS then Some (rc, None, h1, snd m)
               else Parser_parseDocument err (x\<lparr>dataBuffer := buf, curPtr := buf\<rparr>) (h1, snd m)))"

definition ixmlParseBufferEx :: "char \<Rightarrow> DOMString \<Rightarrow> mem \<Rightarrow> (int \<times> ptr \<times> mem) option" where
  "ixmlParseBufferEx err buffer m =
     (case buffer of
        None \<Rightarrow> Some (IXML_INVALID_PARAMETER, None, m)
      | Some b \<Rightarrow>
          if b = [] then Some (IXML_INVALID_PARAMETER, None, m)
          else Parser_LoadDocument (\<lambda>_. None) err b False m)"

definition ixmlLoadDocumentEx ::
  "(string \<Rightarrow> char list option) \<Rightarrow> char \<Rightarrow> DOMString \<Rightarrow> mem \<Rightarrow> (int \<times> ptr \<times> mem) option" where
  "ixmlLoadDocumentEx read_whole err name m =
     (case name of
        None \<Rightarrow> Some (IXML_INVALID_PARAMETER, None, m)
      | Some nm \<Rightarrow> Parser_LoadDocument read_whole err nm True m)"

declare parse_loop.simps [code]

end
