(* ===== verification/XmlPrint.thy ===== *)
theory XmlPrint
  imports XmlParser
begin

text \<open>
  Printing a DOM (\<open>ixml/src/ixml.c\<close>). What is appended to the buffer is the string that is returned;
  a NULL pointer passed to \<open>strlen\<close> is undefined, as is a chain of nodes that does not end.
\<close>

subsection \<open>Escaping\<close>

fun escape :: "string \<Rightarrow> string" where
  "escape [] = []"
| "escape (c # s) =
     (if c = CHR ''<'' then LT
      else if c = CHR ''>'' then GT
      else if c = CHR ''&'' then AMP
      else if c = CHR 0x27 then APOS
      else if c = CHR 0x22 then QUOT
      else [c]) @ escape s"

definition copy_with_escape :: "DOMString \<Rightarrow> string" where
  "copy_with_escape p = (case p of None \<Rightarrow> [] | Some s \<Rightarrow> escape s)"

subsection \<open>Trees\<close>

definition NEWLINE :: string where "NEWLINE = [CHR 0x0D, CHR 0x0A]"

definition print_attr :: "IXML_Node \<Rightarrow> string option" where
  "print_attr n =
     do { nm \<leftarrow> nodeName n; Some (nm @ [CHR ''='', CHR 0x22] @ copy_with_escape (nodeValue n) @ [CHR 0x22]) }"

text \<open>
  Behind a text node, a CDATA section or a processing instruction the siblings are not printed.
\<close>

partial_function (option) ixmlPrintDomTreeRecursive :: "store \<Rightarrow> ptr \<Rightarrow> string option" where
  "ixmlPrintDomTreeRecursive s p =
     (case p of
        None \<Rightarrow> Some []
      | Some a \<Rightarrow>
          do {
            n \<leftarrow> s a;
            case nodeType n of
              eTEXT_NODE \<Rightarrow> Some (copy_with_escape (nodeValue n))
            | eCDATA_SECTION_NODE \<Rightarrow> do { v \<leftarrow> nodeValue n; Some (CDSTART @ v @ CDEND) }
            | ePROCESSING_INSTRUCTION_NODE \<Rightarrow>
                do {
                  nm \<leftarrow> nodeName n;
                  Some (BEGIN_PI @ nm @ '' '' @ copy_with_escape (nodeValue n) @ END_PI @ [CHR 0x0A])
                }
            | eDOCUMENT_NODE \<Rightarrow> ixmlPrintDomTreeRecursive s (firstChild n)
            | eATTRIBUTE_NODE \<Rightarrow>
                do {
                  t \<leftarrow> print_attr n;
                  if nextSibling n = None then Some t
                  else do { u \<leftarrow> ixmlPrintDomTreeRecursive s (nextSibling n); Some (t @ '' '' @ u) }
                }
            | eELEMENT_NODE \<Rightarrow>
                do {
                  nm \<leftarrow> nodeName n;
                  x \<leftarrow> ixmlPrintDomTreeRecursive s (firstAttr n);
                  ct \<leftarrow> ixmlNode_getNodeType s (firstChild n);
                  k \<leftarrow> ixmlPrintDomTreeRecursive s (firstChild n);
                  st \<leftarrow> ixmlNode_getNodeType s (nextSibling n);
                  r \<leftarrow> ixmlPrintDomTreeRecursive s (nextSibling n);
                  Some
                    (''<'' @ nm @ (if firstAttr n = None then [] else '' '' @ x) @ ''>'' @
                     (if ct = eELEMENT_NODE then NEWLINE else []) @ k @ ENDTAG @ nm @ ''>'' @
                     (if st = eTEXT_NODE then [] else NEWLINE) @ r)
                }
            | _ \<Rightarrow> Some []
          })"

text \<open>
  The node itself without the siblings of an element or an attribute; the two functions differ in
  the line breaks \<open>nl\<close> behind the tags of the node.
\<close>

definition print_top :: "string \<Rightarrow> store \<Rightarrow> ptr \<Rightarrow> string option" where
  "print_top nl s p =
     (case p of
        None \<Rightarrow> Some []
      | Some a \<Rightarrow>
          do {
            n \<leftarrow> s a;
            case nodeType n of
              eATTRIBUTE_NODE \<Rightarrow> print_attr n
            | eELEMENT_NODE \<Rightarrow>
                do {
                  nm \<leftarrow> nodeName n;
                  x \<leftarrow> ixmlPrintDomTreeRecursive s (firstAttr n);
                  ct \<leftarrow> ixmlNode_getNodeType s (firstChild n);
                  k \<leftarrow> ixmlPrintDomTreeRecursive s (firstChild n);
                  Some
                    (''<'' @ nm @ (if firstAttr n = None then [] else '' '' @ x) @ ''>'' @
                     (if ct = eELEMENT_NODE then nl else []) @ k @ ENDTAG @ nm @ ''>'' @ nl)
                }
            | _ \<Rightarrow>
                (if nodeType n \<in> {eTEXT_NODE, eCDATA_SECTION_NODE, ePROCESSING_INSTRUCTION_NODE, eDOCUMENT_NODE}
                 then ixmlPrintDomTreeRecursive s p else Some [])
          })"

definition ixmlPrintDomTree :: "store \<Rightarrow> ptr \<Rightarrow> string option" where
  "ixmlPrintDomTree s p = print_top NEWLINE s p"

definition ixmlDomTreetoString :: "store \<Rightarrow> ptr \<Rightarrow> string option" where
  "ixmlDomTreetoString s p = print_top [] s p"

subsection \<open>Documents\<close>

text \<open>The buffer is NULL if nothing has been appended to it.\<close>

definition buf_of :: "string \<Rightarrow> DOMString" where "buf_of t = (if t = [] then None else Some t)"

definition XMLHEAD :: string where
  "XMLHEAD = ''<?xml version='' @ [CHR 0x22] @ ''1.0'' @ [CHR 0x22] @ ''?>'' @ NEWLINE"

definition ixmlPrintDocument :: "store \<Rightarrow> ptr \<Rightarrow> DOMString option" where
  "ixmlPrintDocument s doc =
     (if doc = None then Some None
      else do { t \<leftarrow> ixmlPrintDomTree s doc; Some (buf_of (XMLHEAD @ t)) })"

definition ixmlPrintNode :: "store \<Rightarrow> ptr \<Rightarrow> DOMString option" where
  "ixmlPrintNode s p = (if p = None then Some None else map_option buf_of (ixmlPrintDomTree s p))"

definition ixmlDocumenttoString :: "store \<Rightarrow> ptr \<Rightarrow> DOMString option" where
  "ixmlDocumenttoString s doc =
     (if doc = None then Some None
      else do { t \<leftarrow> ixmlDomTreetoString s doc; Some (buf_of (XMLHEAD @ t)) })"

definition ixmlNodetoString :: "store \<Rightarrow> ptr \<Rightarrow> DOMString option" where
  "ixmlNodetoString s p = (if p = None then Some None else map_option buf_of (ixmlDomTreetoString s p))"

declare ixmlPrintDomTreeRecursive.simps [code]

end
