(* ===== verification/XmlEscape.thy ===== *)
theory XmlEscape
  imports XmlText XmlPrint
begin

text \<open>
  What the printer of \<open>ixml.c\<close> escapes the scanner of \<open>ixmlparser.c\<close> reads back: a lemma on one
  character with anything behind it, and induction over the text.
\<close>

subsection \<open>Texts\<close>

definition utf8 :: "int list \<Rightarrow> string" where "utf8 cs = concat (map Parser_intToUTF8 cs)"

lemma utf8_simps [simp]: "utf8 [] = []" "utf8 (c # cs) = Parser_intToUTF8 c @ utf8 cs"
  by (simp_all add: utf8_def)

lemma intToUTF8_ascii: "0 \<le> c \<Longrightarrow> c \<le> 127 \<Longrightarrow> Parser_intToUTF8 c = [to_char c]"
  by (simp add: Parser_intToUTF8_def)

lemma high_cont: "0 \<le> c \<Longrightarrow> 128 \<le> code (cont_byte c k)"
  using cont_byte_code[of c k] pos_mod_sign[of 64 "c div 2 ^ k"] by linarith

lemma intToUTF8_long:
  assumes "127 < c" "c \<le> 0x10FFFF"
  shows "\<forall>b \<in> set (Parser_intToUTF8 c). 128 \<le> code b" "2 \<le> length (Parser_intToUTF8 c)"
proof -
  consider "c \<le> 0x7FF" | "0x7FF < c" "c \<le> 0xFFFF" | "0xFFFF < c" using assms by linarith
  then have "(\<forall>b \<in> set (Parser_intToUTF8 c). 128 \<le> code b) \<and> 2 \<le> length (Parser_intToUTF8 c)"
  proof cases
    case 1
    have "int (code (to_char (0xC0 OR drop_bit 6 c))) = 192 + drop_bit 6 c"
      using 1 assms by (intro lead_code) (simp_all add: drop_bit_eq_div)
    moreover have "0 \<le> drop_bit 6 c" using assms by simp
    ultimately have "128 \<le> code (to_char (0xC0 OR drop_bit 6 c))" by linarith
    then show ?thesis using 1 assms high_cont[of c] by (simp add: Parser_intToUTF8_def)
  next
    case 2
    have "int (code (to_char (0xE0 OR drop_bit 12 c))) = 224 + drop_bit 12 c"
      using 2 assms by (intro lead_code) (simp_all add: drop_bit_eq_div)
    moreover have "0 \<le> drop_bit 12 c" using assms by simp
    ultimately have "128 \<le> code (to_char (0xE0 OR drop_bit 12 c))" by linarith
    then show ?thesis using 2 assms high_cont[of c] by (simp add: Parser_intToUTF8_def)
  next
    case 3
    have "int (code (to_char (0xF0 OR drop_bit 18 c))) = 240 + drop_bit 18 c"
      using 3 assms by (intro lead_code) (simp_all add: drop_bit_eq_div)
    moreover have "0 \<le> drop_bit 18 c" using assms by simp
    ultimately have "128 \<le> code (to_char (0xF0 OR drop_bit 18 c))" by linarith
    then show ?thesis using 3 assms high_cont[of c] by (simp add: Parser_intToUTF8_def)
  qed
  then show "\<forall>b \<in> set (Parser_intToUTF8 c). 128 \<le> code b" "2 \<le> length (Parser_intToUTF8 c)" by blast+
qed

lemma xml_char_range: "Parser_isXmlChar c \<Longrightarrow> 0 < c \<and> c \<le> 0x10FFFF"
  by (auto simp: Parser_isXmlChar_def)

subsection \<open>Escaping\<close>

lemma escape_append: "escape (s @ t) = escape s @ escape t"
  by (induction s rule: escape.induct) auto

lemma escape_high: "\<forall>b \<in> set s. 128 \<le> code b \<Longrightarrow> escape s = s"
  by (induction s) (auto simp: code_def)

lemma schar_high: "128 \<le> code b \<Longrightarrow> schar b < 0"
  using code_less[of b] by (simp add: schar_def)

lemma schar_ascii: "0 \<le> c \<Longrightarrow> c \<le> 127 \<Longrightarrow> schar (to_char c) = c"
  using code_to_char[of c] by (simp add: schar_def)

definition special :: "int \<Rightarrow> bool" where
  "special c \<longleftrightarrow> c \<in> {0x3C, 0x3E, 0x26, 0x27, 0x22}"

lemma special_char: "0 \<le> c \<Longrightarrow> c \<le> 127 \<Longrightarrow> special c \<longleftrightarrow> to_char c \<in> {CHR ''<'', CHR ''>'', CHR ''&'', CHR 0x27, CHR 0x22}"
proof -
  assume c: "0 \<le> c" "c \<le> 127"
  have e: "to_char c = ch \<longleftrightarrow> c = int (code ch)" for ch
    using code_to_char[of c] c code_inj[of "to_char c" ch] by auto
  show ?thesis unfolding special_def e by (auto simp: e code_def)
qed

lemma lower_lits:
  "tolower CHR ''&'' = CHR ''&''" "tolower CHR ''l'' = CHR ''l''" "tolower CHR ''t'' = CHR ''t''"
  "tolower CHR ''g'' = CHR ''g''" "tolower CHR ''a'' = CHR ''a''" "tolower CHR ''m'' = CHR ''m''"
  "tolower CHR ''p'' = CHR ''p''" "tolower CHR ''o'' = CHR ''o''" "tolower CHR ''s'' = CHR ''s''"
  "tolower CHR ''q'' = CHR ''q''" "tolower CHR ''u'' = CHR ''u''" "tolower CHR '';'' = CHR '';''"
  by code_simp+

lemma schar_lits:
  "schar CHR ''<'' = 0x3C" "schar CHR ''>'' = 0x3E" "schar CHR ''&'' = 0x26" "schar CHR 0x27 = 0x27"
  "schar CHR 0x22 = 0x22"
  by code_simp+

lemma to_char_lits:
  "to_char 0x3C = CHR ''<''" "to_char 0x3E = CHR ''>''" "to_char 0x26 = CHR ''&''" "to_char 0x27 = CHR 0x27"
  "to_char 0x22 = CHR 0x22"
  by code_simp+

lemma getChar_special:
  "Parser_getChar err (LT @ r) = Some (0x3C, length LT)"
  "Parser_getChar err (GT @ r) = Some (0x3E, length GT)"
  "Parser_getChar err (AMP @ r) = Some (0x26, length AMP)"
  "Parser_getChar err (APOS @ r) = Some (0x27, length APOS)"
  "Parser_getChar err (QUOT @ r) = Some (0x22, length QUOT)"
  by (simp_all add: Parser_getChar_def entity_defs lower_lits schar_lits)

lemma getChar_escaped:
  assumes "Parser_isXmlChar c"
  shows "Parser_getChar err (escape (Parser_intToUTF8 c) @ r) = Some (c, length (escape (Parser_intToUTF8 c)))"
proof -
  note range = xml_char_range[OF assms]
  consider "c \<le> 127" "special c" | "c \<le> 127" "\<not> special c" | "127 < c" by linarith
  then show ?thesis
  proof cases
    case 1
    then show ?thesis using getChar_special[of err r]
      by (auto simp: special_def intToUTF8_ascii to_char_lits)
  next
    case 2
    then have s: "to_char c \<notin> {CHR ''<'', CHR ''>'', CHR ''&'', CHR 0x27, CHR 0x22}"
      using special_char[of c] range by simp
    then have e: "escape (Parser_intToUTF8 c) = [to_char c]" using 2 range by (simp add: intToUTF8_ascii)
    show ?thesis unfolding e using s assms range 2 schar_ascii[of c]
      by (simp add: Parser_getChar_def plain_getChar_def Let_def)
  next
    case 3
    note long = intToUTF8_long[OF 3 conjunct2[OF range]]
    then obtain b bs where b: "Parser_intToUTF8 c = b # bs" by (cases "Parser_intToUTF8 c") auto
    then have "128 \<le> code b" using long(1) by simp
    then have "schar b < 0" "b \<noteq> CHR ''&''" using schar_high[of b] by (auto simp: code_def)
    moreover have "escape (Parser_intToUTF8 c) = Parser_intToUTF8 c" by (rule escape_high[OF long(1)])
    moreover have "Parser_UTF8ToInt err (Parser_intToUTF8 c @ r) = Some (c, length (Parser_intToUTF8 c))"
      using 3 range decoded[of c err r] by simp
    ultimately show ?thesis using assms b
      by (simp add: Parser_getChar_def plain_getChar_def Let_def)
  qed
qed

subsection \<open>Copying\<close>

lemma append_tok_append: "append_tok (append_tok b s) t = append_tok b (s @ t)"
  by (cases b) (auto simp: append_tok_def)

lemma copy_escaped_char:
  assumes "Parser_isXmlChar c" "0 \<le> len"
  shows "copy_loop err (escape (Parser_intToUTF8 c) @ p) (int (length (escape (Parser_intToUTF8 c))) + len) buf =
    copy_loop err p len (append_tok buf (Parser_intToUTF8 c))"
proof -
  note range = xml_char_range[OF assms(1)]
  let ?e = "escape (Parser_intToUTF8 c)"
  have ne: "?e \<noteq> []" "Parser_intToUTF8 c \<noteq> []"
    using getChar_escaped[OF assms(1), of err "[]"] range intToUTF8_ascii[of c] intToUTF8_long(2)[of c]
    by (auto simp: Parser_getChar_def)
  have one: "Parser_intToUTF8 c = [to_char c]" if "length ?e = 1"
  proof (rule ccontr)
    assume "Parser_intToUTF8 c \<noteq> [to_char c]"
    then have "127 < c" using intToUTF8_ascii[of c] range by linarith
    then show False using intToUTF8_long[of c] range escape_high that by auto
  qed
  have pos: "0 < int (length ?e) + len" using ne(1) assms(2) by (cases ?e) auto
  show ?thesis
    using getChar_escaped[OF assms(1), of err p] ne assms(2) range one pos
    by (subst copy_loop.simps) auto
qed

lemma copy_escaped:
  "\<forall>c \<in> set cs. Parser_isXmlChar c \<Longrightarrow>
     copy_loop err (escape (utf8 cs) @ r) (int (length (escape (utf8 cs)))) buf =
     Some (IXML_SUCCESS, append_tok buf (utf8 cs))"
proof (induction cs arbitrary: buf)
  case Nil
  then show ?case by (simp add: copy_loop.simps append_tok_def)
next
  case (Cons c cs)
  have "copy_loop err (escape (utf8 (c # cs)) @ r) (int (length (escape (utf8 (c # cs))))) buf =
      copy_loop err (escape (utf8 cs) @ r) (int (length (escape (utf8 cs)))) (append_tok buf (Parser_intToUTF8 c))"
    using copy_escaped_char[of c "int (length (escape (utf8 cs)))" err "escape (utf8 cs) @ r" buf] Cons.prems
    by (simp add: escape_append)
  then show ?case using Cons by (simp add: append_tok_append)
qed

text \<open>
  C16: A text of XML characters, encoded in UTF-8 and escaped by the printer, is copied by the scanner
  as the text itself, whatever follows it and whatever the error character is.
\<close>

theorem escape_roundtrip:
  assumes "cs \<noteq> []" and "\<forall>c \<in> set cs. Parser_isXmlChar c" and "s = utf8 cs"
  shows "Parser_copyToken err (copy_with_escape (Some s) @ r) (length (copy_with_escape (Some s))) None =
    Some (IXML_SUCCESS, Some s)"
proof -
  obtain c cs' where cs: "cs = c # cs'" using assms(1) by (cases cs) auto
  have "escape (Parser_intToUTF8 c) \<noteq> []"
    using getChar_escaped[of c err "[]"] assms(2) cs by (auto simp: Parser_getChar_def)
  then have "escape s \<noteq> []" "s \<noteq> []" using cs assms(3) by (auto simp: escape_append)
  then show ?thesis
    using copy_escaped[OF assms(2), of err r None] assms(3)
    by (simp add: Parser_copyToken_def copy_with_escape_def append_tok_def)
qed

theorem escape_roundtrip_witness:
  "Parser_copyToken NUL (copy_with_escape (Some ''a<b'') @ ''</x>'') (length (copy_with_escape (Some ''a<b''))) None =
   Some (IXML_SUCCESS, Some ''a<b'') \<and> copy_with_escape (Some ''a<b'') = ''a&lt;b''"
proof (rule conjI)
  show "Parser_copyToken NUL (copy_with_escape (Some ''a<b'') @ ''</x>'') (length (copy_with_escape (Some ''a<b''))) None =
      Some (IXML_SUCCESS, Some ''a<b'')"
    by (rule escape_roundtrip[where cs = "[0x61, 0x3C, 0x62]" and err = NUL and r = "''</x>''" and s = "''a<b''"])
      (simp_all add: Parser_isXmlChar_def, code_simp)
  show "copy_with_escape (Some ''a<b'') = ''a&lt;b''"
    by (simp add: copy_with_escape_def LT_def)
qed

end
