(* ===== verification/UriDots.thy ===== *)
theory UriDots
  imports UriProperties
begin

text \<open>
  \<open>remove_dots\<close> against its purpose: on a path that starts with a slash and has neither query nor
  fragment the in-place algorithm with its array of segment starts computes what a stack of segments
  does, and fails exactly when \<open>..\<close> would leave the root.
\<close>

subsection \<open>The reference definition\<close>

fun split_slash :: "string \<Rightarrow> string list" where
  "split_slash [] = [[]]"
| "split_slash (c # s) =
     (if c = CHR ''/'' then [] # split_slash s
      else (c # hd (split_slash s)) # tl (split_slash s))"

text \<open>The stack is kept in reverse; the result is the segments and what follows the last slash.\<close>

fun normal :: "string list \<Rightarrow> string list \<Rightarrow> (string list \<times> string) option" where
  "normal st [] = None"
| "normal st [s] =
     (if s = ''.'' then Some (rev st, [])
      else if s = ''..'' then (case st of [] \<Rightarrow> None | t # ts \<Rightarrow> Some (rev ts, []))
      else Some (rev st, s))"
| "normal st (s # ss) =
     (if s = ''.'' then normal st ss
      else if s = ''..'' then (case st of [] \<Rightarrow> None | t # ts \<Rightarrow> normal ts ss)
      else normal (s # st) ss)"

definition join_path_segs :: "string list \<Rightarrow> string" where
  "join_path_segs ss = CHR ''/'' # concat (map (\<lambda>s. s @ ''/'') ss)"

lemma join_segs_snoc [simp]: "join_path_segs (ss @ [s]) = join_path_segs ss @ s @ ''/''"
  by (simp add: join_path_segs_def)

lemma join_segs_Nil [simp]: "join_path_segs [] = ''/''"
  by (simp add: join_path_segs_def)

lemma join_segs_last [simp]: "join_path_segs ss \<noteq> []" "last (join_path_segs ss) = CHR ''/''"
  by (induction ss rule: rev_induct) (simp_all add: join_path_segs_def)

lemma split_not_Nil [simp]: "split_slash s \<noteq> []"
  by (cases s) auto

lemma split_cases:
  obtains "CHR ''/'' \<notin> set r" "split_slash r = [r]"
  | s r' where "r = s @ CHR ''/'' # r'" "CHR ''/'' \<notin> set s" "split_slash r = s # split_slash r'"
proof (cases "CHR ''/'' \<in> set r")
  case False
  then have "split_slash r = [r]" by (induction r) auto
  with False that(1) show ?thesis by blast
next
  case True
  then obtain s r' where "r = s @ CHR ''/'' # r'" "CHR ''/'' \<notin> set s" by (meson split_list_first)
  moreover from this have "split_slash r = s # split_slash r'" by (induction s arbitrary: r) auto
  ultimately show ?thesis using that(2) by blast
qed

lemma normal_Cons: "ss \<noteq> [] \<Longrightarrow> normal st (s # ss) =
     (if s = ''.'' then normal st ss
      else if s = ''..'' then (case st of [] \<Rightarrow> None | t # ts \<Rightarrow> normal ts ss)
      else normal (s # st) ss)"
  by (cases ss) auto

definition plain :: "string \<Rightarrow> bool" where
  "plain s \<longleftrightarrow> s \<noteq> ''.'' \<and> s \<noteq> ''..'' \<and> CHR ''/'' \<notin> set s"

lemma plain_Nil [simp]: "plain []"
  by (simp add: plain_def)

lemma normal_clean:
  assumes "normal st ss = Some (sg, l)" and "\<forall>s \<in> set st. plain s" and "\<forall>s \<in> set ss. CHR ''/'' \<notin> set s"
  shows "plain l \<and> (\<forall>s \<in> set sg. plain s)"
  using assms
proof (induction st ss arbitrary: sg l rule: normal.induct)
  case (2 st s)
  consider "s = ''.''" | "s = ''..''" | "s \<noteq> ''.''" "s \<noteq> ''..''" by blast
  then show ?case
  proof cases
    case 1
    with 2 show ?thesis by auto
  next
    case two: 2
    with 2 show ?thesis by (cases st) auto
  next
    case 3
    then have "plain s" using "2.prems"(3) by (simp add: plain_def)
    with "2.prems" 3 show ?thesis by auto
  qed
next
  case (3 st s s' ss)
  consider "s = ''.''" | "s = ''..''" | "s \<noteq> ''.''" "s \<noteq> ''..''" by blast
  then show ?case
  proof cases
    case 1
    with "3.prems" have "normal st (s' # ss) = Some (sg, l)" by simp
    from "3.IH"(1) [OF 1 this "3.prems"(2)] "3.prems"(3) show ?thesis by simp
  next
    case two: 2
    then have ne: "s \<noteq> ''.''" by simp
    obtain t ts where st: "st = t # ts" using "3.prems"(1) two by (cases st) simp_all
    with "3.prems"(1) two have "normal ts (s' # ss) = Some (sg, l)" by simp
    from "3.IH"(2) [OF ne two st this] "3.prems"(2,3) st show ?thesis by simp
  next
    case other: 3
    then have s: "plain s" using "3.prems"(3) by (simp add: plain_def)
    from "3.prems"(1) other have "normal (s # st) (s' # ss) = Some (sg, l)" by simp
    from "3.IH"(3) [OF other this] s "3.prems"(2,3) show ?thesis by simp
  qed
qed simp

lemma normal_subset:
  "normal st ss = Some (sg, l) \<Longrightarrow> set sg \<subseteq> set st \<union> set ss \<and> (l = [] \<or> l \<in> set ss)"
  by (induction st ss arbitrary: sg l rule: normal.induct) (fastforce split: if_splits list.splits)+

lemma split_subset: "s \<in> set (split_slash r) \<Longrightarrow> set s \<subseteq> set r"
proof (induction "length r" arbitrary: r s rule: less_induct)
  case less
  show ?case
  proof (cases r rule: split_cases)
    case 1
    with less.prems show ?thesis by simp
  next
    case (2 s' r')
    with less.hyps [of r' s] less.prems show ?thesis by auto
  qed
qed

lemma split_clean: "s \<in> set (split_slash r) \<Longrightarrow> CHR ''/'' \<notin> set s"
proof (induction r arbitrary: s)
  case (Cons c r)
  have "hd (split_slash r) \<in> set (split_slash r)" "set (tl (split_slash r)) \<subseteq> set (split_slash r)"
    by (auto intro: list.set_sel(2))
  with Cons show ?case by (auto split: if_splits)
qed simp

subsection \<open>The loop\<close>

lemma dot_kind_eq:
  assumes "pre \<noteq> []" and "r \<noteq> []" and "mem = pre @ r @ rest"
  shows "dot_kind mem 0 (length pre + length r) (length pre) =
           Some (if last pre \<noteq> CHR ''/'' then 0
                 else if r = ''.'' \<or> take 2 r = ''./'' then 1
                 else if r = ''..'' \<or> take 3 r = ''../'' then 2 else 0)"
proof -
  obtain c r1 where r: "r = c # r1" using assms(2) by (cases r) auto
  have n: "length pre \<noteq> 0" using assms(1) by simp
  have c0: "char_at mem (length pre) = Some c" using assms(3) r by (simp add: char_at_def)
  have cp: "char_at mem (length pre - 1) = Some (last pre)"
    using assms(1,3) n by (simp add: char_at_def nth_append last_conv_nth trans_less_add1)
  have c1: "char_at mem (length pre + 1) = Some d" if "r1 = d # r2" for d r2
    using assms(3) r that by (simp add: char_at_def nth_append)
  have c2: "char_at mem (length pre + 2) = Some e" if "r1 = d # e # r2" for d e r2
    using assms(3) r that by (simp add: char_at_def nth_append numeral_2_eq_2)
  have e: "dot_kind mem 0 (length pre + length r) (length pre) =
      (if c \<noteq> CHR ''.'' \<or> last pre \<noteq> CHR ''/'' then Some 0
       else if length r1 = 0 then Some 1
       else do {
         c1 \<leftarrow> char_at mem (length pre + 1);
         if c1 = CHR ''/'' then Some 1
         else if c1 \<noteq> CHR ''.'' then Some 0
         else if length r1 = 1 then Some 2
         else do { c2 \<leftarrow> char_at mem (length pre + 2); Some (if c2 = CHR ''/'' then 2 else 0) }
       })"
    unfolding dot_kind_def c0 cp using n r by simp
  show ?thesis
  proof (cases "c = CHR ''.'' \<and> last pre = CHR ''/''")
    case False
    with e r show ?thesis by auto
  next
    case True
    show ?thesis
    proof (cases r1)
      case Nil
      with True e r show ?thesis by simp
    next
      case (Cons d r2)
      show ?thesis
      proof (cases r2)
        case Nil
        with True e r Cons c1 [OF Cons] show ?thesis by simp
      next
        case (Cons g r3)
        with True e r \<open>r1 = d # r2\<close> c1 [OF \<open>r1 = d # r2\<close>] c2 [of d g r3] show ?thesis by (simp add: numeral_3_eq_3)
      qed
    qed
  qed
qed

lemma dots_loop_step:
  assumes mem: "mem = pre @ c # r @ rest" and mx: "mx = length pre + 1 + length r" and c: "c \<noteq> CHR ''?''" "c \<noteq> CHR ''#''"
  shows "dots_loop mem 0 mx j (length pre) segs =
           (case dot_kind mem 0 mx (length pre) of
              None \<Rightarrow> None
            | Some k \<Rightarrow>
                if k = 1 then dots_loop mem 0 mx j (length pre + 2) segs
                else if k = 2
                then (case segs of
                        _ # t # ts \<Rightarrow> dots_loop mem 0 mx t (length pre + 3) (t # ts)
                      | _ \<Rightarrow> Some (Inl UPNP_E_INVALID_URL))
                else (case poke j [c] mem of
                        None \<Rightarrow> None
                      | Some mem' \<Rightarrow>
                          dots_loop mem' 0 mx (j + 1) (length pre + 1) (if c = CHR ''/'' then (j + 1) # segs else segs)))"
proof -
  have "char_at mem (length pre) = Some c" using mem by (simp add: char_at_def)
  then show ?thesis using mx c by (subst dots_loop.simps) simp
qed

text \<open>Copying one character: what is between the copy and the source shifts.\<close>

lemma copy_step:
  assumes k: "dot_kind (out @ gap @ c # r @ rest) 0 mx (length out + length gap) = Some 0"
    and mx: "mx = length out + length gap + 1 + length r" and c: "c \<noteq> CHR ''?''" "c \<noteq> CHR ''#''"
  shows "dots_loop (out @ gap @ c # r @ rest) 0 mx (length out) (length out + length gap) segs =
           dots_loop ((out @ [c]) @ tl (gap @ [c]) @ r @ rest) 0 mx (length out + 1) (length out + length gap + 1)
             (if c = CHR ''/'' then (length out + 1) # segs else segs)"
proof -
  have "poke (length out) [c] (out @ gap @ c # r @ rest) = Some ((out @ [c]) @ tl (gap @ [c]) @ r @ rest)"
    by (cases gap) (simp_all add: poke_def)
  with dots_loop_step [of "out @ gap @ c # r @ rest" "out @ gap" c r rest mx "length out" segs] k mx c show ?thesis
    by simp
qed

lemma last_shift: "last (out @ [c] @ tl (gap @ [c])) = c"
  by (cases gap) auto

lemma length_shift [simp]: "length (tl (gap @ [c])) = length gap"
  by (cases gap) auto

text \<open>Inside of a segment.\<close>

lemma copy_run:
  assumes "\<forall>c \<in> set s. c \<noteq> CHR ''/'' \<and> c \<noteq> CHR ''?'' \<and> c \<noteq> CHR ''#''"
    and "out @ gap \<noteq> []" and "last (out @ gap) \<noteq> CHR ''/''" and "mx = length out + length gap + length s + length r"
  shows "\<exists>gap'. length gap' = length gap \<and> last (out @ s @ gap') \<noteq> CHR ''/'' \<and>
           dots_loop (out @ gap @ s @ r @ rest) 0 mx (length out) (length out + length gap) segs =
           dots_loop ((out @ s) @ gap' @ r @ rest) 0 mx (length out + length s) (length out + length s + length gap) segs"
  using assms
proof (induction s arbitrary: out gap)
  case Nil
  then show ?case by (intro exI [of _ gap]) simp
next
  case (Cons c s)
  have k: "dot_kind (out @ gap @ (c # s @ r) @ rest) 0 mx (length out + length gap) = Some 0"
    using dot_kind_eq [of "out @ gap" "c # s @ r" "out @ gap @ (c # s @ r) @ rest" rest] Cons.prems
    by (simp add: add.assoc)
  have step: "dots_loop (out @ gap @ c # (s @ r) @ rest) 0 mx (length out) (length out + length gap) segs =
      dots_loop ((out @ [c]) @ tl (gap @ [c]) @ (s @ r) @ rest) 0 mx (length out + 1) (length out + length gap + 1) segs"
    using copy_step [of out gap c "s @ r" rest mx segs] k Cons.prems by simp
  have p: "last ((out @ [c]) @ tl (gap @ [c])) \<noteq> CHR ''/''"
    using last_shift [of out c gap] Cons.prems(1) by simp
  from Cons.IH [of "out @ [c]" "tl (gap @ [c])"] Cons.prems p
  obtain gap' where "length gap' = length gap" "last (out @ (c # s) @ gap') \<noteq> CHR ''/''"
    "dots_loop ((out @ [c]) @ tl (gap @ [c]) @ s @ r @ rest) 0 mx (length (out @ [c])) (length (out @ [c]) + length gap) segs =
     dots_loop ((out @ c # s) @ gap' @ r @ rest) 0 mx (length out + length (c # s)) (length out + length (c # s) + length gap) segs"
    by auto
  with step show ?case by (intro exI [of _ gap']) simp
qed

text \<open>The starts of the segments on the stack.\<close>

fun starts :: "string list \<Rightarrow> nat list" where
  "starts [] = [1]"
| "starts (s # st) = length (join_path_segs (rev (s # st))) # starts st"

lemma starts_hd: "\<exists>ts. starts st = length (join_path_segs (rev st)) # ts"
  by (cases st) auto

definition dots_result :: "string list \<Rightarrow> string list \<Rightarrow> nat \<Rightarrow> char list \<Rightarrow> (int + (char list \<times> nat \<times> nat)) option \<Rightarrow> bool" where
  "dots_result st ss mx rest x \<longleftrightarrow>
     (case normal st ss of
        None \<Rightarrow> x = Some (Inl UPNP_E_INVALID_URL)
      | Some (sg, l) \<Rightarrow>
          (\<exists>gap f. x = Some (Inr ((join_path_segs sg @ l) @ gap @ rest, length (join_path_segs sg @ l), f)) \<and> mx \<le> f \<and>
             mx = length (join_path_segs sg @ l) + length gap))"

lemma dots_end: "mx \<le> f \<Longrightarrow> dots_loop mem 0 mx j f segs = Some (Inr (mem, j, f))"
  by (simp add: dots_loop.simps)

lemma copy_segment:
  assumes s: "CHR ''/'' \<notin> set s" "CHR ''?'' \<notin> set s" "CHR ''#'' \<notin> set s" "s \<noteq> ''.''" "s \<noteq> ''..''"
    and r: "r = [] \<or> hd r = CHR ''/''"
    and pre: "out @ gap \<noteq> []" "last (out @ gap) = CHR ''/''" and mx: "mx = length out + length gap + length s + length r"
  shows "\<exists>gap'. length gap' = length gap \<and>
           dots_loop (out @ gap @ s @ r @ rest) 0 mx (length out) (length out + length gap) segs =
           dots_loop ((out @ s) @ gap' @ r @ rest) 0 mx (length out + length s) (length out + length s + length gap) segs \<and>
           (s \<noteq> [] \<longrightarrow> last (out @ s @ gap') \<noteq> CHR ''/'')"
proof (cases s)
  case Nil
  then show ?thesis by (intro exI [of _ gap]) simp
next
  case (Cons c s1)
  have t: "\<not> (s @ r = ''.'' \<or> take 2 (s @ r) = ''./'')" "\<not> (s @ r = ''..'' \<or> take 3 (s @ r) = ''../'')"
  proof -
    show "\<not> (s @ r = ''.'' \<or> take 2 (s @ r) = ''./'')"
      using s r Cons by (cases s1; cases r) auto
    show "\<not> (s @ r = ''..'' \<or> take 3 (s @ r) = ''../'')"
      using s r Cons by (cases s1; cases "tl s1"; cases r) (auto simp: numeral_3_eq_3)
  qed
  have k: "dot_kind (out @ gap @ c # (s1 @ r) @ rest) 0 mx (length out + length gap) = Some 0"
    using dot_kind_eq [of "out @ gap" "s @ r" "out @ gap @ c # (s1 @ r) @ rest" rest] pre t Cons mx
    by (simp add: add.assoc)
  have c: "c \<noteq> CHR ''/''" "c \<noteq> CHR ''?''" "c \<noteq> CHR ''#''" using s Cons by auto
  have s1: "\<forall>c \<in> set s1. c \<noteq> CHR ''/'' \<and> c \<noteq> CHR ''?'' \<and> c \<noteq> CHR ''#''" using s Cons by auto
  have step: "dots_loop (out @ gap @ c # (s1 @ r) @ rest) 0 mx (length out) (length out + length gap) segs =
      dots_loop ((out @ [c]) @ tl (gap @ [c]) @ (s1 @ r) @ rest) 0 mx (length out + 1) (length out + length gap + 1) segs"
    using copy_step [OF k _ c(2,3)] c(1) mx Cons by simp
  obtain gap' where g: "length gap' = length gap" "last ((out @ [c]) @ s1 @ gap') \<noteq> CHR ''/''"
    "dots_loop ((out @ [c]) @ tl (gap @ [c]) @ s1 @ r @ rest) 0 mx (length (out @ [c])) (length (out @ [c]) + length (tl (gap @ [c]))) segs =
     dots_loop (((out @ [c]) @ s1) @ gap' @ r @ rest) 0 mx (length (out @ [c]) + length s1) (length (out @ [c]) + length s1 + length (tl (gap @ [c]))) segs"
    using copy_run [OF s1, of "out @ [c]" "tl (gap @ [c])" mx r rest segs] last_shift [of out c gap] c(1) mx Cons by auto
  have "dots_loop (out @ gap @ s @ r @ rest) 0 mx (length out) (length out + length gap) segs =
      dots_loop ((out @ s) @ gap' @ r @ rest) 0 mx (length out + length s) (length out + length s + length gap) segs"
    using step g(3) Cons by simp
  with g Cons show ?thesis by (intro exI [of _ gap']) simp
qed

lemma dots_loop_refines:
  assumes "CHR ''?'' \<notin> set r" "CHR ''#'' \<notin> set r"
    and "last (join_path_segs (rev st) @ gap) = CHR ''/''"
    and "mx = length (join_path_segs (rev st)) + length gap + length r"
  shows "dots_result st (split_slash r) mx rest
           (dots_loop (join_path_segs (rev st) @ gap @ r @ rest) 0 mx (length (join_path_segs (rev st)))
              (length (join_path_segs (rev st)) + length gap) (starts st))"
  using assms
proof (induction "length r" arbitrary: r st gap rule: less_induct)
  case less
  define out where "out = join_path_segs (rev st)"
  note prems = less.prems [folded out_def]
  have ne: "out @ gap \<noteq> []" by (simp add: out_def)
  let ?L = "dots_loop (out @ gap @ r @ rest) 0 mx (length out) (length out + length gap) (starts st)"
  have kind: "dot_kind (out @ gap @ r @ rest) 0 mx (length out + length gap) =
      Some (if r = ''.'' \<or> take 2 r = ''./'' then 1 else if r = ''..'' \<or> take 3 r = ''../'' then 2 else 0)"
    if "r \<noteq> []"
    using dot_kind_eq [OF ne that, of "out @ gap @ r @ rest" rest] prems(3,4) by simp
  have one: "?L = dots_loop (out @ gap @ r @ rest) 0 mx (length out) (length out + length gap + 2) (starts st)"
    if "r = CHR ''.'' # r1" "r = ''.'' \<or> take 2 r = ''./''" for r1
    using dots_loop_step [of "out @ gap @ r @ rest" "out @ gap" "CHR ''.''" r1 rest mx] kind that prems(4) by simp
  have two: "?L = (case st of [] \<Rightarrow> Some (Inl UPNP_E_INVALID_URL)
      | t # ts \<Rightarrow> dots_loop (out @ gap @ r @ rest) 0 mx (length (join_path_segs (rev ts))) (length out + length gap + 3) (starts ts))"
    if "r = CHR ''.'' # r1" "r = ''..'' \<or> take 3 r = ''../''" for r1
  proof -
    have n: "\<not> (r = ''.'' \<or> take 2 r = ''./'')" using that by (cases r1) (auto simp: numeral_3_eq_3)
    show ?thesis
    proof (cases st)
      case Nil
      then show ?thesis
        using dots_loop_step [of "out @ gap @ r @ rest" "out @ gap" "CHR ''.''" r1 rest mx "length out" "starts st"] kind that n prems(4)
        by simp
    next
      case (Cons t ts)
      obtain xs where xs: "starts ts = length (join_path_segs (rev ts)) # xs" using starts_hd by blast
      show ?thesis
        using dots_loop_step [of "out @ gap @ r @ rest" "out @ gap" "CHR ''.''" r1 rest mx "length out" "starts st"] kind that n prems(4)
        by (simp add: Cons xs)
    qed
  qed
  have pop: "out = join_path_segs (rev ts) @ t @ ''/''" if "st = t # ts" for t ts
    using that by (simp add: out_def)
  show ?case unfolding out_def [symmetric]
  proof (cases r rule: split_cases)
    case 1
    consider "r = ''.''" | "r = ''..''" | "r \<noteq> ''.''" "r \<noteq> ''..''" by blast
    then show "dots_result st (split_slash r) mx rest ?L"
    proof cases
      case dot: 1
      then have "?L = Some (Inr (out @ gap @ r @ rest, length out, length out + length gap + 2))"
        using one [of "[]"] prems(4) by (simp add: dots_end)
      then show ?thesis unfolding 1(2) using dot prems(4)
        by (auto simp: dots_result_def out_def [symmetric] intro!: exI [of _ "gap @ r"])
    next
      case dots: 2
      show ?thesis
      proof (cases st)
        case Nil
        then show ?thesis unfolding 1(2) using dots two [of "''.''"] by (simp add: dots_result_def)
      next
        case (Cons t ts)
        then have "?L = Some (Inr (out @ gap @ r @ rest, length (join_path_segs (rev ts)), length out + length gap + 3))"
          using two [of "''.''"] dots prems(4) by (simp add: dots_end)
        then show ?thesis unfolding 1(2) using dots Cons prems(4) pop [OF Cons]
          by (auto simp: dots_result_def intro!: exI [of _ "t @ ''/'' @ gap @ r"])
      qed
    next
      case other: 3
      obtain gap' where g: "length gap' = length gap"
        "?L = dots_loop ((out @ r) @ gap' @ rest) 0 mx (length out + length r) (length out + length r + length gap) (starts st)"
        using copy_segment [of r "[]" out gap mx rest "starts st"] 1(1) prems other ne by auto
      then have "?L = Some (Inr ((out @ r) @ gap' @ rest, length out + length r, length out + length r + length gap))"
        using prems(4) by (simp add: dots_end)
      then show ?thesis unfolding 1(2) using other g(1) prems(4)
        by (auto simp: dots_result_def out_def [symmetric] intro!: exI [of _ gap'])
    qed
  next
    case (2 s r')
    have len: "length r' < length r" using 2(1) by simp
    have sub: "CHR ''?'' \<notin> set r'" "CHR ''#'' \<notin> set r'" using prems(1,2) 2(1) by auto
    consider "s = ''.''" | "s = ''..''" | "s \<noteq> ''.''" "s \<noteq> ''..''" by blast
    then show "dots_result st (split_slash r) mx rest ?L"
    proof cases
      case dot: 1
      have "dots_result st (split_slash r') mx rest
          (dots_loop (out @ (gap @ ''./'') @ r' @ rest) 0 mx (length out) (length out + length (gap @ ''./'')) (starts st))"
        unfolding out_def by (rule less.hyps [OF len sub]) (use prems(4) 2(1) dot in \<open>simp_all add: out_def\<close>)
      moreover have "?L = dots_loop (out @ (gap @ ''./'') @ r' @ rest) 0 mx (length out) (length out + length (gap @ ''./'')) (starts st)"
        using one [of "CHR ''/'' # r'"] 2(1) dot by simp
      ultimately show ?thesis unfolding 2(3) using dot by (simp add: dots_result_def normal_Cons)
    next
      case dots: 2
      show ?thesis
      proof (cases st)
        case Nil
        then show ?thesis unfolding 2(3) using dots two [of "CHR ''.'' # CHR ''/'' # r'"] 2(1)
          by (simp add: dots_result_def normal_Cons)
      next
        case (Cons t ts)
        let ?g = "t @ ''/'' @ gap @ ''../''"
        have "dots_result ts (split_slash r') mx rest
            (dots_loop (join_path_segs (rev ts) @ ?g @ r' @ rest) 0 mx (length (join_path_segs (rev ts)))
               (length (join_path_segs (rev ts)) + length ?g) (starts ts))"
          by (rule less.hyps [OF len sub]) (use prems(4) 2(1) dots pop [OF Cons] in simp_all)
        moreover have "?L = dots_loop (join_path_segs (rev ts) @ ?g @ r' @ rest) 0 mx (length (join_path_segs (rev ts)))
               (length (join_path_segs (rev ts)) + length ?g) (starts ts)"
          using two [of "CHR ''.'' # CHR ''/'' # r'"] 2(1) dots Cons pop [OF Cons] by (simp add: numeral_3_eq_3 add.assoc)
        ultimately show ?thesis unfolding 2(3) using dots Cons by (simp add: dots_result_def normal_Cons)
      qed
    next
      case other: 3
      have s: "CHR ''?'' \<notin> set s" "CHR ''#'' \<notin> set s" using prems(1,2) 2(1) by auto
      obtain gap' where g: "length gap' = length gap" "s \<noteq> [] \<longrightarrow> last (out @ s @ gap') \<noteq> CHR ''/''"
        "?L = dots_loop ((out @ s) @ gap' @ (CHR ''/'' # r') @ rest) 0 mx (length out + length s)
                (length out + length s + length gap) (starts st)"
        using copy_segment [OF 2(2) s other, of "CHR ''/'' # r'" out gap mx rest "starts st"] prems(3,4) 2(1) ne by auto
      have n: "\<not> (CHR ''/'' # r' = ''.'' \<or> take 2 (CHR ''/'' # r') = ''./'')"
        "\<not> (CHR ''/'' # r' = ''..'' \<or> take 3 (CHR ''/'' # r') = ''../'')" by (simp_all add: numeral_3_eq_3)
      have k: "dot_kind ((out @ s) @ gap' @ (CHR ''/'' # r') @ rest) 0 mx (length (out @ s) + length gap') = Some 0"
        using dot_kind_eq [of "(out @ s) @ gap'" "CHR ''/'' # r'" "(out @ s) @ gap' @ (CHR ''/'' # r') @ rest" rest] n
          prems(4) 2(1) g(1) by (auto simp: out_def ac_simps)
      have "?L = dots_loop (((out @ s) @ ''/'') @ tl (gap' @ ''/'') @ r' @ rest) 0 mx (length (out @ s) + 1)
               (length (out @ s) + length gap' + 1) ((length (out @ s) + 1) # starts st)"
        using copy_step [of "out @ s" gap' "CHR ''/''" r' rest mx "starts st"] k g(1,3) prems(4) 2(1) by simp
      moreover have "dots_result (s # st) (split_slash r') mx rest
          (dots_loop (join_path_segs (rev (s # st)) @ tl (gap' @ ''/'') @ r' @ rest) 0 mx (length (join_path_segs (rev (s # st))))
             (length (join_path_segs (rev (s # st))) + length (tl (gap' @ ''/''))) (starts (s # st)))"
        by (rule less.hyps [OF len sub])
          (use prems(4) 2(1) g(1) last_shift [of "out @ s" "CHR ''/''" gap'] in \<open>simp_all add: out_def\<close>)
      ultimately show ?thesis unfolding 2(3) using other g(1)
        by (simp add: dots_result_def normal_Cons out_def [symmetric])
    qed
  qed
qed

subsection \<open>The whole function\<close>

lemma remove_dots_result:
  assumes r: "CHR ''?'' \<notin> set r" "CHR ''#'' \<notin> set r" and rest: "rest \<noteq> []"
  shows "case normal [] (split_slash r) of
           None \<Rightarrow> remove_dots True ((CHR ''/'' # r) @ rest) 0 (length r + 1) = Some (UPNP_E_INVALID_URL, (CHR ''/'' # r) @ rest)
         | Some (sg, l) \<Rightarrow>
             (\<exists>gap. remove_dots True ((CHR ''/'' # r) @ rest) 0 (length r + 1) =
                      Some (UPNP_E_SUCCESS, (join_path_segs sg @ l) @ CHR 0x00 # tl (gap @ rest)) \<and>
                    length (join_path_segs sg @ l) + length gap = length r + 1)"
proof -
  define mem where "mem = (CHR ''/'' # r) @ rest"
  define mx where "mx = length r + 1"
  have "dots_loop mem 0 mx 0 0 [] = dots_loop mem 0 mx 1 1 [1]"
    using dots_loop_step [of mem "[]" "CHR ''/''" r rest mx 0 "[]"]
    by (simp add: mem_def mx_def dot_kind_def char_at_def poke_def)
  moreover have "dots_result [] (split_slash r) mx rest
      (dots_loop (join_path_segs (rev []) @ [] @ r @ rest) 0 mx (length (join_path_segs (rev [])))
         (length (join_path_segs (rev [])) + length ([] :: char list)) (starts []))"
    by (rule dots_loop_refines [OF r]) (simp_all add: mx_def)
  ultimately have d: "dots_result [] (split_slash r) mx rest (dots_loop mem 0 mx 0 0 [])"
    by (simp add: mem_def)
  show ?thesis
  proof (cases "normal [] (split_slash r)")
    case None
    with d show ?thesis by (simp add: dots_result_def remove_dots_def mem_def mx_def)
  next
    case (Some x)
    obtain sg l where x: "x = (sg, l)" by fastforce
    with d Some obtain gap f where
      l: "dots_loop mem 0 mx 0 0 [] = Some (Inr ((join_path_segs sg @ l) @ gap @ rest, length (join_path_segs sg @ l), f))"
      and f: "mx \<le> f" "mx = length (join_path_segs sg @ l) + length gap"
      by (auto simp: dots_result_def)
    have "poke (length (join_path_segs sg @ l)) [CHR 0x00] ((join_path_segs sg @ l) @ gap @ rest) =
        Some ((join_path_segs sg @ l) @ CHR 0x00 # tl (gap @ rest))"
      using rest by (cases "gap @ rest") (simp_all add: poke_def)
    with f l have "remove_dots True mem 0 mx = Some (UPNP_E_SUCCESS, (join_path_segs sg @ l) @ CHR 0x00 # tl (gap @ rest))"
      by (simp add: remove_dots_def mx_def memmove_def)
    with f(2) Some x show ?thesis by (auto simp: mem_def mx_def intro!: exI [of _ gap])
  qed
qed

subsection \<open>Properties\<close>

text \<open>C15: On a path without query and fragment \<open>remove_dots\<close> computes what a stack of segments does:
  \<open>.\<close> is dropped, \<open>..\<close> takes the segment before it away, and the path is refused exactly when there
  is none; the result has neither of the two as a segment, and nothing outside of the string is
  touched.\<close>
theorem remove_dots_refines:
  assumes "no_nul r" and "CHR ''?'' \<notin> set r" and "CHR ''#'' \<notin> set r"
  shows "case normal [] (split_slash r) of
           None \<Rightarrow> \<exists>m. remove_dots True (CHR ''/'' # r @ CHR 0x00 # rest) 0 (length r + 1) = Some (UPNP_E_INVALID_URL, m)
         | Some (sg, l) \<Rightarrow>
             (\<exists>m. remove_dots True (CHR ''/'' # r @ CHR 0x00 # rest) 0 (length r + 1) = Some (UPNP_E_SUCCESS, m) \<and>
                  c_string m = join_path_segs sg @ l \<and> plain l \<and> (\<forall>s \<in> set sg. plain s) \<and>
                  drop (length r + 2) m = rest)"
proof (cases "normal [] (split_slash r)")
  case None
  then show ?thesis using remove_dots_result [OF assms(2,3), of "CHR 0x00 # rest"] by simp
next
  case (Some x)
  obtain sg l where x: "x = (sg, l)" by fastforce
  from remove_dots_result [OF assms(2,3), of "CHR 0x00 # rest"] Some x
  obtain gap where g: "remove_dots True ((CHR ''/'' # r) @ CHR 0x00 # rest) 0 (length r + 1) =
      Some (UPNP_E_SUCCESS, (join_path_segs sg @ l) @ CHR 0x00 # tl (gap @ CHR 0x00 # rest))"
    "length (join_path_segs sg @ l) + length gap = length r + 1" by auto
  have nn: "no_nul l \<and> (\<forall>s \<in> set sg. no_nul s)"
    using normal_subset [OF Some [unfolded x]] split_subset [of _ r] assms(1) by (auto simp: no_nul_def)
  then have "no_nul (join_path_segs sg @ l)" by (auto simp: join_path_segs_def no_nul_def)
  then have "c_string ((join_path_segs sg @ l) @ CHR 0x00 # tl (gap @ CHR 0x00 # rest)) = join_path_segs sg @ l"
    by (simp add: c_string_def takeWhile_append no_nul_def del: append_assoc)
  moreover have "plain l \<and> (\<forall>s \<in> set sg. plain s)"
    by (rule normal_clean [OF Some [unfolded x]]) (auto dest: split_clean)
  moreover have "drop (length r + 2) ((join_path_segs sg @ l) @ CHR 0x00 # tl (gap @ CHR 0x00 # rest)) = rest"
  proof -
    have len: "length r + 2 = length (join_path_segs sg @ l) + (length gap + 1)" using g(2) by simp
    show ?thesis unfolding len drop_drop [symmetric] add.commute [of _ "length gap + 1"] by (cases gap) simp_all
  qed
  ultimately show ?thesis using Some x g(1) by (auto intro!: exI)
qed

theorem remove_dots_refines_witness:
  "\<exists>m. remove_dots True (''/a/./b/../../c'' @ [CHR 0x00]) 0 14 = Some (0, m) \<and> c_string m = ''/c''"
proof -
  have n: "normal [] (split_slash ''a/./b/../../c'') = Some ([], ''c'')" by code_simp
  have "no_nul ''a/./b/../../c''" by simp
  moreover have "length ''a/./b/../../c'' + 1 = 14" by simp
  ultimately show ?thesis using remove_dots_refines [of "''a/./b/../../c''" "[]"] n
    by (auto simp: UPNP_E_SUCCESS_def simp del: list.size)
qed

end
