(* ===== verification/HttpMessage.thy ===== *)
theory HttpMessage
  imports HttpIO
begin

text \<open>
  Composing messages (\<open>genlib/net/http/httpreadwrite.c\<close>, \<open>statcodes.c\<close>): the format interpreter
  \<open>http_MakeMessage\<close> over growable buffers, status texts, dates and the answer that only has a status.
\<close>

subsection \<open>Status codes\<close>

definition Http1xxCodes :: "string list" where
  "Http1xxCodes = [''Continue'', ''Switching Protocols'']"

definition Http2xxCodes :: "string list" where
  "Http2xxCodes =
     [''OK'', ''Created'', ''Accepted'', ''Non-Authoratative Information'', ''No Content'', ''Reset Content'',
      ''Partial Content'']"

definition Http3xxCodes :: "string list" where
  "Http3xxCodes =
     [''Multiple Choices'', ''Moved Permanently'', ''Found'', ''See Other'', ''Not Modified'', ''Use Proxy'', [],
      ''Temporary Redirect'']"

definition Http4xxCodes :: "string list" where
  "Http4xxCodes =
     [''Bad Request'', ''Unauthorized'', ''Payment Required'', ''Forbidden'', ''Not Found'', ''Method Not Allowed'',
      ''Not Acceptable'', ''Proxy Authentication Required'', ''Request Timeout'', ''Conflict'', ''Gone'',
      ''Length Required'', ''Precondition Failed'', ''Request Entity Too Large'', ''Request-URI Too Long'',
      ''Unsupported Media Type'', ''Requested Range Not Satisfiable'', ''Expectation Failed'']"

definition Http5xxCodes :: "string list" where
  "Http5xxCodes =
     [''Internal Server Error'', ''Not Implemented'', ''Bad Gateway'', ''Service Unavailable'', ''Gateway Timeout'',
      ''HTTP Version Not Supported'']"

definition http_get_code_text :: "int \<Rightarrow> string option" where
  "http_get_code_text statusCode =
     (if statusCode < 100 \<or> statusCode \<ge> 600 then None
      else
        let index = nat (statusCode mod 100);
            tbl = [Http1xxCodes, Http2xxCodes, Http3xxCodes, Http4xxCodes, Http5xxCodes] ! nat (statusCode div 100 - 1)
        in if index < length tbl then Some (tbl ! index) else None)"

definition http_CalcResponseVersion :: "int \<Rightarrow> int \<Rightarrow> int \<times> int" where
  "http_CalcResponseVersion maj mnr = (if maj > 1 \<or> (maj = 1 \<and> mnr \<ge> 1) then (1, 1) else (maj, mnr))"

subsection \<open>Numbers and dates\<close>

fun dec_string :: "nat \<Rightarrow> string" where
  "dec_string n =
     (if n < 10 then [char_of (48 + n)] else dec_string (n div 10) @ [char_of (48 + n mod 10)])"

declare dec_string.simps [simp del]

definition int_string :: "int \<Rightarrow> string" where
  "int_string n = (if n < 0 then ''-'' @ dec_string (nat (- n)) else dec_string (nat n))"

definition two_digits :: "int \<Rightarrow> string" where
  "two_digits n = (if 0 \<le> n \<and> n < 10 then ''0'' @ int_string n else int_string n)"

text \<open>\<open>gmtime_r\<close>: it fails if the year does not fit into an \<open>int\<close>.\<close>

record tm =
  tm_sec :: int
  tm_min :: int
  tm_hour :: int
  tm_mday :: int
  tm_mon :: int
  tm_year :: int
  tm_wday :: int

definition gmtime :: "int \<Rightarrow> tm option" where
  "gmtime t =
     (let days = t div 86400; secs = t mod 86400; z = days + 719468; era = z div 146097; doe = z mod 146097;
          yoe = (doe - doe div 1460 + doe div 36524 - doe div 146096) div 365;
          doy = doe - (365 * yoe + yoe div 4 - yoe div 100); mp = (5 * doy + 2) div 153;
          mon = (if mp < 10 then mp + 2 else mp - 10);
          year = yoe + era * 400 + (if mon \<le> 1 then 1 else 0)
      in if \<bar>year - 1900\<bar> \<ge> 2 ^ 31 then None
         else Some \<lparr>tm_sec = secs mod 60, tm_min = secs div 60 mod 60, tm_hour = secs div 3600,
                    tm_mday = doy - (153 * mp + 2) div 5 + 1, tm_mon = mon, tm_year = year - 1900,
                    tm_wday = (days + 4) mod 7\<rparr>)"

definition weekday_str :: "string list" where
  "weekday_str = [''Sun'', ''Mon'', ''Tue'', ''Wed'', ''Thu'', ''Fri'', ''Sat'']"

definition month_str :: "string list" where
  "month_str = [''Jan'', ''Feb'', ''Mar'', ''Apr'', ''May'', ''Jun'', ''Jul'', ''Aug'', ''Sep'', ''Oct'', ''Nov'', ''Dec'']"

definition date_string :: "tm \<Rightarrow> string" where
  "date_string d =
     weekday_str ! nat (tm_wday d) @ '', '' @ two_digits (tm_mday d) @ '' '' @ month_str ! nat (tm_mon d) @ '' '' @
     int_string (tm_year d + 1900) @ '' '' @ two_digits (tm_hour d) @ '':'' @ two_digits (tm_min d) @ '':'' @
     two_digits (tm_sec d) @ '' GMT''"

subsection \<open>The format\<close>

text \<open>
  What the system tells: the time, and the names \<open>uname\<close> gives with the version of the package. The
  characters of the format with their arguments; NULL is \<open>None\<close> where the code passes it on.
\<close>

record msg_env =
  env_time :: int
  env_sysname :: string
  env_release :: string
  env_version :: string
  env_language :: string

datatype msg_item =
  Msg_s "string option"
| Msg_K
| Msg_G SendInstruction
| Msg_b "char list"
| Msg_c
| Msg_d int
| Msg_h int
| Msg_t int
| Msg_D
| Msg_L SendInstruction
| Msg_C
| Msg_N int
| Msg_S
| Msg_U
| Msg_X string
| Msg_R int
| Msg_B int
| Msg_Q int string
| Msg_q int "char list" uri_type
| Msg_T "string option"

definition TEMPBUF :: nat where "TEMPBUF = 200"

definition fits :: "string \<Rightarrow> bool" where "fits s \<longleftrightarrow> length s < TEMPBUF"

definition get_sdk_info :: "msg_env \<Rightarrow> string" where
  "get_sdk_info env =
     take (TEMPBUF - 1)
       (env_sysname env @ ''/'' @ env_release env @ '', UPnP/1.0, Portable SDK for UPnP devices/'' @ env_version env @ CRLF)"

text \<open>The path of the fixed URL.\<close>

definition http_FixUrl :: "char list \<Rightarrow> uri_type \<Rightarrow> int \<times> string" where
  "http_FixUrl mem url =
     (if token_string_casecmp mem (scheme url) ''http'' \<noteq> 0 \<or> tsize (htext (hostport url)) = 0
      then (UPNP_E_INVALID_URL, [])
      else (UPNP_E_SUCCESS, if tsize (pathquery url) = 0 then ''/'' else token_text mem (pathquery url)))"

text \<open>The answer to a size that is printed with the conversion of \<open>size_t\<close>.\<close>

definition size_string :: "int \<Rightarrow> string" where
  "size_string n = dec_string (nat (n mod 2 ^ 64))"

definition content_length_header :: "int \<Rightarrow> string list" where
  "content_length_header n = [''CONTENT-LENGTH: '', int_string n, CRLF]"

definition content_type_header :: "string \<Rightarrow> string list" where
  "content_type_header t = [''CONTENT-TYPE: '', t, CRLF]"

definition request_line :: "int \<Rightarrow> int \<Rightarrow> string \<Rightarrow> string \<Rightarrow> string list" where
  "request_line maj mnr m url =
     [m, '' '', url, '' HTTP/'', size_string maj, ''.'', size_string mnr, CRLF]"

text \<open>
  What a character appends, piece by piece, or the error it ends with (\<open>Inl\<close>); \<open>strlen(NULL)\<close> is
  undefined.
\<close>

definition msg_date :: "string \<Rightarrow> string \<Rightarrow> int \<Rightarrow> int + string list" where
  "msg_date st en t =
     (case gmtime t of
        None \<Rightarrow> Inl UPNP_E_OUTOF_MEMORY
      | Some d \<Rightarrow>
          (let s = st @ date_string d @ en in if fits s then Inr [s] else Inl UPNP_E_OUTOF_MEMORY))"

fun msg_pieces :: "msg_env \<Rightarrow> int \<Rightarrow> int \<Rightarrow> msg_item \<Rightarrow> (int + string list) option" where
  "msg_pieces env maj mnr (Msg_s s) = map_option (\<lambda>t. Inr [t]) s"
| "msg_pieces env maj mnr Msg_K = Some (Inr [''TRANSFER-ENCODING: chunked'' @ CRLF])"
| "msg_pieces env maj mnr (Msg_G i) = Some (Inr [RangeHeader i])"
| "msg_pieces env maj mnr (Msg_b b) = Some (Inr [b])"
| "msg_pieces env maj mnr Msg_c = Some (Inr [CRLF])"
| "msg_pieces env maj mnr (Msg_d n) = Some (Inr [size_string n])"
| "msg_pieces env maj mnr (Msg_h n) = Some (Inr [int_string n])"
| "msg_pieces env maj mnr (Msg_t t) = Some (msg_date [] [] t)"
| "msg_pieces env maj mnr Msg_D = Some (msg_date ''DATE: '' CRLF (env_time env))"
| "msg_pieces env maj mnr (Msg_L i) =
     Some (Inr (if AcceptLanguageHeader i \<noteq> [] \<and> env_language env \<noteq> []
                then [''CONTENT-LANGUAGE: '', env_language env, CRLF] else []))"
| "msg_pieces env maj mnr Msg_C =
     Some (Inr (if maj > 1 \<or> (maj = 1 \<and> mnr = 1) then [''CONNECTION: close'' @ CRLF] else []))"
| "msg_pieces env maj mnr (Msg_N n) = Some (Inr (content_length_header n))"
| "msg_pieces env maj mnr Msg_S = Some (Inr [''SERVER: '', get_sdk_info env])"
| "msg_pieces env maj mnr Msg_U = Some (Inr [''USER-AGENT: '', get_sdk_info env])"
| "msg_pieces env maj mnr (Msg_X s) = Some (Inr [''X-User-Agent: '', s])"
| "msg_pieces env maj mnr (Msg_R st) =
     (let t = ''HTTP/'' @ int_string maj @ ''.'' @ int_string mnr @ '' '' @ int_string st @ '' ''
      in if \<not> fits t then Some (Inl UPNP_E_OUTOF_MEMORY)
         else map_option (\<lambda>m. Inr [t, m, CRLF]) (http_get_code_text st))"
| "msg_pieces env maj mnr (Msg_B st) =
     map_option
       (\<lambda>m. let t = ''<html><body><h1>'' @ int_string st @ '' '' @ m @ ''</h1></body></html>''
            in if fits t
               then Inr (content_length_header (int (length t)) @ content_type_header ''text/html'' @ [CRLF, t])
               else Inl UPNP_E_OUTOF_MEMORY)
       (http_get_code_text st)"
| "msg_pieces env maj mnr (Msg_Q m url) = map_option (\<lambda>t. Inr (request_line maj mnr t url)) (method_to_str m)"
| "msg_pieces env maj mnr (Msg_q m mem u) =
     (case http_FixUrl mem u of
        (rc, path) \<Rightarrow>
          if rc \<noteq> UPNP_E_SUCCESS then Some (Inl UPNP_E_INVALID_URL)
          else map_option (\<lambda>t. Inr (request_line maj mnr t path @
                                    [''HOST: '', token_text mem (htext (hostport u)), CRLF]))
                 (method_to_str m))"
| "msg_pieces env maj mnr (Msg_T s) = map_option (\<lambda>t. Inr (content_type_header t)) s"

fun append_pieces :: "allocator \<Rightarrow> membuffer \<Rightarrow> string list \<Rightarrow> (int \<times> membuffer) option" where
  "append_pieces al b [] = Some (0, b)"
| "append_pieces al b (s # ss) =
     do {
       (rc, b1) \<leftarrow> membuffer_append al b (Some s) (of_nat (length s));
       if rc \<noteq> 0 then Some (rc, b1) else append_pieces al b1 ss
     }"

fun http_MakeMessage ::
  "msg_env \<Rightarrow> allocator \<Rightarrow> int \<Rightarrow> int \<Rightarrow> msg_item list \<Rightarrow> membuffer \<Rightarrow> (int \<times> membuffer) option" where
  "http_MakeMessage env al maj mnr [] b = Some (0, b)"
| "http_MakeMessage env al maj mnr (c # fmt) b =
     (case msg_pieces env maj mnr c of
        None \<Rightarrow> None
      | Some (Inl e) \<Rightarrow> Some (e, membuffer_destroy b)
      | Some (Inr ss) \<Rightarrow>
          (case append_pieces al b ss of
             None \<Rightarrow> None
           | Some (rc, b1) \<Rightarrow>
               if rc \<noteq> 0 then Some (UPNP_E_OUTOF_MEMORY, membuffer_destroy b1)
               else http_MakeMessage env al maj mnr fmt b1))"

definition HTTP_DEFAULT_TIMEOUT :: int where "HTTP_DEFAULT_TIMEOUT = 30"

definition http_SendStatusResponse ::
  "msg_env \<Rightarrow> allocator \<Rightarrow> int \<Rightarrow> int \<Rightarrow> int \<Rightarrow> SOCKINFO \<Rightarrow> (int \<times> SOCKINFO) option" where
  "http_SendStatusResponse env al status maj mnr info =
     (case http_CalcResponseVersion maj mnr of
        (rmaj, rmnr) \<Rightarrow>
          do {
            (ret, b) \<leftarrow> http_MakeMessage env al rmaj rmnr [Msg_R status, Msg_S, Msg_C, Msg_B status]
                         (blank_mb\<lparr>size_inc := 70\<rparr>);
            if ret \<noteq> 0 then Some (ret, info)
            else do {
              (rc, _, s) \<leftarrow> http_SendMessage (\<lambda>_ _. None) al [Send_b (contents b)] HTTP_DEFAULT_TIMEOUT info;
              Some (rc, s)
            }
          })"

end
