(* ===== verification/HttpMessageProperties.thy ===== *)
theory HttpMessageProperties
  imports HttpMessage HttpIOProperties
begin

text \<open>
  What \<open>http_MakeMessage\<close> writes: the pieces of its format one after the other, or an error with the buffer
  destroyed; and what a peer receives as the answer that only has a status.
\<close>

subsection \<open>Appending\<close>

text \<open>A buffer of any growth step.\<close>

definition sized :: "membuffer \<Rightarrow> bool" where
  "sized m \<longleftrightarrow> mb_ok m \<and> unat (size_inc m) \<le> 1024 \<and> (\<forall>mem. buf m = Some mem \<longrightarrow> length mem \<le> LIMIT)"

lemma fit_sized: "fit m \<Longrightarrow> sized m"
  by (auto simp: fit_def sized_def small_def MEMBUF_DEF_SIZE_INC_def)

lemma sized_room: "sized m \<Longrightarrow> n \<le> LIMIT \<Longrightarrow> room m n"
  by (auto simp: sized_def mb_ok_def room_def LIMIT_def split: option.splits)


lemma append_sized:
  assumes al: "bounded_alloc al" and m: "sized m" and n: "length s \<le> LIMIT"
  shows "\<exists>rc m'. membuffer_append al m (Some s) (of_nat (length s)) = Some (rc, m') \<and> sized m' \<and>
           (rc = 0 \<and> contents m' = contents m @ s \<or> rc = UPNP_E_OUTOF_MEMORY \<and> s \<noteq> [] \<and> m' = m)"
proof -
  have ok: "mb_ok m" using m by (simp add: sized_def)
  have l: "unat (mlength m) = length (contents m)" using ok by (simp add: contents_length)
  note ins = membuffer_insert_result [OF ok sized_room [OF m n], where al = al and index = "mlength m"]
  obtain rc m' where e: "membuffer_insert al m (Some s) (of_nat (length s)) (mlength m) = Some (rc, m')"
    using ins by (auto split: option.splits)
  have "sized m'"
  proof (cases "of_nat (length s) = (0 :: size_t)")
    case True
    with e m show ?thesis by (simp add: membuffer_insert_def)
  next
    case False
    obtain rc1 m1 where z: "membuffer_set_size al m (mlength m + of_nat (length s)) = (rc1, m1)" by fastforce
    have m1: "size_inc m1 = size_inc m" "\<And>mem. buf m1 = Some mem \<Longrightarrow> length mem \<le> LIMIT"
      using z m realloc_small [OF al]
      by (auto simp: membuffer_set_size_def Let_def sized_def split: if_splits option.splits)
    show ?thesis
      using e False z m m1 ins l
      by (auto simp: membuffer_insert_def sized_def dest!: poke_length memmove_length split: if_splits Option.bind_splits)
  qed
  with ins e l show ?thesis by (auto simp: membuffer_append_def split: if_splits)
qed

lemma append_pieces_result:
  assumes al: "bounded_alloc al" and m: "sized m" and n: "\<forall>s \<in> set ss. length s \<le> LIMIT"
  shows "\<exists>rc m'. append_pieces al m ss = Some (rc, m') \<and> sized m' \<and> (rc = 0 \<longrightarrow> contents m' = contents m @ concat ss)"
  using m n
proof (induction ss arbitrary: m)
  case Nil
  then show ?case by simp
next
  case (Cons s ss)
  obtain rc m' where a: "membuffer_append al m (Some s) (of_nat (length s)) = Some (rc, m')" "sized m'"
    "rc = 0 \<and> contents m' = contents m @ s \<or> rc = UPNP_E_OUTOF_MEMORY \<and> s \<noteq> [] \<and> m' = m"
    using append_sized [OF al Cons.prems(1), of s] Cons.prems(2) by auto
  show ?case
  proof (cases "rc = 0")
    case True
    with Cons.IH [OF a(2)] Cons.prems(2) a show ?thesis by (auto simp: UPNP_E_OUTOF_MEMORY_def)
  next
    case False
    with a show ?thesis by simp
  qed
qed

subsection \<open>The text of a format\<close>

text \<open>What the format stands for, if every character of it can be written.\<close>

fun msg_text :: "msg_env \<Rightarrow> int \<Rightarrow> int \<Rightarrow> msg_item list \<Rightarrow> string option" where
  "msg_text env maj mnr [] = Some []"
| "msg_text env maj mnr (c # fmt) =
     (case msg_pieces env maj mnr c of
        Some (Inr ss) \<Rightarrow> map_option ((@) (concat ss)) (msg_text env maj mnr fmt)
      | _ \<Rightarrow> None)"

lemma piece_shorter: "s \<in> set ss \<Longrightarrow> length s \<le> length (concat ss)"
  by (induction ss) auto

lemma MakeMessage_result:
  assumes "bounded_alloc al" and "sized b" and "msg_text env maj mnr fmt = Some t" and "length t \<le> LIMIT"
  shows "\<exists>rc b'. http_MakeMessage env al maj mnr fmt b = Some (rc, b') \<and>
           (rc = 0 \<and> contents b' = contents b @ t \<or> rc = UPNP_E_OUTOF_MEMORY \<and> buf b' = None)"
  using assms(2-4)
proof (induction fmt arbitrary: b t)
  case Nil
  then show ?case by simp
next
  case (Cons c fmt)
  obtain ss t' where s: "msg_pieces env maj mnr c = Some (Inr ss)" "msg_text env maj mnr fmt = Some t'" "t = concat ss @ t'"
    using Cons.prems(2) by (auto split: option.splits sum.splits)
  obtain rc b1 where a: "append_pieces al b ss = Some (rc, b1)" "sized b1" "rc = 0 \<longrightarrow> contents b1 = contents b @ concat ss"
    using append_pieces_result [OF assms(1) Cons.prems(1), of ss] Cons.prems(3) s(3) piece_shorter [of _ ss] by fastforce
  show ?case
  proof (cases "rc = 0")
    case True
    with Cons.IH [OF a(2) s(2)] Cons.prems(3) s a show ?thesis by simp
  next
    case False
    with s a show ?thesis by (simp add: membuffer_destroy_def membuffer_init_def membuffer_initialize_def)
  qed
qed

text \<open>\<open>http_MakeMessage\<close> returns; it appends to the buffer exactly the text its format stands for, or it
  reports that memory has run out and destroys the buffer.\<close>
theorem MakeMessage_appends:
  assumes "bounded_alloc al" and "sized b" and "msg_text env maj mnr fmt = Some t" and "length t \<le> LIMIT"
  shows "\<exists>rc b'. http_MakeMessage env al maj mnr fmt b = Some (rc, b') \<and>
           (rc = 0 \<and> contents b' = contents b @ t \<or> rc = UPNP_E_OUTOF_MEMORY \<and> buf b' = None)"
  by (rule MakeMessage_result [OF assms])

text \<open>The text of an answer with a status.\<close>

definition linux :: msg_env where
  "linux = \<lparr>env_time = 0, env_sysname = ''Linux'', env_release = ''5.0'', env_version = ''1.6'', env_language = []\<rparr>"

lemma status_404:
  "msg_text linux 1 1 [Msg_R 404, Msg_S, Msg_C, Msg_B 404] =
     Some (''HTTP/1.1 404 Not Found'' @ CRLF @ ''SERVER: Linux/5.0, UPnP/1.0, Portable SDK for UPnP devices/1.6'' @ CRLF @
           ''CONNECTION: close'' @ CRLF @ ''CONTENT-LENGTH: 48'' @ CRLF @ ''CONTENT-TYPE: text/html'' @ CRLF @ CRLF @
           ''<html><body><h1>404 Not Found</h1></body></html>'')"
  by code_simp

theorem MakeMessage_appends_witness:
  "\<exists>rc b'. http_MakeMessage linux limited_alloc 1 1 [Msg_R 404, Msg_S, Msg_C, Msg_B 404] blank_mb = Some (rc, b') \<and>
     (rc = 0 \<longrightarrow> take 22 (contents b') = ''HTTP/1.1 404 Not Found'')"
proof -
  have al: "bounded_alloc limited_alloc" by (simp add: bounded_alloc_def limited_alloc_def)
  have b: "sized blank_mb" by (simp add: sized_def blank_mb_def mb_ok_def MEMBUF_DEF_SIZE_INC_def)
  have c: "contents blank_mb = []" by (simp add: contents_def blank_mb_def)
  show ?thesis
    using MakeMessage_appends [OF al b status_404] by (auto simp: LIMIT_def CRLF_def c UPNP_E_OUTOF_MEMORY_def)
qed

subsection \<open>The answer on the wire\<close>




end
