(* ===== verification/WebMedia.thy ===== *)
theory WebMedia
  imports StrIntMap
begin

text \<open>
  Content types of the web server (\<open>genlib/net/http/webserver.c\<close>): the table of media types and its
  binary search, which finds the type of exactly the extensions of the table.
\<close>

subsection \<open>The table\<close>

definition gMediaTypes :: "string list" where
  "gMediaTypes = [[], ''audio'', ''video'', ''image'', ''application'', ''text'']"

definition APPLICATION_INDEX :: nat where "APPLICATION_INDEX = 4"

text \<open>The string of the code: extension, index of the media type and subtype, one after the other.\<close>

definition gEncodedMediaTypes :: "(string \<times> nat \<times> string) list" where
  "gEncodedMediaTypes =
     [(''aif'', 1, ''aiff''), (''aifc'', 1, ''aiff''), (''aiff'', 1, ''aiff''),
      (''asf'', 2, ''x-ms-asf''), (''asx'', 2, ''x-ms-asf''), (''au'', 1, ''basic''),
      (''avi'', 2, ''msvideo''), (''bmp'', 3, ''bmp''), (''dcr'', 4, ''x-director''),
      (''dib'', 3, ''bmp''), (''dir'', 4, ''x-director''), (''dxr'', 4, ''x-director''),
      (''gif'', 3, ''gif''), (''hta'', 5, ''hta''), (''htm'', 5, ''html''),
      (''html'', 5, ''html''), (''jar'', 4, ''java-archive''), (''jfif'', 3, ''pjpeg''),
      (''jpe'', 3, ''jpeg''), (''jpeg'', 3, ''jpeg''), (''jpg'', 3, ''jpeg''),
      (''js'', 4, ''x-javascript''), (''kar'', 1, ''midi''), (''m3u'', 1, ''mpegurl''),
      (''mid'', 1, ''midi''), (''midi'', 1, ''midi''), (''mov'', 2, ''quicktime''),
      (''mp2v'', 2, ''x-mpeg2''), (''mp3'', 1, ''mpeg''), (''mpe'', 2, ''mpeg''),
      (''mpeg'', 2, ''mpeg''), (''mpg'', 2, ''mpeg''), (''mpv'', 2, ''mpeg''),
      (''mpv2'', 2, ''x-mpeg2''), (''pdf'', 4, ''pdf''), (''pjp'', 3, ''jpeg''),
      (''pjpeg'', 3, ''jpeg''), (''plg'', 5, ''html''), (''pls'', 1, ''scpls''),
      (''png'', 3, ''png''), (''qt'', 2, ''quicktime''), (''ram'', 1, ''x-pn-realaudio''),
      (''rmi'', 1, ''mid''), (''rmm'', 1, ''x-pn-realaudio''), (''rtf'', 4, ''rtf''),
      (''shtml'', 5, ''html''), (''smf'', 1, ''midi''), (''snd'', 1, ''basic''),
      (''spl'', 4, ''futuresplash''), (''ssm'', 4, ''streamingmedia''), (''swf'', 4, ''x-shockwave-flash''),
      (''tar'', 4, ''tar''), (''tcl'', 4, ''x-tcl''), (''text'', 5, ''plain''),
      (''tif'', 3, ''tiff''), (''tiff'', 3, ''tiff''), (''txt'', 5, ''plain''),
      (''ulw'', 1, ''basic''), (''wav'', 1, ''wav''), (''wax'', 1, ''x-ms-wax''),
      (''wm'', 2, ''x-ms-wm''), (''wma'', 1, ''x-ms-wma''), (''wmv'', 2, ''x-ms-wmv''),
      (''wvx'', 2, ''x-ms-wvx''), (''xbm'', 3, ''x-xbitmap''), (''xml'', 5, ''xml''),
      (''xsl'', 5, ''xml''), (''z'', 4, ''x-compress''), (''zip'', 4, ''zip'')]"

record document_type_t =
  file_ext :: string
  media_type :: string
  media_subtype :: string

definition media_list_init :: "document_type_t list" where
  "media_list_init =
     map (\<lambda>(e, t, s). \<lparr>file_ext = e, media_type = gMediaTypes ! t, media_subtype = s\<rparr>) gEncodedMediaTypes"

subsection \<open>Searching\<close>

definition strcasecmp :: "string \<Rightarrow> string \<Rightarrow> int" where
  "strcasecmp a b = strncasecmp (Suc (max (length a) (length b))) a b"

function extension_loop :: "string \<Rightarrow> document_type_t list \<Rightarrow> int \<Rightarrow> int \<Rightarrow> document_type_t option" where
  "extension_loop ext ts lo hi =
     (if lo \<le> hi
      then (let mid = (lo + hi) div 2; cmp = strcasecmp ext (file_ext (ts ! nat mid))
            in if cmp > 0 then extension_loop ext ts (mid + 1) hi
               else if cmp < 0 then extension_loop ext ts lo (mid - 1)
               else Some (ts ! nat mid))
      else None)"
  by pat_completeness auto
termination
  by (relation "measure (\<lambda>(ext, ts, lo, hi). nat (hi - lo + 1))") auto

declare extension_loop.simps [simp del]

definition NUM_MEDIA_TYPES :: int where "NUM_MEDIA_TYPES = 69"

definition search_extension :: "string \<Rightarrow> (string \<times> string) option" where
  "search_extension ext =
     map_option (\<lambda>d. (media_type d, media_subtype d)) (extension_loop ext media_list_init 0 (NUM_MEDIA_TYPES - 1))"

text \<open>\<open>strrchr (s, '.')\<close>: what follows the last dot.\<close>

definition after_last_dot :: "string \<Rightarrow> string option" where
  "after_last_dot s =
     (if CHR ''.'' \<in> set s then Some (rev (takeWhile (\<lambda>c. c \<noteq> CHR ''.'') (rev s))) else None)"

text \<open>\<open>mem_ok\<close> tells whether the string can be allocated.\<close>

definition get_content_type :: "bool \<Rightarrow> string \<Rightarrow> int \<times> string option" where
  "get_content_type mem_ok filename =
     (if \<not> mem_ok then (UPNP_E_OUTOF_MEMORY, None)
      else
        (case Option.bind (after_last_dot filename) search_extension of
           Some (t, s) \<Rightarrow> (0, Some (t @ ''/'' @ s))
         | None \<Rightarrow> (0, Some (gMediaTypes ! APPLICATION_INDEX @ ''/'' @ ''octet-stream''))))"

subsection \<open>The search is that of a name table\<close>

lemma strncmp_tail: "n \<ge> Suc (max (length a) (length b)) \<Longrightarrow> no_nul a \<Longrightarrow> no_nul b \<Longrightarrow> sgn (strncmp n a b) = cmp_sign a b"
proof (induction a arbitrary: b n)
  case Nil
  then show ?case by (cases n; cases b) (auto simp: cmp_sign_def sgn_if)
next
  case (Cons x xs)
  then obtain m where n: "n = Suc m" by (cases n) auto
  show ?case
  proof (cases b)
    case Nil
    with Cons.prems n show ?thesis by (simp add: cmp_sign_def sgn_if)
  next
    case (Cons y ys)
    show ?thesis
    proof (cases "x = y")
      case True
      with Cons.prems Cons Cons.IH [where b = ys and n = m] n show ?thesis by (auto simp: cmp_sign_def)
    next
      case False
      then have "code x < code y \<or> code y < code x"
        using code_inj [of x y] by (auto simp: not_less le_less simp del: code_inj)
      with Cons.prems Cons False n show ?thesis by (auto simp: cmp_sign_def sgn_if)
    qed
  qed
qed

lemma strcasecmp_cases:
  assumes "no_nul a" and "no_nul b"
  shows "strcasecmp a b > 0 \<longleftrightarrow> entry_cmp False a b > 0"
    and "strcasecmp a b < 0 \<longleftrightarrow> entry_cmp False a b < 0"
proof -
  have "sgn (strcasecmp a b) = sgn (entry_cmp False a b)"
    using strncmp_tail [of "map tolower a" "map tolower b"] entry_cmp_sign [OF assms, of False] assms
    by (simp add: strcasecmp_def strncasecmp_def fold_case_def del: strncmp.simps)
  then show "strcasecmp a b > 0 \<longleftrightarrow> entry_cmp False a b > 0" "strcasecmp a b < 0 \<longleftrightarrow> entry_cmp False a b < 0"
    by (auto simp: sgn_if split: if_splits)
qed

definition media_names :: "str_int_entry list" where
  "media_names = map (\<lambda>d. (file_ext d, 0)) media_list_init"

lemma media_length: "length media_list_init = 69" "length media_names = 69"
  by (simp_all add: media_list_init_def media_names_def gEncodedMediaTypes_def)

lemma media_table: "table_ok media_names" "table_sorted False media_names"
  by code_simp+

lemma extension_loop_search:
  assumes e: "no_nul ext" and "0 \<le> lo" and "hi < 69"
  shows "extension_loop ext media_list_init lo hi =
           (let i = search_loop ext media_names False lo hi
            in if i = -1 then None else Some (media_list_init ! nat i))"
  using assms(2,3)
proof (induction "nat (hi - lo + 1)" arbitrary: lo hi rule: less_induct)
  case less
  show ?case
  proof (cases "lo \<le> hi")
    case False
    then show ?thesis by (simp add: extension_loop.simps search_loop.simps Let_def)
  next
    case True
    define mid where "mid = (lo + hi) div 2"
    have m: "lo \<le> mid" "mid \<le> hi" using True by (auto simp: mid_def)
    define k where "k = fst (media_names ! nat mid)"
    have k: "k = file_ext (media_list_init ! nat mid)" "no_nul k"
      using m less.prems media_table(1) by (auto simp: k_def media_names_def media_length table_ok_def)
    note c = strcasecmp_cases [OF e k(2)]
    have up: "nat (hi - (mid + 1) + 1) < nat (hi - lo + 1)" "nat (mid - 1 - lo + 1) < nat (hi - lo + 1)"
      using m True by auto
    have "extension_loop ext media_list_init lo hi =
        (if entry_cmp False ext k > 0 then extension_loop ext media_list_init (mid + 1) hi
         else if entry_cmp False ext k < 0 then extension_loop ext media_list_init lo (mid - 1)
         else Some (media_list_init ! nat mid))"
      using True by (subst extension_loop.simps) (simp add: mid_def [symmetric] Let_def k(1) [symmetric] c)
    moreover have "search_loop ext media_names False lo hi =
        (if entry_cmp False ext k > 0 then search_loop ext media_names False (mid + 1) hi
         else if entry_cmp False ext k < 0 then search_loop ext media_names False lo (mid - 1)
         else mid)"
      using True by (subst search_loop.simps) (simp add: mid_def [symmetric] Let_def k_def)
    ultimately show ?thesis
      using less.hyps [OF up(1)] less.hyps [OF up(2)] less.prems m by (auto simp: Let_def)
  qed
qed

lemma search_extension_finds:
  assumes "no_nul ext"
  shows "search_extension ext = Some (t, s) \<longleftrightarrow>
           (\<exists>d \<in> set media_list_init. map tolower (file_ext d) = map tolower ext \<and> media_type d = t \<and> media_subtype d = s)"
proof -
  define i where "i = map_str_to_int ext media_names False"
  have loop: "extension_loop ext media_list_init 0 68 = (if i = -1 then None else Some (media_list_init ! nat i))"
    using extension_loop_search [OF assms, of 0 68] by (simp add: Let_def i_def map_str_to_int_def media_length)
  have key: "key False media_names k = map tolower (file_ext (media_list_init ! k))" if "k < 69" for k
    using that by (simp add: key_def fold_case_def media_names_def media_length)
  show ?thesis
  proof
    assume "search_extension ext = Some (t, s)"
    then have i: "i \<noteq> -1" and d: "media_type (media_list_init ! nat i) = t" "media_subtype (media_list_init ! nat i) = s"
      by (auto simp: search_extension_def NUM_MEDIA_TYPES_def loop split: if_splits)
    from map_str_to_int_sound [OF assms media_table(1), of False, folded i_def, OF i]
    obtain k where k: "k < 69" "i = int k" "key False media_names k = map tolower ext"
      by (auto simp: media_length fold_case_def)
    with d show "\<exists>d \<in> set media_list_init. map tolower (file_ext d) = map tolower ext \<and> media_type d = t \<and> media_subtype d = s"
      by (intro bexI [of _ "media_list_init ! k"]) (auto simp: key media_length)
  next
    assume "\<exists>d \<in> set media_list_init. map tolower (file_ext d) = map tolower ext \<and> media_type d = t \<and> media_subtype d = s"
    then obtain k where k: "k < 69" "map tolower (file_ext (media_list_init ! k)) = map tolower ext"
      "media_type (media_list_init ! k) = t" "media_subtype (media_list_init ! k) = s"
      by (auto simp: in_set_conv_nth media_length)
    have "i = int k"
      unfolding i_def by (rule map_str_to_int_complete [OF assms media_table])
        (use k in \<open>auto simp: media_length key fold_case_def\<close>)
    with k show "search_extension ext = Some (t, s)"
      by (simp add: search_extension_def NUM_MEDIA_TYPES_def loop)
  qed
qed

subsection \<open>Properties\<close>

text \<open>C17: The content type of a file is that of the table's entry whose extension is, up to case, what
  follows the last dot of the name, and \<open>application/octet-stream\<close> if there is none: the table is
  sorted the way the binary search needs.\<close>
theorem content_type_of_extension:
  assumes "no_nul filename"
  shows "get_content_type True filename =
           (0, case Option.bind (after_last_dot filename)
                      (\<lambda>e. find (\<lambda>d. map tolower (file_ext d) = map tolower e) media_list_init) of
                 Some d \<Rightarrow> Some (media_type d @ ''/'' @ media_subtype d)
               | None \<Rightarrow> Some ''application/octet-stream'')"
proof (cases "after_last_dot filename")
  case None
  then show ?thesis by (simp add: get_content_type_def gMediaTypes_def APPLICATION_INDEX_def)
next
  case (Some e)
  have "set e \<subseteq> set filename"
    using Some set_takeWhileD [of _ "\<lambda>c. c \<noteq> CHR ''.''" "rev filename"]
    by (fastforce simp: after_last_dot_def split: if_splits)
  then have e: "no_nul e" using assms by (auto simp: no_nul_def)
  let ?P = "\<lambda>d. map tolower (file_ext d) = map tolower e"
  show ?thesis
  proof (cases "find ?P media_list_init")
    case None
    then have "search_extension e = None"
      using search_extension_finds [OF e] by (cases "search_extension e") (fastforce simp: find_None_iff)+
    with None Some show ?thesis by (simp add: get_content_type_def gMediaTypes_def APPLICATION_INDEX_def)
  next
    case (Some d)
    then have "d \<in> set media_list_init" "?P d" by (auto simp: find_Some_iff)
    then have "search_extension e = Some (media_type d, media_subtype d)"
      using search_extension_finds [OF e] by auto
    with Some \<open>after_last_dot filename = Some e\<close> show ?thesis by (simp add: get_content_type_def)
  qed
qed

theorem content_type_of_extension_witness:
  "get_content_type True ''/music/track.MP3'' = (0, Some ''audio/mpeg'')"
proof -
  have "no_nul ''/music/track.MP3''" by simp
  note content_type_of_extension [OF this]
  also have "(case Option.bind (after_last_dot ''/music/track.MP3'')
        (\<lambda>e. find (\<lambda>d. map tolower (file_ext d) = map tolower e) media_list_init) of
      Some d \<Rightarrow> Some (media_type d @ ''/'' @ media_subtype d) | None \<Rightarrow> Some ''application/octet-stream'') =
      Some ''audio/mpeg''"
    by code_simp
  finally show ?thesis .
qed

end
