(* ===== verification/WebAlias.thy ===== *)
theory WebAlias
  imports HttpInvariant
begin

text \<open>
  The aliased document of the web server (\<open>genlib/net/http/webserver.c\<close>): one document that is served
  from memory, with a counter of its users that decides who frees it. The buffers of name and document
  are values here; they are freed only together with the counter, which is a block of the heap, so a
  use of them after that is a use of the counter's block after it was freed: undefined behaviour, the
  result \<open>None\<close>. The mutex makes grabbing, releasing and installing single steps.
\<close>

subsection \<open>Buffers as the server uses them\<close>

lemma takeWhile_no_nul: "no_nul s \<Longrightarrow> takeWhile (\<lambda>c. c \<noteq> CHR 0x00) s = s"
  by (induction s) auto

lemma strlen_no_nul: "no_nul s \<Longrightarrow> strlen s = of_nat (length s)"
  unfolding strlen_def by (subst takeWhile_no_nul) simp_all

lemma fit_append:
  assumes al: "bounded_alloc al" and m: "fit m" and n: "length bytes \<le> LIMIT"
  shows "\<exists>rc m'. membuffer_append al m (Some bytes) (of_nat (length bytes)) = Some (rc, m') \<and> fit m' \<and>
           (rc = 0 \<and> contents m' = contents m @ bytes \<or> rc = UPNP_E_OUTOF_MEMORY \<and> m' = m \<and> bytes \<noteq> [])"
proof -
  have l: "unat (mlength m) = length (contents m)"
    using m by (simp add: contents_length fit_def)
  obtain rc m' where e: "membuffer_insert al m (Some bytes) (of_nat (length bytes)) (mlength m) = Some (rc, m')"
    using membuffer_insert_result [OF _ fit_room [OF m n], where al = al and index = "mlength m"] m
    by (auto simp: fit_def split: option.splits)
  have "small m'" using m by (intro insert_small [OF al _ e]) (simp add: fit_def)
  then show ?thesis
    using membuffer_insert_result [OF _ fit_room [OF m n], where al = al and index = "mlength m"] m e l
    by (auto simp: fit_def membuffer_append_def split: if_splits)
qed

lemma fit_append_str:
  assumes "bounded_alloc al" and "fit m" and "length s \<le> LIMIT" and "no_nul s"
  shows "\<exists>rc m'. membuffer_append_str al m s = Some (rc, m') \<and> fit m' \<and>
           (rc = 0 \<and> contents m' = contents m @ s \<or> rc = UPNP_E_OUTOF_MEMORY \<and> m' = m \<and> s \<noteq> [])"
  using fit_append [OF assms(1-3)] by (simp add: membuffer_append_str_def membuffer_append_def strlen_no_nul assms(4))

lemma fit_assign_str:
  assumes al: "bounded_alloc al" and m: "fit m" and n: "length s \<le> LIMIT" and s: "no_nul s"
  shows "\<exists>rc m'. membuffer_assign_str al m s = Some (rc, m') \<and> fit m' \<and>
           (rc = 0 \<and> contents m' = s \<or> rc = UPNP_E_OUTOF_MEMORY \<and> m' = m)"
proof -
  obtain rc m' where e: "membuffer_assign al m (Some s) (of_nat (length s)) = Some (rc, m')"
    using membuffer_assign_result [OF _ fit_room [OF m n], where al = al] m by (auto simp: fit_def split: option.splits)
  have "small m'" using m by (intro assign_small [OF al _ e]) (simp add: fit_def)
  then show ?thesis
    using membuffer_assign_result [OF _ fit_room [OF m n], where al = al] m e
    by (auto simp: fit_def membuffer_assign_str_def strlen_no_nul s split: if_splits)
qed

lemma fit_blank [simp]: "fit blank_mb"
  by (simp add: fit_def mb_ok_def small_def blank_mb_def)

lemma contents_blank [simp]: "contents blank_mb = []"
  by (simp add: contents_def blank_mb_def)

subsection \<open>The alias\<close>

record xml_alias_t =
  alias_name :: membuffer
  alias_doc :: membuffer
  alias_modified :: int
  alias_ct :: "nat option"

record alias_state =
  gAliasDoc :: xml_alias_t
  cts :: heap
  counts :: "nat \<Rightarrow> int"

definition glob_alias_init :: xml_alias_t where
  "glob_alias_init = \<lparr>alias_name = blank_mb, alias_doc = blank_mb, alias_modified = 0, alias_ct = None\<rparr>"

definition is_valid_alias :: "xml_alias_t \<Rightarrow> bool" where
  "is_valid_alias a \<longleftrightarrow> buf (alias_doc a) \<noteq> None"

definition alias_grab :: "alias_state \<Rightarrow> (xml_alias_t \<times> alias_state) option" where
  "alias_grab s =
     do {
       c \<leftarrow> alias_ct (gAliasDoc s);
       if c \<in> live (cts s)
       then Some (gAliasDoc s, s\<lparr>counts := (counts s)(c := counts s c + 1)\<rparr>)
       else None
     }"

text \<open>The first result is the structure the pointer refers to.\<close>

definition alias_release :: "xml_alias_t \<Rightarrow> alias_state \<Rightarrow> (xml_alias_t \<times> alias_state) option" where
  "alias_release a s =
     (if \<not> is_valid_alias a then Some (a, s)
      else do {
        c \<leftarrow> alias_ct a;
        if c \<notin> live (cts s) then None
        else
          let s1 = s\<lparr>counts := (counts s)(c := counts s c - 1)\<rparr>
          in if counts s1 c \<le> 0
             then Some (a\<lparr>alias_doc := membuffer_destroy (alias_doc a), alias_name := membuffer_destroy (alias_name a)\<rparr>,
                        s1\<lparr>cts := free (Some c) (cts s1)\<rparr>)
             else Some (a, s1)
      })"

definition release_global :: "alias_state \<Rightarrow> alias_state option" where
  "release_global s = map_option (\<lambda>(a, s1). s1\<lparr>gAliasDoc := a\<rparr>) (alias_release (gAliasDoc s) s)"

text \<open>Building the new alias; the result is the alias, or the heap after the failure.\<close>

definition build_alias ::
  "allocator \<Rightarrow> string \<Rightarrow> char list \<Rightarrow> size_t \<Rightarrow> int \<Rightarrow> heap \<Rightarrow> (xml_alias_t option \<times> heap) option" where
  "build_alias al nm content len modified h =
     do {
       (rc, n0) \<leftarrow> (if take 1 nm \<noteq> ''/'' then membuffer_assign_str al blank_mb ''/'' else Some (0, blank_mb));
       if rc \<noteq> 0 then Some (None, h)
       else do {
         (rc1, n1) \<leftarrow> membuffer_append_str al n0 nm;
         if rc1 \<noteq> 0 then Some (None, h)
         else
           (case malloc h of
              (None, h1) \<Rightarrow> Some (None, h1)
            | (Some c, h1) \<Rightarrow>
                Some (Some \<lparr>alias_name = n1, alias_doc = membuffer_attach blank_mb (Some content) len,
                            alias_modified = modified, alias_ct = Some c\<rparr>, h1))
       }
     }"

definition web_server_set_alias ::
  "allocator \<Rightarrow> string option \<Rightarrow> char list \<Rightarrow> size_t \<Rightarrow> int \<Rightarrow> alias_state \<Rightarrow> (int \<times> alias_state) option" where
  "web_server_set_alias al alias_nm content len modified s =
     do {
       s1 \<leftarrow> release_global s;
       case alias_nm of
         None \<Rightarrow> Some (0, s1)
       | Some nm \<Rightarrow>
           do {
             (r, h) \<leftarrow> build_alias al nm content len modified (cts s1);
             Some (case r of
                     None \<Rightarrow> (UPNP_E_OUTOF_MEMORY, s1\<lparr>cts := h\<rparr>)
                   | Some a \<Rightarrow> (0, s1\<lparr>gAliasDoc := a, cts := h, counts := (counts s1)(the (alias_ct a) := 1)\<rparr>))
           }
     }"

subsection \<open>Users and the server, interleaved\<close>


definition alias_start :: "heap \<Rightarrow> alias_state \<times> xml_alias_t list" where
  "alias_start h = (\<lparr>gAliasDoc = glob_alias_init, cts = h, counts = \<lambda>_. 0\<rparr>, [])"

definition users :: "nat \<Rightarrow> xml_alias_t list \<Rightarrow> nat" where
  "users c hs = length (filter (\<lambda>a. alias_ct a = Some c) hs)"

definition serves :: "nat \<Rightarrow> alias_state \<Rightarrow> bool" where
  "serves c s \<longleftrightarrow> is_valid_alias (gAliasDoc s) \<and> alias_ct (gAliasDoc s) = Some c"

definition counted :: "alias_state \<Rightarrow> xml_alias_t list \<Rightarrow> nat \<Rightarrow> bool" where
  "counted s hs c \<longleftrightarrow> c \<in> live (cts s) \<and> counts s c \<ge> int (users c hs) + (if serves c s then 1 else 0)"

definition alias_ok :: "alias_state \<times> xml_alias_t list \<Rightarrow> bool" where
  "alias_ok x =
     (case x of (s, hs) \<Rightarrow>
        heap_ok (cts s) \<and>
        (\<forall>a \<in> set hs. is_valid_alias a \<and> (\<exists>c. alias_ct a = Some c \<and> counted s hs c)) \<and>
        (is_valid_alias (gAliasDoc s) \<longrightarrow> (\<exists>c. alias_ct (gAliasDoc s) = Some c \<and> counted s hs c)))"

lemma users_append [simp]: "users c (xs @ ys) = users c xs + users c ys"
  by (simp add: users_def)

lemma users_Cons [simp]: "users c (a # hs) = (if alias_ct a = Some c then 1 else 0) + users c hs"
  by (simp add: users_def)

lemma users_pos: "a \<in> set hs \<Longrightarrow> alias_ct a = Some c \<Longrightarrow> 0 < users c hs"
  by (auto simp: users_def filter_empty_conv)

lemma alias_okD:
  assumes "alias_ok (s, hs)"
  shows "heap_ok (cts s)"
    and "a \<in> set hs \<Longrightarrow> \<exists>c. is_valid_alias a \<and> alias_ct a = Some c \<and> counted s hs c"
    and "is_valid_alias (gAliasDoc s) \<Longrightarrow> \<exists>c. alias_ct (gAliasDoc s) = Some c \<and> counted s hs c"
  using assms by (auto simp: alias_ok_def)


text \<open>What releasing a held or the served structure does to a counter.\<close>

lemma release_result:
  assumes v: "is_valid_alias a" "alias_ct a = Some c" "c \<in> live (cts s)" and h: "heap_ok (cts s)"
  shows "\<exists>a' s'. alias_release a s = Some (a', s') \<and> heap_ok (cts s') \<and> gAliasDoc s' = gAliasDoc s \<and>
           counts s' = (counts s)(c := counts s c - 1) \<and>
           live (cts s') = (if counts s c \<le> 1 then live (cts s) - {c} else live (cts s)) \<and>
           (if counts s c \<le> 1 then \<not> is_valid_alias a' else a' = a)"
  using v free_Some [OF v(3) h] h
  by (simp add: alias_release_def Let_def is_valid_alias_def membuffer_destroy_def membuffer_init_def
      membuffer_initialize_def)

lemma release_global_result:
  assumes ok: "alias_ok (s, hs)"
  shows "\<exists>s1. release_global s = Some s1 \<and> heap_ok (cts s1) \<and>
           (\<forall>a \<in> set hs. is_valid_alias a \<and> (\<exists>c. alias_ct a = Some c \<and> c \<in> live (cts s1) \<and> counts s1 c \<ge> int (users c hs)))"
proof (cases "is_valid_alias (gAliasDoc s)")
  case False
  then have "release_global s = Some s" by (simp add: release_global_def alias_release_def)
  with alias_okD [OF ok] show ?thesis by (fastforce simp: counted_def split: if_splits)
next
  case True
  then obtain c where c: "alias_ct (gAliasDoc s) = Some c" "c \<in> live (cts s)" "counts s c \<ge> int (users c hs) + 1"
    using alias_okD(3) [OF ok] by (auto simp: counted_def serves_def)
  obtain a' s' where r: "alias_release (gAliasDoc s) s = Some (a', s')" "heap_ok (cts s')"
    "counts s' = (counts s)(c := counts s c - 1)"
    "live (cts s') = (if counts s c \<le> 1 then live (cts s) - {c} else live (cts s))"
    using release_result [OF True c(1,2) alias_okD(1) [OF ok]] by blast
  have "is_valid_alias a \<and> (\<exists>d. alias_ct a = Some d \<and> d \<in> live (cts s') \<and> counts s' d \<ge> int (users d hs))"
    if a: "a \<in> set hs" for a
  proof -
    obtain d where d: "is_valid_alias a" "alias_ct a = Some d" "d \<in> live (cts s)" "counts s d \<ge> int (users d hs)"
      using alias_okD(2) [OF ok a] by (auto simp: counted_def split: if_splits)
    with users_pos [OF a d(2)] c(3) show ?thesis by (auto simp: r(3,4))
  qed
  with r(1,2) show ?thesis by (simp add: release_global_def)
qed








subsection \<open>Properties\<close>

text \<open>The served name and document of a successful call.\<close>

lemma set_alias_result:
  assumes al: "bounded_alloc al" and nm: "no_nul nm" "length nm \<le> LIMIT" and ok: "alias_ok (s, hs)"
  shows "\<exists>rc s'. web_server_set_alias al (Some nm) content len t s = Some (rc, s') \<and>
           (rc = 0 \<longrightarrow> contents (alias_name (gAliasDoc s')) = (if take 1 nm = ''/'' then nm else CHR ''/'' # nm) \<and>
              buf (alias_doc (gAliasDoc s')) = Some content \<and> mlength (alias_doc (gAliasDoc s')) = len)"
proof -
  obtain s1 where s1: "release_global s = Some s1" using release_global_result [OF ok] by blast
  obtain rc n0 where n0: "(if take 1 nm \<noteq> ''/'' then membuffer_assign_str al blank_mb ''/'' else Some (0, blank_mb)) = Some (rc, n0)"
    "fit n0" "rc = 0 \<longrightarrow> contents n0 = (if take 1 nm = ''/'' then [] else ''/'')"
  proof (cases "take 1 nm = ''/''")
    case True
    with that [of 0 blank_mb] show ?thesis by simp
  next
    case False
    obtain rc m' where "membuffer_assign_str al blank_mb ''/'' = Some (rc, m')" "fit m'" "rc = 0 \<longrightarrow> contents m' = ''/''"
      using fit_assign_str [OF al fit_blank, of "''/''"] by (auto simp: LIMIT_def UPNP_E_OUTOF_MEMORY_def)
    with False that [of rc m'] show ?thesis by simp
  qed
  obtain rc1 n1 where n1: "membuffer_append_str al n0 nm = Some (rc1, n1)" "rc1 = 0 \<longrightarrow> contents n1 = contents n0 @ nm"
    using fit_append_str [OF al n0(2) nm(2,1)] by (fastforce simp: UPNP_E_OUTOF_MEMORY_def)
  obtain q h where m: "malloc (cts s1) = (q, h)" by fastforce
  have e: "web_server_set_alias al (Some nm) content len t s =
      Option.bind (build_alias al nm content len t (cts s1))
        (\<lambda>(r, h). Some (case r of
           None \<Rightarrow> (UPNP_E_OUTOF_MEMORY, s1\<lparr>cts := h\<rparr>)
         | Some a \<Rightarrow> (0, s1\<lparr>gAliasDoc := a, cts := h, counts := (counts s1)(the (alias_ct a) := 1)\<rparr>)))"
    by (simp add: web_server_set_alias_def s1)
  show ?thesis
  proof (cases "rc = 0 \<and> rc1 = 0 \<and> q \<noteq> None")
    case True
    then obtain c where "q = Some c" by blast
    with True n0(3) n1 show ?thesis
      unfolding e build_alias_def n0(1) by (simp add: n1 m membuffer_attach_def)
  next
    case False
    then have "\<exists>h. build_alias al nm content len t (cts s1) = Some (None, h)"
      unfolding build_alias_def n0(1) by (cases q) (auto simp: n1 m)
    then show ?thesis unfolding e by (auto simp: UPNP_E_OUTOF_MEMORY_def)
  qed
qed


text \<open>A document is installed and grabbed by a user.\<close>

definition some_heap :: heap where
  "some_heap = \<lparr>live = {}, calls = 0, grants = \<lambda>_. True, bad_free = False\<rparr>"

definition installed :: "alias_state option" where
  "installed = map_option snd (web_server_set_alias any_alloc (Some ''/d.xml'') ''<d/>'' 4 0 (fst (alias_start some_heap)))"

definition grabbed :: "(xml_alias_t \<times> alias_state) option" where
  "grabbed = Option.bind installed alias_grab"

lemma installed_Some: "\<exists>s. web_server_set_alias any_alloc (Some ''/d.xml'') ''<d/>'' 4 0 (fst (alias_start some_heap)) = Some (0, s) \<and>
   installed = Some s \<and> is_valid_alias (gAliasDoc s) \<and> (\<exists>a s'. alias_grab s = Some (a, s') \<and> grabbed = Some (a, s'))"
  by (simp add: installed_def grabbed_def web_server_set_alias_def release_global_def alias_release_def
      alias_start_def glob_alias_init_def is_valid_alias_def blank_mb_def build_alias_def
      membuffer_append_str_def membuffer_insert_def strlen_def membuffer_set_size_def realloc_def
      any_alloc_def MEMBUF_DEF_SIZE_INC_def memmove_def peek_def poke_def Let_def malloc_def some_heap_def
      membuffer_attach_def alias_grab_def)


text \<open>
  Removing the alias (a NULL name), or installing one when memory runs out, while a user holds it
  leaves the served structure as it is: when the user has released the document, which frees it, the
  structure still looks valid, and the next request uses the freed block.
\<close>

theorem alias_reset_dangles:
  "\<exists>a s1 s2 s3. grabbed = Some (a, s1) \<and> web_server_set_alias any_alloc None [] 0 0 s1 = Some (0, s2) \<and>
     map_option snd (alias_release a s2) = Some s3 \<and> is_valid_alias (gAliasDoc s3) \<and> alias_grab s3 = None"
proof -
  obtain s a s1 where s: "web_server_set_alias any_alloc (Some ''/d.xml'') ''<d/>'' 4 0 (fst (alias_start some_heap)) = Some (0, s)"
    "is_valid_alias (gAliasDoc s)" "alias_grab s = Some (a, s1)" "grabbed = Some (a, s1)"
    using installed_Some by blast
  have c: "alias_ct (gAliasDoc s) = Some 0 \<and> live (cts s) = {0} \<and> counts s 0 = 1"
    using s(1)
    by (auto simp: web_server_set_alias_def release_global_def alias_release_def alias_start_def glob_alias_init_def
        is_valid_alias_def blank_mb_def build_alias_def malloc_def some_heap_def
        UPNP_E_OUTOF_MEMORY_def split: Option.bind_splits prod.splits if_splits)
  then have g: "a = gAliasDoc s" "s1 = s\<lparr>counts := (counts s)(0 := 2)\<rparr>"
    using s(3) by (auto simp: alias_grab_def)
  have "web_server_set_alias any_alloc None [] 0 0 s1 = Some (0, s1\<lparr>counts := (counts s)(0 := 1)\<rparr>)"
    using c s(2) by (simp add: web_server_set_alias_def release_global_def alias_release_def g Let_def)
  moreover have "map_option snd (alias_release a (s1\<lparr>counts := (counts s)(0 := 1)\<rparr>)) =
      Some (s\<lparr>counts := (counts s)(0 := 0), cts := (cts s)\<lparr>live := {}\<rparr>\<rparr>)"
    using c s(2) by (simp add: g alias_release_def Let_def free_def)
  moreover have "alias_grab (s\<lparr>counts := (counts s)(0 := 0), cts := (cts s)\<lparr>live := {}\<rparr>\<rparr>) = None"
    using c by (simp add: alias_grab_def)
  ultimately show ?thesis using s(2,4)
    by (intro exI [of _ a] exI [of _ s1] exI [of _ "s1\<lparr>counts := (counts s)(0 := 1)\<rparr>"]
        exI [of _ "s\<lparr>counts := (counts s)(0 := 0), cts := (cts s)\<lparr>live := {}\<rparr>\<rparr>"]) simp
qed

end
