(* ===== verification/WebServer.thy ===== *)
theory WebServer
  imports UriDots WebAlias WebMedia HttpMessage
begin

text \<open>
  The web server (\<open>genlib/net/http/webserver.c\<close>): from a parsed request to the answer on the wire. The
  file system and the callbacks of the virtual directories are parameters (\<open>web_os\<close>); the structure that
  describes the client to these callbacks is not modelled, a callback may depend on it. \<open>None\<close> is
  undefined behaviour or a call that never returns.
\<close>

subsection \<open>Codes\<close>

definition HTTP_OK :: int where "HTTP_OK = 200"
definition HTTP_PARTIAL_CONTENT :: int where "HTTP_PARTIAL_CONTENT = 206"
definition HTTP_UNAUTHORIZED :: int where "HTTP_UNAUTHORIZED = 401"
definition HTTP_FORBIDDEN :: int where "HTTP_FORBIDDEN = 403"
definition HTTP_NOT_FOUND :: int where "HTTP_NOT_FOUND = 404"
definition HTTP_NOT_ACCEPTABLE :: int where "HTTP_NOT_ACCEPTABLE = 406"
definition HTTP_REQUEST_RANGE_NOT_SATISFIABLE :: int where "HTTP_REQUEST_RANGE_NOT_SATISFIABLE = 416"
definition HTTP_SERVICE_UNAVAILABLE :: int where "HTTP_SERVICE_UNAVAILABLE = 503"

lemmas web_codes = HTTP_OK_def HTTP_PARTIAL_CONTENT_def HTTP_UNAUTHORIZED_def HTTP_FORBIDDEN_def
  HTTP_NOT_FOUND_def HTTP_NOT_ACCEPTABLE_def HTTP_REQUEST_RANGE_NOT_SATISFIABLE_def
  HTTP_SERVICE_UNAVAILABLE_def HTTP_BAD_REQUEST_def HTTP_INTERNAL_SERVER_ERROR_def

definition UPNP_USING_CHUNKED :: int where "UPNP_USING_CHUNKED = -3"
definition X_USER_AGENT :: string where "X_USER_AGENT = ''redsonic''"
definition LINE_SIZE :: nat where "LINE_SIZE = 180"

datatype resp_type = RESP_FILEDOC | RESP_XMLDOC | RESP_HEADERS | RESP_WEBDOC | RESP_POST

subsection \<open>State and environment\<close>

record File_Info =
  file_length :: int
  file_modified :: int
  is_directory :: bool
  is_readable :: bool
  is_cacheable :: bool
  content_type :: "string option"

text \<open>
  \<open>stat\<close> tells whether the name is a directory or a regular file, its size and time; \<open>readable\<close> whether it
  can be opened; \<open>get_info\<close> is the callback, which fills in the information and returns a code;
  \<open>strings_ok\<close> whether short strings can be allocated.
\<close>

record web_os =
  stat :: "string \<Rightarrow> (bool \<times> bool \<times> int \<times> int) option"
  readable :: "string \<Rightarrow> bool"
  get_info :: "string \<Rightarrow> File_Info \<Rightarrow> int \<times> File_Info"
  strings_ok :: bool

record web_state =
  gDocumentRootDir :: membuffer
  aliases :: alias_state
  pVirtualDirList :: "string list"
  web_enabled :: bool

definition web_server_init :: "web_state \<Rightarrow> int \<times> web_state" where
  "web_server_init w =
     (if web_enabled w then (0, w)
      else (0, w\<lparr>gDocumentRootDir := membuffer_init (gDocumentRootDir w),
                 aliases := (aliases w)\<lparr>gAliasDoc := glob_alias_init\<rparr>, pVirtualDirList := [], web_enabled := True\<rparr>))"

definition zero_buffer :: membuffer where
  "zero_buffer = \<lparr>buf = None, mlength = 0, capacity = 0, size_inc = 0\<rparr>"

definition web_server_destroy :: "web_state \<Rightarrow> web_state option" where
  "web_server_destroy w =
     (if \<not> web_enabled w then Some w
      else do {
        s \<leftarrow> release_global (aliases w);
        Some (w\<lparr>gDocumentRootDir := membuffer_destroy (gDocumentRootDir w),
                aliases := s\<lparr>gAliasDoc := \<lparr>alias_name = zero_buffer, alias_doc = zero_buffer, alias_modified = 0, alias_ct = None\<rparr>\<rparr>,
                web_enabled := False\<rparr>)
      })"

definition web_server_set_root_dir :: "allocator \<Rightarrow> string \<Rightarrow> web_state \<Rightarrow> (int \<times> web_state) option" where
  "web_server_set_root_dir al root_dir w =
     do {
       (ret, m) \<leftarrow> membuffer_assign_str al (gDocumentRootDir w) root_dir;
       if ret \<noteq> 0 then Some (ret, w\<lparr>gDocumentRootDir := m\<rparr>)
       else if mlength m > 0
       then do {
         b \<leftarrow> buf m;
         c \<leftarrow> char_at b (unat (mlength m - 1));
         m1 \<leftarrow> (if c = CHR ''/'' then membuffer_delete al m (mlength m - 1) 1 else Some m);
         Some (0, w\<lparr>gDocumentRootDir := m1\<rparr>)
       }
       else Some (0, w\<lparr>gDocumentRootDir := m\<rparr>)
     }"

definition get_file_info :: "web_os \<Rightarrow> string \<Rightarrow> File_Info \<Rightarrow> int \<times> File_Info" where
  "get_file_info os filename info =
     (let info1 = info\<lparr>content_type := None\<rparr>
      in case stat os filename of
           None \<Rightarrow> (-1, info1)
         | Some (dir, reg, len, mtime) \<Rightarrow>
             if \<not> dir \<and> \<not> reg then (-1, info1)
             else
               let (rc, ct) = get_content_type (strings_ok os) filename
               in (rc, info1\<lparr>is_directory := dir, is_readable := readable os filename, is_cacheable := True,
                             file_length := len, file_modified := mtime, content_type := ct\<rparr>))"

text \<open>The structure is only filled in if the request is for the alias.\<close>

definition get_alias :: "string \<Rightarrow> xml_alias_t \<Rightarrow> File_Info \<Rightarrow> (bool \<times> File_Info) option" where
  "get_alias request_file a info =
     do {
       nm \<leftarrow> buf (alias_name a);
       Some (if c_string nm = request_file
             then (True, info\<lparr>file_length := sint (mlength (alias_doc a)), is_readable := True, is_directory := False,
                              is_cacheable := True, file_modified := alias_modified a\<rparr>)
             else (False, info))
     }"

definition in_virtual_dir :: "string \<Rightarrow> string \<Rightarrow> bool" where
  "in_virtual_dir filePath dirName \<longleftrightarrow>
     (let webDirLen = length dirName
      in webDirLen \<noteq> 0 \<and>
         (if last dirName = CHR ''/'' then strncmp webDirLen dirName filePath = 0
          else strncmp webDirLen dirName filePath = 0 \<and>
               wch filePath webDirLen \<in> {CHR ''/'', CHR 0x00, CHR ''?''}))"

fun isFileInVirtualDir :: "string list \<Rightarrow> string \<Rightarrow> bool" where
  "isFileInVirtualDir [] filePath = False"
| "isFileInVirtualDir (d # ds) filePath = (if in_virtual_dir filePath d then True else isFileInVirtualDir ds filePath)"

subsection \<open>Strings\<close>

definition toupper :: "char \<Rightarrow> char" where
  "toupper c = (if islower c then char_of (code c - 32) else c)"

definition ToUpperCase :: "string \<Rightarrow> string" where "ToUpperCase s = map toupper s"

text \<open>The position of the first occurrence; both copies may fail.\<close>

definition StrStr :: "allocator \<Rightarrow> string \<Rightarrow> string \<Rightarrow> nat option" where
  "StrStr al s1 s2 =
     (if \<not> can_alloc al (length s1 + 1) \<or> \<not> can_alloc al (length s2 + 1) then None
      else
        let i = strstr (ToUpperCase s1) (ToUpperCase s2) 0
        in if i < 0 then None else Some (nat i))"

definition StrTok :: "string option \<Rightarrow> string \<Rightarrow> string option \<times> string option" where
  "StrTok src del =
     (case src of
        None \<Rightarrow> (None, None)
      | Some s \<Rightarrow>
          let i = strstr s del 0
          in if i < 0 then (Some s, None) else (Some (take (nat i) s), Some (drop (nat i + length del) s)))"

subsection \<open>Ranges\<close>

text \<open>One 64-bit conversion of \<open>sscanf\<close>; the numbers keep their value -1 where it fails.\<close>

definition scan_long :: "string \<Rightarrow> (int \<times> string) option" where
  "scan_long s = (case strtol 10 s of (v, n, _) \<Rightarrow> if n = 0 then None else Some (v, drop n s))"

definition scan_range :: "string \<Rightarrow> int \<times> int" where
  "scan_range s =
     (case scan_long s of
        None \<Rightarrow> (-1, -1)
      | Some (f, s1) \<Rightarrow> (f, case scan_long s1 of None \<Rightarrow> -1 | Some (l, _) \<Rightarrow> l))"

text \<open>The first and the last byte and the rest of the string, \<open>None\<close> for the code's -1.\<close>

definition GetNextRange :: "string option \<Rightarrow> (int \<times> int \<times> string option) option" where
  "GetNextRange src =
     (case StrTok src '','' of
        (None, _) \<Rightarrow> None
      | (Some tok, src1) \<Rightarrow>
          let i = strstr tok ''-'' 0
          in if i < 0 then None
             else
               let (f, l) = scan_range (tok[nat i := CHR '' ''])
               in if (f = -1 \<or> l = -1) \<and> (\<forall>c \<in> set (takeWhile (\<lambda>c. c \<noteq> CHR ''-'') tok). \<not> isdigit c)
                  then Some (l, f, src1)
                  else Some (f, l, src1))"

definition content_range :: "int \<Rightarrow> int \<Rightarrow> int \<Rightarrow> string" where
  "content_range a b n =
     ''CONTENT-RANGE: bytes '' @ int_string a @ ''-'' @ int_string b @ ''/'' @ int_string n @ CRLF"

definition set_range :: "int \<Rightarrow> int \<Rightarrow> string \<Rightarrow> SendInstruction \<Rightarrow> int \<times> SendInstruction" where
  "set_range offset n hdr i =
     (if fits hdr then HTTP_OK else HTTP_INTERNAL_SERVER_ERROR,
      i\<lparr>RangeOffset := offset, ReadSendSize := n, RangeHeader := take (TEMPBUF - 1) hdr\<rparr>)"

definition range_header :: "int \<Rightarrow> int \<Rightarrow> int \<Rightarrow> SendInstruction \<Rightarrow> int \<times> SendInstruction" where
  "range_header FirstByte LastByte FileLength i =
     (if FileLength < FirstByte then (HTTP_REQUEST_RANGE_NOT_SATISFIABLE, i)
      else if FirstByte \<ge> 0 \<and> LastByte \<ge> 0 \<and> LastByte \<ge> FirstByte
      then
        let l = (if LastByte \<ge> FileLength then FileLength - 1 else LastByte)
        in set_range FirstByte (l - FirstByte + 1) (content_range FirstByte l FileLength) i
      else if FirstByte \<ge> 0 \<and> LastByte = -1 \<and> FirstByte < FileLength
      then set_range FirstByte (FileLength - FirstByte) (content_range FirstByte (FileLength - 1) FileLength) i
      else if FirstByte = -1 \<and> LastByte > 0
      then
        if LastByte \<ge> FileLength
        then set_range 0 FileLength (content_range 0 (FileLength - 1) FileLength) i
        else set_range (FileLength - LastByte) LastByte (content_range (FileLength - LastByte) (FileLength - 1) FileLength) i
      else (HTTP_REQUEST_RANGE_NOT_SATISFIABLE, i))"

definition CreateHTTPRangeResponseHeader ::
  "allocator \<Rightarrow> string option \<Rightarrow> int \<Rightarrow> SendInstruction \<Rightarrow> int \<times> SendInstruction" where
  "CreateHTTPRangeResponseHeader al spec FileLength instr =
     (let i = instr\<lparr>IsRangeActive := True, ReadSendSize := FileLength\<rparr>
      in case spec of
           None \<Rightarrow> (HTTP_BAD_REQUEST, i)
         | Some s \<Rightarrow>
             if \<not> can_alloc al (length s + 1) then (HTTP_INTERNAL_SERVER_ERROR, i)
             else if StrStr al s ''bytes'' = None then (HTTP_BAD_REQUEST, i\<lparr>IsRangeActive := False\<rparr>)
             else
               (case StrStr al s ''='' of
                  None \<Rightarrow> (HTTP_BAD_REQUEST, i\<lparr>IsRangeActive := False\<rparr>)
                | Some eq \<Rightarrow>
                    if FileLength < 0 then (HTTP_REQUEST_RANGE_NOT_SATISFIABLE, i)
                    else
                      (case GetNextRange (Some (drop (eq + 1) s)) of
                         None \<Rightarrow> (HTTP_REQUEST_RANGE_NOT_SATISFIABLE, i)
                       | Some (first, final, _) \<Rightarrow> range_header first final FileLength i)))"

subsection \<open>The other headers\<close>

definition other_header ::
  "allocator \<Rightarrow> http_header \<Rightarrow> int \<Rightarrow> SendInstruction \<Rightarrow> int \<times> SendInstruction" where
  "other_header al h FileSize i =
     (let index = map_str_to_int (contents (name_buf h)) Http_Header_Names False;
          TmpBuf = c_string (contents (hvalue h))
      in if index < 0 then (HTTP_OK, i)
         else
           let hid = snd (Http_Header_Names ! nat index)
           in if hid = HDR_TE
              then (HTTP_OK, i\<lparr>IsChunkActive := True,
                               IsTrailers := IsTrailers i \<or> (length TmpBuf > 4 \<and> StrStr al TmpBuf ''trailers'' \<noteq> None)\<rparr>)
              else if hid = HDR_CONTENT_LENGTH then (HTTP_OK, i\<lparr>RecvWriteSize := int_of_long (atol TmpBuf)\<rparr>)
              else if hid = HDR_RANGE then CreateHTTPRangeResponseHeader al (Some TmpBuf) FileSize i
              else if hid = HDR_ACCEPT_LANGUAGE
              then (HTTP_OK, i\<lparr>AcceptLanguageHeader := c_string (take (TEMPBUF - 1) (contents (hvalue h)))\<rparr>)
              else (HTTP_OK, i))"

text \<open>The loop with its node, the size of \<open>TmpBuf\<close> and the instruction.\<close>

partial_function (option) other_headers ::
  "allocator \<Rightarrow> http_header LinkedList \<Rightarrow> int \<Rightarrow> addr \<times> nat \<times> SendInstruction \<Rightarrow> (int \<times> SendInstruction) option" where
  "other_headers al l FileSize x =
     (if fst x = Null then Some (HTTP_OK, snd (snd x))
      else Option.bind (item (node l (fst x)))
        (\<lambda>h. let len = unat (mlength (hvalue h)); sz = (if len \<ge> fst (snd x) then len + 1 else fst (snd x))
             in if len \<ge> fst (snd x) \<and> \<not> can_alloc al sz then Some (HTTP_INTERNAL_SERVER_ERROR, snd (snd x))
                else
                  let r = other_header al h FileSize (snd (snd x))
                  in if fst r \<noteq> HTTP_OK then Some r
                     else other_headers al l FileSize (ListNext l (fst x), sz, snd r)))"

definition CheckOtherHTTPHeaders ::
  "allocator \<Rightarrow> http_message \<Rightarrow> SendInstruction \<Rightarrow> int \<Rightarrow> (int \<times> SendInstruction) option" where
  "CheckOtherHTTPHeaders al req i FileSize =
     (if \<not> can_alloc al LINE_SIZE then Some (HTTP_INTERNAL_SERVER_ERROR, i)
      else other_headers al (headers req) FileSize (ListHead (headers req), LINE_SIZE, i))"

subsection \<open>Requests\<close>

text \<open>What \<open>request_doc\<close> becomes, or the code of the error.\<close>

definition request_path :: "allocator \<Rightarrow> http_message \<Rightarrow> (int + string) option" where
  "request_path al req =
     (let pq = pathquery (huri req); n = tsize pq
      in if \<not> can_alloc al (n + 1) then Some (Inl HTTP_INTERNAL_SERVER_ERROR)
         else do {
           u \<leftarrow> urlbuf req;
           (_, mem1, _) \<leftarrow> remove_escaped_chars (token_text u pq @ [CHR 0x00]) 0 n;
           (rc, mem2) \<leftarrow> remove_dots (can_alloc al (8 * n)) mem1 0 n;
           Some (if rc \<noteq> 0 then Inl HTTP_FORBIDDEN
                 else if wch (c_string mem2) 0 \<noteq> CHR ''/'' then Inl HTTP_BAD_REQUEST
                 else Inr (c_string mem2))
         })"

text \<open>\<open>filename->buf\<close> as a string.\<close>

definition buf_string :: "membuffer \<Rightarrow> string option" where
  "buf_string m = map_option c_string (buf m)"

text \<open>
  The information on a file, or on \<open>index.html\<close> in it if it is a directory; \<open>HTTP_OK\<close> to go on. Files and
  virtual directories differ in the function that is asked.
\<close>

definition find_document ::
  "(string \<Rightarrow> File_Info \<Rightarrow> int \<times> File_Info) \<Rightarrow> allocator \<Rightarrow> membuffer \<Rightarrow> File_Info \<Rightarrow> (int \<times> membuffer \<times> File_Info) option" where
  "find_document info al filename finfo =
     do {
       s \<leftarrow> buf_string filename;
       let (rc, fi) = info s finfo;
       if rc \<noteq> 0 then Some (HTTP_NOT_FOUND, filename, fi)
       else if \<not> is_directory fi
       then Some (if is_readable fi then HTTP_OK else HTTP_FORBIDDEN, filename, fi)
       else do {
         b \<leftarrow> buf filename;
         c \<leftarrow> char_at b (unat (mlength filename - 1));
         (rc1, f1) \<leftarrow> membuffer_append_str al filename (if c = CHR ''/'' then ''index.html'' else ''/index.html'');
         if rc1 \<noteq> 0 then Some (HTTP_INTERNAL_SERVER_ERROR, f1, fi)
         else do {
           s1 \<leftarrow> buf_string f1;
           let (rc2, fi2) = info s1 fi;
           Some (if rc2 \<noteq> 0 \<or> is_directory fi2 then HTTP_NOT_FOUND
                 else if is_readable fi2 then HTTP_OK else HTTP_FORBIDDEN, f1, fi2)
         }
       }
     }"

text \<open>The loop does not end if a buffer cannot be made smaller.\<close>

partial_function (option) strip_slashes :: "allocator \<Rightarrow> membuffer \<Rightarrow> membuffer option" where
  "strip_slashes al m =
     (if mlength m = 0 then Some m
      else do {
        b \<leftarrow> buf m;
        c \<leftarrow> char_at b (unat (mlength m - 1));
        if c = CHR ''/''
        then do { m1 \<leftarrow> membuffer_delete al m (mlength m - 1) 1; strip_slashes al m1 }
        else Some m
      })"

definition root_file :: "allocator \<Rightarrow> web_state \<Rightarrow> string \<Rightarrow> membuffer \<Rightarrow> (int \<times> membuffer) option" where
  "root_file al w path filename =
     (if mlength (gDocumentRootDir w) = 0 then Some (HTTP_INTERNAL_SERVER_ERROR, filename)
      else do {
        root \<leftarrow> buf (gDocumentRootDir w);
        (rc, f1) \<leftarrow> membuffer_assign_str al filename root;
        if rc \<noteq> 0 then Some (HTTP_INTERNAL_SERVER_ERROR, f1)
        else do {
          (rc1, f2) \<leftarrow> membuffer_append_str al f1 path;
          if rc1 \<noteq> 0 then Some (HTTP_INTERNAL_SERVER_ERROR, f2)
          else do { f3 \<leftarrow> strip_slashes al f2; Some (HTTP_OK, f3) }
        }
      })"

text \<open>
  Which document is meant: whether it is virtual, the alias that was grabbed and whether the request is
  for it, the name and the information.
\<close>

record document =
  doc_code :: int
  doc_virtual :: bool
  doc_alias :: "xml_alias_t option"
  doc_using_alias :: bool
  doc_name :: membuffer
  doc_info :: File_Info

definition zero_info :: File_Info where
  "zero_info = \<lparr>file_length = 0, file_modified = 0, is_directory = False, is_readable = False, is_cacheable = False,
                content_type = None\<rparr>"

definition virtual_document :: "allocator \<Rightarrow> web_os \<Rightarrow> bool \<Rightarrow> string \<Rightarrow> document option" where
  "virtual_document al os post path =
     do {
       (rc, f) \<leftarrow> membuffer_assign_str al blank_mb path;
       let d = \<lparr>doc_code = HTTP_INTERNAL_SERVER_ERROR, doc_virtual = True, doc_alias = None, doc_using_alias = False,
                doc_name = f, doc_info = zero_info\<rparr>;
       if rc \<noteq> 0 then Some d
       else if post then Some (d\<lparr>doc_code := HTTP_OK\<rparr>)
       else do {
         (code, f1, fi) \<leftarrow> find_document (get_info os) al f zero_info;
         Some (d\<lparr>doc_code := code, doc_name := f1, doc_info := fi\<rparr>)
       }
     }"

definition root_document ::
  "allocator \<Rightarrow> web_os \<Rightarrow> web_state \<Rightarrow> bool \<Rightarrow> string \<Rightarrow> document \<Rightarrow> document option" where
  "root_document al os w post path d =
     do {
       (rc, f) \<leftarrow> root_file al w path (doc_name d);
       if rc \<noteq> HTTP_OK then Some (d\<lparr>doc_code := rc, doc_name := f\<rparr>)
       else if post then Some (d\<lparr>doc_code := HTTP_OK, doc_name := f\<rparr>)
       else do {
         (code, f1, fi) \<leftarrow> find_document (get_file_info os) al f (doc_info d);
         Some (d\<lparr>doc_code := code, doc_name := f1, doc_info := fi\<rparr>)
       }
     }"

definition choose_document ::
  "allocator \<Rightarrow> web_os \<Rightarrow> bool \<Rightarrow> string \<Rightarrow> web_state \<Rightarrow> (document \<times> web_state) option" where
  "choose_document al os post path w =
     (if isFileInVirtualDir (pVirtualDirList w) path
      then map_option (\<lambda>d. (d, w)) (virtual_document al os post path)
      else
        let d = \<lparr>doc_code = HTTP_OK, doc_virtual = False, doc_alias = None, doc_using_alias = False,
                 doc_name = blank_mb, doc_info = zero_info\<rparr>
        in if is_valid_alias (gAliasDoc (aliases w))
           then do {
             (a, s) \<leftarrow> alias_grab (aliases w);
             (using, fi) \<leftarrow> get_alias path a zero_info;
             let w1 = w\<lparr>aliases := s\<rparr>;
             let d1 = d\<lparr>doc_alias := Some a, doc_using_alias := using, doc_info := fi\<rparr>;
             if using
             then Some (if strings_ok os then d1\<lparr>doc_info := fi\<lparr>content_type := Some ''text/xml''\<rparr>\<rparr>
                        else d1\<lparr>doc_code := HTTP_INTERNAL_SERVER_ERROR\<rparr>, w1)
             else map_option (\<lambda>d2. (d2, w1)) (root_document al os w1 post path d1)
           }
           else map_option (\<lambda>d2. (d2, w)) (root_document al os w post path d))"

text \<open>The format of the headers.\<close>

definition header_format :: "int \<Rightarrow> SendInstruction \<Rightarrow> File_Info \<Rightarrow> msg_item list" where
  "header_format maj i fi =
     (let tail = [Msg_D, Msg_s (Some ''LAST-MODIFIED: ''), Msg_t (file_modified fi), Msg_c, Msg_S,
                  Msg_X X_USER_AGENT, Msg_c,
                  Msg_s (Some (if is_cacheable fi then [] else ''CACHE-CONTROL: no-cache'' @ CRLF)), Msg_C, Msg_c]
      in if IsRangeActive i \<and> IsChunkActive i
         then [Msg_R HTTP_PARTIAL_CONTENT, Msg_T (content_type fi), Msg_G i, Msg_K, Msg_L i] @ tail
         else if IsRangeActive i
         then [Msg_R HTTP_PARTIAL_CONTENT, Msg_N (ReadSendSize i), Msg_T (content_type fi), Msg_G i, Msg_L i] @ tail
         else if IsChunkActive i
         then [Msg_R HTTP_OK, Msg_K, Msg_T (content_type fi), Msg_L i] @ tail
         else if ReadSendSize i \<ge> 0
         then [Msg_R HTTP_OK, Msg_N (ReadSendSize i), Msg_T (content_type fi), Msg_L i] @ tail
         else [Msg_R HTTP_OK, Msg_T (content_type fi), Msg_L i] @ tail)"

record response =
  resp_code :: int
  resp_type :: resp_type
  resp_headers :: membuffer
  resp_name :: membuffer
  resp_alias :: "xml_alias_t option"
  resp_instr :: SendInstruction

text \<open>What is left to do with a document that was found.\<close>

definition prepare_response ::
  "msg_env \<Rightarrow> allocator \<Rightarrow> http_message \<Rightarrow> SendInstruction \<Rightarrow> document \<Rightarrow> response option" where
  "prepare_response env al req instr d =
     do {
       let fi = doc_info d;
       let r0 = \<lparr>resp_code = HTTP_INTERNAL_SERVER_ERROR, resp_type = RESP_FILEDOC, resp_headers = blank_mb,
                 resp_name = doc_name d, resp_alias = doc_alias d, resp_instr = instr\<rparr>;
       (code, i) \<leftarrow> CheckOtherHTTPHeaders al req (instr\<lparr>ReadSendSize := file_length fi\<rparr>) (file_length fi);
       let r1 = r0\<lparr>resp_instr := i\<rparr>;
       if code \<noteq> HTTP_OK then Some (r1\<lparr>resp_code := code\<rparr>)
       else if hmethod req = HTTPMETHOD_POST then Some (r1\<lparr>resp_code := HTTP_OK, resp_type := RESP_POST\<rparr>)
       else
         let (maj, mnr) = http_CalcResponseVersion (major_version req) (minor_version req);
             chunked = (doc_virtual d \<and> file_length fi = UPNP_USING_CHUNKED)
         in if chunked \<and> \<not> (maj = 1 \<and> mnr = 1) then Some (r1\<lparr>resp_code := HTTP_NOT_ACCEPTABLE\<rparr>)
            else
              let i1 = (if chunked then i\<lparr>IsChunkActive := True\<rparr> else i)
              in do {
                (rc, hs) \<leftarrow> http_MakeMessage env al maj mnr (header_format maj i1 fi) blank_mb;
                Some (if rc \<noteq> 0 then r1\<lparr>resp_headers := hs, resp_instr := i1\<rparr>
                      else r1\<lparr>resp_code := HTTP_OK, resp_instr := i1,
                              resp_type := (if hmethod req = HTTPMETHOD_HEAD then RESP_HEADERS
                                            else if doc_using_alias d then RESP_XMLDOC
                                            else if doc_virtual d then RESP_WEBDOC else RESP_FILEDOC),
                              resp_headers := (if hmethod req = HTTPMETHOD_SIMPLEGET then membuffer_destroy hs else hs)\<rparr>)
              }
     }"

text \<open>The alias is only released on an error.\<close>

definition release_grabbed :: "xml_alias_t option \<Rightarrow> web_state \<Rightarrow> web_state option" where
  "release_grabbed a w =
     (case a of
        None \<Rightarrow> Some w
      | Some x \<Rightarrow> map_option (\<lambda>(_, s). w\<lparr>aliases := s\<rparr>) (alias_release x (aliases w)))"

definition process_request ::
  "msg_env \<Rightarrow> allocator \<Rightarrow> web_os \<Rightarrow> http_message \<Rightarrow> SendInstruction \<Rightarrow> web_state \<Rightarrow> (response \<times> web_state) option" where
  "process_request env al os req instr w =
     do {
       p \<leftarrow> request_path al req;
       case p of
         Inl err \<Rightarrow>
           Some (\<lparr>resp_code = err, resp_type = RESP_FILEDOC, resp_headers = blank_mb, resp_name = blank_mb,
                  resp_alias = None, resp_instr = instr\<rparr>, w)
       | Inr path \<Rightarrow>
           do {
             (d, w1) \<leftarrow> choose_document al os (hmethod req = HTTPMETHOD_POST) path w;
             let i = instr\<lparr>IsVirtualFile := doc_virtual d \<or> IsVirtualFile instr\<rparr>;
             r \<leftarrow> (if doc_code d \<noteq> HTTP_OK
                   then Some \<lparr>resp_code = doc_code d, resp_type = RESP_FILEDOC, resp_headers = blank_mb,
                              resp_name = doc_name d, resp_alias = doc_alias d, resp_instr = i\<rparr>
                   else prepare_response env al req i d);
             w2 \<leftarrow> (if resp_code r \<noteq> HTTP_OK then release_grabbed (resp_alias r) w1 else Some w1);
             Some (r, w2)
           }
     }"

declare other_headers.simps [code] strip_slashes.simps [code]

end
