(* ===== verification/WebCallback.thy ===== *)
theory WebCallback
  imports WebServer
begin

text \<open>
  Answering a request (\<open>genlib/net/http/webserver.c\<close>): receiving what is posted into a file and
  \<open>web_server_callback\<close>, which sends the answer.
\<close>

subsection \<open>Where posted data goes\<close>

text \<open>
  Which files can be opened for writing (by the callback or as a file); how many bytes the next calls of
  the writing function take, \<open>None\<close> for an error; what has been written. A short write is an error for a
  file only.
\<close>

record sink =
  sink_opens :: "bool \<Rightarrow> string \<Rightarrow> bool"
  sink_takes :: "nat option list"
  sink_data :: "char list"

definition sink_write :: "bool \<Rightarrow> char list \<Rightarrow> sink \<Rightarrow> bool \<times> sink" where
  "sink_write virt b k =
     (case sink_takes k of
        [] \<Rightarrow> (False, k)
      | None # r \<Rightarrow> (False, k\<lparr>sink_takes := r\<rparr>)
      | Some n # r \<Rightarrow>
          (virt \<or> n \<ge> length b, k\<lparr>sink_takes := r, sink_data := sink_data k @ take n b\<rparr>))"

subsection \<open>Receiving\<close>

record post_state =
  post_parser :: http_parser
  post_status :: parse_status
  post_ok_close :: bool
  post_timeout :: int
  post_sock :: SOCKINFO

definition bad_status :: "parse_status \<Rightarrow> bool" where
  "bad_status st \<longleftrightarrow> st \<notin> {PARSE_SUCCESS, PARSE_CONTINUE_1, PARSE_INCOMPLETE, PARSE_INCOMPLETE_ENTITY}"

text \<open>
  Parsing the entity; the flag tells whether the status is an error.
\<close>

definition post_parse :: "resolver \<Rightarrow> allocator \<Rightarrow> post_state \<Rightarrow> (bool \<times> post_state) option" where
  "post_parse rs al st =
     do {
       (status, p) \<leftarrow> parser_parse_entity rs al (post_parser st);
       Some (bad_status status,
             st\<lparr>post_parser := p, post_status := status,
                post_ok_close := post_ok_close st \<or> status = PARSE_INCOMPLETE_ENTITY\<rparr>)
     }"

definition POST_BUF :: nat where "POST_BUF = 1024"

text \<open>Reading until \<open>need\<close> bytes of the entity are there; the result is the error, if there is one.\<close>

partial_function (option) post_fill ::
  "resolver \<Rightarrow> allocator \<Rightarrow> size_t \<Rightarrow> post_state \<Rightarrow> (int option \<times> post_state) option" where
  "post_fill rs al need st =
     (if need \<le> ent_length (hmsg (post_parser st)) \<or> position (post_parser st) = POS_COMPLETE then Some (None, st)
      else
        let r = sock_read POST_BUF (post_timeout st) (post_sock st);
            st1 = st\<lparr>post_timeout := fst (snd (snd r)), post_sock := snd (snd (snd r))\<rparr>
        in if fst r > 0
           then Option.bind (membuffer_append al (msgbuf (hmsg (post_parser st))) (Some (fst (snd r))) (word_of_int (fst r)))
             (\<lambda>m. let p = upd_msg (\<lambda>h. h\<lparr>msgbuf := snd m\<rparr>) (post_parser st)
                  in if fst m \<noteq> 0
                     then Some (Some HTTP_INTERNAL_SERVER_ERROR,
                                st1\<lparr>post_parser := p\<lparr>http_error_code := HTTP_INTERNAL_SERVER_ERROR\<rparr>\<rparr>)
                     else Option.bind (post_parse rs al (st1\<lparr>post_parser := p\<rparr>))
                       (\<lambda>x. if fst x then Some (Some HTTP_BAD_REQUEST, snd x) else post_fill rs al need (snd x)))
           else if fst r = 0
           then if post_ok_close st then post_fill rs al need (st1\<lparr>post_parser := (post_parser st)\<lparr>position := POS_COMPLETE\<rparr>\<rparr>)
                else Some (Some HTTP_BAD_REQUEST, st1\<lparr>post_parser := (post_parser st)\<lparr>http_error_code := HTTP_BAD_REQUEST\<rparr>\<rparr>)
           else Some (Some HTTP_SERVICE_UNAVAILABLE, st1))"

text \<open>
  The outer loop with \<open>entity_offset\<close> and \<open>Data_Buf_Size\<close>: parsing what is there, reading more, writing
  the next piece.
\<close>

partial_function (option) post_loop ::
  "resolver \<Rightarrow> allocator \<Rightarrow> bool \<Rightarrow> size_t \<times> size_t \<times> post_state \<times> sink \<Rightarrow> (int \<times> post_state \<times> sink) option" where
  "post_loop rs al virt x =
     (let offset = fst x; size = fst (snd x); st = fst (snd (snd x)); k = snd (snd (snd x))
      in Option.bind (if position (post_parser st) = POS_COMPLETE then Some (bad_status (post_status st), st)
                      else post_parse rs al st)
        (\<lambda>y. if fst y then Some (HTTP_BAD_REQUEST, snd y, k)
             else Option.bind (post_fill rs al (offset + size) (snd y))
               (\<lambda>z. case fst z of
                      Some err \<Rightarrow> Some (err, snd z, k)
                    | None \<Rightarrow>
                        (let p = post_parser (snd z); len = ent_length (hmsg p);
                             n = (if offset + size > len then len - offset else size)
                         in if unat n > POST_BUF then None
                            else Option.bind (if n = 0 then Some []
                                              else Option.bind (buf (msgbuf (hmsg p)))
                                                     (peek (unat (entity_start_position p + offset)) (unat n)))
                              (\<lambda>b. let w = sink_write virt b k
                                   in if \<not> fst w then Some (HTTP_INTERNAL_SERVER_ERROR, snd z, snd w)
                                      else if position p \<noteq> POS_COMPLETE \<or> offset + n \<noteq> len
                                      then post_loop rs al virt (offset + n, n, snd z, snd w)
                                      else Some (HTTP_OK, snd z, snd w))))))"

definition http_RecvPostMessage ::
  "resolver \<Rightarrow> allocator \<Rightarrow> bool \<Rightarrow> string option \<Rightarrow> http_parser \<Rightarrow> SOCKINFO \<Rightarrow> sink \<Rightarrow>
   (int \<times> http_parser \<times> SOCKINFO \<times> sink) option" where
  "http_RecvPostMessage rs al virt filename p info k =
     do {
       f \<leftarrow> filename;
       if \<not> sink_opens k virt f
       then Some (if virt then HTTP_INTERNAL_SERVER_ERROR else HTTP_UNAUTHORIZED, p, info, k)
       else do {
         (ret, st, k1) \<leftarrow> post_loop rs al virt
           (0, of_nat POST_BUF,
            \<lparr>post_parser = p\<lparr>position := POS_ENTITY\<rparr>, post_status = PARSE_OK, post_ok_close = False,
             post_timeout = 0, post_sock = info\<rparr>, k);
         Some (ret, post_parser st, post_sock st, k1)
       }
     }"

subsection \<open>The callback\<close>

text \<open>Range and sizes are not initialised by the code; they are read only where they have been set.\<close>

definition no_instruction :: SendInstruction where
  "no_instruction =
     \<lparr>IsVirtualFile = False, IsChunkActive = False, IsRangeActive = False, IsTrailers = False,
      RangeHeader = [], AcceptLanguageHeader = [], RangeOffset = 0, ReadSendSize = 0, RecvWriteSize = 0\<rparr>"

record answered =
  ans_sock :: SOCKINFO
  ans_web :: web_state
  ans_parser :: http_parser
  ans_sink :: sink

definition web_server_callback ::
  "msg_env \<Rightarrow> resolver \<Rightarrow> allocator \<Rightarrow> web_os \<Rightarrow> (bool \<Rightarrow> char list \<Rightarrow> file_stream option) \<Rightarrow> http_parser \<Rightarrow>
   SOCKINFO \<Rightarrow> sink \<Rightarrow> web_state \<Rightarrow> answered option" where
  "web_server_callback env rs al os open_file p info k w =
     do {
       (r, w1) \<leftarrow> process_request env al os (hmsg p) no_instruction w;
       let done = (\<lambda>s. \<lparr>ans_sock = s, ans_web = w1, ans_parser = p, ans_sink = k\<rparr>);
       let i = resp_instr r;
       let head = Send_b (contents (resp_headers r));
       if resp_code r \<noteq> HTTP_OK
       then map_option (\<lambda>(_, s). done s)
              (http_SendStatusResponse env al (resp_code r) (major_version (hmsg p)) (minor_version (hmsg p)) info)
       else
         (case resp_type r of
            RESP_XMLDOC \<Rightarrow>
              do {
                a \<leftarrow> resp_alias r;
                (_, _, s) \<leftarrow> http_SendMessage open_file al [Send_I i, head, Send_b (contents (alias_doc a))] 0 info;
                w2 \<leftarrow> release_grabbed (Some a) w1;
                Some ((done s)\<lparr>ans_web := w2\<rparr>)
              }
          | RESP_HEADERS \<Rightarrow>
              map_option (\<lambda>(_, _, s). done s) (http_SendMessage open_file al [head] 0 info)
          | RESP_POST \<Rightarrow>
              do {
                (ret, p1, s1, k1) \<leftarrow> http_RecvPostMessage rs al (IsVirtualFile i) (buf_string (resp_name r)) p info k;
                (_, hs) \<leftarrow> http_MakeMessage env al 1 1
                  [Msg_R ret, Msg_T (Some ''text/html''), Msg_L i, Msg_S, Msg_X X_USER_AGENT, Msg_c, Msg_C, Msg_c] (resp_headers r);
                (_, _, s2) \<leftarrow> http_SendMessage open_file al [Send_b (contents hs)] 0 s1;
                Some \<lparr>ans_sock = s2, ans_web = w1, ans_parser = p1, ans_sink = k1\<rparr>
              }
          | _ \<Rightarrow>
              do {
                f \<leftarrow> buf_string (resp_name r);
                (_, _, s) \<leftarrow> http_SendMessage open_file al [Send_I i, head, Send_f f] 0 info;
                Some (done s)
              })
     }"

declare post_fill.simps [code] post_loop.simps [code]

end
