(* ===== verification/WebPaths.thy ===== *)
theory WebPaths
  imports WebCallback
begin

text \<open>
  Which file a request names: the path is the normalised, unescaped path of the request, the file lies
  below the root directory, and what escapes at the end of the path, a question mark or a number sign
  that are escaped do to that.
\<close>

subsection \<open>Buffers that hold a string\<close>












subsection \<open>The path of a request\<close>









subsection \<open>The file\<close>







subsection \<open>Properties\<close>


text \<open>A request for a file of a server with the root \<open>/srv\<close>.\<close>

definition page_alloc :: allocator where
  "page_alloc = \<lparr>can_alloc = (\<lambda>n. n \<le> 4096), fresh = CHR ''?''\<rparr>"

definition a_request :: "int \<Rightarrow> string \<Rightarrow> http_message" where
  "a_request m t = (hmsg (new_request []))\<lparr>hmethod := m, urlbuf := Some (t @ [CHR 0x00]),
     huri := zero_uri\<lparr>pathquery := \<lparr>tsize = length t, buff = Some 0\<rparr>\<rparr>, major_version := 1, minor_version := 1\<rparr>"

definition a_server :: web_state where
  "a_server = \<lparr>gDocumentRootDir = holding ''/srv'', aliases = fst (alias_start some_heap), pVirtualDirList = [],
               web_enabled = True\<rparr>"

definition an_os :: web_os where
  "an_os = \<lparr>stat = (\<lambda>f. if f = ''/srv/..'' then Some (True, False, 0, 0) else Some (False, True, 12, 0)),
            readable = (\<lambda>_. True), get_info = (\<lambda>_ fi. (-1, fi)), strings_ok = True\<rparr>"





text \<open>
  The size that is passed on to the dot removal is that of the path before the escapes are replaced: an
  escaped \<open>..\<close> at the end is followed by zero bytes and is not recognised, and behind an escaped question
  mark or number sign no segment is removed at all.
\<close>
theorem escaped_dots_survive:
  "request_path page_alloc (a_request HTTPMETHOD_GET ''/%2e%2e'') = Some (Inr ''/..'')"
  "request_path page_alloc (a_request HTTPMETHOD_GET ''/%23/../../x'') = Some (Inr ''/#/../../x'')"
  "map_option (\<lambda>(d, _). (buf_string (doc_name d), doc_code d)) (choose_document page_alloc an_os False ''/..'' a_server) =
     Some (Some ''/srv/../index.html'', 200)"
  by code_simp+

end
