(* ===== verification/WebRanges.thy ===== *)
theory WebRanges
  imports WebCallback
begin

text \<open>
  Range requests: whatever the header says, a range that is granted lies inside of the file, and the three
  forms of a range are granted exactly as they should be, up to one byte at the end of the file.
\<close>

subsection \<open>Decimal numbers\<close>

lemma dec_string_not_Nil [simp]: "dec_string n \<noteq> []"
  by (subst dec_string.simps) simp

lemma digit_char: "d < 10 \<Longrightarrow> isdigit (char_of (48 + d)) \<and> code (char_of (48 + d)) = 48 + d"
proof -
  assume "d < 10"
  then have "code (char_of (48 + d)) = 48 + d" by (simp add: code_def)
  moreover have "code CHR ''0'' = 48" "code CHR ''9'' = 57" by (simp_all add: code_def)
  ultimately show ?thesis using \<open>d < 10\<close> by (simp add: isdigit_def)
qed

lemma dec_string_digits: "\<forall>c \<in> set (dec_string n). isdigit c"
proof (induction n rule: less_induct)
  case (less n)
  show ?case
  proof (cases "n < 10")
    case True
    then show ?thesis using digit_char [of n] by (subst dec_string.simps) simp
  next
    case False
    then have "n div 10 < n" "n mod 10 < 10" by auto
    with False less.IH [of "n div 10"] digit_char [of "n mod 10"] show ?thesis by (subst dec_string.simps) auto
  qed
qed

lemma digits_val_dec_snoc [simp]: "digits_val b (ds @ [d]) = digits_val b ds * b + hex_val d"
  by (simp add: digits_val_def)

lemma dec_string_val: "digits_val 10 (dec_string n) = n"
proof (induction n rule: less_induct)
  case (less n)
  have z: "code CHR ''0'' = 48" by (simp add: code_def)
  show ?case
  proof (cases "n < 10")
    case True
    then show ?thesis using digit_char [of n] z by (subst dec_string.simps) (simp add: digits_val_def hex_val_def)
  next
    case False
    then have "n div 10 < n" "n mod 10 < 10" by auto
    with False less.IH [of "n div 10"] digit_char [of "n mod 10"] z show ?thesis
      by (subst dec_string.simps) (simp add: hex_val_def)
  qed
qed

lemma dec_string_length: "n < 10 ^ k \<Longrightarrow> 0 < k \<Longrightarrow> length (dec_string n) \<le> k"
proof (induction n arbitrary: k rule: less_induct)
  case (less n)
  show ?case
  proof (cases "n < 10")
    case True
    with less.prems(2) show ?thesis by (subst dec_string.simps) simp
  next
    case False
    with less.prems obtain j where k: "k = Suc j" "0 < j"
      by (metis One_nat_def Suc_pred bot_nat_0.not_eq_extremum power_one_right)
    then have "n div 10 < 10 ^ j" using less.prems(1) by (simp add: less_mult_imp_div_less mult.commute)
    with False less.IH [of "n div 10" j] k show ?thesis by (subst dec_string.simps) simp
  qed
qed

lemma int_string_nat [simp]: "int_string (int n) = dec_string n"
  by (simp add: int_string_def)

lemma int_string_length: "\<bar>n\<bar> < 2 ^ 63 \<Longrightarrow> length (int_string n) \<le> 20"
proof -
  assume "\<bar>n\<bar> < 2 ^ 63"
  then have "nat \<bar>n\<bar> < 10 ^ 19" by simp
  from dec_string_length [OF this] show ?thesis by (auto simp: int_string_def)
qed

lemma content_range_fits:
  assumes "\<bar>a\<bar> < 2 ^ 63" "\<bar>b\<bar> < 2 ^ 63" "\<bar>n\<bar> < 2 ^ 63"
  shows "fits (content_range a b n)" "take (TEMPBUF - 1) (content_range a b n) = content_range a b n"
proof -
  have "length (content_range a b n) \<le> 90"
    using int_string_length [OF assms(1)] int_string_length [OF assms(2)] int_string_length [OF assms(3)]
    by (simp add: content_range_def CRLF_def)
  then show "fits (content_range a b n)" "take (TEMPBUF - 1) (content_range a b n) = content_range a b n"
    by (simp_all add: fits_def TEMPBUF_def)
qed

lemma digit_not: "isdigit c \<Longrightarrow> \<not> isspace c \<and> c \<noteq> CHR ''-'' \<and> c \<noteq> CHR ''+'' \<and> c \<noteq> CHR '','' \<and> c \<noteq> CHR ''=''"
  by (auto simp: isdigit_def isspace_def code_def)

text \<open>A number, after spaces, is read up to what is not a digit.\<close>

lemma scan_number:
  assumes "n < 2 ^ 63" and "r = [] \<or> \<not> isdigit (hd r)" and "\<forall>c \<in> set sp. isspace c"
  shows "scan_long (sp @ dec_string n @ r) = Some (int n, r)"
proof -
  let ?d = "dec_string n"
  obtain c ds where d: "?d = c # ds" by (cases ?d) auto
  have dg: "\<forall>c \<in> set ?d. isdigit c" by (rule dec_string_digits)
  then have c: "isdigit c" using d by simp
  have dw: "dropWhile isspace (sp @ ?d @ r) = ?d @ r"
    using assms(3) d c digit_not [OF c] by (induction sp) auto
  have sl: "sign_length (?d @ r) = 0" using d digit_not [OF c] by (simp add: sign_length_def)
  have hd: "hd (?d @ r) \<noteq> CHR ''-''" using d digit_not [OF c] by simp
  have tw: "takeWhile (is_base_digit 10) (?d @ r) = ?d"
  proof -
    have "is_base_digit 10 = isdigit" by (rule ext) (simp add: is_base_digit_def)
    then show ?thesis using dg assms(2) by (cases r) (auto simp: takeWhile_append)
  qed
  have len: "length (sp @ ?d @ r) - length (?d @ r) = length sp" by simp
  have "strtol 10 (sp @ ?d @ r) = (int n, length sp + length ?d, False)"
    using hd tw assms(1) unfolding strtol_def Let_def dw sl len
    by (simp add: LONG_MAX_def dec_string_val)
  then show ?thesis using d by (simp add: scan_long_def)
qed

subsection \<open>The string\<close>

lemma strstr_single: "c \<notin> set a \<Longrightarrow> strstr (a @ c # b) [c] i = int (i + length a)"
  by (induction a arbitrary: i) auto

lemma strstr_none: "c \<notin> set a \<Longrightarrow> strstr a [c] i = -1"
  by (induction a arbitrary: i) auto

lemma scan_empty: "\<forall>c \<in> set sp. isspace c \<Longrightarrow> scan_long sp = None"
proof -
  assume "\<forall>c \<in> set sp. isspace c"
  then have d: "dropWhile isspace sp = []" by simp
  have "strtol 10 sp = (0, 0, False)" unfolding strtol_def Let_def d by (simp add: sign_length_def)
  then show "scan_long sp = None" by (simp add: scan_long_def)
qed

definition no_comma :: "string \<Rightarrow> bool" where "no_comma s \<longleftrightarrow> CHR '','' \<notin> set s \<and> CHR ''-'' \<notin> set s"

lemma no_comma_dec [simp]: "no_comma (dec_string n)" "no_comma []"
  using dec_string_digits [of n] digit_not by (auto simp: no_comma_def)

lemma GetNextRange_eq:
  assumes "no_comma a" and "CHR '','' \<notin> set b"
  shows "GetNextRange (Some (a @ CHR ''-'' # b)) =
           (let (f, l) = scan_range (a @ CHR '' '' # b)
            in if (f = -1 \<or> l = -1) \<and> (\<forall>c \<in> set a. \<not> isdigit c) then Some (l, f, None) else Some (f, l, None))"
proof -
  have c: "CHR '','' \<notin> set (a @ CHR ''-'' # b)" and m: "CHR ''-'' \<notin> set a" using assms by (auto simp: no_comma_def)
  have tw: "takeWhile (\<lambda>c. c \<noteq> CHR ''-'') (a @ CHR ''-'' # b) = a" using m by (induction a) auto
  show ?thesis
    unfolding GetNextRange_def StrTok_def
    by (simp add: strstr_none [OF c] strstr_single [OF m] tw Let_def list_update_append)
qed

lemma space_blank: "isspace CHR '' ''" "\<not> isdigit CHR '' ''"
  by (simp_all add: isspace_def isdigit_def code_def)

lemma next_range:
  assumes "a < 2 ^ 63" and "b < 2 ^ 63"
  shows "GetNextRange (Some (dec_string a @ ''-'' @ dec_string b)) = Some (int a, int b, None)"
    and "GetNextRange (Some (dec_string a @ ''-'')) = Some (int a, -1, None)"
    and "GetNextRange (Some (''-'' @ dec_string b)) = Some (-1, int b, None)"
proof -
  have nc: "CHR '','' \<notin> set (dec_string b)" using no_comma_dec(1) [of b] by (simp add: no_comma_def)
  have dig: "\<not> (\<forall>c \<in> set (dec_string a). \<not> isdigit c)" using dec_string_digits [of a] by (cases "dec_string a") auto
  have 1: "scan_range (dec_string a @ CHR '' '' # dec_string b) = (int a, int b)"
    using scan_number [of a "CHR '' '' # dec_string b" "[]"] scan_number [of b "[]" "'' ''"] assms space_blank
    by (simp add: scan_range_def)
  have 2: "scan_range (dec_string a @ '' '') = (int a, -1)"
    using scan_number [of a "'' ''" "[]"] scan_empty [of "'' ''"] assms space_blank by (simp add: scan_range_def)
  have 3: "scan_range (CHR '' '' # dec_string b) = (int b, -1)"
    using scan_number [of b "[]" "'' ''"] scan_empty [of "[]"] assms space_blank by (simp add: scan_range_def)
  show "GetNextRange (Some (dec_string a @ ''-'' @ dec_string b)) = Some (int a, int b, None)"
    using GetNextRange_eq [of "dec_string a" "dec_string b"] 1 nc by simp
  show "GetNextRange (Some (dec_string a @ ''-'')) = Some (int a, -1, None)"
    using GetNextRange_eq [of "dec_string a" "[]"] 2 dig by simp
  show "GetNextRange (Some (''-'' @ dec_string b)) = Some (-1, int b, None)"
    using GetNextRange_eq [of "[]" "dec_string b"] 3 nc by simp
qed

lemma upper_lits:
  "ToUpperCase ''bytes'' = ''BYTES''" "ToUpperCase ''='' = ''=''" "ToUpperCase (a @ b) = ToUpperCase a @ ToUpperCase b"
  by (simp_all add: ToUpperCase_def) (code_simp+)

lemma StrStr_bytes:
  assumes "can_alloc al (length (''bytes='' @ s) + 1)" and mono: "\<forall>n m. n \<le> m \<longrightarrow> can_alloc al m \<longrightarrow> can_alloc al n"
  shows "StrStr al (''bytes='' @ s) ''bytes'' = Some 0" "StrStr al (''bytes='' @ s) ''='' = Some 5"
proof -
  have "can_alloc al k" if "k \<le> length (''bytes='' @ s) + 1" for k
    using mono that assms(1) by blast
  from this [of "length ''bytes'' + 1"] this [of "length ''='' + 1"]
  have a: "can_alloc al (length (''bytes='' @ s) + 1)" "can_alloc al (length ''bytes'' + 1)" "can_alloc al (length ''='' + 1)"
    using assms(1) by simp_all
  have u: "ToUpperCase (''bytes='' @ s) = ''BYTES='' @ ToUpperCase s"
  proof -
    have "ToUpperCase ''bytes='' = ''BYTES=''" by code_simp
    then show ?thesis using upper_lits(3) [of "''bytes=''" s] by simp
  qed
  have "strstr (''BYTES='' @ ToUpperCase s) ''BYTES'' 0 = 0" "strstr (''BYTES='' @ ToUpperCase s) ''='' 0 = 5"
    by simp_all
  then show "StrStr al (''bytes='' @ s) ''bytes'' = Some 0" "StrStr al (''bytes='' @ s) ''='' = Some 5"
    unfolding StrStr_def u upper_lits(1,2) using a by (simp_all add: Let_def)
qed

subsection \<open>Properties\<close>

text \<open>C10: Whatever the Range header says, a range that is granted lies inside of the file, the size may only
  be zero at its very end, and the answer announces exactly that range.\<close>
theorem range_inside_file:
  assumes e: "CreateHTTPRangeResponseHeader al spec n i = (HTTP_OK, i')"
  shows "IsRangeActive i' \<and> 0 \<le> RangeOffset i' \<and> 0 \<le> ReadSendSize i' \<and> RangeOffset i' + ReadSendSize i' \<le> n \<and>
         (ReadSendSize i' = 0 \<longrightarrow> RangeOffset i' = n) \<and>
         RangeHeader i' = content_range (RangeOffset i') (RangeOffset i' + ReadSendSize i' - 1) n"
proof -
  have f: "fits h \<Longrightarrow> length h \<le> TEMPBUF - Suc 0" for h by (simp add: fits_def TEMPBUF_def)
  obtain a b j where r: "range_header a b n j = (HTTP_OK, i')" "n \<ge> 0" "IsRangeActive j"
    using e
    by (auto simp: CreateHTTPRangeResponseHeader_def Let_def web_codes split: option.splits if_splits prod.splits)
  then show ?thesis
    by (auto simp: range_header_def set_range_def Let_def web_codes f add.commute split: if_splits)
qed

theorem range_inside_file_witness:
  "\<exists>i'. CreateHTTPRangeResponseHeader any_alloc (Some ''bytes=2-5'') 10 no_instruction = (HTTP_OK, i') \<and>
        RangeOffset i' + ReadSendSize i' \<le> 10"
proof -
  have "fst (CreateHTTPRangeResponseHeader any_alloc (Some ''bytes=2-5'') 10 no_instruction) = HTTP_OK" by code_simp
  then obtain i' where i: "CreateHTTPRangeResponseHeader any_alloc (Some ''bytes=2-5'') 10 no_instruction = (HTTP_OK, i')"
    by (metis prod.collapse)
  with range_inside_file [OF i] show ?thesis by blast
qed

text \<open>The three forms of a range, as text and as the offset and size they mean.\<close>

datatype range_spec = From_to nat nat | From nat | Suffix nat

fun range_text :: "range_spec \<Rightarrow> string" where
  "range_text (From_to a b) = dec_string a @ ''-'' @ dec_string b"
| "range_text (From a) = dec_string a @ ''-''"
| "range_text (Suffix n) = ''-'' @ dec_string n"

fun wanted :: "nat \<Rightarrow> range_spec \<Rightarrow> (nat \<times> nat) option" where
  "wanted len (From_to a b) = (if a \<le> b \<and> a \<le> len then Some (a, min (b + 1) len - a) else None)"
| "wanted len (From a) = (if a < len then Some (a, len - a) else None)"
| "wanted len (Suffix n) = (if 0 < n then Some (len - min n len, min n len) else None)"

fun range_numbers :: "range_spec \<Rightarrow> nat list" where
  "range_numbers (From_to a b) = [a, b]"
| "range_numbers (From a) = [a]"
| "range_numbers (Suffix n) = [n]"

text \<open>C11: Each form of a range is granted with exactly the bytes it means, or refused with 416; a first byte
  right behind the end of the file is granted too (with no bytes), where it should be refused.\<close>
theorem range_served:
  assumes al: "can_alloc al (length (''bytes='' @ range_text r) + 1)" "\<forall>n m. n \<le> m \<longrightarrow> can_alloc al m \<longrightarrow> can_alloc al n"
    and n: "\<forall>x \<in> set (range_numbers r). x < 2 ^ 63" and len: "len < 2 ^ 63"
  shows "CreateHTTPRangeResponseHeader al (Some (''bytes='' @ range_text r)) (int len) i =
           (case wanted len r of
              Some (off, sz) \<Rightarrow>
                (HTTP_OK, i\<lparr>IsRangeActive := True, RangeOffset := int off, ReadSendSize := int sz,
                            RangeHeader := content_range (int off) (int off + int sz - 1) (int len)\<rparr>)
            | None \<Rightarrow> (HTTP_REQUEST_RANGE_NOT_SATISFIABLE, i\<lparr>IsRangeActive := True, ReadSendSize := int len\<rparr>))"
proof -
  let ?j = "i\<lparr>IsRangeActive := True, ReadSendSize := int len\<rparr>"
  have d: "drop (5 + 1) (''bytes='' @ s) = s" for s by simp
  have e: "CreateHTTPRangeResponseHeader al (Some (''bytes='' @ range_text r)) (int len) i =
      (case GetNextRange (Some (range_text r)) of
         None \<Rightarrow> (HTTP_REQUEST_RANGE_NOT_SATISFIABLE, ?j)
       | Some (x, y, _) \<Rightarrow> range_header x y (int len) ?j)"
    unfolding CreateHTTPRangeResponseHeader_def Let_def option.case StrStr_bytes [OF al] d using al(1) by simp
  have fits: "fits (content_range (int x) (int y) (int len))"
    "take (TEMPBUF - Suc 0) (content_range (int x) (int y) (int len)) = content_range (int x) (int y) (int len)"
    if "x < 2 ^ 63" "y < 2 ^ 63" for x y
    using content_range_fits [of "int x" "int y" "int len"] that len by simp_all
  have fits1: "fits (content_range (int x) (int y - 1) (int len))"
    "take (TEMPBUF - Suc 0) (content_range (int x) (int y - 1) (int len)) = content_range (int x) (int y - 1) (int len)"
    if "x < 2 ^ 63" "y < 2 ^ 63" for x y
    using content_range_fits [of "int x" "int y - 1" "int len"] that len by (simp_all add: abs_if)
  show ?thesis
  proof (cases r)
    case (From_to a b)
    then have ab: "a < 2 ^ 63" "b < 2 ^ 63" using n by auto
    show ?thesis
      unfolding e unfolding From_to range_text.simps next_range(1) [OF ab]
      using fits [OF ab] fits1 [OF ab(1) len]
      by (auto simp: range_header_def set_range_def Let_def min_def)
  next
    case (From a)
    then have a: "a < 2 ^ 63" using n by auto
    show ?thesis
      unfolding e unfolding From range_text.simps next_range(2) [OF a a]
      using fits1 [OF a len] by (auto simp: range_header_def set_range_def Let_def)
  next
    case (Suffix m)
    then have m: "m < 2 ^ 63" using n by auto
    have m2: "len - m < 2 ^ 63" using len by simp
    show ?thesis
      unfolding e unfolding Suffix range_text.simps next_range(3) [OF m m]
      using fits1 [OF m2 len] fits1 [of 0 len] len
      by (auto simp: range_header_def set_range_def Let_def min_def of_nat_diff)
  qed
qed

theorem range_served_witness:
  "CreateHTTPRangeResponseHeader any_alloc (Some ''bytes=2-50'') 10 no_instruction =
     (HTTP_OK, no_instruction\<lparr>IsRangeActive := True, RangeOffset := 2, ReadSendSize := 8,
                 RangeHeader := content_range 2 9 10\<rparr>)"
proof -
  have "range_text (From_to 2 50) = ''2-50''" by code_simp
  with range_served [of any_alloc "From_to 2 50" 10 no_instruction] show ?thesis by (simp add: any_alloc_def)
qed

end
