(* ===== verification/WebPost.thy ===== *)
theory WebPost
  imports WebPaths HttpIOProperties
begin

text \<open>
  What is posted with a length arrives in the file: \<open>http_RecvPostMessage\<close> returns, writes a prefix of the
  entity, and the whole of it if it reports success.
\<close>

subsection \<open>A parser that waits for an entity of known length\<close>






subsection \<open>What arrives\<close>










subsection \<open>Writing it\<close>










end
