(* ===== verification/Spec2Isabelle.thy ===== *)
theory Spec2Isabelle
  imports PoolProperties ListProperties TimerProperties UriProperties HttpIOProperties DomProperties XmlText XmlParser
    XmlEscape UriDots HttpMessageProperties WebMedia WebAlias WebPaths WebRanges WebPost
begin

text \<open>
  This is a model of the core of the UPnP library that LXiMedia carries in \<open>src/ext/pupnp\<close>, with the
  theorems that make its parts correct. The media server is a client of this library; what a network
  peer can reach goes through it.

  \<^bold>\<open>The program.\<close> The library is written in C, in three layers.

  \<^item> \<open>threadutil\<close>: a thread pool (\<open>ThreadPool.c\<close>) with three job queues, a timer thread
    (\<open>TimerThread.c\<close>) that hands due events to a pool, and the linked list (\<open>LinkedList.c\<close>) with its
    node cache (\<open>FreeList.c\<close>) that both keep their queues in.
  \<^item> \<open>upnp\<close>: growable buffers (\<open>membuffer.c\<close>), name tables (\<open>strintmap.c\<close>), URIs (\<open>uri.c\<close>) and the
    incremental HTTP parser (\<open>httpparser.c\<close>), which reads its message out of a buffer, looks its
    methods and headers up in the tables and parses its request target as a URI. Every module above
    (GENA, SSDP, SOAP, the web server) talks through this parser, and its jobs run in the pool. The web
    server (\<open>webserver.c\<close>) answers what the parser has read: it unescapes and normalises the path with
    \<open>uri.c\<close>, finds the document, composes the headers with \<open>http_MakeMessage\<close> and sends.
  \<^item> \<open>ixml\<close>: the document object model (\<open>node.c\<close>, \<open>nodeList.c\<close>, \<open>document.c\<close>, \<open>element.c\<close>,
    \<open>namedNodeMap.c\<close>) in which descriptions, action requests and events are built and searched, its
    parser (\<open>ixmlparser.c\<close>) and its printer (\<open>ixml.c\<close>).

  \<^bold>\<open>Theories and sources.\<close>

  \<^item> \<open>Prelude\<close>: \<open>malloc\<close> and \<open>free\<close> as a record of live blocks, \<open>errno\<close> values, list lemmas.
    \<open>CStrings\<close>: the string functions of the C library the code calls.
  \<^item> \<open>FreeList\<close>, \<open>LinkedList\<close>, \<open>ListProperties\<close>: the two list modules over explicit stores of nodes;
    any sequence of list operations refines the same operations on a sequence, and a client of the
    cache never holds a block twice.
  \<^item> \<open>ThreadPool\<close>: the record \<open>ThreadPool\<close> of \<open>ThreadPool.h\<close> and one definition per function of
    \<open>ThreadPool.c\<close>; \<open>PoolQueues\<close>: the queues as lists of jobs and \<open>BumpPriority\<close> against its
    specification; \<open>PoolWorker\<close>, \<open>PoolClients\<close>, \<open>PoolShutdown\<close>: what one critical section of a
    worker and of a caller does to counters, queues and ownership of blocks; \<open>ThreadPoolSteps\<close>: the
    concurrent system as an inductive step relation, each step one section under the mutex;
    \<open>PoolProperties\<close>: invariants of all reachable states (counters, thread bound, no double free),
    progress of workers, the effect of adding, removing and shutting down.
  \<^item> \<open>TimerThread\<close>, \<open>TimerProperties\<close>: the timer queue stays sorted, events fire in time order when
    due, removal and shutdown.
  \<^item> \<open>MemBuffer\<close>: \<open>membuffer.c\<close> with 64-bit sizes as machine words, wrap-around included; insertion
    and deletion inside the buffer, and what an index behind the end does.
  \<^item> \<open>StrIntMap\<close>: the binary search and the two tables it searches.
  \<^item> \<open>Uri\<close>, \<open>UriProperties\<close>: \<open>uri.c\<close> over the memory of a string with its terminator; reads and
    writes outside are the result \<open>None\<close>, and the theorems say that they do not happen, what parsing
    and unescaping yield, and where they go wrong.
  \<^item> \<open>HttpScanner\<close>, \<open>HttpMatch\<close>, \<open>HttpParser\<close>: tokens, the format interpreter \<open>vfmatch\<close>, and the
    states of \<open>http_parser_t\<close>. \<open>HttpStable\<close>: a decision does not change when more data arrives.
    \<open>HttpResume\<close>: stopping for lack of data and going on later equals parsing at once.
    \<open>HttpInvariant\<close>, \<open>HttpSafety\<close>: the invariant of the parser, memory safety and termination for
    every input and every failure of an allocation. \<open>HttpEntity\<close>: the entity by length and by
    chunks, and the sizes that are truncated.
  \<^item> \<open>HttpIO\<close>, \<open>HttpIOProperties\<close>: \<open>sock.c\<close> and the receiving and sending loops of \<open>httpreadwrite.c\<close>.
    The operating system is a script of what \<open>select\<close>, \<open>recv\<close>, \<open>send\<close> and the clock will answer, and
    what is written is collected. Receiving returns on every script with a complete message or an
    error; a file is sent as asked for, and what is sent in chunks the parser puts together again.
  \<^item> \<open>Dom\<close>: the nodes of \<open>ixml.h\<close> in a store of addresses and the operations of \<open>node.c\<close>.
    \<open>DomTree\<close>: the forest such a store represents. \<open>DomEdit\<close>, \<open>DomProperties\<close>: removing, appending,
    inserting, replacing, freeing and searching are the operations on forests, node types stay as
    they are allowed, and what is rejected or goes wrong.

  \<^item> \<open>DomElement\<close>: making, copying and naming nodes, attributes and their maps, as in \<open>document.c\<close>,
    \<open>element.c\<close>, \<open>namedNodeMap.c\<close> and the rest of \<open>node.c\<close>.
  \<^item> \<open>XmlChars\<close>, \<open>XmlText\<close>: the character tables, UTF-8 and references of \<open>ixmlparser.c\<close>; decoding undoes
    encoding, and the search of the tables is membership but for what it reads behind their end.
    \<open>XmlTokens\<close>, \<open>XmlParser\<close>: skipping, tokens, tags, text, attributes, namespaces and the document loop,
    over the store of \<open>Dom\<close>. \<open>XmlPrint\<close>: the printer of \<open>ixml.c\<close>; \<open>XmlEscape\<close>: what it escapes the
    scanner reads back.
  \<^item> \<open>HttpMessage\<close>, \<open>HttpMessageProperties\<close>: \<open>http_MakeMessage\<close> with its format letters as a list of
    items, the code table of \<open>statcodes.c\<close> and the status responses; the buffer gets exactly the text.
  \<^item> \<open>UriDots\<close>: \<open>remove_dots\<close> against the normalisation of a path with a stack of segments.
  \<^item> \<open>WebMedia\<close>: the media types and their search. \<open>WebAlias\<close>: the served document with its counter of
    users; installing, grabbing and releasing as a step relation, and when it is safe. \<open>WebServer\<close>:
    start and stop, directories, ranges and other headers, and \<open>process_request\<close> cut where it chooses the
    path, the document and the headers. \<open>WebCallback\<close>: receiving what is posted and
    \<open>web_server_callback\<close>. \<open>WebPaths\<close>: served and written files lie below the root directory.
    \<open>WebRanges\<close>: ranges are granted as asked for. \<open>WebPost\<close>: posted data arrives in the file.

  \<^bold>\<open>Conventions.\<close> A structure passed by pointer is passed and returned by value where nothing else
  shares it, and lives in a store where it is shared. NULL is \<open>None\<close>. A function whose C code may loop
  for ever, leave its memory or follow a dangling pointer returns an option, and \<open>None\<close> is that
  outcome; theorems that something returns say that it is not \<open>None\<close>. No fuel is used: loops are
  structural, have a termination proof, or are partial functions. Sizes are those of an LP64 machine:
  \<open>size_t\<close> is a 64-bit word in \<open>MemBuffer\<close> and \<open>HttpParser\<close>, \<open>int\<close> results of the matcher are
  converted as the casts of the code do. Allocation may fail at any call: which calls fail is an
  arbitrary function. The theorems on the parser assume that no single allocation above \<open>2 ^ 62\<close> bytes
  succeeds, which no 64-bit address space allows; this keeps sizes from wrapping around. The clock is
  an argument and is read once per critical section. Counters of the pool are unbounded integers.
  Resolving host names is a parameter of the URI code; files, directories and the callbacks of virtual
  directories are parameters of the web server.

  \<^bold>\<open>Not modelled.\<close> Connecting and the download and upload handles of \<open>httpreadwrite.c\<close>; the
  information on the peer that the web server hands to its callbacks (\<open>Request_Info\<close>); the GENA, SSDP
  and SOAP modules with the service and client tables, and the API (\<open>upnpapi.c\<close>), which are mostly input
  and output over the parts above; logging and debug printing; the library \<open>miniz\<close>, which is vendored
  unchanged; and the C++ application, which is glue to libVLC and this library.
\<close>

end
